(* ===== verification/Prelude.thy ===== *)
theory Prelude
  imports Main "HOL-Library.Word" "HOL-Library.Monad_Syntax" "HOL-Library.Multiset"
begin

text \<open>
  Shared vocabulary of the development: the machine types of the C program, the
  reading of undefined behaviour as \<^term>\<open>None\<close>, array access with its bounds
  check, byte-order helpers, and the generic list and option lemmas that the
  component theories use.

  Convention. A model function of type \<open>\<dots> \<Rightarrow> 'a option\<close> whose
  source function is not fallible by itself returns \<^term>\<open>None\<close> exactly where
  the C code reads or writes outside an array, dereferences a dangling or null
  pointer, or does not return. A theorem \<open>f x = Some y\<close> is therefore also a
  statement of memory safety and of termination. Allocation failure ends the
  process (\<open>xmalloc\<close>, \<open>xcalloc\<close>, \<open>xrealloc\<close> and \<open>xstrdup\<close> call
  \<open>abort\<close>), so the models describe the runs in which allocation succeeds.
\<close>

unbundle bit_operations_syntax

named_theorems mem_simps \<open>evaluation of array reads and writes that are in bounds\<close>
named_theorems hash_wf_intros \<open>preservation of the hash table invariant\<close>

type_synonym u8 = "8 word"
type_synonym u16 = "16 word"
type_synonym u32 = "32 word"
type_synonym u64 = "64 word"
type_synonym bytes = "u8 list"

text \<open>Address families and protocol numbers of the Linux target.\<close>

definition AF_INET :: int where "AF_INET = 2"
definition AF_INET6 :: int where "AF_INET6 = 10"
definition IPPROTO_TCP :: int where "IPPROTO_TCP = 6"
definition IPPROTO_UDP :: int where "IPPROTO_UDP = 17"

lemmas net_consts = AF_INET_def AF_INET6_def IPPROTO_TCP_def IPPROTO_UDP_def

section \<open>Arrays with bounds\<close>

definition rd :: "'a list \<Rightarrow> nat \<Rightarrow> 'a option" where
  "rd a i = (if i < length a then Some (a ! i) else None)"

definition wr :: "'a list \<Rightarrow> nat \<Rightarrow> 'a \<Rightarrow> 'a list option" where
  "wr a i v = (if i < length a then Some (a[i := v]) else None)"

text \<open>The same with a C \<open>int\<close> index, which may be negative.\<close>

definition rdi :: "'a list \<Rightarrow> int \<Rightarrow> 'a option" where
  "rdi a i = (if 0 \<le> i \<and> i < int (length a) then Some (a ! nat i) else None)"

definition wri :: "'a list \<Rightarrow> int \<Rightarrow> 'a \<Rightarrow> 'a list option" where
  "wri a i v = (if 0 \<le> i \<and> i < int (length a) then Some (a[nat i := v]) else None)"

text \<open>\<open>n\<close> consecutive elements from offset \<open>off\<close>, as \<open>memcpy\<close> reads them.\<close>

definition rd_slice :: "'a list \<Rightarrow> nat \<Rightarrow> nat \<Rightarrow> 'a list option" where
  "rd_slice a off n = (if off + n \<le> length a then Some (take n (drop off a)) else None)"

text \<open>\<open>memmove\<close> of \<open>n\<close> elements from index \<open>src\<close> to index \<open>dst\<close> of one array.\<close>

definition memmove :: "'a list \<Rightarrow> nat \<Rightarrow> nat \<Rightarrow> nat \<Rightarrow> 'a list option" where
  "memmove a dst src n =
     (if src + n \<le> length a \<and> dst + n \<le> length a
      then Some (take dst a @ take n (drop src a) @ drop (dst + n) a) else None)"

text \<open>\<open>memset\<close> of \<open>n\<close> elements from index \<open>i\<close>.\<close>

definition memset :: "'a list \<Rightarrow> nat \<Rightarrow> 'a \<Rightarrow> nat \<Rightarrow> 'a list option" where
  "memset a i v n =
     (if i + n \<le> length a then Some (take i a @ replicate n v @ drop (i + n) a) else None)"

text \<open>\<open>realloc\<close>: the old prefix is kept, elements beyond it are unspecified.\<close>

definition realloc :: "'a list \<Rightarrow> nat \<Rightarrow> 'a list" where
  "realloc a n = take n a @ replicate (n - length a) undefined"

lemma rd_in [mem_simps]: "i < length a \<Longrightarrow> rd a i = Some (a ! i)"
  by (simp add: rd_def)

lemma wr_in [mem_simps]: "i < length a \<Longrightarrow> wr a i v = Some (a[i := v])"
  by (simp add: wr_def)

lemma rdi_in [mem_simps]: "0 \<le> i \<Longrightarrow> i < int (length a) \<Longrightarrow> rdi a i = Some (a ! nat i)"
  by (simp add: rdi_def)

lemma wri_in [mem_simps]:
  "0 \<le> i \<Longrightarrow> i < int (length a) \<Longrightarrow> wri a i v = Some (a[nat i := v])"
  by (simp add: wri_def)

lemma rd_slice_in [mem_simps]:
  "off + n \<le> length a \<Longrightarrow> rd_slice a off n = Some (take n (drop off a))"
  by (simp add: rd_slice_def)

lemma length_realloc [simp]: "length (realloc a n) = n"
  by (simp add: realloc_def)

lemma take_realloc [simp]: "k \<le> n \<Longrightarrow> k \<le> length a \<Longrightarrow> take k (realloc a n) = take k a"
  by (simp add: realloc_def)

lemma rd_slice_SomeD: "rd_slice a off n = Some s \<Longrightarrow> length s = n"
  by (auto simp: rd_slice_def split: if_splits)

section \<open>Byte order\<close>

text \<open>
  Multi-byte loads from a packet buffer. Network byte order is big endian:
  \<open>be16\<close> is \<open>ntohs\<close> of a 16-bit load. \<open>le32\<close> is a plain 32-bit load on the
  little-endian hosts the program is built for; it is what a struct member
  \<open>s_addr\<close> or an array cast to \<open>uint32_t *\<close> holds.
\<close>

definition be16 :: "u8 \<Rightarrow> u8 \<Rightarrow> u16" where
  "be16 hi lo = push_bit 8 (ucast hi) OR ucast lo"

definition le16 :: "u8 \<Rightarrow> u8 \<Rightarrow> u16" where
  "le16 lo hi = push_bit 8 (ucast hi) OR ucast lo"

definition le32 :: "u8 \<Rightarrow> u8 \<Rightarrow> u8 \<Rightarrow> u8 \<Rightarrow> u32" where
  "le32 b0 b1 b2 b3 =
     ucast b0 OR push_bit 8 (ucast b1) OR push_bit 16 (ucast b2) OR push_bit 24 (ucast b3)"

definition load_le32 :: "bytes \<Rightarrow> nat \<Rightarrow> u32" where
  "load_le32 bs i = le32 (bs ! i) (bs ! (i + 1)) (bs ! (i + 2)) (bs ! (i + 3))"

definition rd_be16 :: "bytes \<Rightarrow> nat \<Rightarrow> u16 option" where
  "rd_be16 bs i = do { hi \<leftarrow> rd bs i; lo \<leftarrow> rd bs (i + 1); Some (be16 hi lo) }"

lemma rd_be16_in [mem_simps]:
  "i + 1 < length bs \<Longrightarrow> rd_be16 bs i = Some (be16 (bs ! i) (bs ! (i + 1)))"
  by (simp add: rd_be16_def rd_def)

text \<open>The address class tests of \<open>netinet/in.h\<close>, on the sixteen bytes of an address.\<close>

definition IN6_IS_ADDR_LINKLOCAL :: "bytes \<Rightarrow> bool" where
  "IN6_IS_ADDR_LINKLOCAL a \<longleftrightarrow> a ! 0 = 0xfe \<and> (a ! 1) AND 0xc0 = 0x80"

definition IN6_IS_ADDR_SITELOCAL :: "bytes \<Rightarrow> bool" where
  "IN6_IS_ADDR_SITELOCAL a \<longleftrightarrow> a ! 0 = 0xfe \<and> (a ! 1) AND 0xc0 = 0xc0"

section \<open>Lists and options\<close>

lemma concat_list_update:
  "i < length xss \<Longrightarrow>
   concat (xss[i := ys]) = concat (take i xss) @ ys @ concat (drop (Suc i) xss)"
  by (simp add: upd_conv_take_nth_drop)

lemma concat_nth_split:
  "i < length xss \<Longrightarrow> concat xss = concat (take i xss) @ xss ! i @ concat (drop (Suc i) xss)"
  by (metis concat_list_update list_update_id)

lemma find_append:
  "List.find P (xs @ ys) = (case List.find P xs of None \<Rightarrow> List.find P ys | Some x \<Rightarrow> Some x)"
  by (induction xs) auto

lemma find_congruent: "(\<And>x. x \<in> set xs \<Longrightarrow> P x = Q x) \<Longrightarrow> List.find P xs = List.find Q xs"
  by (induction xs) auto

lemma find_SomeD: "List.find P xs = Some x \<Longrightarrow> x \<in> set xs \<and> P x"
  by (induction xs) (auto split: if_splits)

lemma find_NoneD: "List.find P xs = None \<Longrightarrow> x \<in> set xs \<Longrightarrow> \<not> P x"
  by (induction xs) (auto split: if_splits)

lemma distinct_map_nth_eq:
  "distinct (map f xs) \<Longrightarrow> x \<in> set xs \<Longrightarrow> y \<in> set xs \<Longrightarrow> f x = f y \<Longrightarrow> x = y"
  by (meson distinct_map inj_onD)

lemma bind_SomeD: "m \<bind> f = Some y \<Longrightarrow> \<exists>x. m = Some x \<and> f x = Some y"
  by (cases m) auto

lemma mod_pred: "0 < m \<Longrightarrow> 0 < x mod m \<Longrightarrow> (x - 1) mod m = x mod m - (1 :: int)"
proof -
  assume "0 < m" "0 < x mod m"
  then have "(x mod m - 1) mod m = x mod m - 1"
    by (intro mod_pos_pos_trivial) (use pos_mod_bound [of m x] in linarith)+
  then show ?thesis by (simp add: mod_diff_left_eq)
qed

lemma mod_diff_cases:
  assumes "0 \<le> h" "h < m" "0 \<le> t" "t < (m :: int)"
  shows "(h - t) mod m = (if t \<le> h then h - t else h - t + m)"
proof (cases "t \<le> h")
  case False
  have "(h - t) mod m = (h - t + m) mod m" by simp
  also have "\<dots> = h - t + m" using assms False by (intro mod_pos_pos_trivial) auto
  finally show ?thesis using False by simp
qed (use assms in \<open>simp add: mod_pos_pos_trivial\<close>)

lemma mod_Suc_cases:
  assumes "0 \<le> h" "h < (m :: int)"
  shows "(h + 1) mod m = (if h = m - 1 then 0 else h + 1)"
  using assms by (auto simp: mod_pos_pos_trivial)

lemma mod_add_cases:
  assumes "0 \<le> h" "h < m" "0 \<le> j" "j < (m :: int)"
  shows "(h + j) mod m = (if h + j < m then h + j else h + j - m)"
proof (cases "h + j < m")
  case False
  have "(h + j) mod m = (h + j - m) mod m" by simp
  also have "\<dots> = h + j - m" using assms False by (intro mod_pos_pos_trivial) auto
  finally show ?thesis using False by simp
qed (use assms in \<open>simp add: mod_pos_pos_trivial\<close>)

section \<open>Runs\<close>

text \<open>
  A component driven by events: \<open>step\<close> handles one, \<open>run\<close> a list of them, and either is \<open>None\<close> when the code is
  undefined. Where every event that is \<open>ready\<close> keeps what is \<open>good\<close>, so does every run.
\<close>

locale safe_run =
  fixes step :: "'e \<Rightarrow> 's \<Rightarrow> 's option"
    and run :: "'e list \<Rightarrow> 's \<Rightarrow> 's option"
    and ready :: "'e \<Rightarrow> 's \<Rightarrow> bool"
    and good :: "'s \<Rightarrow> bool"
  assumes run_Nil: "run [] s = Some s"
    and run_Cons: "run (e # es) s = Option.bind (step e s) (run es)"
    and step_safe: "good s \<Longrightarrow> ready e s \<Longrightarrow> \<exists>s'. step e s = Some s' \<and> good s'"
begin

fun run_ready :: "'e list \<Rightarrow> 's \<Rightarrow> bool" where
  "run_ready [] s \<longleftrightarrow> True"
| "run_ready (e # es) s \<longleftrightarrow> ready e s \<and> (case step e s of None \<Rightarrow> True | Some s' \<Rightarrow> run_ready es s')"

lemma run_safe: "good s \<Longrightarrow> run_ready es s \<Longrightarrow> \<exists>s'. run es s = Some s' \<and> good s'"
proof (induction es arbitrary: s)
  case (Cons e es)
  with step_safe [of s e] obtain s1 where "step e s = Some s1" "good s1" by auto
  with Cons show ?case by (simp add: run_Cons)
qed (simp add: run_Nil)

text \<open>Readiness that does not depend on the state.\<close>

lemma run_ready_always: "(\<And>e s. e \<in> set es \<Longrightarrow> ready e s) \<Longrightarrow> run_ready es s"
  by (induction es arbitrary: s) (auto split: option.split)

end

end
