(* ===== verification/Vector.thy ===== *)
theory Vector
  imports Prelude
begin

text \<open>
  The growable array of \<open>src/data/vector.c\<close> and \<open>src/include/vector.h\<close>:
  the struct as a record, one definition per operation, the abstraction to the
  list of the used elements, and the refinement of push, pop, back and remove to
  the list operations.
\<close>

section \<open>Data\<close>

text \<open>
  The union \<open>item\<close> is eight bytes on the 64-bit targets, read either as a pointer
  or as a \<open>long\<close>; \<open>memset\<close> to zero gives the item \<open>0\<close>.
\<close>

type_synonym item = u64

definition item_long :: "int \<Rightarrow> item" where
  "item_long num = word_of_int num"

definition item_num :: "item \<Rightarrow> int" where
  "item_num u = sint u"

record vector =
  items :: "item list"
  capacity :: nat
  n_used :: nat

section \<open>Operations\<close>

definition vector_new :: vector where
  "vector_new = \<lparr>items = replicate 16 0, capacity = 16, n_used = 0\<rparr>"

definition vector_reallocate :: "vector \<Rightarrow> nat \<Rightarrow> vector option" where
  "vector_reallocate vec cap =
     (if cap < n_used vec \<or> cap \<le> 0 then Some vec
      else do {
        let xs = realloc (items vec) cap;
        let clear_count = cap - n_used vec;
        xs \<leftarrow> (if clear_count > 0 then memset xs (n_used vec) 0 clear_count else Some xs);
        Some (vec\<lparr>items := xs, capacity := cap\<rparr>)
      })"

definition vector_push_back :: "vector \<Rightarrow> item \<Rightarrow> vector option" where
  "vector_push_back vec elem = do {
     vec \<leftarrow> (if n_used vec = capacity vec then vector_reallocate vec (capacity vec * 2)
             else Some vec);
     xs \<leftarrow> wr (items vec) (n_used vec) elem;
     Some (vec\<lparr>items := xs, n_used := n_used vec + 1\<rparr>)
   }"

definition vector_pop_back :: "vector \<Rightarrow> vector option" where
  "vector_pop_back vec =
     (if n_used vec > 0 then
        let vec = vec\<lparr>n_used := n_used vec - 1\<rparr> in
        if n_used vec < capacity vec div 2 then vector_reallocate vec (capacity vec div 2)
        else Some vec
      else Some vec)"

definition vector_back :: "vector \<Rightarrow> item option" where
  "vector_back vec = rdi (items vec) (int (n_used vec) - 1)"

text \<open>
  \<open>vector_remove\<close> takes a pointer into \<open>items\<close>, here the index \<open>target\<close>; the
  result is \<open>None\<close> (a null pointer) or the index of the element that follows the
  removed one. The move copies \<open>n_used - target\<close> elements from \<open>target + 1\<close>, one
  more than there are, and the clearing writes index \<open>n_used\<close> before the decrement.
\<close>

definition vector_remove :: "vector \<Rightarrow> nat \<Rightarrow> (nat option \<times> vector) option" where
  "vector_remove vec target =
     (if target \<ge> n_used vec then Some (None, vec)
      else do {
        xs \<leftarrow> (if target < n_used vec - 1
               then memmove (items vec) target (target + 1) (n_used vec - target)
               else Some (items vec));
        xs \<leftarrow> memset xs (n_used vec) 0 1;
        let vec = vec\<lparr>items := xs, n_used := n_used vec - 1\<rparr>;
        vec \<leftarrow> (if n_used vec < capacity vec div 2 \<and> capacity vec > 16
                then vector_reallocate vec (capacity vec div 2) else Some vec);
        Some (Some target, vec)
      })"

text \<open>\<open>vector_iterate\<close> visits the used elements in order; \<open>vector_delete_free\<close> frees them.\<close>

definition vector_iterate :: "vector \<Rightarrow> item list option" where
  "vector_iterate vec = rd_slice (items vec) 0 (n_used vec)"

section \<open>Invariant and abstraction\<close>

definition vector_inv :: "vector \<Rightarrow> bool" where
  "vector_inv vec \<longleftrightarrow>
     length (items vec) = capacity vec \<and> n_used vec \<le> capacity vec \<and> 0 < capacity vec"

definition vector_list :: "vector \<Rightarrow> item list" where
  "vector_list vec = take (n_used vec) (items vec)"

lemma vector_new_inv: "vector_inv vector_new" "vector_list vector_new = []"
  by (simp_all add: vector_inv_def vector_list_def vector_new_def)

lemma length_vector_list: "vector_inv vec \<Longrightarrow> length (vector_list vec) = n_used vec"
  by (simp add: vector_inv_def vector_list_def)

text \<open>A reallocation never fails and never changes the used elements.\<close>

lemma vector_reallocate_ok:
  assumes inv: "vector_inv vec"
  shows "\<exists>vec'. vector_reallocate vec cap = Some vec' \<and> vector_inv vec' \<and>
           vector_list vec' = vector_list vec \<and> n_used vec' = n_used vec \<and>
           capacity vec' = (if cap < n_used vec \<or> cap = 0 then capacity vec else cap)"
proof (cases "cap < n_used vec \<or> cap = 0")
  case True
  with inv show ?thesis by (simp add: vector_reallocate_def)
next
  case False
  with inv show ?thesis
    by (auto simp: vector_reallocate_def vector_inv_def vector_list_def memset_def Let_def realloc_def)
qed

lemma vector_push_back_ok:
  assumes inv: "vector_inv vec"
  shows "\<exists>vec'. vector_push_back vec x = Some vec' \<and> vector_inv vec' \<and>
           vector_list vec' = vector_list vec @ [x]"
proof -
  have *: "\<exists>v. vector_inv v \<and> n_used v < capacity v \<and> vector_list v = vector_list vec \<and>
      (if n_used vec = capacity vec then vector_reallocate vec (capacity vec * 2) else Some vec)
        = Some v"
  proof (cases "n_used vec = capacity vec")
    case True
    with vector_reallocate_ok [OF inv, of "capacity vec * 2"] inv show ?thesis
      by (auto simp: vector_inv_def)
  next
    case False
    with inv show ?thesis by (auto simp: vector_inv_def)
  qed
  then obtain v where v: "vector_inv v" "n_used v < capacity v" "vector_list v = vector_list vec"
    "(if n_used vec = capacity vec then vector_reallocate vec (capacity vec * 2) else Some vec)
       = Some v" by blast
  then show ?thesis
    by (auto simp: vector_push_back_def vector_inv_def vector_list_def wr_def take_Suc_conv_app_nth)
qed

lemma vector_pop_back_ok:
  assumes inv: "vector_inv vec"
  shows "\<exists>vec'. vector_pop_back vec = Some vec' \<and> vector_inv vec' \<and>
           vector_list vec' = butlast (vector_list vec)"
proof (cases "n_used vec > 0")
  case True
  let ?v = "vec\<lparr>n_used := n_used vec - 1\<rparr>"
  from inv have inv': "vector_inv ?v" by (auto simp: vector_inv_def)
  have lst: "vector_list ?v = butlast (vector_list vec)"
    using inv by (simp add: vector_list_def vector_inv_def butlast_take)
  show ?thesis
  proof (cases "n_used ?v < capacity ?v div 2")
    case True
    from vector_reallocate_ok [OF inv'] obtain w where
      "vector_reallocate ?v (capacity ?v div 2) = Some w" "vector_inv w"
      "vector_list w = vector_list ?v" by blast
    with True \<open>n_used vec > 0\<close> lst show ?thesis by (simp add: vector_pop_back_def Let_def)
  next
    case False
    with \<open>n_used vec > 0\<close> inv' lst show ?thesis by (simp add: vector_pop_back_def Let_def)
  qed
next
  case False
  with inv show ?thesis by (simp add: vector_pop_back_def vector_list_def)
qed

lemma vector_back_ok:
  "vector_inv vec \<Longrightarrow> vector_list vec \<noteq> [] \<Longrightarrow> vector_back vec = Some (last (vector_list vec))"
  by (auto simp: vector_back_def vector_inv_def vector_list_def rdi_def last_conv_nth nat_diff_distrib)

text \<open>The move of \<open>vector_remove\<close> closes the gap when there is a spare slot.\<close>

lemma vector_remove_move:
  assumes inv: "vector_inv vec" and t: "target < n_used vec" and room: "n_used vec < capacity vec"
  obtains xs where
    "(if target < n_used vec - 1
      then memmove (items vec) target (target + 1) (n_used vec - target)
      else Some (items vec)) = Some xs"
    "length xs = capacity vec"
    "take (n_used vec - 1) xs =
       take target (vector_list vec) @ drop (Suc target) (vector_list vec)"
proof (cases "target < n_used vec - 1")
  case True
  with inv t room show ?thesis
    by (intro that [of "take target (items vec) @
          take (n_used vec - target) (drop (target + 1) (items vec)) @ drop (n_used vec) (items vec)"])
       (auto simp: memmove_def vector_inv_def vector_list_def min_def take_drop)
next
  case False
  with t have "n_used vec = Suc target" by simp
  with inv False show ?thesis
    by (intro that [of "items vec"]) (simp_all add: vector_inv_def vector_list_def min_def)
qed

text \<open>Removal below capacity deletes exactly the target.\<close>

lemma vector_remove_ok:
  assumes inv: "vector_inv vec" and t: "target < n_used vec" and room: "n_used vec < capacity vec"
  shows "\<exists>vec'. vector_remove vec target = Some (Some target, vec') \<and> vector_inv vec' \<and>
           vector_list vec' = take target (vector_list vec) @ drop (Suc target) (vector_list vec)"
proof -
  obtain xs where move: "(if target < n_used vec - 1
      then memmove (items vec) target (target + 1) (n_used vec - target)
      else Some (items vec)) = Some xs"
    and len: "length xs = capacity vec"
    and gap: "take (n_used vec - 1) xs =
      take target (vector_list vec) @ drop (Suc target) (vector_list vec)"
    using vector_remove_move [OF inv t room] by blast
  define ys where "ys = take (n_used vec) xs @ 0 # drop (Suc (n_used vec)) xs"
  have clear: "memset xs (n_used vec) 0 1 = Some ys"
    using len room by (simp add: memset_def ys_def)
  define v where "v = vec\<lparr>items := ys, n_used := n_used vec - 1\<rparr>"
  have fields: "n_used v = n_used vec - 1" "capacity v = capacity vec"
    by (simp_all add: v_def)
  have v: "vector_inv v"
    "vector_list v = take target (vector_list vec) @ drop (Suc target) (vector_list vec)"
    using len room gap t by (auto simp: v_def vector_inv_def vector_list_def ys_def min_def)
  obtain w where "(if n_used v < capacity v div 2 \<and> capacity v > 16
      then vector_reallocate v (capacity v div 2) else Some v) = Some w"
    "vector_inv w" "vector_list w = vector_list v"
    using vector_reallocate_ok [OF v(1), of "capacity v div 2"] v(1)
    by (cases "n_used v < capacity v div 2 \<and> capacity v > 16") auto
  with t move clear v show ?thesis
    by (cases "n_used vec - 1 < capacity vec div 2 \<and> capacity vec > 16")
       (auto simp: vector_remove_def Let_def v_def [symmetric] fields simp del: One_nat_def)
qed

text \<open>On a full vector the removal touches the slot behind the array.\<close>

lemma vector_remove_full:
  "vector_inv vec \<Longrightarrow> target < n_used vec \<Longrightarrow> n_used vec = capacity vec \<Longrightarrow>
   vector_remove vec target = None"
  by (auto simp: vector_remove_def memmove_def memset_def vector_inv_def)

section \<open>Properties\<close>

text \<open>On a well-formed vector, push appends, pop drops the last element, and back
  reads it; none of them leaves the array, and push and pop keep the vector well formed.\<close>

theorem vector_refines_list:
  assumes "vector_inv vec"
  shows "(\<exists>vec'. vector_push_back vec x = Some vec' \<and> vector_inv vec' \<and>
           vector_list vec' = vector_list vec @ [x]) \<and>
         (\<exists>vec'. vector_pop_back vec = Some vec' \<and> vector_inv vec' \<and>
           vector_list vec' = butlast (vector_list vec)) \<and>
         (vector_list vec \<noteq> [] \<longrightarrow> vector_back vec = Some (last (vector_list vec)))"
  using assms by (intro conjI impI) (auto intro: vector_push_back_ok vector_pop_back_ok vector_back_ok)

theorem vector_refines_list_witness:
  "\<exists>vec'. vector_push_back vector_new 7 = Some vec' \<and> vector_inv vec' \<and>
     vector_list vec' = vector_list vector_new @ [7]"
  using vector_refines_list [OF vector_new_inv(1)] by blast

text \<open>Removing an element of a well-formed vector stays inside the array exactly
  when the vector is not full; it then deletes that element only. On a full vector the
  code moves and clears one slot past the end of the allocation.\<close>

theorem vector_remove_safe_iff:
  assumes "vector_inv vec" and "target < n_used vec"
  shows "(vector_remove vec target \<noteq> None \<longleftrightarrow> n_used vec < capacity vec) \<and>
    (n_used vec < capacity vec \<longrightarrow>
      (\<exists>vec'. vector_remove vec target = Some (Some target, vec') \<and> vector_inv vec' \<and>
        vector_list vec' = take target (vector_list vec) @ drop (Suc target) (vector_list vec)))"
proof -
  from assms(1) have "n_used vec = capacity vec \<or> n_used vec < capacity vec"
    by (auto simp: vector_inv_def)
  then have "vector_remove vec target \<noteq> None \<longleftrightarrow> n_used vec < capacity vec"
    using vector_remove_ok [OF assms] vector_remove_full [OF assms] by auto
  with vector_remove_ok [OF assms] show ?thesis by blast
qed

theorem vector_remove_safe_iff_witness:
  "vector_remove \<lparr>items = replicate 16 1, capacity = 16, n_used = 16\<rparr> 3 = None \<and>
   vector_remove \<lparr>items = replicate 16 1, capacity = 16, n_used = 15\<rparr> 3 \<noteq> None"
  using vector_remove_safe_iff [of "\<lparr>items = replicate 16 1, capacity = 16, n_used = 16\<rparr>" 3,
      THEN conjunct1]
    vector_remove_safe_iff [of "\<lparr>items = replicate 16 1, capacity = 16, n_used = 15\<rparr>" 3,
      THEN conjunct1]
  by (auto simp: vector_inv_def simp del: not_None_eq)

end
