(* ===== verification/Hash_Table.thy ===== *)
theory Hash_Table
  imports Prelude
begin

text \<open>
  The generic chained hash table of \<open>src/data/map/hash.c\<close>. A node is a record
  with its address; a chain is the list of its nodes in \<open>next\<close> order, so \<open>node->next\<close>
  is the node that follows it in its chain. A node pointer is an address, and
  dereferencing an address that no chain holds is undefined behaviour. The
  functions a table is created with (\<open>compare\<close>, \<open>hash\<close>, \<open>copy_key\<close>) are fields, as
  in the C struct; \<open>delete_key\<close> only releases the key's memory.

  The contract between the table and a key module is the locale \<open>hash_keys\<close>; the
  laws of the table are proved inside it once and reach the address, name-server
  and service tables through its interpretations.
\<close>

section \<open>Data\<close>

datatype hash_status_enum =
    HASH_STATUS_OK
  | HASH_STATUS_MEM_EXHAUSTED
  | HASH_STATUS_KEY_NOT_FOUND

record ('a, 'k, 'r) hash_node_type =
  nd_addr :: 'a
  nd_key :: 'k
  nd_record :: 'r
  nd_bucket :: int

record ('a, 'k, 'r) hash_type =
  compare :: "'k \<Rightarrow> 'k \<Rightarrow> bool"
  hash :: "'k \<Rightarrow> int"
  copy_key :: "'k \<Rightarrow> 'k"
  table :: "('a, 'k, 'r) hash_node_type list list"
  size :: int

section \<open>Operations\<close>

definition hash_initialise :: "('a, 'k, 'r) hash_type \<Rightarrow> ('a, 'k, 'r) hash_type" where
  "hash_initialise ht = ht\<lparr>table := replicate (nat (size ht)) []\<rparr>"

text \<open>\<open>a\<close> is the address \<open>xmalloc\<close> returns for the new node.\<close>

definition hash_insert ::
  "('a, 'k, 'r) hash_type \<Rightarrow> 'a \<Rightarrow> 'k \<Rightarrow> 'r \<Rightarrow> (hash_status_enum \<times> ('a, 'k, 'r) hash_type) option"
where
  "hash_insert ht a key rec = do {
     let bucket = hash ht key;
     prev \<leftarrow> rdi (table ht) bucket;
     let node = \<lparr>nd_addr = a, nd_key = copy_key ht key, nd_record = rec, nd_bucket = bucket\<rparr>;
     tb \<leftarrow> wri (table ht) bucket (node # prev);
     Some (HASH_STATUS_OK, ht\<lparr>table := tb\<rparr>)
   }"

text \<open>The search loop \<open>while (node && !compare(node->key, key))\<close>.\<close>

fun chain_find :: "('n \<Rightarrow> bool) \<Rightarrow> 'n list \<Rightarrow> 'n option" where
  "chain_find p [] = None"
| "chain_find p (node # next) = (if \<not> p node then chain_find p next else Some node)"

text \<open>The same loop with \<open>prev\<close>, followed by the unlinking of the node it stops at.\<close>

fun chain_unlink :: "('n \<Rightarrow> bool) \<Rightarrow> 'n list \<Rightarrow> ('n \<times> 'n list) option" where
  "chain_unlink p [] = None"
| "chain_unlink p (node # next) =
     (if \<not> p node
      then (case chain_unlink p next of None \<Rightarrow> None | Some (n, rest) \<Rightarrow> Some (n, node # rest))
      else Some (node, next))"

definition hash_delete ::
  "('a, 'k, 'r) hash_type \<Rightarrow> 'k \<Rightarrow> (hash_status_enum \<times> ('a, 'k, 'r) hash_type) option" where
  "hash_delete ht key = do {
     let bucket = hash ht key;
     chain \<leftarrow> rdi (table ht) bucket;
     (case chain_unlink (\<lambda>node. compare ht (nd_key node) key) chain of
        None \<Rightarrow> Some (HASH_STATUS_KEY_NOT_FOUND, ht)
      | Some (node, rest) \<Rightarrow> do {
          tb \<leftarrow> wri (table ht) bucket rest;
          Some (HASH_STATUS_OK, ht\<lparr>table := tb\<rparr>) })
   }"

text \<open>The second component is what \<open>*rec\<close> receives; it is left alone on failure.\<close>

definition hash_find ::
  "('a, 'k, 'r) hash_type \<Rightarrow> 'k \<Rightarrow> (hash_status_enum \<times> 'r option) option" where
  "hash_find ht key = do {
     let bucket = hash ht key;
     chain \<leftarrow> rdi (table ht) bucket;
     (case chain_find (\<lambda>node. compare ht (nd_key node) key) chain of
        None \<Rightarrow> Some (HASH_STATUS_KEY_NOT_FOUND, None)
      | Some node \<Rightarrow> Some (HASH_STATUS_OK, Some (nd_record node)))
   }"

text \<open>Dereferencing a node pointer gives the node and the nodes behind it in its chain.\<close>

fun chain_at ::
  "'a \<Rightarrow> ('a, 'k, 'r) hash_node_type list
     \<Rightarrow> (('a, 'k, 'r) hash_node_type \<times> ('a, 'k, 'r) hash_node_type list) option" where
  "chain_at a [] = None"
| "chain_at a (node # next) = (if nd_addr node = a then Some (node, next) else chain_at a next)"

fun deref ::
  "('a, 'k, 'r) hash_node_type list list \<Rightarrow> 'a
     \<Rightarrow> (('a, 'k, 'r) hash_node_type \<times> ('a, 'k, 'r) hash_node_type list) option" where
  "deref [] a = None"
| "deref (c # cs) a = (case chain_at a c of Some x \<Rightarrow> Some x | None \<Rightarrow> deref cs a)"

text \<open>\<open>while (i < size && table[i] == NULL) i++\<close>.\<close>

function next_bucket :: "('a, 'k, 'r) hash_type \<Rightarrow> int \<Rightarrow> int option" where
  "next_bucket ht i =
     (if i < size ht then
        (case rdi (table ht) i of
           None \<Rightarrow> None
         | Some chain \<Rightarrow> if chain = [] then next_bucket ht (i + 1) else Some i)
      else Some i)"
  by pat_completeness auto
termination
  by (relation "measure (\<lambda>(ht, i). nat (size ht - i))") auto

definition hash_next_item ::
  "('a, 'k, 'r) hash_type \<Rightarrow> 'a option \<Rightarrow> (hash_status_enum \<times> 'a option) option" where
  "hash_next_item ht pnode = do {
     start \<leftarrow> (case pnode of
         Some a \<Rightarrow> do {
           (node, next) \<leftarrow> deref (table ht) a;
           (case next of n # _ \<Rightarrow> Some (Inl (nd_addr n)) | [] \<Rightarrow> Some (Inr (nd_bucket node + 1))) }
       | None \<Rightarrow> Some (Inr 0));
     (case start of
        Inl a \<Rightarrow> Some (HASH_STATUS_OK, Some a)
      | Inr i \<Rightarrow> do {
          i \<leftarrow> next_bucket ht i;
          if i = size ht then Some (HASH_STATUS_KEY_NOT_FOUND, None)
          else do {
            chain \<leftarrow> rdi (table ht) i;
            (case chain of
               [] \<Rightarrow> Some (HASH_STATUS_OK, None)
             | n # _ \<Rightarrow> Some (HASH_STATUS_OK, Some (nd_addr n))) } })
   }"

definition hash_delete_node ::
  "('a, 'k, 'r) hash_type \<Rightarrow> 'a \<Rightarrow> (hash_status_enum \<times> ('a, 'k, 'r) hash_type) option" where
  "hash_delete_node ht target = do {
     (tnode, _) \<leftarrow> deref (table ht) target;
     let bucket = nd_bucket tnode;
     chain \<leftarrow> rdi (table ht) bucket;
     (case chain_unlink (\<lambda>node. nd_addr node = target) chain of
        None \<Rightarrow> Some (HASH_STATUS_KEY_NOT_FOUND, ht)
      | Some (node, rest) \<Rightarrow> do {
          tb \<leftarrow> wri (table ht) bucket rest;
          Some (HASH_STATUS_OK, ht\<lparr>table := tb\<rparr>) })
   }"

text \<open>
  The loops of \<open>hash_delete_all\<close> and \<open>hash_delete_all_free\<close> from bucket \<open>i\<close> on; the
  result lists the nodes in the order they are released.
\<close>

function free_chains ::
  "('a, 'k, 'r) hash_type \<Rightarrow> int \<Rightarrow> ('a, 'k, 'r) hash_node_type list option" where
  "free_chains ht i =
     (if i < size ht then do {
        chain \<leftarrow> rdi (table ht) i;
        rest \<leftarrow> free_chains ht (i + 1);
        Some (chain @ rest) }
      else Some [])"
  by pat_completeness auto
termination
  by (relation "measure (\<lambda>(ht, i). nat (size ht - i))") auto

text \<open>Released node addresses (and, in the second function, released records) and the table.\<close>

definition hash_delete_all ::
  "('a, 'k, 'r) hash_type \<Rightarrow> ('a list \<times> ('a, 'k, 'r) hash_type) option" where
  "hash_delete_all ht = do {
     freed \<leftarrow> free_chains ht 0;
     tb \<leftarrow> memset (table ht) 0 [] (nat (size ht));
     Some (map nd_addr freed, ht\<lparr>table := tb\<rparr>)
   }"

definition hash_delete_all_free ::
  "('a, 'k, 'r) hash_type \<Rightarrow> ('a list \<times> 'r list \<times> ('a, 'k, 'r) hash_type) option" where
  "hash_delete_all_free ht = do {
     freed \<leftarrow> free_chains ht 0;
     tb \<leftarrow> memset (table ht) 0 [] (nat (size ht));
     Some (map nd_addr freed, map nd_record freed, ht\<lparr>table := tb\<rparr>)
   }"

text \<open>\<open>hash_destroy\<close> releases the bucket array; no bucket can be read afterwards.\<close>

definition hash_destroy :: "('a, 'k, 'r) hash_type \<Rightarrow> ('a, 'k, 'r) hash_type" where
  "hash_destroy ht = ht\<lparr>table := []\<rparr>"

declare next_bucket.simps [simp del] free_chains.simps [simp del]

section \<open>Invariant and abstraction\<close>

text \<open>All nodes in the order of the buckets and, within a bucket, of the chain.\<close>

definition nodes :: "('a, 'k, 'r) hash_type \<Rightarrow> ('a, 'k, 'r) hash_node_type list" where
  "nodes ht = concat (table ht)"

text \<open>
  The shape of a table: one chain per bucket, the cached bucket index of a node is
  the bucket it hangs in, and no two nodes share an address.
\<close>

definition hash_shape :: "('a, 'k, 'r) hash_type \<Rightarrow> bool" where
  "hash_shape ht \<longleftrightarrow>
     0 \<le> size ht \<and> length (table ht) = nat (size ht) \<and> distinct (map nd_addr (nodes ht)) \<and>
     (\<forall>i<length (table ht). \<forall>n\<in>set (table ht ! i). nd_bucket n = int i)"

text \<open>Every node hangs in the bucket its key hashes to, and its key is a valid one.\<close>

definition hash_wf :: "('k \<Rightarrow> bool) \<Rightarrow> ('a, 'k, 'r) hash_type \<Rightarrow> bool" where
  "hash_wf ok ht \<longleftrightarrow>
     hash_shape ht \<and> (\<forall>n\<in>set (nodes ht). ok (nd_key n) \<and> hash ht (nd_key n) = nd_bucket n)"

text \<open>No key occurs twice.\<close>

definition hash_uniq :: "('a, 'k, 'r) hash_type \<Rightarrow> bool" where
  "hash_uniq ht \<longleftrightarrow> sorted_wrt (\<lambda>m n. \<not> compare ht (nd_key m) (nd_key n)) (nodes ht)"

text \<open>
  The abstract table: the record of the first node, over all nodes, whose key the
  comparison accepts. It knows nothing of buckets.
\<close>

definition hash_map :: "('a, 'k, 'r) hash_type \<Rightarrow> 'k \<Rightarrow> 'r option" where
  "hash_map ht k = map_option nd_record (List.find (\<lambda>n. compare ht (nd_key n) k) (nodes ht))"

text \<open>What an iteration step reports about the nodes still ahead.\<close>

definition iter_result ::
  "('a, 'k, 'r) hash_node_type list \<Rightarrow> hash_status_enum \<times> 'a option" where
  "iter_result ns = (case ns of [] \<Rightarrow> (HASH_STATUS_KEY_NOT_FOUND, None)
                     | n # _ \<Rightarrow> (HASH_STATUS_OK, Some (nd_addr n)))"

section \<open>Chains\<close>

lemma chain_find_eq: "chain_find p c = List.find p c"
  by (induction c) auto

lemma chain_unlink_None: "chain_unlink p c = None \<longleftrightarrow> (\<forall>n\<in>set c. \<not> p n)"
  by (induction c) (auto split: option.splits)

lemma chain_unlink_Some:
  "chain_unlink p c = Some (n, rest) \<Longrightarrow>
     \<exists>pre post. c = pre @ n # post \<and> rest = pre @ post \<and> p n \<and> (\<forall>x\<in>set pre. \<not> p x)"
proof (induction c arbitrary: rest)
  case (Cons m c)
  show ?case
  proof (cases "p m")
    case True
    with Cons.prems show ?thesis by (intro exI [of _ "[]"] exI [of _ rest]) auto
  next
    case False
    with Cons.prems obtain r where r: "chain_unlink p c = Some (n, r)" "rest = m # r"
      by (auto split: option.splits)
    from Cons.IH [OF r(1)] obtain pre post where
      "c = pre @ n # post" "r = pre @ post" "p n" "\<forall>x\<in>set pre. \<not> p x" by blast
    with r False show ?thesis by (intro exI [of _ "m # pre"] exI [of _ post]) auto
  qed
qed simp

lemma chain_unlink_addr:
  "distinct (map nd_addr (pre @ n # post)) \<Longrightarrow>
   chain_unlink (\<lambda>m. nd_addr m = nd_addr n) (pre @ n # post) = Some (n, pre @ post)"
  by (induction pre) auto

lemma chain_at_None: "a \<notin> nd_addr ` set c \<Longrightarrow> chain_at a c = None"
  by (induction c) auto

lemma chain_at_mid:
  "distinct (map nd_addr (pre @ n # post)) \<Longrightarrow> chain_at (nd_addr n) (pre @ n # post) = Some (n, post)"
  by (induction pre) auto

lemma deref_mid:
  assumes "distinct (map nd_addr (concat tb))" "i < length tb" "tb ! i = pre @ n # post"
  shows "deref tb (nd_addr n) = Some (n, post)"
  using assms
proof (induction tb arbitrary: i)
  case (Cons c tb)
  show ?case
  proof (cases i)
    case 0
    with Cons.prems have "chain_at (nd_addr n) c = Some (n, post)"
      by (auto intro!: chain_at_mid)
    then show ?thesis by simp
  next
    case (Suc j)
    with Cons.prems have j: "j < length tb" "tb ! j = pre @ n # post" by auto
    then have "n \<in> set (concat tb)" by (auto intro!: bexI [OF _ nth_mem [OF j(1)]])
    with Cons.prems(1) have "nd_addr n \<notin> nd_addr ` set c" by (auto simp: image_iff)
    with j Cons.prems Cons.IH [of j] show ?thesis by (simp add: chain_at_None)
  qed
qed simp

lemma deref_SomeD: "deref tb a = Some (n, rest) \<Longrightarrow> n \<in> set (concat tb) \<and> nd_addr n = a"
proof (induction tb)
  case (Cons c tb)
  have *: "chain_at a c = Some (n, rest) \<Longrightarrow> n \<in> set c \<and> nd_addr n = a"
    by (induction c) (auto split: if_splits)
  from Cons * show ?case by (auto split: option.splits)
qed simp

section \<open>Nodes and buckets\<close>

lemma hash_shape_nth:
  "hash_shape ht \<Longrightarrow> i < length (table ht) \<Longrightarrow> n \<in> set (table ht ! i) \<Longrightarrow> nd_bucket n = int i"
  by (simp add: hash_shape_def)

lemma hash_shape_bucket:
  assumes "hash_shape ht" "n \<in> set (nodes ht)"
  obtains i pre post where "i < length (table ht)" "nd_bucket n = int i"
    "table ht ! i = pre @ n # post"
    "nodes ht = (concat (take i (table ht)) @ pre) @ n # post @ concat (drop (Suc i) (table ht))"
proof -
  from assms obtain c where "c \<in> set (table ht)" "n \<in> set c" by (auto simp: nodes_def)
  then obtain i where i: "i < length (table ht)" "n \<in> set (table ht ! i)"
    by (auto simp: in_set_conv_nth [of c])
  then obtain pre post where pp: "table ht ! i = pre @ n # post" by (metis split_list)
  from i(1) pp have
    "nodes ht = (concat (take i (table ht)) @ pre) @ n # post @ concat (drop (Suc i) (table ht))"
    by (simp add: nodes_def concat_nth_split)
  with i pp assms(1) show thesis by (intro that) (auto simp: hash_shape_def)
qed

lemma split_unique:
  assumes "distinct (map f (pre @ n # post))" "pre @ n # post = pre' @ n # post'"
  shows "pre = pre' \<and> post = post'"
proof -
  from assms(1) have d: "distinct (pre @ n # post)" by (metis distinct_map)
  with assms(2) have d': "distinct (pre' @ n # post')" by simp
  from d d' have "n \<notin> set pre" "n \<notin> set post" "n \<notin> set pre'" "n \<notin> set post'" by auto
  with assms(2) show ?thesis by (metis append_Cons_eq_iff)
qed

lemma next_bucket_ok:
  assumes "length (table ht) = nat (size ht)" "0 \<le> i" "i \<le> size ht"
  shows "\<exists>j. next_bucket ht i = Some j \<and> i \<le> j \<and> j \<le> size ht \<and>
           concat (drop (nat i) (table ht)) = concat (drop (nat j) (table ht)) \<and>
           (j < size ht \<longrightarrow> table ht ! nat j \<noteq> [])"
  using assms
proof (induction ht i rule: next_bucket.induct)
  case (1 ht i)
  show ?case
  proof (cases "i < size ht")
    case False
    with "1.prems" show ?thesis by (intro exI [of _ i]) (simp add: next_bucket.simps)
  next
    case True
    with 1 have r: "rdi (table ht) i = Some (table ht ! nat i)" by (simp add: rdi_def)
    show ?thesis
    proof (cases "table ht ! nat i = []")
      case False
      with True r show ?thesis by (auto simp: next_bucket.simps [of ht i])
    next
      case empty: True
      from 1 True r empty obtain j where j: "next_bucket ht (i + 1) = Some j" "i + 1 \<le> j"
        "j \<le> size ht" "concat (drop (nat (i + 1)) (table ht)) = concat (drop (nat j) (table ht))"
        "j < size ht \<longrightarrow> table ht ! nat j \<noteq> []" by auto
      have "drop (nat i) (table ht) = table ht ! nat i # drop (nat (i + 1)) (table ht)"
        using 1 True by (simp add: Cons_nth_drop_Suc nat_add_distrib)
      with j empty True r show ?thesis by (auto simp: next_bucket.simps [of ht i])
    qed
  qed
qed

text \<open>Scanning from bucket \<open>i\<close> reports the first node at or behind it.\<close>

lemma scan_ok:
  assumes "length (table ht) = nat (size ht)" "0 \<le> i" "i \<le> size ht"
  shows "(do { i \<leftarrow> next_bucket ht i;
               if i = size ht then Some (HASH_STATUS_KEY_NOT_FOUND, None)
               else do { chain \<leftarrow> rdi (table ht) i;
                         (case chain of [] \<Rightarrow> Some (HASH_STATUS_OK, None)
                          | n # _ \<Rightarrow> Some (HASH_STATUS_OK, Some (nd_addr n))) } })
         = Some (iter_result (concat (drop (nat i) (table ht))))"
proof -
  from next_bucket_ok [OF assms] obtain j where j: "next_bucket ht i = Some j" "i \<le> j"
    "j \<le> size ht" "concat (drop (nat i) (table ht)) = concat (drop (nat j) (table ht))"
    "j < size ht \<longrightarrow> table ht ! nat j \<noteq> []" by blast
  show ?thesis
  proof (cases "j = size ht")
    case True
    with j(4) assms(1) have "concat (drop (nat i) (table ht)) = []" by simp
    with True j(1) show ?thesis by (simp only: iter_result_def) simp
  next
    case False
    with j assms obtain n c where c: "table ht ! nat j = n # c" "j < size ht"
      by (cases "table ht ! nat j") auto
    from c(2) assms j(2) have "drop (nat j) (table ht) = table ht ! nat j # drop (Suc (nat j)) (table ht)"
      by (simp add: Cons_nth_drop_Suc)
    with j c assms show ?thesis by (simp add: iter_result_def rdi_def)
  qed
qed

section \<open>Iteration\<close>

text \<open>An iteration starts at the first node and from a live node moves to the next one.\<close>

lemma hash_next_item_start:
  assumes "hash_shape ht"
  shows "hash_next_item ht None = Some (iter_result (nodes ht))"
  using scan_ok [of ht 0] assms by (simp add: hash_next_item_def hash_shape_def nodes_def)

lemma hash_next_item_mid:
  assumes shape: "hash_shape ht" and split: "nodes ht = pre @ n # post"
  shows "hash_next_item ht (Some (nd_addr n)) = Some (iter_result post)"
proof -
  from split have "n \<in> set (nodes ht)" by simp
  with shape obtain i p q where i: "i < length (table ht)" "nd_bucket n = int i"
    "table ht ! i = p @ n # q"
    "nodes ht = (concat (take i (table ht)) @ p) @ n # q @ concat (drop (Suc i) (table ht))"
    by (rule hash_shape_bucket)
  have dist: "distinct (map nd_addr (nodes ht))" using shape by (simp add: hash_shape_def)
  have post: "post = q @ concat (drop (Suc i) (table ht))"
    using split_unique [OF dist [unfolded split] trans [OF split [symmetric] i(4)]] by simp
  have d: "deref (table ht) (nd_addr n) = Some (n, q)"
    using deref_mid [OF _ i(1,3)] dist by (simp add: nodes_def)
  show ?thesis
  proof (cases q)
    case (Cons m q')
    with d post show ?thesis by (simp add: hash_next_item_def iter_result_def)
  next
    case Nil
    from i(1) shape have "int i + 1 \<le> size ht" "length (table ht) = nat (size ht)"
      by (auto simp: hash_shape_def)
    with scan_ok [of ht "int i + 1"] d Nil post i(2) show ?thesis
      by (simp add: hash_next_item_def nat_add_distrib)
  qed
qed

section \<open>Removal of a node, clearing\<close>

text \<open>
  Replacing one chain by part of itself keeps the shape. Both deletions and the
  insertion are chain updates of this kind.
\<close>

lemma nodes_update:
  "i < length (table ht) \<Longrightarrow>
   nodes (ht\<lparr>table := (table ht)[i := c]\<rparr>) =
     concat (take i (table ht)) @ c @ concat (drop (Suc i) (table ht))"
  by (simp add: nodes_def concat_list_update)

lemma nodes_split: "i < length (table ht) \<Longrightarrow>
   nodes ht = concat (take i (table ht)) @ table ht ! i @ concat (drop (Suc i) (table ht))"
  by (simp add: nodes_def concat_nth_split)

lemma hash_shape_update:
  assumes "hash_shape ht" "i < length (table ht)"
    and "\<forall>n\<in>set c. nd_bucket n = int i"
    and "distinct (map nd_addr (nodes (ht\<lparr>table := (table ht)[i := c]\<rparr>)))"
  shows "hash_shape (ht\<lparr>table := (table ht)[i := c]\<rparr>)"
  using assms by (auto simp: hash_shape_def nth_list_update)

lemma hash_shape_unlink:
  assumes "hash_shape ht" "i < length (table ht)" "table ht ! i = p @ n # q"
  shows "hash_shape (ht\<lparr>table := (table ht)[i := p @ q]\<rparr>)"
  using assms
  by (intro hash_shape_update)
     (auto simp: hash_shape_def nodes_update nodes_split [OF assms(2)])

lemma hash_wf_unlink [hash_wf_intros]:
  assumes "hash_wf ok ht" "i < length (table ht)" "table ht ! i = p @ n # q"
  shows "hash_wf ok (ht\<lparr>table := (table ht)[i := p @ q]\<rparr>)"
  using assms hash_shape_unlink [of ht i p n q]
  by (auto simp: hash_wf_def nodes_update nodes_split [OF assms(2)])

text \<open>\<open>hash_delete_node\<close> removes exactly the node at the given address.\<close>

lemma hash_delete_node_ok:
  assumes shape: "hash_shape ht" and split: "nodes ht = pre @ n # post"
  shows "\<exists>i p q. i < length (table ht) \<and> table ht ! i = p @ n # q \<and>
           hash_delete_node ht (nd_addr n) =
             Some (HASH_STATUS_OK, ht\<lparr>table := (table ht)[i := p @ q]\<rparr>) \<and>
           nodes (ht\<lparr>table := (table ht)[i := p @ q]\<rparr>) = pre @ post"
proof -
  from split have "n \<in> set (nodes ht)" by simp
  with shape obtain i p q where i: "i < length (table ht)" "nd_bucket n = int i"
    "table ht ! i = p @ n # q"
    "nodes ht = (concat (take i (table ht)) @ p) @ n # q @ concat (drop (Suc i) (table ht))"
    by (rule hash_shape_bucket)
  have dist: "distinct (map nd_addr (nodes ht))" using shape by (simp add: hash_shape_def)
  have pq: "pre = concat (take i (table ht)) @ p" "post = q @ concat (drop (Suc i) (table ht))"
    using split_unique [OF dist [unfolded split] trans [OF split [symmetric] i(4)]] by simp_all
  have d: "deref (table ht) (nd_addr n) = Some (n, q)"
    using deref_mid [OF _ i(1,3)] dist by (simp add: nodes_def)
  have "distinct (map nd_addr (p @ n # q))" using dist unfolding i(4) by auto
  then have "chain_unlink (\<lambda>m. nd_addr m = nd_addr n) (table ht ! i) = Some (n, p @ q)"
    unfolding i(3) by (rule chain_unlink_addr)
  with d i(1,2) have "hash_delete_node ht (nd_addr n) =
      Some (HASH_STATUS_OK, ht\<lparr>table := (table ht)[i := p @ q]\<rparr>)"
    by (simp add: hash_delete_node_def mem_simps)
  with i(1,3) pq show ?thesis
    by (intro exI [of _ i] exI [of _ p] exI [of _ q]) (simp add: nodes_update)
qed

lemma free_chains_ok:
  assumes "length (table ht) = nat (size ht)" "0 \<le> i"
  shows "free_chains ht i = Some (concat (drop (nat i) (table ht)))"
  using assms
proof (induction ht i rule: free_chains.induct)
  case (1 ht i)
  show ?case
  proof (cases "i < size ht")
    case True
    then have "drop (nat i) (table ht) = table ht ! nat i # drop (nat (i + 1)) (table ht)"
      using "1.prems" by (simp add: Cons_nth_drop_Suc nat_add_distrib)
    with 1 True show ?thesis by (simp add: free_chains.simps [of ht i] rdi_def)
  next
    case False
    with "1.prems" show ?thesis by (simp add: free_chains.simps [of ht i])
  qed
qed

lemma hash_delete_all_free_ok:
  assumes "hash_shape ht"
  shows "hash_delete_all_free ht =
           Some (map nd_addr (nodes ht), map nd_record (nodes ht), hash_initialise ht)"
  using assms free_chains_ok [of ht 0]
  by (simp add: hash_delete_all_free_def hash_initialise_def hash_shape_def nodes_def memset_def)

lemma hash_delete_all_ok:
  assumes "hash_shape ht"
  shows "hash_delete_all ht = Some (map nd_addr (nodes ht), hash_initialise ht)"
  using assms free_chains_ok [of ht 0]
  by (simp add: hash_delete_all_def hash_initialise_def hash_shape_def nodes_def memset_def)

lemma hash_initialise_wf [hash_wf_intros]:
  "0 \<le> size ht \<Longrightarrow> hash_wf ok (hash_initialise ht)"
  by (auto simp: hash_wf_def hash_shape_def hash_initialise_def nodes_def)

lemma hash_initialise_nodes [simp]: "nodes (hash_initialise ht) = []"
  by (simp add: hash_initialise_def nodes_def)

lemma hash_initialise_uniq: "hash_uniq (hash_initialise ht)"
  by (simp add: hash_uniq_def)

lemma hash_initialise_map: "hash_map (hash_initialise ht) = Map.empty"
  by (rule ext) (simp add: hash_map_def)

section \<open>The contract of a key module\<close>

text \<open>The functions and the size a table was created with.\<close>

definition hash_uses ::
  "('k \<Rightarrow> 'k \<Rightarrow> bool) \<Rightarrow> ('k \<Rightarrow> int) \<Rightarrow> ('k \<Rightarrow> 'k) \<Rightarrow> int \<Rightarrow> ('a, 'k, 'r) hash_type \<Rightarrow> bool" where
  "hash_uses cmp hsh cpy sz ht \<longleftrightarrow>
     compare ht = cmp \<and> hash ht = hsh \<and> copy_key ht = cpy \<and> size ht = sz"

lemma hash_uses_update [simp]:
  "hash_uses cmp hsh cpy sz (ht\<lparr>table := tb\<rparr>) = hash_uses cmp hsh cpy sz ht"
  by (simp add: hash_uses_def)

lemma hash_uses_initialise [simp]:
  "hash_uses cmp hsh cpy sz (hash_initialise ht) = hash_uses cmp hsh cpy sz ht"
  by (simp add: hash_initialise_def)

text \<open>
  What \<open>hash.c\<close> needs of the key functions, on the keys the module builds: the
  comparison is an equivalence, equal keys hash alike, the hash stays inside the
  bucket array, and a copied key is equal to its original.
\<close>

locale hash_keys =
  fixes cmp :: "'k \<Rightarrow> 'k \<Rightarrow> bool"
    and hsh :: "'k \<Rightarrow> int"
    and cpy :: "'k \<Rightarrow> 'k"
    and sz :: int
    and ok :: "'k \<Rightarrow> bool"
  assumes cmp_refl: "ok k \<Longrightarrow> cmp k k"
    and cmp_sym: "ok k \<Longrightarrow> ok k' \<Longrightarrow> cmp k k' \<Longrightarrow> cmp k' k"
    and cmp_trans: "ok k \<Longrightarrow> ok k' \<Longrightarrow> ok k'' \<Longrightarrow> cmp k k' \<Longrightarrow> cmp k' k'' \<Longrightarrow> cmp k k''"
    and hsh_cong: "ok k \<Longrightarrow> ok k' \<Longrightarrow> cmp k k' \<Longrightarrow> hsh k = hsh k'"
    and hsh_range: "ok k \<Longrightarrow> 0 \<le> hsh k \<and> hsh k < sz"
    and cpy_ok: "ok k \<Longrightarrow> ok (cpy k)"
    and cpy_cmp: "ok k \<Longrightarrow> cmp (cpy k) k"
begin

lemma cpy_iff: "ok k \<Longrightarrow> ok k' \<Longrightarrow> cmp (cpy k) k' = cmp k k'"
  by (meson cmp_sym cmp_trans cpy_cmp cpy_ok)

lemma cpy_hsh: "ok k \<Longrightarrow> hsh (cpy k) = hsh k"
  using cpy_cmp cpy_ok hsh_cong by blast

lemma in_table:
  assumes "hash_wf ok ht" "hash_uses cmp hsh cpy sz ht" "ok k"
  shows "nat (hsh k) < length (table ht)" "rdi (table ht) (hsh k) = Some (table ht ! nat (hsh k))"
    "wri (table ht) (hsh k) c = Some ((table ht)[nat (hsh k) := c])"
  using assms hsh_range [of k]
  by (auto simp: hash_wf_def hash_shape_def hash_uses_def rdi_def wri_def)

text \<open>A key can only be found in the bucket it hashes to.\<close>

lemma find_in_bucket:
  assumes wf: "hash_wf ok ht" and use: "hash_uses cmp hsh cpy sz ht" and k: "ok k"
  shows "List.find (\<lambda>n. compare ht (nd_key n) k) (nodes ht) =
           List.find (\<lambda>n. compare ht (nd_key n) k) (table ht ! nat (hsh k))"
proof -
  let ?i = "nat (hsh k)" and ?P = "\<lambda>n. compare ht (nd_key n) k"
  note i = in_table(1) [OF wf use k]
  have other: "\<not> ?P n" if "j < length (table ht)" "j \<noteq> ?i" "n \<in> set (table ht ! j)" for j n
  proof
    assume "?P n"
    from that have "n \<in> set (nodes ht)" by (auto simp: nodes_def)
    with wf use that \<open>?P n\<close> have "hsh (nd_key n) = int j" "ok (nd_key n)" "cmp (nd_key n) k"
      by (auto simp: hash_wf_def hash_shape_def hash_uses_def)
    with k that(2) hsh_cong [of "nd_key n" k] show False by simp
  qed
  have "List.find ?P (concat (take ?i (table ht))) = None"
    using other [OF less_trans [OF _ i]]
    by (auto simp: find_None_iff in_set_conv_nth [of _ "take ?i (table ht)"])
  moreover have "List.find ?P (concat (drop (Suc ?i) (table ht))) = None"
  proof -
    have "\<not> ?P n" if "n \<in> set (concat (drop (Suc ?i) (table ht)))" for n
    proof -
      from that obtain j where "j < length (table ht) - Suc ?i" "n \<in> set (table ht ! (Suc ?i + j))"
        by (auto simp: in_set_conv_nth [of _ "drop (Suc ?i) (table ht)"])
      then show ?thesis by (intro other [of "Suc ?i + j"]) auto
    qed
    then show ?thesis by (auto simp: find_None_iff)
  qed
  ultimately show ?thesis
    by (simp add: nodes_split [OF i] find_append split: option.split)
qed

theorem find_correct:
  assumes "hash_wf ok ht" "hash_uses cmp hsh cpy sz ht" "ok k"
  shows "hash_find ht k =
           Some (case hash_map ht k of
                   None \<Rightarrow> (HASH_STATUS_KEY_NOT_FOUND, None)
                 | Some r \<Rightarrow> (HASH_STATUS_OK, Some r))"
  using find_in_bucket [OF assms] in_table(2) [OF assms] assms(2)
  by (auto simp: hash_find_def hash_map_def chain_find_eq hash_uses_def split: option.split)

lemma insert_eq:
  assumes "hash_wf ok ht" "hash_uses cmp hsh cpy sz ht" "ok k"
  shows "hash_insert ht a k r = Some (HASH_STATUS_OK, ht\<lparr>table := (table ht)[nat (hsh k) :=
           \<lparr>nd_addr = a, nd_key = cpy k, nd_record = r, nd_bucket = hsh k\<rparr>
             # table ht ! nat (hsh k)]\<rparr>)"
  using in_table [OF assms] assms(2) by (simp add: hash_insert_def hash_uses_def Let_def)

text \<open>
  Insertion with a fresh node address keeps the invariant, adds one node and
  shadows every older binding of the key, leaving all other keys alone.
\<close>

theorem insert_correct:
  assumes wf: "hash_wf ok ht" and use: "hash_uses cmp hsh cpy sz ht" and k: "ok k"
    and fresh: "a \<notin> nd_addr ` set (nodes ht)"
  obtains ht' where "hash_insert ht a k r = Some (HASH_STATUS_OK, ht')"
    "hash_wf ok ht'" "hash_uses cmp hsh cpy sz ht'"
    "mset (nodes ht') =
       mset (nodes ht) +
         {# \<lparr>nd_addr = a, nd_key = cpy k, nd_record = r, nd_bucket = hsh k\<rparr> #}"
    "\<forall>k'. ok k' \<longrightarrow> hash_map ht' k' = (if cmp k k' then Some r else hash_map ht k')"
    "hash_uniq ht \<longrightarrow> hash_map ht k = None \<longrightarrow> hash_uniq ht'"
proof -
  let ?i = "nat (hsh k)"
  define n where "n = \<lparr>nd_addr = a, nd_key = cpy k, nd_record = r, nd_bucket = hsh k\<rparr>"
  define ht' where "ht' = ht\<lparr>table := (table ht)[?i := n # table ht ! ?i]\<rparr>"
  note i = in_table(1) [OF wf use k]
  have nds: "nodes ht' = concat (take ?i (table ht)) @ n # table ht ! ?i
                           @ concat (drop (Suc ?i) (table ht))"
    using i by (simp add: ht'_def nodes_update)
  then have ms: "mset (nodes ht') = mset (nodes ht) + {# n #}"
    by (simp add: nodes_split [OF i])
  have fields: "compare ht' = cmp" "hash ht' = hsh" "compare ht = cmp" "hash ht = hsh"
    using use by (simp_all add: ht'_def hash_uses_def)
  have "distinct (map nd_addr (nodes ht'))"
    using wf fresh unfolding hash_wf_def hash_shape_def nds nodes_split [OF i]
    by (auto simp: n_def)
  moreover have "\<forall>m\<in>set (n # table ht ! ?i). nd_bucket m = int ?i"
    using wf i hsh_range [OF k] hash_shape_nth [of ht ?i] by (auto simp: hash_wf_def n_def)
  ultimately have shape: "hash_shape ht'"
    using wf i unfolding ht'_def by (intro hash_shape_update) (auto simp: hash_wf_def)
  have wf': "hash_wf ok ht'"
    unfolding hash_wf_def
  proof (intro conjI shape ballI)
    fix m assume "m \<in> set (nodes ht')"
    then have "m = n \<or> m \<in> set (nodes ht)" using ms by (metis insert_iff set_mset_add_mset_insert
      set_mset_mset add_mset_add_single)
    with wf k show "ok (nd_key m)" "hash ht' (nd_key m) = nd_bucket m"
      by (auto simp: n_def cpy_ok cpy_hsh hash_wf_def fields)
  qed
  have map: "hash_map ht' k' = (if cmp k k' then Some r else hash_map ht k')" if k': "ok k'" for k'
  proof -
    have tb: "table ht' ! nat (hsh k') =
        (if hsh k = hsh k' then n # table ht ! nat (hsh k') else table ht ! nat (hsh k'))"
      using i hsh_range [OF k] hsh_range [OF k'] by (auto simp: ht'_def nth_list_update)
    have use': "hash_uses cmp hsh cpy sz ht'" using use by (simp add: ht'_def)
    show ?thesis
      using find_in_bucket [OF wf use k'] find_in_bucket [OF wf' use' k'] hsh_cong [OF k k']
      by (auto simp: hash_map_def tb fields n_def cpy_iff k k')
  qed
  have uniq: "hash_uniq ht'" if u: "hash_uniq ht" and none: "hash_map ht k = None"
  proof -
    have no: "\<not> cmp (nd_key m) k" if "m \<in> set (nodes ht)" for m
      using none that by (auto simp: hash_map_def fields dest: find_NoneD)
    have "\<not> cmp (nd_key m) (cpy k)" "\<not> cmp (cpy k) (nd_key m)" if m: "m \<in> set (nodes ht)" for m
    proof -
      from wf m have mk: "ok (nd_key m)" by (simp add: hash_wf_def)
      show "\<not> cmp (nd_key m) (cpy k)"
        using no [OF m] cmp_trans [OF mk cpy_ok [OF k] k] cpy_cmp [OF k] by blast
      then show "\<not> cmp (cpy k) (nd_key m)"
        using cmp_sym [OF cpy_ok [OF k] mk] by blast
    qed
    with u show ?thesis
      unfolding hash_uniq_def nds nodes_split [OF i] fields
      by (auto simp: sorted_wrt_append n_def nodes_split [OF i])
  qed
  show thesis
    using insert_eq [OF wf use k] ms wf' use map uniq
    by (intro that [of ht']) (auto simp: ht'_def n_def)
qed

lemma map_cong_key:
  assumes wf: "hash_wf ok ht" and use: "hash_uses cmp hsh cpy sz ht"
    and k: "ok k" "ok k'" "cmp k k'"
  shows "hash_map ht k = hash_map ht k'"
proof -
  have "cmp (nd_key n) k = cmp (nd_key n) k'" if "n \<in> set (nodes ht)" for n
  proof -
    from wf that have "ok (nd_key n)" by (simp add: hash_wf_def)
    with k show ?thesis by (meson cmp_sym cmp_trans)
  qed
  then show ?thesis
    using use unfolding hash_map_def hash_uses_def
    by (metis (mono_tags, lifting) find_congruent)
qed

text \<open>In a table without duplicate keys the node of a key is the only one that matches it.\<close>

lemma only_match:
  assumes wf: "hash_wf ok ht" and use: "hash_uses cmp hsh cpy sz ht" and uniq: "hash_uniq ht"
    and split: "nodes ht = pre @ n # post" and k: "ok k" "cmp (nd_key n) k"
    and m: "m \<in> set (pre @ post)"
  shows "\<not> cmp (nd_key m) k"
proof
  assume mk: "cmp (nd_key m) k"
  from wf split m have ok: "ok (nd_key m)" "ok (nd_key n)" by (auto simp: hash_wf_def)
  with k mk have "cmp (nd_key m) (nd_key n)" "cmp (nd_key n) (nd_key m)"
    by (meson cmp_sym cmp_trans)+
  with uniq use split m show False
    by (auto simp: hash_uniq_def hash_uses_def sorted_wrt_append)
qed

theorem delete_correct:
  assumes wf: "hash_wf ok ht" and use: "hash_uses cmp hsh cpy sz ht" and uniq: "hash_uniq ht"
    and k: "ok k"
  obtains ht' where
    "hash_delete ht k =
       Some (if hash_map ht k = None then HASH_STATUS_KEY_NOT_FOUND else HASH_STATUS_OK, ht')"
    "hash_wf ok ht'" "hash_uses cmp hsh cpy sz ht'" "hash_uniq ht'"
    "\<forall>k'. ok k' \<longrightarrow> hash_map ht' k' = (if cmp k k' then None else hash_map ht k')"
    "set (nodes ht') \<subseteq> set (nodes ht)"
    "length (nodes ht) = length (nodes ht') + (if hash_map ht k = None then 0 else 1)"
proof -
  let ?i = "nat (hsh k)" and ?P = "\<lambda>n. compare ht (nd_key n) k"
  note i = in_table [OF wf use k]
  have fields: "compare ht = cmp" "hash ht = hsh" using use by (simp_all add: hash_uses_def)
  show thesis
  proof (cases "chain_unlink ?P (table ht ! ?i)")
    case None
    then have none: "hash_map ht k = None"
      using find_in_bucket [OF wf use k] by (simp add: hash_map_def chain_unlink_None find_None_iff)
    have "hash_map ht k' = (if cmp k k' then None else hash_map ht k')" if "ok k'" for k'
      using map_cong_key [OF wf use k that] none by auto
    with None none i wf use uniq show thesis
      by (intro that [of ht]) (auto simp: hash_delete_def fields Let_def)
  next
    case (Some nr)
    then obtain n p q where n: "nr = (n, p @ q)" "table ht ! ?i = p @ n # q" "?P n"
      by (metis chain_unlink_Some prod.collapse)
    define ht' where "ht' = ht\<lparr>table := (table ht)[?i := p @ q]\<rparr>"
    obtain pre post where sp: "nodes ht = pre @ n # post" "nodes ht' = pre @ post"
      using i(1) n(2) by (simp add: ht'_def nodes_update nodes_split [OF i(1)])
        (metis append.assoc append_Cons)
    have nk: "ok (nd_key n)" "cmp (nd_key n) k"
      using wf sp(1) n(3) by (auto simp: hash_wf_def fields)
    note only = only_match [OF wf use uniq sp(1)]
    have some: "hash_map ht k \<noteq> None"
      using n(3) sp(1) by (auto simp: hash_map_def find_None_iff)
    have map: "hash_map ht' k' = (if cmp k k' then None else hash_map ht k')" if k': "ok k'" for k'
    proof (cases "cmp k k'")
      case True
      with nk k k' have "cmp (nd_key n) k'" by (meson cmp_trans)
      with True only [OF k'] sp(2) fields show ?thesis
        by (auto simp: hash_map_def ht'_def find_None_iff)
    next
      case False
      with nk k k' have "\<not> cmp (nd_key n) k'" by (meson cmp_sym cmp_trans)
      with False sp fields show ?thesis
        by (simp add: hash_map_def ht'_def find_append split: option.split)
    qed
    have "hash_wf ok ht'" unfolding ht'_def by (rule hash_wf_unlink [OF wf i(1) n(2)])
    moreover have "hash_uniq ht'"
      using uniq sp by (auto simp: hash_uniq_def ht'_def sorted_wrt_append)
    moreover have "hash_delete ht k = Some (HASH_STATUS_OK, ht')"
      using Some n(1) i by (simp add: hash_delete_def fields ht'_def Let_def)
    ultimately show thesis
      using some map sp use by (intro that [of ht']) (auto simp: ht'_def)
  qed
qed

text \<open>Deleting a key right after inserting it gives back the very same table.\<close>

theorem delete_insert:
  assumes "hash_wf ok ht" "hash_uses cmp hsh cpy sz ht" "ok k"
    and "hash_insert ht a k r = Some (st, ht')"
  shows "hash_delete ht' k = Some (HASH_STATUS_OK, ht)"
proof -
  note i = in_table [OF assms(1-3)] and range = hsh_range [OF assms(3)]
  from assms(4) insert_eq [OF assms(1-3)] have ht': "ht' = ht\<lparr>table := (table ht)[nat (hsh k) :=
      \<lparr>nd_addr = a, nd_key = cpy k, nd_record = r, nd_bucket = hsh k\<rparr>
        # table ht ! nat (hsh k)]\<rparr>" by simp
  have "rdi (table ht') (hsh k) = Some (table ht' ! nat (hsh k))"
    "wri (table ht') (hsh k) c = Some ((table ht')[nat (hsh k) := c])" for c
    using i(1) range by (simp_all add: ht' rdi_def wri_def)
  with i(1) assms(2) cpy_cmp [OF assms(3)] show ?thesis
    by (simp add: hash_delete_def hash_uses_def Let_def) (simp add: ht')
qed

text \<open>
  The update idiom of the clients: delete the old binding if there is one, then
  insert. It is a map update.
\<close>

theorem replace_correct:
  assumes wf: "hash_wf ok ht" and use: "hash_uses cmp hsh cpy sz ht" and uniq: "hash_uniq ht"
    and k: "ok k" and fresh: "a \<notin> nd_addr ` set (nodes ht)"
  obtains ht1 ht2 where
    "hash_map ht k = None \<longrightarrow> ht1 = ht"
    "hash_map ht k \<noteq> None \<longrightarrow> hash_delete ht k = Some (HASH_STATUS_OK, ht1)"
    "hash_insert ht1 a k r = Some (HASH_STATUS_OK, ht2)"
    "hash_wf ok ht2" "hash_uses cmp hsh cpy sz ht2" "hash_uniq ht2"
    "\<forall>k'. ok k' \<longrightarrow> hash_map ht2 k' = (if cmp k k' then Some r else hash_map ht k')"
    "length (nodes ht2) = length (nodes ht) + (if hash_map ht k = None then 1 else 0)"
    "nd_addr ` set (nodes ht2) \<subseteq> insert a (nd_addr ` set (nodes ht))"
proof -
  obtain ht1 where d: "hash_delete ht k =
       Some (if hash_map ht k = None then HASH_STATUS_KEY_NOT_FOUND else HASH_STATUS_OK, ht1)"
    "hash_wf ok ht1" "hash_uses cmp hsh cpy sz ht1" "hash_uniq ht1"
    "\<forall>k'. ok k' \<longrightarrow> hash_map ht1 k' = (if cmp k k' then None else hash_map ht k')"
    "set (nodes ht1) \<subseteq> set (nodes ht)"
    "length (nodes ht) = length (nodes ht1) + (if hash_map ht k = None then 0 else 1)"
    by (rule delete_correct [OF wf use uniq k])
  have same: "hash_map ht k = None \<Longrightarrow> ht1 = ht"
    using d(1) by (auto simp: hash_delete_def Let_def split: option.splits bind_splits)
  have none: "hash_map ht1 k = None" using d(5) k cmp_refl [OF k] by simp
  from d(6) fresh have "a \<notin> nd_addr ` set (nodes ht1)" by auto
  then obtain ht2 where i: "hash_insert ht1 a k r = Some (HASH_STATUS_OK, ht2)"
    "hash_wf ok ht2" "hash_uses cmp hsh cpy sz ht2"
    "mset (nodes ht2) = mset (nodes ht1) +
         {# \<lparr>nd_addr = a, nd_key = cpy k, nd_record = r, nd_bucket = hsh k\<rparr> #}"
    "\<forall>k'. ok k' \<longrightarrow> hash_map ht2 k' = (if cmp k k' then Some r else hash_map ht1 k')"
    "hash_uniq ht1 \<longrightarrow> hash_map ht1 k = None \<longrightarrow> hash_uniq ht2"
    by (rule insert_correct [OF d(2,3) k])
  have len: "length (nodes ht2) = length (nodes ht1) + 1"
    using mset_eq_length [of "nodes ht2" "_ # nodes ht1"] i(4) by simp
  have "set (nodes ht2) =
      insert \<lparr>nd_addr = a, nd_key = cpy k, nd_record = r, nd_bucket = hsh k\<rparr> (set (nodes ht1))"
    using arg_cong [OF i(4), of set_mset] by simp
  with d(6) have addrs: "nd_addr ` set (nodes ht2) \<subseteq> insert a (nd_addr ` set (nodes ht))" by auto
  show thesis
    using d(1,4,5,7) i(1,2,3,5,6) none same len addrs
    by (intro that [of ht1 ht2]) (auto split: if_splits)
qed

end

end
