(* ===== verification/Serv_Hash.thy ===== *)
theory Serv_Hash
  imports Hash_Table
begin

text \<open>
  The service name table of \<open>src/data/map/serv_hash.c\<close>: direct-index arrays for
  TCP and UDP ports and a hash table for everything else, and the refinement of
  the two representations to one map from port and protocol to a name.
\<close>

section \<open>Data\<close>

definition SERV_NUM_PORTS :: int where "SERV_NUM_PORTS = 65536"
definition OTHER_HASH_SIZE :: int where "OTHER_HASH_SIZE = 127"

record ip_service =
  port :: int
  protocol :: int

type_synonym other_table = "(nat, ip_service, string) hash_type"

record serv_table =
  tcp :: "string option list"
  udp :: "string option list"
  other :: other_table
  count :: int

section \<open>Operations\<close>

definition other_compare :: "ip_service \<Rightarrow> ip_service \<Rightarrow> bool" where
  "other_compare a b = (port a = port b \<and> protocol a = protocol b)"

text \<open>The \<open>int\<close> sum is converted to \<open>unsigned\<close> before the remainder is taken.\<close>

definition other_hash :: "ip_service \<Rightarrow> int" where
  "other_hash s = uint (word_of_int (port s * 31 + protocol s) :: u32) mod OTHER_HASH_SIZE"

definition other_copy_key :: "ip_service \<Rightarrow> ip_service" where
  "other_copy_key orig = orig"

definition other_hash_create :: other_table where
  "other_hash_create = hash_initialise
     \<lparr>compare = other_compare, hash = other_hash, copy_key = other_copy_key,
      table = [], size = OTHER_HASH_SIZE\<rparr>"

text \<open>Which array slot serves a port; \<open>None\<close> is the null pointer.\<close>

datatype slot_array = Tcp_Array | Udp_Array

definition serv_slot :: "int \<Rightarrow> int \<Rightarrow> (slot_array \<times> int) option" where
  "serv_slot p proto =
     (if p < 0 \<or> p \<ge> SERV_NUM_PORTS then None
      else if proto = 6 then Some (Tcp_Array, p)
      else if proto = 17 then Some (Udp_Array, p)
      else None)"

fun read_slot :: "serv_table \<Rightarrow> slot_array \<times> int \<Rightarrow> string option option" where
  "read_slot t (Tcp_Array, i) = rdi (tcp t) i"
| "read_slot t (Udp_Array, i) = rdi (udp t) i"

fun write_slot :: "serv_table \<Rightarrow> slot_array \<times> int \<Rightarrow> string option \<Rightarrow> serv_table option" where
  "write_slot t (Tcp_Array, i) v = do { xs \<leftarrow> wri (tcp t) i v; Some (t\<lparr>tcp := xs\<rparr>) }"
| "write_slot t (Udp_Array, i) v = do { xs \<leftarrow> wri (udp t) i v; Some (t\<lparr>udp := xs\<rparr>) }"

definition serv_table_create :: serv_table where
  "serv_table_create =
     \<lparr>tcp = replicate (nat SERV_NUM_PORTS) None, udp = replicate (nat SERV_NUM_PORTS) None,
      other = other_hash_create, count = 0\<rparr>"

text \<open>\<open>a\<close> is the address of the hash node, if one has to be allocated.\<close>

definition serv_table_insert ::
  "serv_table \<Rightarrow> nat \<Rightarrow> int \<Rightarrow> int \<Rightarrow> string \<Rightarrow> serv_table option" where
  "serv_table_insert t a p proto name = do {
     t \<leftarrow> (case serv_slot p proto of
         Some slot \<Rightarrow> write_slot t slot (Some name)
       | None \<Rightarrow> do {
           let key = \<lparr>port = p, protocol = proto\<rparr>;
           (st, existing) \<leftarrow> hash_find (other t) key;
           h \<leftarrow> (if st = HASH_STATUS_OK then do { (_, h) \<leftarrow> hash_delete (other t) key; Some h }
                 else Some (other t));
           (_, h) \<leftarrow> hash_insert h a key name;
           Some (t\<lparr>other := h\<rparr>) });
     Some (t\<lparr>count := count t + 1\<rparr>)
   }"

definition serv_table_lookup :: "serv_table \<Rightarrow> int \<Rightarrow> int \<Rightarrow> string option option" where
  "serv_table_lookup t p proto =
     (case serv_slot p proto of
        Some slot \<Rightarrow> read_slot t slot
      | None \<Rightarrow> do {
          (st, rec) \<leftarrow> hash_find (other t) \<lparr>port = p, protocol = proto\<rparr>;
          Some (if st = HASH_STATUS_OK then rec else None) })"

definition serv_table_delete :: "serv_table \<Rightarrow> int \<Rightarrow> int \<Rightarrow> (int \<times> serv_table) option" where
  "serv_table_delete t p proto =
     (case serv_slot p proto of
        Some slot \<Rightarrow> do {
          v \<leftarrow> read_slot t slot;
          if v = None then Some (0, t)
          else do {
            t \<leftarrow> write_slot t slot None;
            Some (1, t\<lparr>count := count t - 1\<rparr>) } }
      | None \<Rightarrow> do {
          let key = \<lparr>port = p, protocol = proto\<rparr>;
          (st, existing) \<leftarrow> hash_find (other t) key;
          if st = HASH_STATUS_OK then do {
            (_, h) \<leftarrow> hash_delete (other t) key;
            Some (1, t\<lparr>other := h, count := count t - 1\<rparr>) }
          else Some (0, t) })"

definition serv_table_count :: "serv_table \<Rightarrow> int" where
  "serv_table_count t = count t"

text \<open>
  What \<open>serv_table_destroy\<close> passes to \<open>free\<close>, in order: the slots of both arrays from port \<open>i\<close> on,
  null pointers included; then the names and the nodes of the hash table.
\<close>

fun free_slots :: "serv_table \<Rightarrow> nat \<Rightarrow> int \<Rightarrow> string option list option" where
  "free_slots t 0 i = Some []"
| "free_slots t (Suc n) i = do {
     u \<leftarrow> rdi (tcp t) i;
     v \<leftarrow> rdi (udp t) i;
     ps \<leftarrow> free_slots t n (i + 1);
     Some (u # v # ps) }"

definition serv_table_destroy :: "serv_table \<Rightarrow> (string option list \<times> nat list \<times> string list) option" where
  "serv_table_destroy t = do {
     ps \<leftarrow> free_slots t (nat SERV_NUM_PORTS) 0;
     (nds, recs, h) \<leftarrow> hash_delete_all_free (other t);
     let h = hash_destroy h;
     Some (ps, nds, recs) }"

text \<open>
  \<open>serv_table_init\<close> over the entries \<open>getservent\<close> yields: port, protocol name and
  service name. \<open>getprotobyname\<close> is the protocol database; each entry brings the
  node address its insertion may use.
\<close>

fun serv_table_init ::
  "(string \<Rightarrow> int option) \<Rightarrow> (nat \<times> int \<times> string \<times> string) list \<Rightarrow> serv_table \<Rightarrow> serv_table option"
where
  "serv_table_init getprotobyname [] t = Some t"
| "serv_table_init getprotobyname ((a, s_port, s_proto, s_name) # ents) t =
     (case getprotobyname s_proto of
        None \<Rightarrow> serv_table_init getprotobyname ents t
      | Some p_proto \<Rightarrow> do {
          t \<leftarrow> serv_table_insert t a s_port p_proto s_name;
          serv_table_init getprotobyname ents t })"

section \<open>The key contract\<close>

lemma other_hash_range: "0 \<le> other_hash s \<and> other_hash s < 127"
  by (simp add: other_hash_def OTHER_HASH_SIZE_def)

interpretation other: hash_keys other_compare other_hash other_copy_key 127 "\<lambda>_. True"
proof
  fix k k' :: ip_service
  assume "other_compare k k'"
  then show "other_hash k = other_hash k'" by (simp add: other_compare_def other_hash_def)
qed (use other_hash_range in \<open>auto simp: other_compare_def other_copy_key_def\<close>)

section \<open>Invariant and abstraction\<close>

definition serv_inv :: "serv_table \<Rightarrow> bool" where
  "serv_inv t \<longleftrightarrow> length (tcp t) = 65536 \<and> length (udp t) = 65536 \<and>
     hash_wf (\<lambda>_. True) (other t) \<and> hash_uniq (other t) \<and>
     hash_uses other_compare other_hash other_copy_key 127 (other t)"

definition serv_map :: "serv_table \<Rightarrow> int \<times> int \<Rightarrow> string option" where
  "serv_map t = (\<lambda>(p, proto).
     case serv_slot p proto of
       Some (Tcp_Array, i) \<Rightarrow> tcp t ! nat i
     | Some (Udp_Array, i) \<Rightarrow> udp t ! nat i
     | None \<Rightarrow> hash_map (other t) \<lparr>port = p, protocol = proto\<rparr>)"

definition serv_fresh :: "nat \<Rightarrow> serv_table \<Rightarrow> bool" where
  "serv_fresh a t \<longleftrightarrow> a \<notin> nd_addr ` set (nodes (other t))"

lemma serv_count_frame [simp]:
  "serv_map (t\<lparr>count := c\<rparr>) = serv_map t" "serv_inv (t\<lparr>count := c\<rparr>) = serv_inv t"
  by (auto simp: serv_map_def serv_inv_def fun_eq_iff split: option.split slot_array.split)

lemma serv_other_count_frame:
  "serv_map (t\<lparr>other := h, count := c\<rparr>) = serv_map (t\<lparr>other := h\<rparr>)"
  by (auto simp: serv_map_def fun_eq_iff split: option.split slot_array.split)

lemma serv_table_create_inv:
  "serv_inv serv_table_create" "serv_map serv_table_create = Map.empty"
  by (auto simp: serv_inv_def serv_table_create_def other_hash_create_def SERV_NUM_PORTS_def
      OTHER_HASH_SIZE_def hash_initialise_wf hash_initialise_uniq hash_uses_def
      serv_map_def serv_slot_def hash_initialise_map fun_eq_iff)
     (auto simp: hash_initialise_def)

lemma serv_slot_range:
  "serv_slot p proto = Some (arr, i) \<Longrightarrow> i = p \<and> 0 \<le> p \<and> p < 65536 \<and>
     proto = (case arr of Tcp_Array \<Rightarrow> 6 | Udp_Array \<Rightarrow> 17)"
  by (auto simp: serv_slot_def SERV_NUM_PORTS_def split: if_splits)

lemma serv_table_lookup_ok:
  assumes "serv_inv t"
  shows "serv_table_lookup t p proto = Some (serv_map t (p, proto))"
proof (cases "serv_slot p proto")
  case None
  with assms other.find_correct [of "other t" "\<lparr>port = p, protocol = proto\<rparr>"] show ?thesis
    by (auto simp: serv_table_lookup_def serv_map_def serv_inv_def split: option.split)
next
  case (Some s)
  then obtain arr i where "s = (arr, i)" by (cases s)
  with Some serv_slot_range [of p proto arr i] assms show ?thesis
    by (cases arr) (auto simp: serv_table_lookup_def serv_map_def serv_inv_def rdi_def)
qed

lemma serv_slot_inj:
  "serv_slot p proto = Some (arr, i) \<Longrightarrow> serv_slot p' proto' = Some (arr, j) \<Longrightarrow>
   nat i = nat j \<longleftrightarrow> (p', proto') = (p, proto)"
  using serv_slot_range [of p proto arr i] serv_slot_range [of p' proto' arr j] by auto

lemma serv_table_write:
  assumes inv: "serv_inv t" and slot: "serv_slot p proto = Some s"
  shows "\<exists>t'. write_slot t s v = Some t' \<and> serv_inv t' \<and>
           serv_map t' = (serv_map t)((p, proto) := v) \<and> count t' = count t"
proof (cases s)
  case (Pair arr i)
  note r = serv_slot_range [OF slot [unfolded Pair]]
  show ?thesis
  proof (cases arr)
    case Tcp_Array
    have "serv_map (t\<lparr>tcp := (tcp t)[nat i := v]\<rparr>) = (serv_map t)((p, proto) := v)"
    proof (rule ext, clarify)
      fix p' proto'
      show "serv_map (t\<lparr>tcp := (tcp t)[nat i := v]\<rparr>) (p', proto') =
              ((serv_map t)((p, proto) := v)) (p', proto')"
        using slot inv r serv_slot_inj [OF slot [unfolded Pair Tcp_Array], of p' proto']
        unfolding Pair Tcp_Array
        by (auto simp: serv_map_def serv_inv_def nth_list_update split: option.split slot_array.split)
    qed
    with inv r Pair Tcp_Array show ?thesis by (simp add: serv_inv_def wri_def)
  next
    case Udp_Array
    have "serv_map (t\<lparr>udp := (udp t)[nat i := v]\<rparr>) = (serv_map t)((p, proto) := v)"
    proof (rule ext, clarify)
      fix p' proto'
      show "serv_map (t\<lparr>udp := (udp t)[nat i := v]\<rparr>) (p', proto') =
              ((serv_map t)((p, proto) := v)) (p', proto')"
        using slot inv r serv_slot_inj [OF slot [unfolded Pair Udp_Array], of p' proto']
        unfolding Pair Udp_Array
        by (auto simp: serv_map_def serv_inv_def nth_list_update split: option.split slot_array.split)
    qed
    with inv r Pair Udp_Array show ?thesis by (simp add: serv_inv_def wri_def)
  qed
qed

lemma serv_map_other:
  assumes "serv_slot p proto = None"
    and "\<And>k'. hash_map h k' = (if other_compare \<lparr>port = p, protocol = proto\<rparr> k' then v
                                  else hash_map (other t) k')"
  shows "serv_map (t\<lparr>other := h\<rparr>) = (serv_map t)((p, proto) := v)"
  using assms
  by (auto simp: serv_map_def other_compare_def fun_eq_iff split: option.split slot_array.split)

lemma serv_table_insert_ok:
  assumes inv: "serv_inv t" and fresh: "serv_fresh a t"
  shows "\<exists>t'. serv_table_insert t a p proto name = Some t' \<and> serv_inv t' \<and>
           serv_map t' = (serv_map t)((p, proto) \<mapsto> name) \<and> count t' = count t + 1"
proof (cases "serv_slot p proto")
  case (Some s)
  from serv_table_write [OF inv Some, of "Some name"] Some show ?thesis
    by (auto simp: serv_table_insert_def)
next
  case None
  let ?k = "\<lparr>port = p, protocol = proto\<rparr>"
  from inv have h: "hash_wf (\<lambda>_. True) (other t)"
    "hash_uses other_compare other_hash other_copy_key 127 (other t)" "hash_uniq (other t)"
    by (auto simp: serv_inv_def)
  from fresh have fresh': "a \<notin> nd_addr ` set (nodes (other t))" by (simp add: serv_fresh_def)
  obtain h1 h2 where r:
    "hash_map (other t) ?k = None \<longrightarrow> h1 = other t"
    "hash_map (other t) ?k \<noteq> None \<longrightarrow> hash_delete (other t) ?k = Some (HASH_STATUS_OK, h1)"
    "hash_insert h1 a ?k name = Some (HASH_STATUS_OK, h2)"
    "hash_wf (\<lambda>_. True) h2" "hash_uses other_compare other_hash other_copy_key 127 h2" "hash_uniq h2"
    "\<forall>k'. True \<longrightarrow> hash_map h2 k' = (if other_compare ?k k' then Some name else hash_map (other t) k')"
    "length (nodes h2) = length (nodes (other t)) + (if hash_map (other t) ?k = None then 1 else 0)"
    "nd_addr ` set (nodes h2) \<subseteq> insert a (nd_addr ` set (nodes (other t)))"
    by (rule other.replace_correct [OF h TrueI fresh', of ?k name])
  have "serv_table_insert t a p proto name = Some (t\<lparr>other := h2, count := count t + 1\<rparr>)"
    using None r(1-3) other.find_correct [OF h(1,2) TrueI, of ?k]
    by (auto simp: serv_table_insert_def Let_def split: option.splits)
  moreover have "serv_map (t\<lparr>other := h2, count := count t + 1\<rparr>) =
      (serv_map t)((p, proto) \<mapsto> name)"
    using serv_map_other [OF None r(7) [rule_format, OF TrueI]] by (simp only: serv_other_count_frame)
  ultimately show ?thesis using inv r(4-6) by (simp add: serv_inv_def)
qed

lemma free_slots_ok:
  assumes "0 \<le> i" "nat i + n \<le> length (tcp t)" "nat i + n \<le> length (udp t)"
  shows "free_slots t n i = Some (concat (map (\<lambda>j. [tcp t ! j, udp t ! j]) [nat i ..< nat i + n]))"
  using assms
proof (induction n arbitrary: i)
  case (Suc n)
  then have "i < int (length (tcp t))" "i < int (length (udp t))" by linarith+
  with Suc show ?case using Suc.IH [of "i + 1"]
    by (simp add: rdi_def nat_add_distrib upt_conv_Cons del: upt_Suc)
qed simp

text \<open>
  \<open>serv_table_destroy\<close> reads every slot within the arrays and frees every name a lookup can
  find, and the node of each entry of the hash table once.
\<close>

lemma serv_table_destroy_ok:
  assumes "serv_inv t"
  shows "\<exists>ps. serv_table_destroy t = Some (ps, map nd_addr (nodes (other t)), map nd_record (nodes (other t))) \<and>
     ran (serv_map t) \<subseteq> {v. Some v \<in> set ps} \<union> nd_record ` set (nodes (other t))"
proof -
  define n where "n = nat SERV_NUM_PORTS"
  let ?ps = "concat (map (\<lambda>j. [tcp t ! j, udp t ! j]) [0..<n])"
  have len: "length (tcp t) = n" "length (udp t) = n" using assms by (simp_all add: serv_inv_def n_def SERV_NUM_PORTS_def)
  then have "free_slots t n 0 = Some ?ps" using free_slots_ok [of 0 n t] by simp
  then have "serv_table_destroy t = Some (?ps, map nd_addr (nodes (other t)), map nd_record (nodes (other t)))"
    using assms by (simp add: serv_table_destroy_def serv_inv_def hash_wf_def hash_delete_all_free_ok flip: n_def)
  moreover have "v \<in> {v. Some v \<in> set ?ps} \<union> nd_record ` set (nodes (other t))" if "serv_map t pp = Some v" for pp v
  proof (cases "serv_slot (fst pp) (snd pp)")
    case None
    with that obtain nd where "List.find (\<lambda>n. compare (other t) (nd_key n) \<lparr>port = fst pp, protocol = snd pp\<rparr>) (nodes (other t)) = Some nd"
      "nd_record nd = v" by (auto simp: serv_map_def hash_map_def split_beta)
    then show ?thesis by (auto simp: find_Some_iff)
  next
    case (Some sl)
    then obtain arr i where sl: "sl = (arr, i)" "0 \<le> i" "i < SERV_NUM_PORTS"
      by (auto simp: serv_slot_def split: if_splits)
    then have "nat i < n" by (simp add: n_def SERV_NUM_PORTS_def)
    with that Some sl show ?thesis
      by (cases arr) (force simp: serv_map_def split_beta simp del: upt_Suc)+
  qed
  ultimately show ?thesis by (intro exI [of _ ?ps]) (auto simp: ran_def)
qed

lemma serv_table_delete_ok:
  assumes inv: "serv_inv t"
  shows "\<exists>t'. serv_table_delete t p proto =
             Some (if serv_map t (p, proto) = None then 0 else 1, t') \<and> serv_inv t' \<and>
           serv_map t' = (serv_map t)((p, proto) := None) \<and>
           count t' = count t - (if serv_map t (p, proto) = None then 0 else 1)"
proof (cases "serv_slot p proto")
  case (Some s)
  then have rd: "read_slot t s = Some (serv_map t (p, proto))"
    using serv_table_lookup_ok [OF inv, of p proto] by (simp add: serv_table_lookup_def)
  show ?thesis
  proof (cases "serv_map t (p, proto)")
    case None
    with Some rd inv show ?thesis by (auto simp: serv_table_delete_def)
  next
    case (Some nm)
    from serv_table_write [OF inv \<open>serv_slot p proto = Some s\<close>, of None]
      \<open>serv_slot p proto = Some s\<close> rd Some show ?thesis
      by (auto simp: serv_table_delete_def)
  qed
next
  case None
  let ?k = "\<lparr>port = p, protocol = proto\<rparr>"
  from inv have h: "hash_wf (\<lambda>_. True) (other t)"
    "hash_uses other_compare other_hash other_copy_key 127 (other t)" "hash_uniq (other t)"
    by (auto simp: serv_inv_def)
  obtain h1 where d: "hash_delete (other t) ?k =
       Some (if hash_map (other t) ?k = None then HASH_STATUS_KEY_NOT_FOUND else HASH_STATUS_OK, h1)"
    "hash_wf (\<lambda>_. True) h1" "hash_uses other_compare other_hash other_copy_key 127 h1" "hash_uniq h1"
    "\<forall>k'. True \<longrightarrow> hash_map h1 k' = (if other_compare ?k k' then None else hash_map (other t) k')"
    "set (nodes h1) \<subseteq> set (nodes (other t))"
    "length (nodes (other t)) = length (nodes h1) + (if hash_map (other t) ?k = None then 0 else 1)"
    by (rule other.delete_correct [OF h TrueI, of ?k])
  have m: "serv_map t (p, proto) = hash_map (other t) ?k" using None by (simp add: serv_map_def)
  show ?thesis
  proof (cases "hash_map (other t) ?k")
    case none: None
    then show ?thesis
      using None m inv other.find_correct [OF h(1,2) TrueI, of ?k]
      by (auto simp: serv_table_delete_def Let_def)
  next
    case (Some nm)
    have "serv_table_delete t p proto = Some (1, t\<lparr>other := h1, count := count t - 1\<rparr>)"
      using None Some d(1) other.find_correct [OF h(1,2) TrueI, of ?k]
      by (simp add: serv_table_delete_def Let_def)
    moreover have "serv_map (t\<lparr>other := h1, count := count t - 1\<rparr>) =
        (serv_map t)((p, proto) := None)"
      using serv_map_other [OF None d(5) [rule_format, OF TrueI]] by (simp only: serv_other_count_frame)
    ultimately show ?thesis using inv d(2-4) m Some by (simp add: serv_inv_def)
  qed
qed

section \<open>Properties\<close>



text \<open>The counter of a service table counts insertions, not entries. Registering the
  same port twice counts two although the table maps one port, and deleting it then leaves
  a counter of one on a table that maps nothing.\<close>

theorem serv_table_count_overcounts:
  assumes "serv_inv t" and "serv_fresh a t" and "serv_slot p proto = Some s"
    and "serv_map t = Map.empty" and "serv_table_count t = 0"
  shows "\<exists>t1 t2 t3. serv_table_insert t a p proto n1 = Some t1 \<and>
           serv_table_insert t1 a p proto n2 = Some t2 \<and>
           dom (serv_map t2) = {(p, proto)} \<and> serv_table_count t2 = 2 \<and>
           serv_table_delete t2 p proto = Some (1, t3) \<and>
           serv_map t3 = Map.empty \<and> serv_table_count t3 = 1"
proof -
  from serv_table_insert_ok [OF assms(1,2)] obtain t1 where
    t1: "serv_table_insert t a p proto n1 = Some t1" "serv_inv t1"
      "serv_map t1 = (serv_map t)((p, proto) \<mapsto> n1)" "count t1 = count t + 1" by blast
  have "other t1 = other t"
    using t1(1) assms(3) by (cases s; cases "fst s") (auto simp: serv_table_insert_def split: bind_splits)
  with assms(2) have "serv_fresh a t1" by (simp add: serv_fresh_def)
  from serv_table_insert_ok [OF t1(2) this] obtain t2 where
    t2: "serv_table_insert t1 a p proto n2 = Some t2" "serv_inv t2"
      "serv_map t2 = (serv_map t1)((p, proto) \<mapsto> n2)" "count t2 = count t1 + 1" by blast
  from serv_table_delete_ok [OF t2(2), of p proto] obtain t3 where
    "serv_table_delete t2 p proto = Some (1, t3)" "serv_map t3 = (serv_map t2)((p, proto) := None)"
    "count t3 = count t2 - 1" using t2(3) by auto
  with t1 t2 assms(4,5) show ?thesis by (auto simp: serv_table_count_def)
qed

theorem serv_table_count_overcounts_witness:
  "\<exists>t1 t2 t3. serv_table_insert serv_table_create 0 80 6 ''http'' = Some t1 \<and>
     serv_table_insert t1 0 80 6 ''www'' = Some t2 \<and>
     dom (serv_map t2) = {(80, 6)} \<and> serv_table_count t2 = 2 \<and>
     serv_table_delete t2 80 6 = Some (1, t3) \<and>
     serv_map t3 = Map.empty \<and> serv_table_count t3 = 1"
proof (rule serv_table_count_overcounts [OF serv_table_create_inv(1) _ _ serv_table_create_inv(2)])
  show "serv_fresh 0 serv_table_create"
    by (simp add: serv_fresh_def serv_table_create_def other_hash_create_def)
  show "serv_slot 80 6 = Some (Tcp_Array, 80)" by (simp add: serv_slot_def SERV_NUM_PORTS_def)
  show "serv_table_count serv_table_create = 0"
    by (simp add: serv_table_count_def serv_table_create_def)
qed

end
