(* ===== verification/Pool.thy ===== *)
theory Pool
  imports Prelude
begin

text \<open>
  The contract of the block allocators: \<open>pool_alloc\<close> and \<open>pool_free\<close> of
  \<open>src/data/map/addr_hash.c\<close>, and \<open>history_create\<close> and \<open>history_free\<close> of
  \<open>src/entry/iftop.c\<close>. The two are separate copies of one algorithm; each is
  modelled in the theory of its component and interprets the locale here. An
  item's address is its block and its index in the block.
\<close>

type_synonym pool_addr = "nat \<times> nat"

text \<open>
  The chain a fresh block is threaded into, from item \<open>i\<close> on: each item points to
  the next one and the last one to \<open>NULL\<close>.
\<close>

function chain_items :: "nat \<Rightarrow> nat \<Rightarrow> nat \<Rightarrow> pool_addr list" where
  "chain_items n b i = (if i < n - 1 then (b, i) # chain_items n b (i + 1) else [(b, i)])"
  by pat_completeness auto
termination
  by (relation "measure (\<lambda>(n, b, i). n - i)") auto

declare chain_items.simps [simp del]

lemma chain_items_eq: "i < n \<Longrightarrow> chain_items n b i = map (Pair b) [i..<n]"
proof (induction n b i rule: chain_items.induct)
  case (1 n b i)
  show ?case
  proof (cases "i < n - 1")
    case True
    with 1 show ?thesis by (simp add: chain_items.simps [of n b i] upt_conv_Cons)
  next
    case False
    with 1 have "n = Suc i" by linarith
    with False show ?thesis by (subst chain_items.simps) simp
  qed
qed

text \<open>
  Bookkeeping of a pool with \<open>blocks\<close> blocks of \<open>n\<close> items: the free list holds no
  item twice, and every item is either free or live, never both.
\<close>

definition pool_split :: "nat \<Rightarrow> nat \<Rightarrow> pool_addr list \<Rightarrow> pool_addr set \<Rightarrow> bool" where
  "pool_split n blocks fl live \<longleftrightarrow>
     distinct fl \<and> set fl \<inter> live = {} \<and> set fl \<union> live = {..<blocks} \<times> {..<n}"

lemma pool_split_take:
  "pool_split n blocks (a # fl) live \<Longrightarrow> a \<notin> live \<and> pool_split n blocks fl (insert a live)"
  by (auto simp: pool_split_def)

lemma pool_split_give:
  "pool_split n blocks fl live \<Longrightarrow> a \<in> live \<Longrightarrow> pool_split n blocks (a # fl) (live - {a})"
  by (auto simp: pool_split_def)

lemma pool_split_grow:
  assumes "pool_split n blocks [] live" "1 < n"
  shows "(blocks, 0) \<notin> live \<and>
         pool_split n (Suc blocks) (chain_items n blocks 1) (insert (blocks, 0) live)"
proof -
  from assms have live: "live = {..<blocks} \<times> {..<n}" by (auto simp: pool_split_def)
  have "set (chain_items n blocks 1) = {blocks} \<times> {1..<n}"
    using assms(2) by (auto simp: chain_items_eq)
  moreover have "distinct (chain_items n blocks 1)"
    using assms(2) by (simp add: chain_items_eq distinct_map inj_on_def)
  moreover have "{blocks} \<times> {1..<n} \<union> insert (blocks, 0) ({..<blocks} \<times> {..<n}) =
      {..<Suc blocks} \<times> {..<n}"
  proof -
    have "{..<n} = insert 0 {1..<n}" using assms(2) by auto
    then show ?thesis unfolding lessThan_Suc by blast
  qed
  moreover have "{blocks} \<times> {1..<n} \<inter> insert (blocks, 0) ({..<blocks} \<times> {..<n}) = {}"
    by auto
  ultimately show ?thesis unfolding pool_split_def live by simp
qed

locale block_pool =
  fixes alloc :: "'p \<Rightarrow> 'a \<times> 'p"
    and free :: "'a \<Rightarrow> 'p \<Rightarrow> 'p"
    and inv :: "'p \<Rightarrow> 'a set \<Rightarrow> bool"
  assumes alloc_fresh: "inv p live \<Longrightarrow> alloc p = (a, p') \<Longrightarrow> a \<notin> live \<and> inv p' (insert a live)"
    and free_inv: "inv p live \<Longrightarrow> a \<in> live \<Longrightarrow> inv (free a p) (live - {a})"
    and alloc_free: "fst (alloc (free a p)) = a"
begin

lemma free_all_inv:
  "inv p live \<Longrightarrow> distinct as \<Longrightarrow> set as \<subseteq> live \<Longrightarrow> inv (fold free as p) (live - set as)"
proof (induction as arbitrary: p live)
  case (Cons a as)
  then have "inv (free a p) (live - {a})" by (simp add: free_inv)
  moreover from Cons.prems have "set as \<subseteq> live - {a}" by auto
  ultimately have "inv (fold free as (free a p)) (live - {a} - set as)"
    using Cons.prems(2) by (intro Cons.IH) auto
  moreover have "live - {a} - set as = live - set (a # as)" by auto
  ultimately show ?case by simp
qed simp

text \<open>Two allocations in a row never return the same item.\<close>

lemma alloc_twice:
  "inv p live \<Longrightarrow> alloc p = (a, p') \<Longrightarrow> alloc p' = (b, p'') \<Longrightarrow>
     a \<noteq> b \<and> a \<notin> live \<and> b \<notin> live \<and> inv p'' (insert b (insert a live))"
  using alloc_fresh [of p live a p'] alloc_fresh [of p' "insert a live" b p''] by auto

text \<open>
  Memory is recycled: allocating after a release returns the released item, and the
  live items are what they were.
\<close>

lemma recycle:
  "inv p live \<Longrightarrow> a \<in> live \<Longrightarrow> alloc (free a p) = (b, p') \<Longrightarrow> b = a \<and> inv p' live"
  using alloc_free [of a p] alloc_fresh [OF free_inv, of p live a b p']
  by (auto simp: insert_absorb)

end

end
