(* ===== verification/Addr_Hash.thy ===== *)
theory Addr_Hash
  imports Hash_Table Pool
begin

text \<open>
  The connection table of \<open>src/data/map/addr_hash.c\<close>: the key \<open>addr_pair\<close>, its
  hash, the pool that nodes are allocated from, and the fast-path operations that
  bypass the function pointers of the generic table. The key functions interpret
  \<open>hash_keys\<close>, the pool interprets \<open>block_pool\<close>, and the fast-path operations are shown
  equal to the generic ones.
\<close>

section \<open>Data\<close>

text \<open>
  \<open>pad\<close> is the two bytes the compiler leaves between \<open>dst_port\<close> and the second
  union, which \<open>memcmp\<close> over the whole struct does read. Every \<open>addr_pair\<close> starts
  from a \<open>memset\<close> to zero, and struct assignment copies all forty-four bytes.
\<close>

record addr_pair =
  address_family :: int
  protocol :: u16
  src_port :: u16
  src6 :: bytes
  dst_port :: u16
  pad :: u16
  dst6 :: bytes

definition addr_pair_zero :: addr_pair where
  "addr_pair_zero = \<lparr>address_family = 0, protocol = 0, src_port = 0, src6 = replicate 16 0,
     dst_port = 0, pad = 0, dst6 = replicate 16 0\<rparr>"

text \<open>The IPv4 view of the unions: the first four bytes as one 32-bit load.\<close>

definition src_s_addr :: "addr_pair \<Rightarrow> u32" where
  "src_s_addr ap = load_le32 (src6 ap) 0"

definition dst_s_addr :: "addr_pair \<Rightarrow> u32" where
  "dst_s_addr ap = load_le32 (dst6 ap) 0"

definition hash_table_size :: int where "hash_table_size = 2048"
definition POOL_BLOCK_SIZE :: nat where "POOL_BLOCK_SIZE = 256"

record node_pool =
  pool_blocks :: "nat list"
  free_list :: "pool_addr list"

type_synonym 'r addr_table = "(pool_addr, addr_pair, 'r) hash_type"

section \<open>The node pool\<close>

definition pool_alloc :: "node_pool \<Rightarrow> pool_addr \<times> node_pool" where
  "pool_alloc p =
     (case free_list p of
        nkp # rest \<Rightarrow> (nkp, p\<lparr>free_list := rest\<rparr>)
      | [] \<Rightarrow>
          let block = length (pool_blocks p) in
          ((block, 0), \<lparr>pool_blocks = block # pool_blocks p,
                        free_list = chain_items POOL_BLOCK_SIZE block 1\<rparr>))"

definition pool_free :: "pool_addr \<Rightarrow> node_pool \<Rightarrow> node_pool" where
  "pool_free nkp p = p\<lparr>free_list := nkp # free_list p\<rparr>"

definition pool_empty :: node_pool where
  "pool_empty = \<lparr>pool_blocks = [], free_list = []\<rparr>"

section \<open>Hash and comparison\<close>

definition hash_mix :: "u32 \<Rightarrow> u32 \<Rightarrow> u32" where
  "hash_mix hash_val val =
     (let hash_val = hash_val XOR val;
          hash_val = push_bit 5 hash_val OR drop_bit 27 hash_val
      in hash_val * 0x9e3779b9)"

definition addr_hash_bucket :: "addr_pair \<Rightarrow> int" where
  "addr_hash_bucket pair =
     (let hash_val = 0;
          hash_val =
           (if address_family pair = AF_INET6 then
              let hash_val = hash_mix hash_val (load_le32 (src6 pair) 0);
                  hash_val = hash_mix hash_val (load_le32 (src6 pair) 4);
                  hash_val = hash_mix hash_val (load_le32 (src6 pair) 8);
                  hash_val = hash_mix hash_val (load_le32 (src6 pair) 12);
                  hash_val = hash_mix hash_val (ucast (src_port pair));
                  hash_val = hash_mix hash_val (load_le32 (dst6 pair) 0);
                  hash_val = hash_mix hash_val (load_le32 (dst6 pair) 4);
                  hash_val = hash_mix hash_val (load_le32 (dst6 pair) 8);
                  hash_val = hash_mix hash_val (load_le32 (dst6 pair) 12)
              in hash_mix hash_val (ucast (dst_port pair))
            else
              let hash_val = hash_mix hash_val (src_s_addr pair);
                  hash_val = hash_mix hash_val (ucast (src_port pair));
                  hash_val = hash_mix hash_val (dst_s_addr pair)
              in hash_mix hash_val (ucast (dst_port pair)))
      in uint (hash_val AND (2048 - 1)))"

text \<open>\<open>memcmp\<close> of the whole struct.\<close>

definition addr_compare :: "addr_pair \<Rightarrow> addr_pair \<Rightarrow> bool" where
  "addr_compare lhs rhs = (lhs = rhs)"

definition addr_copy_key :: "addr_pair \<Rightarrow> addr_pair" where
  "addr_copy_key orig = orig"

section \<open>Operations\<close>

definition addr_hash_find ::
  "'r addr_table \<Rightarrow> addr_pair \<Rightarrow> (hash_status_enum \<times> 'r option) option" where
  "addr_hash_find hash_table key = do {
     let bucket = addr_hash_bucket key;
     chain \<leftarrow> rdi (table hash_table) bucket;
     (case chain_find (\<lambda>node. addr_compare (nd_key node) key) chain of
        Some node \<Rightarrow> Some (HASH_STATUS_OK, Some (nd_record node))
      | None \<Rightarrow> Some (HASH_STATUS_KEY_NOT_FOUND, None))
   }"

definition addr_hash_insert ::
  "'r addr_table \<Rightarrow> node_pool \<Rightarrow> addr_pair \<Rightarrow> 'r
     \<Rightarrow> (hash_status_enum \<times> 'r addr_table \<times> node_pool) option" where
  "addr_hash_insert hash_table pool key rec = do {
     let bucket = addr_hash_bucket key;
     let (nkp, pool) = pool_alloc pool;
     prev \<leftarrow> rdi (table hash_table) bucket;
     let node = \<lparr>nd_addr = nkp, nd_key = key, nd_record = rec, nd_bucket = bucket\<rparr>;
     tb \<leftarrow> wri (table hash_table) bucket (node # prev);
     Some (HASH_STATUS_OK, hash_table\<lparr>table := tb\<rparr>, pool)
   }"

definition addr_hash_delete_node ::
  "'r addr_table \<Rightarrow> node_pool \<Rightarrow> pool_addr \<Rightarrow> ('r addr_table \<times> node_pool) option" where
  "addr_hash_delete_node hash_table pool target = do {
     (tnode, _) \<leftarrow> deref (table hash_table) target;
     let bucket = nd_bucket tnode;
     chain \<leftarrow> rdi (table hash_table) bucket;
     (case chain_unlink (\<lambda>node. nd_addr node = target) chain of
        None \<Rightarrow> Some (hash_table, pool)
      | Some (node, rest) \<Rightarrow> do {
          tb \<leftarrow> wri (table hash_table) bucket rest;
          Some (hash_table\<lparr>table := tb\<rparr>, pool_free (nd_addr node) pool) })
   }"

text \<open>The records given to \<open>free\<close> are returned in order.\<close>

definition addr_hash_delete_all_free ::
  "'r addr_table \<Rightarrow> node_pool \<Rightarrow> ('r list \<times> 'r addr_table \<times> node_pool) option" where
  "addr_hash_delete_all_free hash_table pool = do {
     freed \<leftarrow> free_chains hash_table 0;
     tb \<leftarrow> memset (table hash_table) 0 [] (nat (size hash_table));
     Some (map nd_record freed, hash_table\<lparr>table := tb\<rparr>,
           fold (\<lambda>node. pool_free (nd_addr node)) freed pool)
   }"

definition addr_hash_create :: "'r addr_table" where
  "addr_hash_create = hash_initialise
     \<lparr>compare = addr_compare, hash = addr_hash_bucket, copy_key = addr_copy_key,
      table = [], size = hash_table_size\<rparr>"

section \<open>The pool contract\<close>

definition pool_inv :: "node_pool \<Rightarrow> pool_addr set \<Rightarrow> bool" where
  "pool_inv p live \<longleftrightarrow> pool_split POOL_BLOCK_SIZE (length (pool_blocks p)) (free_list p) live"

lemma pool_empty_inv: "pool_inv pool_empty {}"
  by (simp add: pool_inv_def pool_empty_def pool_split_def)

interpretation node_pool: block_pool pool_alloc pool_free pool_inv
proof
  fix p live a p'
  assume inv: "pool_inv p live" and al: "pool_alloc p = (a, p')"
  show "a \<notin> live \<and> pool_inv p' (insert a live)"
  proof (cases "free_list p")
    case Nil
    with inv pool_split_grow [of POOL_BLOCK_SIZE "length (pool_blocks p)" live] al show ?thesis
      by (auto simp: pool_inv_def pool_alloc_def POOL_BLOCK_SIZE_def Let_def)
  next
    case (Cons b rest)
    with inv pool_split_take [of _ _ b rest live] al show ?thesis
      by (auto simp: pool_inv_def pool_alloc_def)
  qed
qed (auto simp: pool_inv_def pool_free_def pool_alloc_def intro: pool_split_give)

section \<open>The key contract\<close>

definition addr_pair_ok :: "addr_pair \<Rightarrow> bool" where
  "addr_pair_ok ap \<longleftrightarrow> length (src6 ap) = 16 \<and> length (dst6 ap) = 16"

lemma addr_pair_zero_ok: "addr_pair_ok addr_pair_zero"
  by (simp add: addr_pair_ok_def addr_pair_zero_def)

lemma and_mask_range: "uint (w AND (2048 - 1) :: u32) < 2048"
proof -
  have "w AND (2048 - 1) \<le> (2047 :: u32)" by (simp add: word_and_le1)
  then show ?thesis by (simp add: word_le_def)
qed

lemma addr_hash_range: "0 \<le> addr_hash_bucket ap \<and> addr_hash_bucket ap < 2048"
  unfolding addr_hash_bucket_def Let_def using and_mask_range by simp

interpretation addr: hash_keys addr_compare addr_hash_bucket addr_copy_key 2048 addr_pair_ok
  by unfold_locales (use addr_hash_range in \<open>auto simp: addr_compare_def addr_copy_key_def\<close>)

section \<open>Fast path and generic table\<close>

lemma addr_hash_find_eq:
  assumes "hash_uses addr_compare addr_hash_bucket addr_copy_key 2048 ht"
  shows "addr_hash_find ht key = hash_find ht key"
  using assms
  by (simp add: addr_hash_find_def hash_find_def hash_uses_def Let_def option.case_eq_if cong: option.case_cong)

lemma addr_hash_insert_eq:
  assumes "hash_uses addr_compare addr_hash_bucket addr_copy_key 2048 ht"
    and "pool_alloc p = (a, p')"
  shows "addr_hash_insert ht p key r =
           map_option (\<lambda>(st, ht'). (st, ht', p')) (hash_insert ht a key r)"
  using assms
  by (simp add: addr_hash_insert_def hash_insert_def hash_uses_def addr_copy_key_def Let_def
      map_option_bind split: bind_splits)

lemma addr_hash_delete_node_eq:
  "addr_hash_delete_node ht p a =
     map_option (\<lambda>(st, ht'). (ht', if st = HASH_STATUS_OK then pool_free a p else p))
       (hash_delete_node ht a)"
proof (cases "deref (table ht) a")
  case (Some x)
  then obtain n rest where x: "x = (n, rest)" by (cases x)
  show ?thesis
  proof (cases "rdi (table ht) (nd_bucket n)")
    case (Some chain)
    show ?thesis
    proof (cases "chain_unlink (\<lambda>m. nd_addr m = a) chain")
      case (Some y)
      then obtain m post where y: "y = (m, post)" by (cases y)
      with Some have "nd_addr m = a" using chain_unlink_Some by fastforce
      with Some y x \<open>rdi _ _ = _\<close> \<open>deref _ _ = _\<close> show ?thesis
        by (cases "wri (table ht) (nd_bucket n) post")
           (simp_all add: addr_hash_delete_node_def hash_delete_node_def)
    qed (use x Some \<open>deref _ _ = _\<close> in \<open>simp add: addr_hash_delete_node_def hash_delete_node_def\<close>)
  qed (use x Some in \<open>simp add: addr_hash_delete_node_def hash_delete_node_def\<close>)
qed (simp add: addr_hash_delete_node_def hash_delete_node_def)

section \<open>Tables over one pool\<close>

text \<open>
  Invariant of a connection table whose nodes come from a pool; \<open>rest\<close> are the live
  nodes of the other tables that share the pool. \<open>history\<close> and \<open>screen_hash\<close> do.
\<close>

definition node_addrs :: "'r addr_table \<Rightarrow> pool_addr set" where
  "node_addrs ht = nd_addr ` set (nodes ht)"

definition addr_inv :: "'r addr_table \<Rightarrow> node_pool \<Rightarrow> pool_addr set \<Rightarrow> bool" where
  "addr_inv ht p rest \<longleftrightarrow>
     hash_wf addr_pair_ok ht \<and> hash_uniq ht \<and>
     hash_uses addr_compare addr_hash_bucket addr_copy_key 2048 ht \<and>
     node_addrs ht \<inter> rest = {} \<and> pool_inv p (node_addrs ht \<union> rest)"

lemma addr_invD:
  assumes "addr_inv ht p rest"
  shows "hash_wf addr_pair_ok ht" "hash_uniq ht"
    "hash_uses addr_compare addr_hash_bucket addr_copy_key 2048 ht"
    "hash_shape ht" "node_addrs ht \<inter> rest = {}" "pool_inv p (node_addrs ht \<union> rest)"
  using assms by (auto simp: addr_inv_def hash_wf_def)

lemma addr_hash_create_ok:
  assumes "pool_inv p rest"
  shows "addr_inv (addr_hash_create :: 'r addr_table) p rest"
    "nodes (addr_hash_create :: 'r addr_table) = []"
    "hash_map (addr_hash_create :: 'r addr_table) = Map.empty"
  using assms
  by (auto simp: addr_inv_def addr_hash_create_def hash_initialise_wf hash_initialise_uniq
      hash_initialise_map hash_uses_def hash_table_size_def node_addrs_def)
     (simp_all add: hash_initialise_def)

lemma addr_hash_find_ok:
  assumes "addr_inv ht p rest" "addr_pair_ok k"
  shows "addr_hash_find ht k = Some (case hash_map ht k of
           None \<Rightarrow> (HASH_STATUS_KEY_NOT_FOUND, None) | Some r \<Rightarrow> (HASH_STATUS_OK, Some r))"
  using addr.find_correct [OF addr_invD(1,3) [OF assms(1)] assms(2)]
  by (simp add: addr_hash_find_eq [OF addr_invD(3) [OF assms(1)]])

lemma addr_hash_insert_ok:
  assumes inv: "addr_inv ht p rest" and k: "addr_pair_ok k" and none: "hash_map ht k = None"
  obtains a ht' p' where
    "addr_hash_insert ht p k r = Some (HASH_STATUS_OK, ht', p')" "addr_inv ht' p' rest"
    "\<forall>k'. addr_pair_ok k' \<longrightarrow> hash_map ht' k' = (if k = k' then Some r else hash_map ht k')"
    "mset (nodes ht') = mset (nodes ht) +
       {# \<lparr>nd_addr = a, nd_key = k, nd_record = r, nd_bucket = addr_hash_bucket k\<rparr> #}"
proof -
  note i = addr_invD [OF inv]
  obtain a p' where al: "pool_alloc p = (a, p')" by (cases "pool_alloc p")
  from node_pool.alloc_fresh [OF i(6) al]
  have a: "a \<notin> node_addrs ht \<union> rest" "pool_inv p' (insert a (node_addrs ht \<union> rest))" by auto
  then have fresh: "a \<notin> nd_addr ` set (nodes ht)" by (simp add: node_addrs_def)
  obtain ht' where h: "hash_insert ht a k r = Some (HASH_STATUS_OK, ht')"
    "hash_wf addr_pair_ok ht'" "hash_uses addr_compare addr_hash_bucket addr_copy_key 2048 ht'"
    "mset (nodes ht') = mset (nodes ht) +
       {# \<lparr>nd_addr = a, nd_key = addr_copy_key k, nd_record = r, nd_bucket = addr_hash_bucket k\<rparr> #}"
    "\<forall>k'. addr_pair_ok k' \<longrightarrow> hash_map ht' k' = (if addr_compare k k' then Some r else hash_map ht k')"
    "hash_uniq ht \<longrightarrow> hash_map ht k = None \<longrightarrow> hash_uniq ht'"
    by (rule addr.insert_correct [OF i(1,3) k fresh, of r])
  have "set (nodes ht') = insert \<lparr>nd_addr = a, nd_key = addr_copy_key k, nd_record = r,
      nd_bucket = addr_hash_bucket k\<rparr> (set (nodes ht))"
    using arg_cong [OF h(4), of set_mset] by simp
  then have na: "node_addrs ht' = insert a (node_addrs ht)" by (simp add: node_addrs_def)
  have "addr_inv ht' p' rest"
    using h(2,3,6) i(2,5) none a na by (auto simp: addr_inv_def)
  moreover have "addr_hash_insert ht p k r = Some (HASH_STATUS_OK, ht', p')"
    by (simp add: addr_hash_insert_eq [OF i(3) al] h(1))
  ultimately show thesis
    using h(4,5) by (intro that [of ht' p' a]) (auto simp: addr_compare_def addr_copy_key_def)
qed

lemma addr_hash_delete_node_ok:
  assumes inv: "addr_inv ht p rest" and split: "nodes ht = pre @ n # post"
  obtains ht' where
    "addr_hash_delete_node ht p (nd_addr n) = Some (ht', pool_free (nd_addr n) p)"
    "addr_inv ht' (pool_free (nd_addr n) p) rest" "nodes ht' = pre @ post"
proof -
  note i = addr_invD [OF inv]
  from hash_delete_node_ok [OF i(4) split] obtain j x y where
    d: "j < length (table ht)" "table ht ! j = x @ n # y"
       "hash_delete_node ht (nd_addr n) = Some (HASH_STATUS_OK, ht\<lparr>table := (table ht)[j := x @ y]\<rparr>)"
       "nodes (ht\<lparr>table := (table ht)[j := x @ y]\<rparr>) = pre @ post" by blast
  define ht' where "ht' = ht\<lparr>table := (table ht)[j := x @ y]\<rparr>"
  have nd: "nodes ht' = pre @ post" using d(4) by (simp add: ht'_def)
  from i(4) split have "nd_addr n \<notin> nd_addr ` set (pre @ post)" by (auto simp: hash_shape_def)
  then have na: "node_addrs ht' = node_addrs ht - {nd_addr n}" "nd_addr n \<in> node_addrs ht"
    by (auto simp: node_addrs_def nd split)
  from node_pool.free_inv [OF i(6), of "nd_addr n"] na
  have "pool_inv (pool_free (nd_addr n) p) (node_addrs ht \<union> rest - {nd_addr n})" by auto
  moreover have "node_addrs ht \<union> rest - {nd_addr n} = node_addrs ht' \<union> rest"
    using na i(5) by auto
  ultimately have "pool_inv (pool_free (nd_addr n) p) (node_addrs ht' \<union> rest)" by simp
  moreover have "hash_wf addr_pair_ok ht'"
    unfolding ht'_def by (rule hash_wf_unlink [OF i(1) d(1,2)])
  moreover have "hash_uniq ht'"
    using i(2) nd split by (auto simp: hash_uniq_def ht'_def sorted_wrt_append)
  ultimately have "addr_inv ht' (pool_free (nd_addr n) p) rest"
    using na i(3,5) by (auto simp: addr_inv_def ht'_def)
  with nd d(3) show thesis
    by (intro that [of ht']) (simp_all add: addr_hash_delete_node_eq ht'_def)
qed

lemma addr_hash_delete_all_free_ok:
  assumes inv: "addr_inv ht p rest"
  obtains p' where
    "addr_hash_delete_all_free ht p = Some (map nd_record (nodes ht), hash_initialise ht, p')"
    "addr_inv (hash_initialise ht) p' rest"
proof -
  note i = addr_invD [OF inv]
  let ?p = "fold pool_free (map nd_addr (nodes ht)) p"
  from i(3) have size: "hash_type.size ht = 2048" by (simp add: hash_uses_def)
  have "pool_inv ?p (node_addrs ht \<union> rest - set (map nd_addr (nodes ht)))"
    using i(4,6) by (intro node_pool.free_all_inv) (auto simp: hash_shape_def node_addrs_def)
  moreover have "node_addrs ht \<union> rest - set (map nd_addr (nodes ht)) = rest"
    using i(5) by (auto simp: node_addrs_def)
  ultimately have "addr_inv (hash_initialise ht) ?p rest"
    using i size by (auto simp: addr_inv_def hash_initialise_wf hash_initialise_uniq node_addrs_def)
  moreover have "addr_hash_delete_all_free ht p =
      Some (map nd_record (nodes ht), hash_initialise ht, ?p)"
    using i(4) free_chains_ok [of ht 0]
    by (simp add: addr_hash_delete_all_free_def hash_initialise_def hash_shape_def nodes_def
        memset_def fold_map comp_def)
  ultimately show thesis by (rule that [rotated])
qed

section \<open>Properties\<close>

text \<open>C14: the specialised operations of the connection table compute exactly what the
  generic hash table computes with the same key functions: the same search result, the same
  chains after an insertion at the address the pool hands out, and the same chains after the
  removal of a node, which the pool gets back exactly when the generic removal succeeds.\<close>

theorem addr_fast_path_equiv:
  assumes "hash_uses addr_compare addr_hash_bucket addr_copy_key 2048 ht"
  shows "addr_hash_find ht k = hash_find ht k \<and>
         addr_hash_insert ht p k r =
           map_option (\<lambda>(st, ht'). (st, ht', snd (pool_alloc p))) (hash_insert ht (fst (pool_alloc p)) k r) \<and>
         addr_hash_delete_node ht p a =
           map_option (\<lambda>(st, ht'). (ht', if st = HASH_STATUS_OK then pool_free a p else p))
             (hash_delete_node ht a)"
  using addr_hash_find_eq [OF assms] addr_hash_insert_eq [OF assms prod.collapse [symmetric]]
    addr_hash_delete_node_eq by blast

theorem addr_fast_path_equiv_witness:
  "addr_hash_find (addr_hash_create :: nat addr_table) addr_pair_zero =
     hash_find addr_hash_create addr_pair_zero"
proof -
  have "hash_uses addr_compare addr_hash_bucket addr_copy_key 2048 (addr_hash_create :: nat addr_table)"
    by (simp add: hash_uses_def addr_hash_create_def hash_initialise_def hash_table_size_def)
  from addr_fast_path_equiv [OF this] show ?thesis by blast
qed

text \<open>C7: a connection table that shares its node pool with other tables is a finite map.
  Looking a key up returns the map's value; inserting an absent key updates the map at that
  key only and takes a node that no table uses; removing a node removes exactly that node;
  clearing the table hands back every record it held. Each operation keeps the invariant,
  under which no node is both free and in use or in use by two tables.\<close>

theorem addr_table_refines_map:
  assumes "addr_inv ht p rest" and "addr_pair_ok k"
  shows "addr_hash_find ht k = Some (case hash_map ht k of
            None \<Rightarrow> (HASH_STATUS_KEY_NOT_FOUND, None) | Some v \<Rightarrow> (HASH_STATUS_OK, Some v)) \<and>
         (hash_map ht k = None \<longrightarrow> (\<exists>ht' p'. addr_hash_insert ht p k r = Some (HASH_STATUS_OK, ht', p') \<and>
            addr_inv ht' p' rest \<and>
            (\<forall>k'. addr_pair_ok k' \<longrightarrow> hash_map ht' k' = (if k = k' then Some r else hash_map ht k')))) \<and>
         (\<forall>pre n post. nodes ht = pre @ n # post \<longrightarrow>
            (\<exists>ht' p'. addr_hash_delete_node ht p (nd_addr n) = Some (ht', p') \<and>
               addr_inv ht' p' rest \<and> nodes ht' = pre @ post)) \<and>
         (\<exists>ht' p'. addr_hash_delete_all_free ht p = Some (map nd_record (nodes ht), ht', p') \<and>
            addr_inv ht' p' rest \<and> nodes ht' = [])"
proof (intro conjI allI impI)
  assume "hash_map ht k = None"
  from addr_hash_insert_ok [OF assms this, of r]
  show "\<exists>ht' p'. addr_hash_insert ht p k r = Some (HASH_STATUS_OK, ht', p') \<and>
      addr_inv ht' p' rest \<and>
      (\<forall>k'. addr_pair_ok k' \<longrightarrow> hash_map ht' k' = (if k = k' then Some r else hash_map ht k'))"
    by metis
next
  fix pre n post
  assume "nodes ht = pre @ n # post"
  from addr_hash_delete_node_ok [OF assms(1) this]
  show "\<exists>ht' p'. addr_hash_delete_node ht p (nd_addr n) = Some (ht', p') \<and>
      addr_inv ht' p' rest \<and> nodes ht' = pre @ post" by metis
next
  from addr_hash_delete_all_free_ok [OF assms(1)]
  show "\<exists>ht' p'. addr_hash_delete_all_free ht p = Some (map nd_record (nodes ht), ht', p') \<and>
      addr_inv ht' p' rest \<and> nodes ht' = []" by (metis hash_initialise_nodes)
qed (rule addr_hash_find_ok [OF assms])

theorem addr_table_refines_map_witness:
  "\<exists>ht' p'. addr_hash_insert addr_hash_create pool_empty addr_pair_zero (7 :: nat) =
     Some (HASH_STATUS_OK, ht', p') \<and> addr_inv ht' p' {} \<and>
     hash_map ht' addr_pair_zero = Some 7"
proof -
  note c = addr_hash_create_ok [where 'r = nat, OF pool_empty_inv]
  from addr_table_refines_map [OF c(1) addr_pair_zero_ok, of 7, THEN conjunct2, THEN conjunct1]
  show ?thesis using c(3) addr_pair_zero_ok by auto
qed

end
