(* ===== verification/History.thy ===== *)
theory History
  imports Addr_Hash
begin

text \<open>
  Flow accounting of \<open>src/entry/iftop.c\<close>: the ring of \<open>HISTORY_LENGTH\<close> slots kept
  for every connection, the pool the records come from, and \<open>history_rotate\<close>, which
  moves to the next slot, clears it and drops the connections that were last written
  a full turn ago.

  The table maps a connection to the address of its record, and the records live in
  a store of their own, as in the C program. Reading a record that has been given
  back to the pool is undefined behaviour. A \<open>long\<close> byte count of one slot is an
  \<open>int\<close>; the \<open>unsigned long long\<close> totals wrap at 64 bits.
\<close>

section \<open>Data\<close>

definition HISTORY_LENGTH :: int where "HISTORY_LENGTH = 40"
definition HISTORY_POOL_BLOCK :: nat where "HISTORY_POOL_BLOCK = 256"

record history_type =
  recv :: "int list"
  sent :: "int list"
  total_sent :: u64
  total_recv :: u64
  last_write :: int
  proc_resolved :: int
  proc_pid :: int
  proc_name :: string

text \<open>A record after \<open>memset(hist, 0, sizeof *hist)\<close>.\<close>

definition history_zero :: history_type where
  "history_zero = \<lparr>recv = replicate (nat HISTORY_LENGTH) 0, sent = replicate (nat HISTORY_LENGTH) 0,
     total_sent = 0, total_recv = 0, last_write = 0, proc_resolved = 0, proc_pid = 0,
     proc_name = []\<rparr>"

record hist_store =
  hist_pool_blocks :: "nat list"
  hist_free_list :: "pool_addr list"
  hist_items :: "pool_addr \<rightharpoonup> history_type"

text \<open>The global variables of \<open>iftop.c\<close> that accounting uses, with the pool of table nodes.\<close>

record iftop_state =
  history :: "pool_addr addr_table"
  nodes_pool :: node_pool
  store :: hist_store
  history_totals :: history_type
  history_pos :: int
  history_len :: int

section \<open>Operations\<close>

definition history_create :: "hist_store \<Rightarrow> pool_addr \<times> hist_store" where
  "history_create s =
     (case hist_free_list s of
        hist # rest \<Rightarrow>
          (hist, s\<lparr>hist_free_list := rest, hist_items := (hist_items s)(hist \<mapsto> history_zero)\<rparr>)
      | [] \<Rightarrow>
          let block = length (hist_pool_blocks s) in
          ((block, 0), \<lparr>hist_pool_blocks = block # hist_pool_blocks s,
                        hist_free_list = chain_items HISTORY_POOL_BLOCK block 1,
                        hist_items = (hist_items s)((block, 0) \<mapsto> history_zero)\<rparr>))"

definition history_free :: "pool_addr \<Rightarrow> hist_store \<Rightarrow> hist_store" where
  "history_free hist s =
     s\<lparr>hist_free_list := hist # hist_free_list s, hist_items := (hist_items s)(hist := None)\<rparr>"

definition store_empty :: hist_store where
  "store_empty = \<lparr>hist_pool_blocks = [], hist_free_list = [], hist_items = Map.empty\<rparr>"

definition init_history :: "node_pool \<Rightarrow> iftop_state" where
  "init_history p = \<lparr>history = addr_hash_create, nodes_pool = p, store = store_empty,
     history_totals = history_zero, history_pos = 0, history_len = 1\<rparr>"

text \<open>\<open>hist->recv[pos] = 0; hist->sent[pos] = 0\<close>.\<close>

definition clear_slot :: "int \<Rightarrow> history_type \<Rightarrow> history_type option" where
  "clear_slot pos h = do {
     r \<leftarrow> wri (recv h) pos 0;
     s \<leftarrow> wri (sent h) pos 0;
     Some (h\<lparr>recv := r, sent := s\<rparr>)
   }"

text \<open>
  The loop of \<open>history_rotate\<close> at \<open>node\<close>; the successor is taken before the node may
  be deleted.
\<close>

partial_function (option) rotate_loop :: "iftop_state \<Rightarrow> pool_addr option \<Rightarrow> iftop_state option" where
  "rotate_loop st node =
     (case node of
        None \<Rightarrow> Some st
      | Some a \<Rightarrow>
          Option.bind (deref (table (history st)) a) (\<lambda>(nd, _).
          Option.bind (hash_next_item (history st) (Some a)) (\<lambda>(_, next).
          Option.bind (hist_items (store st) (nd_record nd)) (\<lambda>hist_data.
          if last_write hist_data = history_pos st then
            Option.bind (addr_hash_delete_node (history st) (nodes_pool st) a) (\<lambda>(ht, p).
            rotate_loop (st\<lparr>history := ht, nodes_pool := p,
                            store := history_free (nd_record nd) (store st)\<rparr>) next)
          else
            Option.bind (clear_slot (history_pos st) hist_data) (\<lambda>h.
            rotate_loop (st\<lparr>store := (store st)\<lparr>hist_items :=
                           (hist_items (store st))(nd_record nd \<mapsto> h)\<rparr>\<rparr>) next)))))"

definition history_rotate :: "iftop_state \<Rightarrow> iftop_state option" where
  "history_rotate st = do {
     let st = st\<lparr>history_pos := (history_pos st + 1) mod HISTORY_LENGTH\<rparr>;
     (_, node) \<leftarrow> hash_next_item (history st) None;
     st \<leftarrow> rotate_loop st node;
     tot \<leftarrow> clear_slot (history_pos st) (history_totals st);
     let st = st\<lparr>history_totals := tot\<rparr>;
     Some (if history_len st < HISTORY_LENGTH then st\<lparr>history_len := history_len st + 1\<rparr> else st)
   }"

section \<open>The record pool\<close>

definition hist_inv :: "hist_store \<Rightarrow> pool_addr set \<Rightarrow> bool" where
  "hist_inv s live \<longleftrightarrow>
     pool_split HISTORY_POOL_BLOCK (length (hist_pool_blocks s)) (hist_free_list s) live \<and>
     dom (hist_items s) = live"

lemma history_create_items:
  "history_create s = (a, s') \<Longrightarrow> hist_items s' = (hist_items s)(a \<mapsto> history_zero)"
  by (auto simp: history_create_def Let_def split: list.splits)

interpretation hist_pool: block_pool history_create history_free hist_inv
proof
  fix s live a s'
  assume inv: "hist_inv s live" and al: "history_create s = (a, s')"
  show "a \<notin> live \<and> hist_inv s' (insert a live)"
  proof (cases "hist_free_list s")
    case Nil
    with inv pool_split_grow [of HISTORY_POOL_BLOCK "length (hist_pool_blocks s)" live] al
    show ?thesis by (auto simp: hist_inv_def history_create_def HISTORY_POOL_BLOCK_def Let_def)
  next
    case (Cons b rest)
    with inv pool_split_take [of _ _ b rest live] al show ?thesis
      by (auto simp: hist_inv_def history_create_def)
  qed
qed (auto simp: hist_inv_def history_free_def history_create_def intro: pool_split_give)

section \<open>Invariant and abstraction\<close>

definition hist_ok :: "history_type \<Rightarrow> bool" where
  "hist_ok h \<longleftrightarrow> length (recv h) = 40 \<and> length (sent h) = 40 \<and> 0 \<le> last_write h \<and> last_write h < 40"

definition flow_recs :: "iftop_state \<Rightarrow> pool_addr list" where
  "flow_recs st = map nd_record (nodes (history st))"

text \<open>
  Every node of the table owns a live record of its own and every live record has a
  node; all rings have the right length and all positions are inside the ring.
  \<open>rest\<close> are the pool nodes of the display's own table.
\<close>

definition flow_inv :: "iftop_state \<Rightarrow> pool_addr set \<Rightarrow> bool" where
  "flow_inv st rest \<longleftrightarrow>
     addr_inv (history st) (nodes_pool st) rest \<and> distinct (flow_recs st) \<and>
     hist_inv (store st) (set (flow_recs st)) \<and>
     (\<forall>h\<in>ran (hist_items (store st)). hist_ok h) \<and>
     hist_ok (history_totals st) \<and> 0 \<le> history_pos st \<and> history_pos st < 40 \<and>
     1 \<le> history_len st \<and> history_len st \<le> 40"

text \<open>What the program knows about a connection.\<close>

definition flows :: "iftop_state \<Rightarrow> addr_pair \<Rightarrow> history_type option" where
  "flows st k = Option.bind (hash_map (history st) k) (hist_items (store st))"

lemma flow_invD:
  assumes "flow_inv st rest"
  shows "addr_inv (history st) (nodes_pool st) rest" "distinct (flow_recs st)"
    "hist_inv (store st) (set (flow_recs st))" "\<forall>h\<in>ran (hist_items (store st)). hist_ok h"
    "hist_ok (history_totals st)" "0 \<le> history_pos st" "history_pos st < 40"
    "1 \<le> history_len st" "history_len st \<le> 40"
  using assms by (auto simp: flow_inv_def)

lemma history_zero_ok: "hist_ok history_zero"
  by (simp add: hist_ok_def history_zero_def HISTORY_LENGTH_def)

lemma init_history_ok:
  assumes "pool_inv p rest"
  shows "flow_inv (init_history p) rest" "flows (init_history p) = Map.empty"
  using addr_hash_create_ok [where 'r = pool_addr, OF assms]
  by (auto simp: flow_inv_def init_history_def flow_recs_def hist_inv_def store_empty_def
      pool_split_def history_zero_ok flows_def fun_eq_iff)

lemma clear_slot_ok:
  assumes "hist_ok h" "0 \<le> pos" "pos < 40"
  shows "clear_slot pos h = Some (h\<lparr>recv := (recv h)[nat pos := 0], sent := (sent h)[nat pos := 0]\<rparr>)"
    "hist_ok (h\<lparr>recv := (recv h)[nat pos := 0], sent := (sent h)[nat pos := 0]\<rparr>)"
  using assms by (auto simp: clear_slot_def wri_def hist_ok_def)

lemma hash_map_iff:
  fixes ht :: "'r addr_table"
  assumes "hash_uniq ht" "hash_uses addr_compare addr_hash_bucket addr_copy_key 2048 ht"
  shows "hash_map ht k = Some r \<longleftrightarrow> (\<exists>n\<in>set (nodes ht). nd_key n = k \<and> nd_record n = r)"
proof -
  have "List.find (\<lambda>n. nd_key n = k) ns = Some n \<longleftrightarrow> n \<in> set ns \<and> nd_key n = k"
    if "sorted_wrt (\<lambda>m n. nd_key m \<noteq> nd_key n) ns"
    for ns :: "(pool_addr, addr_pair, 'r) hash_node_type list" and n
    using that by (induction ns) auto
  with assms show ?thesis
    by (auto simp: hash_map_def hash_uniq_def hash_uses_def addr_compare_def)
qed

lemma flows_iff:
  assumes "flow_inv st rest"
  shows "flows st k = Some h \<longleftrightarrow>
     (\<exists>n\<in>set (nodes (history st)). nd_key n = k \<and> hist_items (store st) (nd_record n) = Some h)"
  using hash_map_iff [OF addr_invD(2,3) [OF flow_invD(1) [OF assms]]]
  unfolding flows_def bind_eq_Some_conv by metis

section \<open>Rotation\<close>

text \<open>The record a rotation to \<open>pos\<close> leaves behind, if any.\<close>

definition rotated :: "int \<Rightarrow> history_type \<Rightarrow> history_type option" where
  "rotated pos h = (if last_write h = pos then None
     else Some (h\<lparr>recv := (recv h)[nat pos := 0], sent := (sent h)[nat pos := 0]\<rparr>))"

definition iter_start :: "('a, 'k, 'r) hash_node_type list \<Rightarrow> 'a option" where
  "iter_start ns = (case ns of [] \<Rightarrow> None | n # _ \<Rightarrow> Some (nd_addr n))"

lemma snd_iter_result [simp]: "snd (iter_result ns) = iter_start ns"
  by (simp add: iter_result_def iter_start_def split: list.split)

text \<open>What the loop has to do to the nodes \<open>todo\<close>, given the nodes it has passed.\<close>

definition loop_post ::
  "(pool_addr, addr_pair, pool_addr) hash_node_type list
   \<Rightarrow> (pool_addr, addr_pair, pool_addr) hash_node_type list
   \<Rightarrow> iftop_state \<Rightarrow> iftop_state \<Rightarrow> bool" where
  "loop_post kept todo st st' \<longleftrightarrow>
     nodes (history st') = kept @ filter (\<lambda>n.
        Option.bind (hist_items (store st) (nd_record n)) (rotated (history_pos st)) \<noteq> None) todo \<and>
     (\<forall>r. hist_items (store st') r =
        (if r \<in> nd_record ` set todo
         then Option.bind (hist_items (store st) r) (rotated (history_pos st))
         else hist_items (store st) r)) \<and>
     history_totals st' = history_totals st \<and> history_pos st' = history_pos st \<and>
     history_len st' = history_len st"

lemma flow_delete:
  assumes inv: "flow_inv st rest" and split: "nodes (history st) = kept @ n # post"
  obtains ht p where
    "addr_hash_delete_node (history st) (nodes_pool st) (nd_addr n) = Some (ht, p)"
    "nodes ht = kept @ post"
    "flow_inv (st\<lparr>history := ht, nodes_pool := p, store := history_free (nd_record n) (store st)\<rparr>) rest"
proof -
  note i = flow_invD [OF inv]
  obtain ht where d:
    "addr_hash_delete_node (history st) (nodes_pool st) (nd_addr n) = Some (ht, pool_free (nd_addr n) (nodes_pool st))"
    "addr_inv ht (pool_free (nd_addr n) (nodes_pool st)) rest" "nodes ht = kept @ post"
    by (rule addr_hash_delete_node_ok [OF i(1) split])
  have n: "nd_record n \<in> set (flow_recs st)" by (simp add: flow_recs_def split)
  have "set (map nd_record (kept @ post)) = set (flow_recs st) - {nd_record n}"
    using i(2) by (auto simp: flow_recs_def split)
  with hist_pool.free_inv [OF i(3) n]
  have "hist_inv (history_free (nd_record n) (store st)) (set (map nd_record (kept @ post)))" by simp
  moreover have "\<forall>h\<in>ran (hist_items (history_free (nd_record n) (store st))). hist_ok h"
    using i(4) by (auto simp: history_free_def ran_def split: if_splits)
  ultimately show thesis
    using d i by (intro that [OF d(1)]) (auto simp: flow_inv_def flow_recs_def split)
qed

lemma flow_update:
  assumes inv: "flow_inv st rest" and n: "n \<in> set (nodes (history st))" and h: "hist_ok h"
  shows "flow_inv (st\<lparr>store := (store st)\<lparr>hist_items := (hist_items (store st))(nd_record n \<mapsto> h)\<rparr>\<rparr>) rest"
proof -
  note i = flow_invD [OF inv]
  have "nd_record n \<in> set (flow_recs st)" using n by (simp add: flow_recs_def)
  with i(3) have "hist_inv ((store st)\<lparr>hist_items := (hist_items (store st))(nd_record n \<mapsto> h)\<rparr>)
      (set (flow_recs st))" by (auto simp: hist_inv_def)
  with i h show ?thesis by (auto simp: flow_inv_def flow_recs_def ran_def)
qed

lemma rotate_loop_ok:
  assumes "flow_inv st rest" "nodes (history st) = kept @ todo"
  shows "\<exists>st'. rotate_loop st (iter_start todo) = Some st' \<and> flow_inv st' rest \<and> loop_post kept todo st st'"
  using assms
proof (induction todo arbitrary: st kept)
  case Nil
  then show ?case
    by (intro exI [of _ st]) (simp add: iter_start_def rotate_loop.simps loop_post_def)
next
  case (Cons n post)
  note i = flow_invD [OF Cons.prems(1)]
  let ?pos = "history_pos st" and ?items = "hist_items (store st)"
  have shape: "hash_shape (history st)" using i(1) by (rule addr_invD)
  have n: "n \<in> set (nodes (history st))" using Cons.prems(2) by simp
  have "nd_record n \<in> dom ?items" using i(3) n by (simp add: hist_inv_def flow_recs_def)
  then obtain h where h: "?items (nd_record n) = Some h" by blast
  then have hok: "hist_ok h" using i(4) by (blast intro: ranI)
  have rec: "nd_record n \<notin> nd_record ` set post"
    using i(2) Cons.prems(2) by (auto simp: flow_recs_def)
  obtain x where dr: "deref (table (history st)) (nd_addr n) = Some (n, x)"
  proof -
    from hash_shape_bucket [OF shape n] obtain i pre q where
      "i < length (table (history st))" "table (history st) ! i = pre @ n # q" by metis
    with shape show thesis by (intro that deref_mid) (auto simp: hash_shape_def nodes_def)
  qed
  obtain s where nx: "hash_next_item (history st) (Some (nd_addr n)) = Some (s, iter_start post)"
    using hash_next_item_mid [OF shape Cons.prems(2)] by (metis prod.collapse snd_iter_result)
  show ?case
  proof (cases "last_write h = ?pos")
    case True
    obtain ht p where d:
      "addr_hash_delete_node (history st) (nodes_pool st) (nd_addr n) = Some (ht, p)"
      "nodes ht = kept @ post"
      "flow_inv (st\<lparr>history := ht, nodes_pool := p, store := history_free (nd_record n) (store st)\<rparr>) rest"
      by (rule flow_delete [OF Cons.prems])
    let ?st = "st\<lparr>history := ht, nodes_pool := p, store := history_free (nd_record n) (store st)\<rparr>"
    from Cons.IH [OF d(3), of kept] d(2) obtain st' where
      st': "rotate_loop ?st (iter_start post) = Some st'" "flow_inv st' rest" "loop_post kept post ?st st'"
      by auto
    have "rotate_loop st (iter_start (n # post)) = Some st'"
      using st'(1) True h
      by (subst rotate_loop.simps) (simp add: iter_start_def dr nx d(1))
    moreover have "loop_post kept (n # post) st st'"
      using st'(3) h True rec
      by (auto simp: loop_post_def history_free_def rotated_def image_iff intro!: filter_cong)
    ultimately show ?thesis using st'(2) by blast
  next
    case False
    note c = clear_slot_ok [OF hok i(6,7)]
    define h' where "h' = h\<lparr>recv := (recv h)[nat ?pos := 0], sent := (sent h)[nat ?pos := 0]\<rparr>"
    let ?st = "st\<lparr>store := (store st)\<lparr>hist_items := ?items(nd_record n \<mapsto> h')\<rparr>\<rparr>"
    have "flow_inv ?st rest" using c(2) by (intro flow_update [OF Cons.prems(1) n]) (simp add: h'_def)
    from Cons.IH [OF this, of "kept @ [n]"] Cons.prems(2) obtain st' where
      st': "rotate_loop ?st (iter_start post) = Some st'" "flow_inv st' rest"
        "loop_post (kept @ [n]) post ?st st'" by auto
    have "rotate_loop st (iter_start (n # post)) = Some st'"
      using st'(1) False h c(1)
      by (subst rotate_loop.simps) (simp add: iter_start_def dr nx h'_def)
    moreover have "loop_post kept (n # post) st st'"
      using st'(3) h False rec
      by (auto simp: loop_post_def rotated_def h'_def image_iff intro!: filter_cong)
    ultimately show ?thesis using st'(2) by blast
  qed
qed

lemma loop_post_flows:
  assumes inv: "flow_inv st rest" and inv': "flow_inv st' rest"
    and post: "loop_post [] (nodes (history st)) st st'"
  shows "flows st' k = Option.bind (flows st k) (rotated (history_pos st))"
proof -
  let ?rot = "\<lambda>r. Option.bind (hist_items (store st) r) (rotated (history_pos st))"
  from post have nd: "nodes (history st') = filter (\<lambda>n. ?rot (nd_record n) \<noteq> None) (nodes (history st))"
    and it: "\<And>n. n \<in> set (nodes (history st)) \<Longrightarrow> hist_items (store st') (nd_record n) = ?rot (nd_record n)"
    by (simp_all add: loop_post_def del: split_paired_All)
  have "flows st' k = Some h \<longleftrightarrow> Option.bind (flows st k) (rotated (history_pos st)) = Some h" for h
  proof -
    have "flows st' k = Some h \<longleftrightarrow>
        (\<exists>n\<in>set (nodes (history st)). nd_key n = k \<and> ?rot (nd_record n) = Some h)"
      unfolding flows_iff [OF inv'] nd using it by auto
    then show ?thesis
      unfolding bind_eq_Some_conv flows_iff [OF inv] by blast
  qed
  then show ?thesis by (metis not_None_eq)
qed

lemma history_rotate_ok:
  assumes inv: "flow_inv st rest"
  defines "pos \<equiv> (history_pos st + 1) mod 40"
  shows "\<exists>st'. history_rotate st = Some st' \<and> flow_inv st' rest \<and> history_pos st' = pos \<and>
     history_len st' = min 40 (history_len st + 1) \<and>
     (\<forall>k. flows st' k = Option.bind (flows st k) (rotated pos)) \<and>
     history_totals st' = (history_totals st)\<lparr>recv := (recv (history_totals st))[nat pos := 0],
       sent := (sent (history_totals st))[nat pos := 0]\<rparr>"
proof -
  let ?st = "st\<lparr>history_pos := pos\<rparr>"
  have pos: "0 \<le> pos" "pos < 40" by (simp_all add: pos_def)
  note i = flow_invD [OF inv]
  have inv0: "flow_inv ?st rest" using inv pos by (simp add: flow_inv_def flow_recs_def)
  from rotate_loop_ok [OF inv0, of "[]" "nodes (history st)"] obtain st1 where
    r: "rotate_loop ?st (iter_start (nodes (history st))) = Some st1" "flow_inv st1 rest"
      "loop_post [] (nodes (history ?st)) ?st st1" by auto
  note i1 = flow_invD [OF r(2)]
  from r(3) have eq: "history_totals st1 = history_totals st" "history_pos st1 = pos"
    "history_len st1 = history_len st" by (simp_all add: loop_post_def)
  let ?tot = "(history_totals st)\<lparr>recv := (recv (history_totals st))[nat pos := 0],
       sent := (sent (history_totals st))[nat pos := 0]\<rparr>"
  note c = clear_slot_ok [OF i(5) pos]
  let ?st' = "st1\<lparr>history_totals := ?tot, history_len := min 40 (history_len st + 1)\<rparr>"
  obtain s where nx: "hash_next_item (history st) None = Some (s, iter_start (nodes (history st)))"
    using hash_next_item_start [OF addr_invD(4) [OF i(1)]] by (metis prod.collapse snd_iter_result)
  have "history_rotate st = Some ?st'"
    using r(1) c(1) eq i(9)
    by (auto simp: history_rotate_def Let_def nx HISTORY_LENGTH_def pos_def [symmetric])
  moreover have "flow_inv ?st' rest"
    using r(2) c(2) i(8) by (simp add: flow_inv_def flow_recs_def)
  moreover have "flows ?st' k = Option.bind (flows st k) (rotated pos)" for k
    using loop_post_flows [OF inv0 r(2,3), of k] by (simp add: flows_def)
  ultimately show ?thesis using eq(2) by (intro exI [of _ ?st']) simp
qed

section \<open>Many rotations\<close>

fun rotate_n :: "nat \<Rightarrow> iftop_state \<Rightarrow> iftop_state option" where
  "rotate_n 0 st = Some st"
| "rotate_n (Suc n) st = Option.bind (history_rotate st) (rotate_n n)"

lemma rotate_n_ok:
  assumes "flow_inv st rest"
  shows "\<exists>st'. rotate_n n st = Some st' \<and> flow_inv st' rest \<and>
     history_pos st' = (history_pos st + int n) mod 40"
  using assms
proof (induction n arbitrary: st)
  case 0
  then show ?case by (simp add: flow_inv_def)
next
  case (Suc n)
  from history_rotate_ok [OF Suc.prems] obtain st1 where
    r: "history_rotate st = Some st1" "flow_inv st1 rest" "history_pos st1 = (history_pos st + 1) mod 40"
    by blast
  from Suc.IH [OF r(2)] r(1,3) show ?case by (auto simp: mod_simps add_ac)
qed

text \<open>How many more rotations a connection survives without traffic.\<close>

definition slots_left :: "iftop_state \<Rightarrow> history_type \<Rightarrow> int" where
  "slots_left st h = (last_write h - history_pos st - 1) mod 40"

lemma rotate_n_flows:
  assumes "flow_inv st rest" "flows st k = Some h"
  shows "\<exists>st'. rotate_n n st = Some st' \<and> (flows st' k \<noteq> None \<longleftrightarrow> int n \<le> slots_left st h)"
  using assms
proof (induction n arbitrary: st h)
  case 0
  then show ?case by (simp add: slots_left_def)
next
  case (Suc n)
  from history_rotate_ok [OF Suc.prems(1)] obtain st1 where
    r: "history_rotate st = Some st1" "flow_inv st1 rest"
      "history_pos st1 = (history_pos st + 1) mod 40"
      "flows st1 k = Option.bind (flows st k) (rotated ((history_pos st + 1) mod 40))"
    by blast
  note i = flow_invD [OF Suc.prems(1)]
  have hok: "hist_ok h"
    using i(4) Suc.prems(2) by (auto simp: flows_def bind_eq_Some_conv ran_def)
  show ?case
  proof (cases "last_write h = (history_pos st + 1) mod 40")
    case True
    then have gone: "flows st1 k = None" using r(4) Suc.prems(2) by (simp add: rotated_def)
    have "slots_left st h = 0" unfolding slots_left_def True by presburger
    moreover have "\<exists>st'. rotate_n n st1 = Some st' \<and> flows st' k = None"
      using r(2) gone
    proof (induction n arbitrary: st1)
      case (Suc n)
      from history_rotate_ok [OF Suc.prems(1)] Suc.prems(2) Suc.IH show ?case by fastforce
    qed simp
    ultimately show ?thesis using r(1) by auto
  next
    case False
    then obtain h' where h': "flows st1 k = Some h'" "last_write h' = last_write h"
      using r(4) Suc.prems(2) by (auto simp: rotated_def)
    have "slots_left st h = slots_left st1 h' + 1"
    proof -
      have "0 < (last_write h - (history_pos st + 1)) mod 40"
      proof (rule ccontr)
        assume "\<not> ?thesis"
        then have "(last_write h - (history_pos st + 1)) mod 40 = 0"
          using pos_mod_sign [of 40 "last_write h - (history_pos st + 1)"] by linarith
        then have "last_write h mod 40 = (history_pos st + 1) mod 40" by (simp add: mod_eq_dvd_iff mod_eq_0_iff_dvd)
        with hok False show False by (simp add: hist_ok_def)
      qed
      moreover note mod_pred [of 40 "last_write h - (history_pos st + 1)"]
      moreover have "(last_write h - (history_pos st + 1) mod 40 - 1) mod 40 =
          (last_write h - (history_pos st + 1) - 1) mod 40" by (metis mod_diff_left_eq mod_diff_right_eq)
      ultimately show ?thesis by (simp add: slots_left_def h'(2) r(3) diff_diff_eq)
    qed
    with Suc.IH [OF r(2) h'(1)] r(1) show ?thesis by auto
  qed
qed

section \<open>Properties\<close>

text \<open>C6: rotating the history never fails, keeps the invariant, advances the ring
  position by one slot modulo forty and lengthens the history up to forty. Every connection
  whose last write was in the slot that is now reused disappears, with its table node and
  its record; every other connection keeps its record with only the new slot cleared.
  Deleting nodes during the iteration loses no other connection.\<close>

theorem history_rotate_correct:
  assumes "flow_inv st rest"
  shows "\<exists>st'. history_rotate st = Some st' \<and> flow_inv st' rest \<and>
     history_pos st' = (history_pos st + 1) mod 40 \<and>
     history_len st' = min 40 (history_len st + 1) \<and>
     (\<forall>k. flows st' k =
        (case flows st k of
           None \<Rightarrow> None
         | Some h \<Rightarrow> if last_write h = history_pos st' then None
             else Some (h\<lparr>recv := (recv h)[nat (history_pos st') := 0],
                          sent := (sent h)[nat (history_pos st') := 0]\<rparr>)))"
  using history_rotate_ok [OF assms] by (fastforce simp: rotated_def split: option.split)

theorem history_rotate_correct_witness:
  "\<exists>st'. history_rotate (init_history pool_empty) = Some st' \<and> history_pos st' = 1 \<and>
     history_len st' = 2"
  using history_rotate_correct [OF init_history_ok(1) [OF pool_empty_inv]]
  by (auto simp: init_history_def)

text \<open>C12: an idle connection expires after exactly one turn of the ring. From a state in
  which the connection has a record last written in some slot, any number of rotations
  succeeds, and the connection is still there after n of them exactly if n does not exceed
  the number of slots before the ring comes back to the slot of that last write; a
  connection written in the current slot survives 39 rotations and not 40.\<close>

theorem idle_flow_expires:
  assumes "flow_inv st rest" and "flows st k = Some h"
  shows "\<exists>st'. rotate_n n st = Some st' \<and>
     (flows st' k \<noteq> None \<longleftrightarrow> int n \<le> (last_write h - history_pos st - 1) mod 40)"
  using rotate_n_flows [OF assms] by (simp add: slots_left_def)

text \<open>A state with one connection, for the witnesses.\<close>

definition one_flow :: iftop_state where
  "one_flow =
     (let (a, s) = history_create store_empty;
          (ht, p) = (case addr_hash_insert addr_hash_create pool_empty addr_pair_zero a of
                       Some (_, ht, p) \<Rightarrow> (ht, p) | None \<Rightarrow> (addr_hash_create, pool_empty))
      in (init_history pool_empty)\<lparr>history := ht, nodes_pool := p, store := s\<rparr>)"

lemma one_flow_ok: "flow_inv one_flow {}" "flows one_flow addr_pair_zero = Some history_zero"
proof -
  obtain a s where al: "history_create store_empty = (a, s)" by (cases "history_create store_empty")
  have "hist_inv store_empty {}" by (simp add: hist_inv_def store_empty_def pool_split_def)
  from hist_pool.alloc_fresh [OF this al] have s: "hist_inv s {a}" by simp
  have it: "hist_items s = [a \<mapsto> history_zero]"
    using history_create_items [OF al] by (simp add: store_empty_def)
  note c = addr_hash_create_ok [where 'r = pool_addr, OF pool_empty_inv]
  have none: "hash_map addr_hash_create addr_pair_zero = (None :: pool_addr option)" by (simp add: c(3))
  obtain b ht p where h:
    "addr_hash_insert addr_hash_create pool_empty addr_pair_zero a = Some (HASH_STATUS_OK, ht, p)"
    "addr_inv ht p {}"
    "\<forall>k'. addr_pair_ok k' \<longrightarrow> hash_map ht k' =
       (if addr_pair_zero = k' then Some a else hash_map addr_hash_create k')"
    "mset (nodes ht) = mset (nodes addr_hash_create) +
       {# \<lparr>nd_addr = b, nd_key = addr_pair_zero, nd_record = a, nd_bucket = addr_hash_bucket addr_pair_zero\<rparr> #}"
    by (rule addr_hash_insert_ok [OF c(1) addr_pair_zero_ok none, of a])
  have st: "one_flow = (init_history pool_empty)\<lparr>history := ht, nodes_pool := p, store := s\<rparr>"
    by (simp add: one_flow_def al h(1))
  from h(4) have "nodes ht = [\<lparr>nd_addr = b, nd_key = addr_pair_zero, nd_record = a,
      nd_bucket = addr_hash_bucket addr_pair_zero\<rparr>]"
    by (simp add: c(2))
  then show "flow_inv one_flow {}"
    using s it h(2) by (simp add: st flow_inv_def init_history_def flow_recs_def history_zero_ok)
  show "flows one_flow addr_pair_zero = Some history_zero"
    using h(3) it addr_pair_zero_ok by (simp add: st flows_def init_history_def)
qed

theorem idle_flow_expires_witness:
  "(\<exists>st'. rotate_n 39 one_flow = Some st' \<and> flows st' addr_pair_zero \<noteq> None) \<and>
   (\<exists>st'. rotate_n 40 one_flow = Some st' \<and> flows st' addr_pair_zero = None)"
proof -
  have "history_pos one_flow = 0"
    by (simp add: one_flow_def init_history_def split: prod.split)
  then show ?thesis
    using idle_flow_expires [OF one_flow_ok, of 39] idle_flow_expires [OF one_flow_ok, of 40]
    by (auto simp: history_zero_def)
qed

end
