(* ===== verification/Ns_Hash.thy ===== *)
theory Ns_Hash
  imports Hash_Table
begin

text \<open>
  The key module of the host name cache, \<open>src/data/map/ns_hash.c\<close>: address keys,
  their comparison and hash, creation of the table, and the eviction of a full
  cache. The module is an interpretation of \<open>hash_keys\<close>.
\<close>

section \<open>Data and operations\<close>

text \<open>\<open>struct addr_storage\<close>; the union holds sixteen bytes, of which IPv4 uses four.\<close>

record addr_storage =
  ns_family :: int
  addr_len :: int
  addr :: bytes

type_synonym ns_table = "(nat, addr_storage, string) hash_type"

definition ns_hash_compare :: "addr_storage \<Rightarrow> addr_storage \<Rightarrow> bool" where
  "ns_hash_compare l r =
     (if ns_family l \<noteq> ns_family r then False
      else take (nat (addr_len l)) (addr l) = take (nat (addr_len l)) (addr r))"

definition ns_hash_hash :: "addr_storage \<Rightarrow> int" where
  "ns_hash_hash a =
     foldl (\<lambda>hash byte. hash + uint byte) 0 (take (nat (addr_len a)) (addr a)) mod 255"

definition ns_hash_copy_key :: "addr_storage \<Rightarrow> addr_storage" where
  "ns_hash_copy_key orig = orig"

definition ns_hash_create :: ns_table where
  "ns_hash_create = hash_initialise
     \<lparr>compare = ns_hash_compare, hash = ns_hash_hash, copy_key = ns_hash_copy_key,
      table = [], size = 256\<rparr>"

definition NS_HASH_MAX_ENTRIES :: int where "NS_HASH_MAX_ENTRIES = 16384"

text \<open>Result: the return value, the table and the new value of \<open>*n_entries\<close>.\<close>

definition ns_hash_evict_if_full ::
  "ns_table \<Rightarrow> int \<Rightarrow> int \<Rightarrow> (int \<times> ns_table \<times> int) option" where
  "ns_hash_evict_if_full h n_entries max_entries =
     (if n_entries \<ge> max_entries then do {
        (_, _, h) \<leftarrow> hash_delete_all_free h;
        Some (1, h, 0) }
      else Some (0, h, n_entries))"

section \<open>The key contract\<close>

text \<open>The keys \<open>resolve\<close> builds: four significant bytes for IPv4, sixteen otherwise.\<close>

definition ns_key_ok :: "addr_storage \<Rightarrow> bool" where
  "ns_key_ok a \<longleftrightarrow>
     addr_len a = (if ns_family a = AF_INET then 4 else 16) \<and> length (addr a) = 16"

lemma foldl_uint_nonneg: "0 \<le> h \<Longrightarrow> 0 \<le> foldl (\<lambda>hash byte. hash + uint byte) h (bs :: bytes)"
  by (induction bs arbitrary: h) auto

lemma ns_hash_range: "0 \<le> ns_hash_hash a \<and> ns_hash_hash a < 256"
  unfolding ns_hash_hash_def
  using pos_mod_bound [of 255 "foldl (\<lambda>hash byte. hash + uint byte) 0 (take (nat (addr_len a)) (addr a))"]
  by simp

text \<open>The C sum cannot overflow and is never negative, so \<open>%\<close> is \<open>mod\<close>.\<close>

lemma ns_hash_no_overflow:
  assumes "ns_key_ok a"
  shows "foldl (\<lambda>hash byte. hash + uint byte) 0 (take (nat (addr_len a)) (addr a)) \<le> 4080"
proof -
  have sum: "foldl (\<lambda>hash byte. hash + uint byte) h bs \<le> h + 255 * int (length bs)"
    for h and bs :: bytes
  proof (induction bs arbitrary: h)
    case (Cons b bs)
    have "uint b < 256" using uint_lt2p [of b] by simp
    with Cons [of "h + uint b"] show ?case by simp
  qed simp
  from assms have "length (take (nat (addr_len a)) (addr a)) \<le> 16"
    by (auto simp: ns_key_ok_def)
  with sum [of 0 "take (nat (addr_len a)) (addr a)"] show ?thesis by simp
qed

interpretation ns: hash_keys ns_hash_compare ns_hash_hash ns_hash_copy_key 256 ns_key_ok
proof
  fix k k' :: addr_storage
  assume "ns_key_ok k" "ns_key_ok k'" "ns_hash_compare k k'"
  then show "ns_hash_hash k = ns_hash_hash k'" "ns_hash_compare k' k"
    by (auto simp: ns_hash_compare_def ns_hash_hash_def ns_key_ok_def split: if_splits)
next
  fix k k' k'' :: addr_storage
  assume "ns_key_ok k" "ns_key_ok k'" "ns_key_ok k''" "ns_hash_compare k k'" "ns_hash_compare k' k''"
  then show "ns_hash_compare k k''"
    by (auto simp: ns_hash_compare_def ns_key_ok_def split: if_splits)
qed (use ns_hash_range in \<open>auto simp: ns_hash_compare_def ns_hash_copy_key_def\<close>)

section \<open>The cache\<close>

text \<open>Invariant of the cache: shape, key placement, no key twice.\<close>

definition ns_inv :: "ns_table \<Rightarrow> bool" where
  "ns_inv h \<longleftrightarrow> hash_wf ns_key_ok h \<and> hash_uniq h \<and>
     hash_uses ns_hash_compare ns_hash_hash ns_hash_copy_key 256 h"

lemma ns_hash_create_inv: "ns_inv ns_hash_create" "nodes ns_hash_create = []"
  by (simp_all add: ns_inv_def ns_hash_create_def hash_initialise_wf hash_initialise_uniq
      hash_uses_def)
     (simp_all add: hash_initialise_def)

lemma ns_hash_evict_ok:
  assumes "ns_inv h"
  shows "\<exists>h'. ns_hash_evict_if_full h n m = Some (if n \<ge> m then 1 else 0, h', if n \<ge> m then 0 else n) \<and>
           ns_inv h' \<and> nodes h' = (if n \<ge> m then [] else nodes h)"
proof (cases "n \<ge> m")
  case True
  from assms have "hash_shape h" "size h = 256" by (auto simp: ns_inv_def hash_wf_def hash_uses_def)
  with assms True show ?thesis
    by (simp add: ns_hash_evict_if_full_def hash_delete_all_free_ok ns_inv_def
        hash_initialise_wf hash_initialise_uniq)
qed (use assms in \<open>simp add: ns_hash_evict_if_full_def\<close>)

end
