(* ===== verification/Resolver.thy ===== *)
theory Resolver
  imports Ns_Hash
begin

text \<open>
  The asynchronous resolver of \<open>src/util/resolver.c\<close>: \<open>resolve\<close>, called by the
  capture and display code, the ring of pending addresses, and the two worker
  threads. Everything between a lock and the matching unlock of
  \<open>resolver_queue_mutex\<close> is one step; the name lookup itself (\<open>do_resolve\<close>: the
  C library and the network) happens outside the lock and may return any name or
  none. \<open>inet_ntop\<close> is a parameter: what it leaves in the buffer for a family and
  address.
\<close>

section \<open>Data\<close>

definition RESOLVE_QUEUE_LENGTH :: int where "RESOLVE_QUEUE_LENGTH = 20"

record resolver_state =
  resolve_queue :: "addr_storage list"
  ns_hash :: ns_table
  ns_hash_n_entries :: int
  head :: int
  tail :: int

section \<open>Operations\<close>

definition addr_storage_zero :: addr_storage where
  "addr_storage_zero = \<lparr>ns_family = 0, addr_len = 0, addr = replicate 16 0\<rparr>"

definition resolver_initialise :: resolver_state where
  "resolver_initialise =
     \<lparr>resolve_queue = replicate (nat RESOLVE_QUEUE_LENGTH) addr_storage_zero,
      ns_hash = ns_hash_create, ns_hash_n_entries = 0, head = 0, tail = 0\<rparr>"

text \<open>The key built on the stack: zeroed, then family, length and that many address bytes.\<close>

definition make_raddr :: "int \<Rightarrow> bytes \<Rightarrow> addr_storage option" where
  "make_raddr af a = do {
     let len = (if af = AF_INET then 4 else 16);
     bs \<leftarrow> rd_slice a 0 len;
     Some \<lparr>ns_family = af, addr_len = int len, addr = bs @ replicate (16 - len) 0\<rparr>
   }"

text \<open>
  The end of the critical section of \<open>resolve\<close> after a miss: queue the address unless
  the ring is full or the address stays numerical. The flag is \<open>added\<close>.
\<close>

definition resolve_enqueue ::
  "resolver_state \<Rightarrow> addr_storage \<Rightarrow> (bool \<times> resolver_state) option" where
  "resolve_enqueue rs raddr =
     (if (head rs + 1) mod RESOLVE_QUEUE_LENGTH = tail rs then Some (False, rs)
      else if ns_family raddr = AF_INET6 \<and>
              (IN6_IS_ADDR_LINKLOCAL (addr raddr) \<or> IN6_IS_ADDR_SITELOCAL (addr raddr))
        then Some (False, rs)
      else do {
        q \<leftarrow> wri (resolve_queue rs) (head rs) raddr;
        Some (True, rs\<lparr>resolve_queue := q, head := (head rs + 1) mod RESOLVE_QUEUE_LENGTH\<rparr>) })"

text \<open>
  \<open>a\<close> is the node address \<open>hash_insert\<close> gets from \<open>xmalloc\<close>. Results: what is copied
  into \<open>result\<close> if the caller gave a buffer, whether \<open>resolver_queue_cond\<close> is signalled,
  and the new state.
\<close>

definition resolve ::
  "(int \<Rightarrow> bytes \<Rightarrow> string) \<Rightarrow> int \<Rightarrow> nat \<Rightarrow> resolver_state \<Rightarrow> int \<Rightarrow> bytes \<Rightarrow> int option
     \<Rightarrow> (string option \<times> bool \<times> resolver_state) option" where
  "resolve inet_ntop dnsresolution a rs af address buflen =
     (if dnsresolution = 1 then do {
        raddr \<leftarrow> make_raddr af address;
        (st, found) \<leftarrow> hash_find (ns_hash rs) raddr;
        (hostname, added, rs) \<leftarrow> (case found of
            Some hostname \<Rightarrow> Some (hostname, False, rs)
          | None \<Rightarrow> do {
              (_, h, n) \<leftarrow> ns_hash_evict_if_full (ns_hash rs) (ns_hash_n_entries rs) NS_HASH_MAX_ENTRIES;
              let hostname = inet_ntop af (addr raddr);
              (_, h) \<leftarrow> hash_insert h a raddr hostname;
              (added, rs) \<leftarrow> resolve_enqueue (rs\<lparr>ns_hash := h, ns_hash_n_entries := n + 1\<rparr>) raddr;
              Some (hostname, added, rs) });
        let result = (case buflen of
            Some n \<Rightarrow> if n > 1 then Some (take (nat (n - 1)) hostname) else None
          | None \<Rightarrow> None);
        Some (result, added, rs) }
      else Some (None, False, rs))"

text \<open>The head of the worker loop: take the oldest address, or find the ring empty.\<close>

definition worker_take ::
  "resolver_state \<Rightarrow> (addr_storage option \<times> resolver_state) option" where
  "worker_take rs =
     (if head rs \<noteq> tail rs then do {
        a \<leftarrow> rdi (resolve_queue rs) (tail rs);
        Some (Some a, rs\<lparr>tail := (tail rs + 1) mod RESOLVE_QUEUE_LENGTH\<rparr>) }
      else Some (None, rs))"

text \<open>Storing the result of \<open>do_resolve\<close>.\<close>

definition worker_store ::
  "nat \<Rightarrow> resolver_state \<Rightarrow> addr_storage \<Rightarrow> string option \<Rightarrow> resolver_state option" where
  "worker_store a rs key hostname =
     (case hostname of
        None \<Rightarrow> Some rs
      | Some name \<Rightarrow> do {
          (st, old) \<leftarrow> hash_find (ns_hash rs) key;
          rs \<leftarrow> (if st = HASH_STATUS_OK then do {
                   (_, h) \<leftarrow> hash_delete (ns_hash rs) key;
                   Some (rs\<lparr>ns_hash := h\<rparr>) }
                 else Some (rs\<lparr>ns_hash_n_entries := ns_hash_n_entries rs + 1\<rparr>));
          (_, h) \<leftarrow> hash_insert (ns_hash rs) a key name;
          Some (rs\<lparr>ns_hash := h\<rparr>) })"

section \<open>Threads\<close>

text \<open>
  Where a worker stands between two of its critical sections: not yet at its first
  wait, waiting on the condition variable, woken but without the mutex, or resolving
  an address with the mutex released.
\<close>

datatype worker = W_Start | W_Wait | W_Woken | W_Resolve addr_storage

record resolver_sys =
  rs :: resolver_state
  workers :: "worker list"
  signals :: nat

text \<open>The worker runs its loop with the mutex held until it waits or starts a lookup.\<close>

definition worker_loop :: "resolver_state \<Rightarrow> (worker \<times> resolver_state) option" where
  "worker_loop r = do {
     (x, r) \<leftarrow> worker_take r;
     Some (case x of None \<Rightarrow> W_Wait | Some a \<Rightarrow> W_Resolve a, r)
   }"

inductive resolver_step :: "(int \<Rightarrow> bytes \<Rightarrow> string) \<Rightarrow> resolver_sys \<Rightarrow> resolver_sys \<Rightarrow> bool"
  for inet_ntop :: "int \<Rightarrow> bytes \<Rightarrow> string" where
  call: "resolve inet_ntop dns a (rs s) af address buflen = Some (res, added, r') \<Longrightarrow>
     length address = 16 \<Longrightarrow> a \<notin> nd_addr ` set (nodes (ns_hash (rs s))) \<Longrightarrow>
     resolver_step inet_ntop s (s\<lparr>rs := r', signals := signals s + (if added then 1 else 0)\<rparr>)"
| signal: "signals s = Suc k \<Longrightarrow> i < length (workers s) \<Longrightarrow> workers s ! i = W_Wait \<Longrightarrow>
     resolver_step inet_ntop s (s\<lparr>workers := (workers s)[i := W_Woken], signals := k\<rparr>)"
| signal_none: "signals s = Suc k \<Longrightarrow> W_Wait \<notin> set (workers s) \<Longrightarrow>
     resolver_step inet_ntop s (s\<lparr>signals := k\<rparr>)"
| spurious: "i < length (workers s) \<Longrightarrow> workers s ! i = W_Wait \<Longrightarrow>
     resolver_step inet_ntop s (s\<lparr>workers := (workers s)[i := W_Woken]\<rparr>)"
| start: "i < length (workers s) \<Longrightarrow> workers s ! i = W_Start \<Longrightarrow>
     resolver_step inet_ntop s (s\<lparr>workers := (workers s)[i := W_Wait]\<rparr>)"
| wake: "i < length (workers s) \<Longrightarrow> workers s ! i = W_Woken \<Longrightarrow>
     worker_loop (rs s) = Some (w, r') \<Longrightarrow>
     resolver_step inet_ntop s (s\<lparr>rs := r', workers := (workers s)[i := w]\<rparr>)"
| finish: "i < length (workers s) \<Longrightarrow> workers s ! i = W_Resolve key \<Longrightarrow>
     a \<notin> nd_addr ` set (nodes (ns_hash (rs s))) \<Longrightarrow>
     worker_store a (rs s) key hostname = Some r' \<Longrightarrow> worker_loop r' = Some (w, r'') \<Longrightarrow>
     resolver_step inet_ntop s (s\<lparr>rs := r'', workers := (workers s)[i := w]\<rparr>)"

inductive_cases resolver_stepE: "resolver_step inet_ntop s s'"

definition resolver_boot :: resolver_sys where
  "resolver_boot = \<lparr>rs = resolver_initialise, workers = [W_Start, W_Start], signals = 0\<rparr>"

section \<open>The ring as a queue\<close>

text \<open>Number of pending addresses, and the addresses in the order they were added.\<close>

definition pending_n :: "resolver_state \<Rightarrow> nat" where
  "pending_n r = nat ((head r - tail r) mod 20)"

definition pending :: "resolver_state \<Rightarrow> addr_storage list" where
  "pending r = map (\<lambda>j. resolve_queue r ! nat ((tail r + int j) mod 20)) [0..<pending_n r]"

definition ring_ok :: "resolver_state \<Rightarrow> bool" where
  "ring_ok r \<longleftrightarrow> length (resolve_queue r) = 20 \<and> 0 \<le> head r \<and> head r < 20 \<and> 0 \<le> tail r \<and> tail r < 20"

lemma length_pending [simp]: "length (pending r) = pending_n r"
  by (simp add: pending_def)

lemma pending_le: "pending_n r \<le> 19"
  using pos_mod_bound [of 20 "head r - tail r"] by (simp add: pending_n_def)

lemma pending_full: "ring_ok r \<Longrightarrow> (head r + 1) mod 20 = tail r \<longleftrightarrow> pending_n r = 19"
  by (auto simp: ring_ok_def pending_n_def mod_diff_cases mod_Suc_cases split: if_splits)

lemma pending_empty: "ring_ok r \<Longrightarrow> head r = tail r \<longleftrightarrow> pending r = []"
proof -
  assume "ring_ok r"
  then have "head r = tail r \<longleftrightarrow> pending_n r = 0"
    by (auto simp: ring_ok_def pending_n_def mod_diff_cases split: if_splits)
  then show ?thesis by (metis length_0_conv length_pending)
qed

lemma pending_enqueue:
  assumes ok: "ring_ok r" and room: "(head r + 1) mod 20 \<noteq> tail r"
    and r': "r' = r\<lparr>resolve_queue := (resolve_queue r)[nat (head r) := x], head := (head r + 1) mod 20\<rparr>"
  shows "ring_ok r'" "pending r' = pending r @ [x]"
proof -
  show "ring_ok r'" using ok by (simp add: ring_ok_def r')
  have n: "pending_n r' = Suc (pending_n r)"
    using ok room by (auto simp: ring_ok_def pending_n_def r' mod_diff_cases mod_Suc_cases split: if_splits)
  have hd: "(tail r + int (pending_n r)) mod 20 = head r"
    using ok by (auto simp: ring_ok_def pending_n_def mod_diff_cases)
  have old: "nat (head r) \<noteq> nat ((tail r + int j) mod 20)" if "j < pending_n r" for j
    using ok that pending_le [of r]
    by (auto simp: ring_ok_def pending_n_def mod_diff_cases mod_add_cases split: if_splits)
  have "pending r' = map (\<lambda>j. (resolve_queue r)[nat (head r) := x] ! nat ((tail r + int j) mod 20))
      ([0..<pending_n r] @ [pending_n r])"
    by (simp add: pending_def n) (simp add: r')
  also have "\<dots> = pending r @ [x]"
    using ok old by (auto simp: pending_def hd ring_ok_def)
  finally show "pending r' = pending r @ [x]" .
qed

lemma pending_dequeue:
  assumes ok: "ring_ok r" and ne: "head r \<noteq> tail r"
    and r': "r' = r\<lparr>tail := (tail r + 1) mod 20\<rparr>"
  shows "ring_ok r'" "pending r = resolve_queue r ! nat (tail r) # pending r'"
proof -
  show "ring_ok r'" using ok by (simp add: ring_ok_def r')
  have n: "pending_n r = Suc (pending_n r')"
    using ok ne by (auto simp: ring_ok_def pending_n_def r' mod_diff_cases mod_Suc_cases split: if_splits)
  have "(tail r + int (Suc j)) mod 20 = (tail r' + int j) mod 20" for j
    by (simp add: r' mod_simps add_ac)
  then show "pending r = resolve_queue r ! nat (tail r) # pending r'"
    using ok by (simp add: pending_def n upt_conv_Cons map_Suc_upt [symmetric] comp_def ring_ok_def r'
        del: upt_Suc)
qed

text \<open>The queue contract of the resolver: what is added comes out in order.\<close>

locale bounded_fifo =
  fixes enq :: "'q \<Rightarrow> 'x \<Rightarrow> (bool \<times> 'q) option"
    and deq :: "'q \<Rightarrow> ('x option \<times> 'q) option"
    and skip :: "'x \<Rightarrow> bool"
    and cap :: nat
    and ok :: "'q \<Rightarrow> bool"
    and items :: "'q \<Rightarrow> 'x list"
  assumes enq_law: "ok q \<Longrightarrow> \<exists>q'. enq q x = Some (length (items q) < cap \<and> \<not> skip x, q') \<and> ok q' \<and>
      items q' = (if length (items q) < cap \<and> \<not> skip x then items q @ [x] else items q)"
    and deq_law: "ok q \<Longrightarrow> \<exists>q'. deq q = Some (case items q of [] \<Rightarrow> None | x # _ \<Rightarrow> Some x, q') \<and> ok q' \<and>
      items q' = List.tl (items q)"
begin

fun enq_all :: "'q \<Rightarrow> 'x list \<Rightarrow> 'q option" where
  "enq_all q [] = Some q"
| "enq_all q (x # xs) = Option.bind (enq q x) (\<lambda>(_, q). enq_all q xs)"

fun drain :: "nat \<Rightarrow> 'q \<Rightarrow> ('x list \<times> 'q) option" where
  "drain 0 q = Some ([], q)"
| "drain (Suc n) q = Option.bind (deq q) (\<lambda>(x, q).
     case x of None \<Rightarrow> Some ([], q)
     | Some x \<Rightarrow> Option.bind (drain n q) (\<lambda>(xs, q). Some (x # xs, q)))"

lemma drain_items:
  "ok q \<Longrightarrow> length (items q) \<le> n \<Longrightarrow> \<exists>q'. drain n q = Some (items q, q') \<and> ok q' \<and> items q' = []"
proof (induction n arbitrary: q)
  case (Suc n)
  from deq_law [OF Suc.prems(1)] obtain q' where
    d: "deq q = Some (case items q of [] \<Rightarrow> None | x # _ \<Rightarrow> Some x, q')" "ok q'"
       "items q' = List.tl (items q)" by blast
  show ?case
  proof (cases "items q")
    case (Cons x xs)
    with Suc.prems(2) d(3) have "length (items q') \<le> n" by simp
    from Suc.IH [OF d(2) this] Cons d show ?thesis by auto
  qed (use d in auto)
qed simp

lemma enq_all_items:
  "ok q \<Longrightarrow> length (items q) + length xs \<le> cap \<Longrightarrow> \<forall>x\<in>set xs. \<not> skip x \<Longrightarrow>
     \<exists>q'. enq_all q xs = Some q' \<and> ok q' \<and> items q' = items q @ xs"
proof (induction xs arbitrary: q)
  case (Cons x xs)
  from enq_law [OF Cons.prems(1), of x] Cons.prems obtain q' where
    e: "enq q x = Some (True, q')" "ok q'" "items q' = items q @ [x]" by auto
  from Cons.IH [OF e(2)] Cons.prems e show ?case by auto
qed simp

text \<open>Addresses come out in the order they went in, and none is lost.\<close>

lemma fifo:
  assumes "ok q" "items q = []" "length xs \<le> cap" "\<forall>x\<in>set xs. \<not> skip x"
  shows "\<exists>q' q''. enq_all q xs = Some q' \<and> drain cap q' = Some (xs, q'') \<and> ok q'' \<and> items q'' = []"
  using enq_all_items [OF assms(1)] assms drain_items by fastforce

end

text \<open>Addresses that stay numerical are never queued.\<close>

definition stays_numeric :: "addr_storage \<Rightarrow> bool" where
  "stays_numeric x \<longleftrightarrow> ns_family x = AF_INET6 \<and>
     (IN6_IS_ADDR_LINKLOCAL (addr x) \<or> IN6_IS_ADDR_SITELOCAL (addr x))"

lemma resolve_enqueue_ok:
  assumes "ring_ok r"
  shows "\<exists>r'. resolve_enqueue r x = Some (length (pending r) < 19 \<and> \<not> stays_numeric x, r') \<and> ring_ok r' \<and>
     pending r' = (if length (pending r) < 19 \<and> \<not> stays_numeric x then pending r @ [x] else pending r) \<and>
     ns_hash r' = ns_hash r \<and> ns_hash_n_entries r' = ns_hash_n_entries r"
proof (cases "(head r + 1) mod 20 = tail r")
  case True
  with assms pending_full [OF assms] show ?thesis
    by (simp add: resolve_enqueue_def RESOLVE_QUEUE_LENGTH_def)
next
  case False
  with pending_full [OF assms] pending_le [of r] have lt: "pending_n r < 19" by simp
  from assms have "0 \<le> head r" "head r < int (length (resolve_queue r))" by (auto simp: ring_ok_def)
  then show ?thesis
    using False lt pending_enqueue [OF assms False refl] assms
    by (auto simp: resolve_enqueue_def RESOLVE_QUEUE_LENGTH_def stays_numeric_def wri_def)
qed

lemma worker_take_ok:
  assumes "ring_ok r"
  shows "\<exists>r'. worker_take r = Some (case pending r of [] \<Rightarrow> None | x # _ \<Rightarrow> Some x, r') \<and> ring_ok r' \<and>
     pending r' = List.tl (pending r) \<and> ns_hash r' = ns_hash r \<and> ns_hash_n_entries r' = ns_hash_n_entries r"
proof (cases "head r = tail r")
  case True
  with pending_empty [OF assms] assms show ?thesis by (auto simp: worker_take_def)
next
  case False
  from assms have "0 \<le> tail r" "tail r < int (length (resolve_queue r))" by (auto simp: ring_ok_def)
  with False pending_dequeue [OF assms False refl] show ?thesis
    by (auto simp: worker_take_def RESOLVE_QUEUE_LENGTH_def rdi_def)
qed

interpretation ring: bounded_fifo resolve_enqueue worker_take stays_numeric 19 ring_ok pending
  using resolve_enqueue_ok worker_take_ok by unfold_locales meson+

section \<open>Resolver state\<close>

text \<open>
  Ring and cache are well formed, only proper keys are queued, and the entry counter
  is the number of cached names.
\<close>

definition rs_inv :: "resolver_state \<Rightarrow> bool" where
  "rs_inv r \<longleftrightarrow> ring_ok r \<and> ns_inv (ns_hash r) \<and>
     ns_hash_n_entries r = int (length (nodes (ns_hash r))) \<and> (\<forall>x\<in>set (pending r). ns_key_ok x)"

definition cached :: "resolver_state \<Rightarrow> addr_storage \<Rightarrow> string option" where
  "cached r = hash_map (ns_hash r)"

lemma resolver_initialise_inv: "rs_inv resolver_initialise" "pending resolver_initialise = []"
  by (auto simp: rs_inv_def ring_ok_def resolver_initialise_def RESOLVE_QUEUE_LENGTH_def
      ns_hash_create_inv pending_def pending_n_def)

lemma make_raddr_ok:
  assumes "length a = 16"
  shows "\<exists>k. make_raddr af a = Some k \<and> ns_key_ok k \<and> ns_family k = af"
  using assms by (auto simp: make_raddr_def rd_slice_def ns_key_ok_def Let_def)

lemma ns_insert:
  assumes "ns_inv h" "ns_key_ok k" "a \<notin> nd_addr ` set (nodes h)" "hash_map h k = None"
  shows "\<exists>h'. hash_insert h a k v = Some (HASH_STATUS_OK, h') \<and> ns_inv h' \<and>
     length (nodes h') = Suc (length (nodes h)) \<and>
     (\<forall>k'. ns_key_ok k' \<longrightarrow> hash_map h' k' = (if ns_hash_compare k k' then Some v else hash_map h k'))"
proof -
  from assms(1) have i: "hash_wf ns_key_ok h"
    "hash_uses ns_hash_compare ns_hash_hash ns_hash_copy_key 256 h" "hash_uniq h"
    by (auto simp: ns_inv_def)
  obtain h' where h: "hash_insert h a k v = Some (HASH_STATUS_OK, h')" "hash_wf ns_key_ok h'"
    "hash_uses ns_hash_compare ns_hash_hash ns_hash_copy_key 256 h'"
    "mset (nodes h') = mset (nodes h) +
       {# \<lparr>nd_addr = a, nd_key = ns_hash_copy_key k, nd_record = v, nd_bucket = ns_hash_hash k\<rparr> #}"
    "\<forall>k'. ns_key_ok k' \<longrightarrow> hash_map h' k' = (if ns_hash_compare k k' then Some v else hash_map h k')"
    "hash_uniq h \<longrightarrow> hash_map h k = None \<longrightarrow> hash_uniq h'"
    by (rule ns.insert_correct [OF i(1,2) assms(2,3), of v])
  have "length (nodes h') = Suc (length (nodes h))"
    using mset_eq_length [of "nodes h'" "_ # nodes h"] h(4) by simp
  with h assms(4) i(3) show ?thesis by (auto simp: ns_inv_def)
qed

lemma ns_find:
  assumes "ns_inv h" "ns_key_ok k"
  shows "hash_find h k =
     Some (case hash_map h k of None \<Rightarrow> (HASH_STATUS_KEY_NOT_FOUND, None)
           | Some r \<Rightarrow> (HASH_STATUS_OK, Some r))"
  using assms by (intro ns.find_correct) (auto simp: ns_inv_def)

lemma resolve_hit:
  assumes "rs_inv r" "make_raddr af address = Some k" "ns_key_ok k" "cached r k = Some name"
  shows "resolve ntop 1 a r af address buflen =
     Some (Option.bind buflen (\<lambda>n. if n > 1 then Some (take (nat (n - 1)) name) else None), False, r)"
  using assms ns_find [of "ns_hash r" k]
  by (auto simp: resolve_def rs_inv_def cached_def Let_def split: option.split)

lemma resolve_miss:
  assumes inv: "rs_inv r" and k: "make_raddr af address = Some k" "ns_key_ok k"
    and miss: "cached r k = None" and fresh: "a \<notin> nd_addr ` set (nodes (ns_hash r))"
  shows "\<exists>r'. resolve ntop 1 a r af address buflen =
       Some (Option.bind buflen (\<lambda>n. if n > 1 then Some (take (nat (n - 1)) (ntop af (addr k))) else None),
             length (pending r) < 19 \<and> \<not> stays_numeric k, r') \<and> rs_inv r' \<and>
     ns_hash_n_entries r' = (if ns_hash_n_entries r \<ge> 16384 then 1 else ns_hash_n_entries r + 1) \<and>
     pending r' = (if length (pending r) < 19 \<and> \<not> stays_numeric k then pending r @ [k] else pending r) \<and>
     (\<forall>k'. ns_key_ok k' \<longrightarrow> cached r' k' =
        (if ns_hash_compare k k' then Some (ntop af (addr k))
         else if ns_hash_n_entries r \<ge> 16384 then None else cached r k'))"
proof -
  let ?full = "ns_hash_n_entries r \<ge> 16384"
  from inv have i: "ring_ok r" "ns_inv (ns_hash r)"
    "ns_hash_n_entries r = int (length (nodes (ns_hash r)))" "\<forall>x\<in>set (pending r). ns_key_ok x"
    by (auto simp: rs_inv_def)
  from ns_hash_evict_ok [OF i(2), of "ns_hash_n_entries r" 16384] obtain h1 where
    e: "ns_hash_evict_if_full (ns_hash r) (ns_hash_n_entries r) 16384 =
          Some (if ?full then 1 else 0, h1, if ?full then 0 else ns_hash_n_entries r)"
       "ns_inv h1" "nodes h1 = (if ?full then [] else nodes (ns_hash r))" by blast
  have m1: "hash_map h1 k' = (if ?full then None else cached r k')" for k'
    using e i(2) by (auto simp: hash_map_def cached_def ns_inv_def hash_uses_def)
  have "hash_map h1 k = None" using m1 miss by simp
  moreover from fresh e(3) have "a \<notin> nd_addr ` set (nodes h1)" by auto
  ultimately obtain h2 where h2: "hash_insert h1 a k (ntop af (addr k)) = Some (HASH_STATUS_OK, h2)"
    "ns_inv h2" "length (nodes h2) = Suc (length (nodes h1))"
    "\<forall>k'. ns_key_ok k' \<longrightarrow> hash_map h2 k' =
        (if ns_hash_compare k k' then Some (ntop af (addr k)) else hash_map h1 k')"
    using ns_insert [OF e(2) k(2)] by blast
  define r1 where "r1 = r\<lparr>ns_hash := h2, ns_hash_n_entries := (if ?full then 0 else ns_hash_n_entries r) + 1\<rparr>"
  have r1: "ring_ok r1" "pending r1 = pending r"
    "ns_hash r1 = h2" "ns_hash_n_entries r1 = (if ?full then 0 else ns_hash_n_entries r) + 1"
    using i(1) by (simp_all add: r1_def ring_ok_def pending_def pending_n_def)
  from resolve_enqueue_ok [OF r1(1), of k] obtain r' where
    q: "resolve_enqueue r1 k = Some (length (pending r) < 19 \<and> \<not> stays_numeric k, r')" "ring_ok r'"
       "pending r' = (if length (pending r) < 19 \<and> \<not> stays_numeric k then pending r @ [k] else pending r)"
       "ns_hash r' = h2" "ns_hash_n_entries r' = (if ?full then 0 else ns_hash_n_entries r) + 1"
    unfolding r1(2-4) by blast
  have eq: "resolve ntop 1 a r af address buflen =
       Some (Option.bind buflen (\<lambda>n. if n > 1 then Some (take (nat (n - 1)) (ntop af (addr k))) else None),
             length (pending r) < 19 \<and> \<not> stays_numeric k, r')"
    using k ns_find [OF i(2) k(2)] miss e(1) h2(1) q(1)
    by (simp add: resolve_def cached_def NS_HASH_MAX_ENTRIES_def Let_def r1_def split: option.split)
  have "rs_inv r'"
    using q h2(2,3) e(3) i(3,4) k(2) by (auto simp: rs_inv_def)
  then show ?thesis using eq q(3,4,5) h2(4) m1 by (auto simp: cached_def)
qed

lemma worker_store_ok:
  assumes inv: "rs_inv r" and k: "ns_key_ok k" and fresh: "a \<notin> nd_addr ` set (nodes (ns_hash r))"
  shows "\<exists>r'. worker_store a r k hostname = Some r' \<and> rs_inv r' \<and> pending r' = pending r \<and>
     ns_hash_n_entries r' = ns_hash_n_entries r + (if hostname \<noteq> None \<and> cached r k = None then 1 else 0) \<and>
     (\<forall>k'. ns_key_ok k' \<longrightarrow> cached r' k' =
        (if hostname \<noteq> None \<and> ns_hash_compare k k' then hostname else cached r k'))"
proof (cases hostname)
  case None
  with inv show ?thesis by (auto simp: worker_store_def)
next
  case (Some name)
  from inv have i: "hash_wf ns_key_ok (ns_hash r)"
    "hash_uses ns_hash_compare ns_hash_hash ns_hash_copy_key 256 (ns_hash r)" "hash_uniq (ns_hash r)"
    by (auto simp: rs_inv_def ns_inv_def)
  obtain h1 h2 where h:
    "hash_map (ns_hash r) k = None \<longrightarrow> h1 = ns_hash r"
    "hash_map (ns_hash r) k \<noteq> None \<longrightarrow> hash_delete (ns_hash r) k = Some (HASH_STATUS_OK, h1)"
    "hash_insert h1 a k name = Some (HASH_STATUS_OK, h2)"
    "hash_wf ns_key_ok h2" "hash_uses ns_hash_compare ns_hash_hash ns_hash_copy_key 256 h2" "hash_uniq h2"
    "\<forall>k'. ns_key_ok k' \<longrightarrow> hash_map h2 k' = (if ns_hash_compare k k' then Some name else hash_map (ns_hash r) k')"
    "length (nodes h2) = length (nodes (ns_hash r)) + (if hash_map (ns_hash r) k = None then 1 else 0)"
    "nd_addr ` set (nodes h2) \<subseteq> insert a (nd_addr ` set (nodes (ns_hash r)))"
    by (rule ns.replace_correct [OF i k fresh, of name])
  define r' where "r' = r\<lparr>ns_hash := h2, ns_hash_n_entries := ns_hash_n_entries r +
      (if cached r k = None then 1 else 0)\<rparr>"
  have "worker_store a r k hostname = Some r'"
    using h(1-3) ns.find_correct [OF i(1,2) k] Some
    by (auto simp: worker_store_def r'_def cached_def split: option.splits)
  moreover have "rs_inv r'" "pending r' = pending r"
    using inv h(4-6,8) by (auto simp: rs_inv_def r'_def ns_inv_def ring_ok_def pending_def pending_n_def cached_def)
  ultimately show ?thesis using Some h(7) by (auto simp: r'_def cached_def)
qed

section \<open>Invariants of the threads\<close>

fun resolving :: "worker \<Rightarrow> bool" where
  "resolving (W_Resolve _) = True"
| "resolving _ = False"

text \<open>Addresses on the ring or in the hands of a worker.\<close>

definition in_flight :: "resolver_sys \<Rightarrow> nat" where
  "in_flight s = length (pending (rs s)) + length (filter resolving (workers s))"

definition sys_inv :: "resolver_sys \<Rightarrow> bool" where
  "sys_inv s \<longleftrightarrow> rs_inv (rs s) \<and> length (workers s) = 2 \<and>
     (\<forall>k. W_Resolve k \<in> set (workers s) \<longrightarrow> ns_key_ok k) \<and>
     ns_hash_n_entries (rs s) + int (in_flight s) \<le> 16384 + 21"

lemma resolve_summary:
  assumes inv: "rs_inv r" and len: "length address = 16"
    and fresh: "a \<notin> nd_addr ` set (nodes (ns_hash r))"
    and res: "resolve ntop dns a r af address buflen = Some (out, added, r')"
  shows "rs_inv r' \<and> (r' = r \<and> \<not> added \<or> ns_hash_n_entries r' \<le> 16384) \<and>
     (\<exists>k. ns_key_ok k \<and> pending r' = (if added then pending r @ [k] else pending r))"
proof (cases "dns = 1")
  case False
  obtain k where "ns_key_ok k" using make_raddr_ok [OF len] by blast
  with False res inv show ?thesis by (auto simp: resolve_def)
next
  case True
  obtain k where k: "make_raddr af address = Some k" "ns_key_ok k" using make_raddr_ok [OF len] by blast
  show ?thesis
  proof (cases "cached r k")
    case (Some name)
    with resolve_hit [OF inv k Some] True res inv k(2) show ?thesis by auto
  next
    case None
    with resolve_miss [OF inv k None fresh, of ntop buflen] True res k(2) show ?thesis
      by (auto intro: exI [of _ k])
  qed
qed

lemma two_workers:
  assumes "length (workers s) = 2" "i < length (workers s)"
  obtains w v where "workers s = [w, v]" "i = 0" | w v where "workers s = [w, v]" "i = 1"
proof -
  from assms(1) obtain w v where "workers s = [w, v]"
    by (auto simp: numeral_2_eq_2 length_Suc_conv)
  with assms(2) that show thesis by (cases i) auto
qed

lemma worker_update:
  assumes "length ws = 2" "i < length ws"
  shows "length (filter resolving (ws[i := w])) + (if resolving (ws ! i) then 1 else 0) =
     length (filter resolving ws) + (if resolving w then 1 else 0)"
  using assms by (auto simp: numeral_2_eq_2 length_Suc_conv less_Suc_eq)

lemma worker_loop_ok:
  assumes "rs_inv r" "worker_loop r = Some (w, r')"
  shows "rs_inv r'" "ns_hash_n_entries r' = ns_hash_n_entries r" "ns_hash r' = ns_hash r"
    "w = W_Wait \<and> pending r = [] \<and> pending r' = [] \<and> pending_n r' = 0 \<or>
     (\<exists>k. w = W_Resolve k \<and> ns_key_ok k \<and> pending r = k # pending r' \<and> pending_n r = Suc (pending_n r'))"
proof -
  from assms(1) have i: "ring_ok r" "\<forall>x\<in>set (pending r). ns_key_ok x" by (auto simp: rs_inv_def)
  from worker_take_ok [OF i(1)] assms(2)
  have t: "ring_ok r'" "pending r' = List.tl (pending r)" "ns_hash r' = ns_hash r"
    "ns_hash_n_entries r' = ns_hash_n_entries r"
    "w = (case pending r of [] \<Rightarrow> W_Wait | k # _ \<Rightarrow> W_Resolve k)"
    by (auto simp: worker_loop_def split: list.splits option.splits)
  then show "ns_hash_n_entries r' = ns_hash_n_entries r" "ns_hash r' = ns_hash r" by auto
  show "rs_inv r'" using assms(1) t(1-4) by (cases "pending r") (auto simp: rs_inv_def)
  show "w = W_Wait \<and> pending r = [] \<and> pending r' = [] \<and> pending_n r' = 0 \<or>
     (\<exists>k. w = W_Resolve k \<and> ns_key_ok k \<and> pending r = k # pending r' \<and> pending_n r = Suc (pending_n r'))"
    using t i(2) length_pending [of r] length_pending [of r'] by (cases "pending r") auto
qed

lemma pending_bound: "length (pending r) \<le> 19"
  using pending_le by simp

lemma sys_inv_step:
  assumes "resolver_step ntop s s'" "sys_inv s"
  shows "sys_inv s'"
  using assms
proof (induction rule: resolver_step.induct)
  case (call dns a s af address buflen res added r')
  then have i: "rs_inv (rs s)" by (simp add: sys_inv_def)
  have two: "length (filter resolving (workers s)) \<le> 2"
    using call.prems length_filter_le [of resolving "workers s"] by (simp add: sys_inv_def)
  from resolve_summary [OF i call.hyps(2,3,1)] obtain k where
    r: "rs_inv r'" "r' = rs s \<and> \<not> added \<or> ns_hash_n_entries r' \<le> 16384" by blast
  show ?case
    using call.prems r two pending_bound [of r'] by (auto simp: sys_inv_def in_flight_def)
next
  case (wake i s w r')
  then have i: "rs_inv (rs s)" by (simp add: sys_inv_def)
  note l = worker_loop_ok [OF i wake.hyps(3)]
  have "length (filter resolving ((workers s)[i := w])) =
      length (filter resolving (workers s)) + (if resolving w then 1 else 0)"
    using worker_update [of "workers s" i w] wake by (simp add: sys_inv_def)
  with l wake.prems show ?case
    by (auto simp: sys_inv_def in_flight_def dest!: set_update_subset_insert [THEN subsetD])
next
  case (finish i s key a hostname r' w r'')
  have "W_Resolve key \<in> set (workers s)" using finish.hyps(1,2) by (metis nth_mem)
  with finish have i: "rs_inv (rs s)" and k: "ns_key_ok key" by (auto simp: sys_inv_def)
  from worker_store_ok [OF i k finish.hyps(3), of hostname] finish.hyps(4)
  have st: "rs_inv r'" "pending r' = pending (rs s)" "ns_hash_n_entries r' \<le> ns_hash_n_entries (rs s) + 1"
    by auto
  note l = worker_loop_ok [OF st(1) finish.hyps(5)]
  have n: "pending_n r' = pending_n (rs s)" using arg_cong [OF st(2), of length] by simp
  have "length (filter resolving ((workers s)[i := w])) + 1 =
      length (filter resolving (workers s)) + (if resolving w then 1 else 0)"
    using worker_update [of "workers s" i w] finish by (simp add: sys_inv_def)
  with l st n finish.prems show ?case
    by (auto simp: sys_inv_def in_flight_def dest!: set_update_subset_insert [THEN subsetD])
next
  case (signal s k i)
  then show ?case
    using worker_update [of "workers s" i W_Woken]
    by (auto simp: sys_inv_def in_flight_def dest!: set_update_subset_insert [THEN subsetD])
next
  case (spurious i s)
  then show ?case
    using worker_update [of "workers s" i W_Woken]
    by (auto simp: sys_inv_def in_flight_def dest!: set_update_subset_insert [THEN subsetD])
next
  case (start i s)
  then show ?case
    using worker_update [of "workers s" i W_Wait]
    by (auto simp: sys_inv_def in_flight_def dest!: set_update_subset_insert [THEN subsetD])
qed (auto simp: sys_inv_def in_flight_def)

lemma resolver_boot_inv: "sys_inv resolver_boot"
  by (simp add: sys_inv_def resolver_boot_def resolver_initialise_inv in_flight_def)
     (simp add: resolver_initialise_def)

lemma sys_inv_reachable: "(resolver_step ntop)\<^sup>*\<^sup>* resolver_boot s \<Longrightarrow> sys_inv s"
  by (induction rule: rtranclp_induct) (auto intro: resolver_boot_inv sys_inv_step)

text \<open>
  No wake-up is lost once every worker has reached its first wait: while addresses
  are pending, a signal is on its way or some worker is awake.
\<close>

definition wake_inv :: "resolver_sys \<Rightarrow> bool" where
  "wake_inv s \<longleftrightarrow> W_Start \<notin> set (workers s) \<and>
     (pending (rs s) \<noteq> [] \<longrightarrow> signals s > 0 \<or> (\<exists>w\<in>set (workers s). w \<noteq> W_Wait))"

definition resolver_ready :: resolver_sys where
  "resolver_ready = resolver_boot\<lparr>workers := [W_Wait, W_Wait]\<rparr>"

lemma no_start_update: "W_Start \<notin> set ws \<Longrightarrow> w \<noteq> W_Start \<Longrightarrow> W_Start \<notin> set (ws[i := w])"
  by (auto dest!: set_update_subset_insert [THEN subsetD])

lemma wake_inv_step:
  assumes "resolver_step ntop s s'" "sys_inv s" "wake_inv s"
  shows "wake_inv s'"
  using assms
proof (induction rule: resolver_step.induct)
  case (call dns a s af address buflen res added r')
  then have i: "rs_inv (rs s)" by (simp add: sys_inv_def)
  from resolve_summary [OF i call.hyps(2,3,1)] call.prems(2) show ?case
    by (auto simp: wake_inv_def split: if_splits)
next
  case (wake i s w r')
  then have i: "rs_inv (rs s)" by (simp add: sys_inv_def)
  from worker_loop_ok(4) [OF i wake.hyps(3)] wake.prems(2) set_update_memI [OF wake.hyps(1), of w]
    no_start_update [of "workers s" w i]
  show ?case by (auto simp: wake_inv_def)
next
  case (finish i s key a hostname r' w r'')
  have "W_Resolve key \<in> set (workers s)" using finish.hyps(1,2) by (metis nth_mem)
  with finish have i: "rs_inv (rs s)" and k: "ns_key_ok key" by (auto simp: sys_inv_def)
  from worker_store_ok [OF i k finish.hyps(3), of hostname] finish.hyps(4) have "rs_inv r'" by auto
  from worker_loop_ok(4) [OF this finish.hyps(5)] finish.prems(2) set_update_memI [OF finish.hyps(1), of w]
    no_start_update [of "workers s" w i]
  show ?case by (auto simp: wake_inv_def)
next
  case (signal s k i)
  then show ?case
    by (auto simp: wake_inv_def intro!: bexI [of _ W_Woken] set_update_memI
        dest!: set_update_subset_insert [THEN subsetD])
next
  case (signal_none s k)
  then show ?case
    by (cases "workers s") (auto simp: wake_inv_def sys_inv_def)
next
  case (spurious i s)
  then show ?case
    by (auto simp: wake_inv_def intro!: bexI [of _ W_Woken] set_update_memI
        dest!: set_update_subset_insert [THEN subsetD])
next
  case (start i s)
  then have "W_Start \<in> set (workers s)" by (metis nth_mem)
  with start.prems(2) show ?case by (simp add: wake_inv_def)
qed

lemma resolver_ready_inv: "sys_inv resolver_ready" "wake_inv resolver_ready"
  using resolver_boot_inv
  by (auto simp: sys_inv_def in_flight_def resolver_ready_def resolver_boot_def wake_inv_def
      resolver_initialise_inv)

lemma ready_reachable:
  "(resolver_step ntop)\<^sup>*\<^sup>* resolver_ready s \<Longrightarrow> sys_inv s \<and> wake_inv s"
  by (induction rule: rtranclp_induct) (auto intro: resolver_ready_inv sys_inv_step wake_inv_step)

text \<open>A first call on a fresh resolver, used to exhibit runs.\<close>

lemma resolver_initialise_nodes: "nodes (ns_hash resolver_initialise) = []"
  by (simp add: resolver_initialise_def ns_hash_create_inv)

lemma first_call:
  "\<exists>r k. resolve inet_ntop 1 0 resolver_initialise AF_INET (replicate 16 1) None = Some (None, True, r) \<and>
     pending r = [k]"
proof -
  let ?addr = "replicate 16 1 :: bytes"
  obtain k where k: "make_raddr AF_INET ?addr = Some k" "ns_key_ok k" "ns_family k = AF_INET"
    using make_raddr_ok [of ?addr AF_INET] by auto
  have "cached resolver_initialise k = None" "0 \<notin> nd_addr ` set (nodes (ns_hash resolver_initialise))"
    by (simp_all add: cached_def hash_map_def resolver_initialise_nodes)
  from resolve_miss [OF resolver_initialise_inv(1) k(1,2) this, of inet_ntop None] k(3) show ?thesis
    by (auto simp: resolver_initialise_inv(2) stays_numeric_def net_consts)
qed

section \<open>Properties\<close>

text \<open>C10: in every state the resolver and its two workers can reach, under any interleaving
  of calls, wake-ups and lookups that return any name or none, both ring indices stay inside
  the ring, at most nineteen addresses are pending, no address is cached twice, the entry
  counter equals the number of cached names, and the cache never holds more than 16384
  names plus the twenty-one addresses that can be in flight.\<close>

theorem resolver_invariant:
  assumes "(resolver_step inet_ntop)\<^sup>*\<^sup>* resolver_boot s"
  shows "0 \<le> head (rs s) \<and> head (rs s) < 20 \<and> 0 \<le> tail (rs s) \<and> tail (rs s) < 20 \<and>
    length (pending (rs s)) \<le> 19 \<and> hash_uniq (ns_hash (rs s)) \<and>
    ns_hash_n_entries (rs s) = int (length (nodes (ns_hash (rs s)))) \<and>
    ns_hash_n_entries (rs s) \<le> NS_HASH_MAX_ENTRIES + 21"
  using sys_inv_reachable [OF assms] pending_bound [of "rs s"]
  by (auto simp: sys_inv_def rs_inv_def ring_ok_def ns_inv_def NS_HASH_MAX_ENTRIES_def)

theorem resolver_invariant_witness:
  "head (rs resolver_boot) < 20 \<and> ns_hash_n_entries (rs resolver_boot) \<le> NS_HASH_MAX_ENTRIES + 21"
  using resolver_invariant [of "\<lambda>_ _. []" resolver_boot] by blast

text \<open>C16: no wake-up is lost once both workers wait. In every state reached from there,
  as long as addresses are pending a signal is still to be delivered or a worker is awake.\<close>

theorem resolver_no_lost_wakeup:
  assumes "(resolver_step inet_ntop)\<^sup>*\<^sup>* resolver_ready s" and "pending (rs s) \<noteq> []"
  shows "signals s > 0 \<or> (\<exists>w\<in>set (workers s). w = W_Woken \<or> (\<exists>k. w = W_Resolve k))"
proof -
  from ready_reachable [OF assms(1)] have "wake_inv s" by blast
  with assms(2) show ?thesis unfolding wake_inv_def by (metis worker.exhaust)
qed

theorem resolver_no_lost_wakeup_witness:
  "\<exists>s :: resolver_sys. pending (rs s) \<noteq> [] \<and>
     (signals s > 0 \<or> (\<exists>w\<in>set (workers s). w = W_Woken \<or> (\<exists>k. w = W_Resolve k)))"
proof -
  let ?ntop = "\<lambda>_ _. []"
  from first_call obtain r k where
    r: "resolve ?ntop 1 0 resolver_initialise AF_INET (replicate 16 1) None = Some (None, True, r)"
      "pending r = [k]" by blast
  let ?s = "resolver_ready\<lparr>rs := r, signals := 1\<rparr>"
  have "resolver_step ?ntop resolver_ready ?s"
    using resolver_step.call [of ?ntop 1 0 resolver_ready AF_INET "replicate 16 1" None None True r] r
    by (simp add: resolver_ready_def resolver_boot_def resolver_initialise_nodes)
  then have "(resolver_step ?ntop)\<^sup>*\<^sup>* resolver_ready ?s" by blast
  moreover have "pending (rs ?s) \<noteq> []" using r(2) by simp
  ultimately show ?thesis using resolver_no_lost_wakeup by blast
qed

text \<open>The start-up is different. A worker waits before it looks at the ring, so an
  address queued while both workers are still starting is signalled to nobody: the system
  can reach a state with a pending address, no signal and both workers asleep.\<close>

theorem resolver_startup_lost_wakeup:
  "\<exists>s. (resolver_step inet_ntop)\<^sup>*\<^sup>* resolver_boot s \<and> pending (rs s) \<noteq> [] \<and> signals s = 0 \<and>
     workers s = [W_Wait, W_Wait]"
proof -
  from first_call obtain r k where
    r: "resolve inet_ntop 1 0 resolver_initialise AF_INET (replicate 16 1) None = Some (None, True, r)"
      "pending r = [k]" by blast
  let ?s1 = "resolver_boot\<lparr>rs := r, signals := 1\<rparr>" and ?s2 = "resolver_boot\<lparr>rs := r, signals := 0\<rparr>"
  let ?s3 = "?s2\<lparr>workers := [W_Wait, W_Start]\<rparr>" and ?s4 = "?s2\<lparr>workers := [W_Wait, W_Wait]\<rparr>"
  have "resolver_step inet_ntop resolver_boot ?s1"
    using resolver_step.call [of inet_ntop 1 0 resolver_boot AF_INET "replicate 16 1" None None True r] r
    by (simp add: resolver_boot_def resolver_initialise_nodes)
  moreover have "resolver_step inet_ntop ?s1 ?s2"
    using resolver_step.signal_none [of ?s1 0 inet_ntop] by (simp add: resolver_boot_def)
  moreover have "resolver_step inet_ntop ?s2 ?s3"
    using resolver_step.start [of 0 ?s2 inet_ntop] by (simp add: resolver_boot_def)
  moreover have "resolver_step inet_ntop ?s3 ?s4"
    using resolver_step.start [of 1 ?s3 inet_ntop] by (simp add: resolver_boot_def)
  ultimately have "(resolver_step inet_ntop)\<^sup>*\<^sup>* resolver_boot ?s4"
    by (meson converse_rtranclp_into_rtranclp rtranclp.rtrancl_refl)
  then show ?thesis using r(2) by (intro exI [of _ ?s4]) simp
qed

text \<open>The ring is a first-in first-out queue of capacity nineteen: adding up to nineteen
  addresses to an empty ring and then taking them returns exactly those addresses in the order
  they were added, whatever the position of the ring indices.\<close>

theorem resolve_queue_fifo:
  assumes "ring_ok r" and "head r = tail r" and "length xs \<le> 19" and "\<forall>x\<in>set xs. \<not> stays_numeric x"
  shows "\<exists>r' r''. ring.enq_all r xs = Some r' \<and> ring.drain 19 r' = Some (xs, r'') \<and>
           ring_ok r'' \<and> head r'' = tail r''"
proof -
  have "pending r = []" using assms(1,2) pending_empty by blast
  from ring.fifo [OF assms(1) this assms(3,4)] show ?thesis using pending_empty by blast
qed

theorem resolve_queue_fifo_witness:
  "\<exists>r' r''. ring.enq_all resolver_initialise [addr_storage_zero, addr_storage_zero\<lparr>addr_len := 4\<rparr>] = Some r' \<and>
     ring.drain 19 r' = Some ([addr_storage_zero, addr_storage_zero\<lparr>addr_len := 4\<rparr>], r'') \<and>
     ring_ok r'' \<and> head r'' = tail r''"
proof -
  have "ring_ok resolver_initialise" using resolver_initialise_inv(1) by (simp add: rs_inv_def)
  from resolve_queue_fifo [OF this, of "[addr_storage_zero, addr_storage_zero\<lparr>addr_len := 4\<rparr>]"]
  show ?thesis by (auto simp: resolver_initialise_def stays_numeric_def addr_storage_zero_def net_consts)
qed



end
