(* ===== verification/Scanf.thy ===== *)
theory Scanf
  imports Prelude
begin

text \<open>
  The text conversions of the C library that the program uses: character classes,
  \<open>strtol\<close>, the conversions of \<open>sscanf\<close> (\<open>%d\<close>, \<open>%u\<close>, \<open>%x\<close>, \<open>%lu\<close>, \<open>%[...]\<close> and white
  space), bounded string copies and decimal output. A scanner takes the rest of the
  input and returns the converted value with what is left, or \<^term>\<open>None\<close> when the
  conversion fails.
\<close>

section \<open>Characters\<close>

definition char_code :: "char \<Rightarrow> nat" where
  "char_code c = of_char c"

text \<open>White space of the C locale: tab, newline, vertical tab, form feed, return, space.\<close>

definition isspace :: "char \<Rightarrow> bool" where
  "isspace c \<longleftrightarrow> char_code c \<in> {9, 10, 11, 12, 13, 32}"

definition isdigit :: "char \<Rightarrow> bool" where
  "isdigit c \<longleftrightarrow> 48 \<le> char_code c \<and> char_code c \<le> 57"

definition isxdigit :: "char \<Rightarrow> bool" where
  "isxdigit c \<longleftrightarrow> isdigit c \<or> (65 \<le> char_code c \<and> char_code c \<le> 70) \<or>
     (97 \<le> char_code c \<and> char_code c \<le> 102)"

definition digit_val :: "char \<Rightarrow> nat" where
  "digit_val c = (if isdigit c then char_code c - 48
     else if 97 \<le> char_code c then char_code c - 87 else char_code c - 55)"

definition newline :: char where "newline = char_of (10 :: nat)"

section \<open>Scanners\<close>

definition skip_ws :: "string \<Rightarrow> string" where
  "skip_ws s = dropWhile isspace s"

definition numeral_val :: "nat \<Rightarrow> string \<Rightarrow> nat" where
  "numeral_val base ds = foldl (\<lambda>v c. v * base + digit_val c) 0 ds"

text \<open>A non-empty run of digits of the given class.\<close>

definition scan_digits :: "(char \<Rightarrow> bool) \<Rightarrow> nat \<Rightarrow> string \<Rightarrow> (nat \<times> string) option" where
  "scan_digits is_d base s =
     (case takeWhile is_d s of [] \<Rightarrow> None
      | ds \<Rightarrow> Some (numeral_val base ds, dropWhile is_d s))"

text \<open>An optional sign; the flag says whether the number is negative.\<close>

definition scan_sign :: "string \<Rightarrow> bool \<times> string" where
  "scan_sign s = (case s of
       c # r \<Rightarrow> if c = CHR ''-'' then (True, r) else if c = CHR ''+'' then (False, r) else (False, s)
     | [] \<Rightarrow> (False, s))"

definition scan_literal :: "char \<Rightarrow> string \<Rightarrow> string option" where
  "scan_literal c s = (case s of d # r \<Rightarrow> if d = c then Some r else None | [] \<Rightarrow> None)"

fun scan_literals :: "string \<Rightarrow> string \<Rightarrow> string option" where
  "scan_literals [] s = Some s"
| "scan_literals (c # cs) s = Option.bind (scan_literal c s) (scan_literals cs)"

text \<open>\<open>%d\<close> and \<open>%u\<close>: white space, sign, decimal digits.\<close>

definition scan_int :: "string \<Rightarrow> (int \<times> string) option" where
  "scan_int s = do {
     let (neg, s) = scan_sign (skip_ws s);
     (v, s) \<leftarrow> scan_digits isdigit 10 s;
     Some (if neg then - int v else int v, s)
   }"

text \<open>\<open>%x\<close>, with the optional \<open>0x\<close> prefix.\<close>

definition scan_hex :: "string \<Rightarrow> (int \<times> string) option" where
  "scan_hex s = do {
     let (neg, s) = scan_sign (skip_ws s);
     let s = (case s of z # x # d # r \<Rightarrow>
                if z = CHR ''0'' \<and> (x = CHR ''x'' \<or> x = CHR ''X'') \<and> isxdigit d then d # r else s
              | _ \<Rightarrow> s);
     (v, s) \<leftarrow> scan_digits isxdigit 16 s;
     Some (if neg then - int v else int v, s)
   }"

text \<open>\<open>%n[0-9A-Fa-f]\<close>: at most \<open>n\<close> characters of the set, at least one, no white space skipped.\<close>

definition scan_hex_string :: "nat \<Rightarrow> string \<Rightarrow> (string \<times> string) option" where
  "scan_hex_string n s =
     (let ds = takeWhile isxdigit (take n s) in
      if ds = [] then None else Some (ds, drop (length ds) s))"

text \<open>
  \<open>strtol(s, &end, 10)\<close>: the value, clamped to a \<open>long\<close>, and the text at \<open>end\<close>. Without
  digits the value is zero and \<open>end\<close> is the start of the input.
\<close>

definition clamp_long :: "int \<Rightarrow> int" where
  "clamp_long v = (if v > 2 ^ 63 - 1 then 2 ^ 63 - 1 else if v < - (2 ^ 63) then - (2 ^ 63) else v)"

definition strtol :: "string \<Rightarrow> int \<times> string" where
  "strtol s = (case scan_int s of None \<Rightarrow> (0, s) | Some (v, r) \<Rightarrow> (clamp_long v, r))"

text \<open>Conversion to a 32-bit \<open>int\<close> or to \<open>unsigned int\<close>, and to \<open>unsigned long\<close>.\<close>

definition to_int32 :: "int \<Rightarrow> int" where
  "to_int32 v = sint (word_of_int v :: u32)"

definition to_ulong :: "int \<Rightarrow> u64" where
  "to_ulong v = (if \<bar>v\<bar> > 2 ^ 64 - 1 then - 1 else word_of_int v)"

definition to_u32 :: "int \<Rightarrow> u32" where
  "to_u32 v = ucast (to_ulong v)"

text \<open>\<open>strncpy(dst, src, n - 1); dst[n - 1] = 0\<close> on NUL-terminated strings.\<close>

definition copy_bounded :: "nat \<Rightarrow> string \<Rightarrow> string" where
  "copy_bounded n s = take (n - 1) s"

section \<open>Decimal output\<close>

definition digit_char :: "nat \<Rightarrow> char" where
  "digit_char d = char_of (48 + d)"

fun print_nat :: "nat \<Rightarrow> string" where
  "print_nat n = (if n < 10 then [digit_char n] else print_nat (n div 10) @ [digit_char (n mod 10)])"

declare print_nat.simps [simp del]

definition print_int :: "int \<Rightarrow> string" where
  "print_int v = (if v < 0 then CHR ''-'' # print_nat (nat (- v)) else print_nat (nat v))"

section \<open>Reading back what is printed\<close>

lemma char_code_digit: "d < 10 \<Longrightarrow> char_code (digit_char d) = 48 + d"
  by (simp add: char_code_def digit_char_def)

lemma digit_char_digit: "d < 10 \<Longrightarrow> isdigit (digit_char d) \<and> digit_val (digit_char d) = d"
  by (simp add: isdigit_def digit_val_def char_code_digit)

lemma numeral_val_snoc [simp]:
  "numeral_val b (ds @ [c]) = numeral_val b ds * b + digit_val c" "numeral_val b [] = 0"
  by (simp_all add: numeral_val_def)

lemma print_nat_length: "n < 10 ^ k \<Longrightarrow> 0 < k \<Longrightarrow> length (print_nat n) \<le> k"
proof (induction n arbitrary: k rule: print_nat.induct)
  case (1 n)
  show ?case
  proof (cases "n < 10")
    case True
    with 1 show ?thesis by (subst print_nat.simps) simp
  next
    case False
    from 1(3) obtain j where k: "k = Suc j" by (cases k) auto
    with False 1(2) have j: "0 < j" by (cases j) auto
    have "n div 10 < 10 ^ j" using 1(2) k by (simp add: less_mult_imp_div_less mult.commute)
    with 1(1) [OF False, of j] j have "length (print_nat (n div 10)) \<le> j" by simp
    with False k show ?thesis by (subst print_nat.simps) simp
  qed
qed

lemma print_nat_digits: "print_nat n \<noteq> [] \<and> (\<forall>c\<in>set (print_nat n). isdigit c)"
proof (induction n rule: print_nat.induct)
  case (1 n)
  then show ?case
    by (subst (1 2) print_nat.simps) (auto simp: digit_char_digit)
qed

lemma numeral_val_print: "numeral_val 10 (print_nat n) = n"
proof (induction n rule: print_nat.induct)
  case (1 n)
  show ?case
  proof (cases "n < 10")
    case True
    then show ?thesis
      using numeral_val_snoc(1) [of 10 "[]"] by (subst print_nat.simps) (simp add: digit_char_digit)
  next
    case False
    with 1 have "numeral_val 10 (print_nat (n div 10)) = n div 10" by blast
    with False show ?thesis by (subst print_nat.simps) (simp add: digit_char_digit)
  qed
qed

text \<open>Text that does not continue a number.\<close>

definition no_digit :: "string \<Rightarrow> bool" where
  "no_digit s = (case s of [] \<Rightarrow> True | c # _ \<Rightarrow> \<not> isdigit c)"

lemma scan_digits_print:
  assumes "no_digit r"
  shows "scan_digits isdigit 10 (print_nat n @ r) = Some (n, r)"
proof -
  have all: "\<forall>c\<in>set (print_nat n). isdigit c" and ne: "print_nat n \<noteq> []"
    using print_nat_digits by auto
  have tw: "takeWhile isdigit r = []" "dropWhile isdigit r = r"
    using assms by (auto simp: no_digit_def split: list.splits)
  have "takeWhile isdigit (print_nat n @ r) = print_nat n" "dropWhile isdigit (print_nat n @ r) = r"
    using all tw by (simp_all add: takeWhile_append2 dropWhile_append2)
  with ne numeral_val_print [of n] show ?thesis by (auto simp: scan_digits_def split: list.split)
qed

lemma digit_not_space: "isdigit c \<Longrightarrow> \<not> isspace c"
  by (auto simp: isdigit_def isspace_def)

lemma digit_not_sign: "isdigit c \<Longrightarrow> c \<noteq> CHR ''-'' \<and> c \<noteq> CHR ''+''"
  by (auto simp: isdigit_def char_code_def)

lemma scan_int_print_nat:
  assumes "no_digit r"
  shows "scan_int (print_nat n @ r) = Some (int n, r)"
proof -
  obtain c cs where c: "print_nat n = c # cs" "isdigit c"
    using print_nat_digits [of n] by (cases "print_nat n") auto
  then have "skip_ws (print_nat n @ r) = print_nat n @ r"
    "scan_sign (print_nat n @ r) = (False, print_nat n @ r)"
    using digit_not_space digit_not_sign by (simp_all add: skip_ws_def scan_sign_def)
  with scan_digits_print [OF assms, of n] show ?thesis by (simp add: scan_int_def)
qed

lemma strtol_print:
  assumes "n < 2 ^ 63"
  shows "strtol (print_nat n) = (int n, [])"
proof -
  have "int n < 2 ^ 63" using assms by (metis of_nat_less_iff of_nat_numeral of_nat_power)
  then show ?thesis
    using scan_int_print_nat [of "[]" n] by (simp add: strtol_def clamp_long_def no_digit_def)
qed

lemma to_int32_id: "- (2 ^ 31) \<le> v \<Longrightarrow> v < 2 ^ 31 \<Longrightarrow> to_int32 v = v"
  unfolding to_int32_def sint_sbintrunc' by (intro signed_take_bit_int_eq_self) auto

end
