(* ===== verification/Procinfo.thy ===== *)
theory Procinfo
  imports Scanf
begin

text \<open>
  Socket-to-process attribution, \<open>src/util/procinfo.c\<close> (the parts all platforms share and
  the Linux form of the refresh; \<open>Procinfo_Mac\<close> has the others): the growable socket
  table, its search, the double buffer with its publication step, the inode table, the
  parser of \<open>/proc/net/*\<close> and the walk over \<open>/proc\<close>. The contents of \<open>/proc\<close> are
  parameters: the lines \<open>fgets\<close> returns, the directory entries and link targets.
  Socket tables are heap objects with addresses, because \<open>table_publish\<close> frees the old
  table while another thread may hold a pointer to it.

  These tables grow with \<open>realloc\<close>, which may fail; the argument \<open>mem\<close> says whether it
  succeeds for a requested capacity.
\<close>

section \<open>Data\<close>

definition PROCINFO_NAME_MAX :: nat where "PROCINFO_NAME_MAX = 64"

record proc_entry =
  pe_pid :: int
  pe_name :: string

text \<open>
  The address union holds four bytes for \<open>AF_INET\<close> and sixteen otherwise; the other
  bytes of an IPv4 entry are never written and never read.
\<close>

record sock_entry =
  se_af :: int
  se_protocol :: u16
  se_port :: u16
  se_addr :: bytes
  se_pid :: int
  se_name :: string

record sock_table_t =
  entries :: "sock_entry list"
  tb_count :: nat
  cap :: nat

record inode_entry =
  inode :: u64
  ie_af :: int
  ie_protocol :: u16
  ie_port :: u16
  ie_addr :: bytes

record procinfo_state =
  tables :: "nat \<rightharpoonup> sock_table_t"
  live_table :: "nat option"
  staging_table :: "nat option"
  inode_table :: "inode_entry list"
  inode_count :: nat
  inode_cap :: nat

section \<open>The socket table\<close>

definition table_create :: sock_table_t where
  "table_create = \<lparr>entries = [], tb_count = 0, cap = 0\<rparr>"

definition addr_size :: "int \<Rightarrow> nat" where
  "addr_size af = (if af = AF_INET then 4 else 16)"

definition table_add ::
  "(nat \<Rightarrow> bool) \<Rightarrow> sock_table_t \<Rightarrow> int \<Rightarrow> u16 \<Rightarrow> u16 \<Rightarrow> bytes \<Rightarrow> int \<Rightarrow> string \<Rightarrow> sock_table_t option" where
  "table_add mem t af protocol port address pid name =
     (let c = (if tb_count t \<ge> cap t then (if cap t \<noteq> 0 then cap t * 2 else 512) else cap t) in
      if tb_count t \<ge> cap t \<and> \<not> mem c then Some \<lparr>entries = [], tb_count = 0, cap = 0\<rparr>
      else do {
        let t = (if tb_count t \<ge> cap t then t\<lparr>cap := c, entries := realloc (entries t) c\<rparr> else t);
        a \<leftarrow> rd_slice address 0 (addr_size af);
        es \<leftarrow> wr (entries t) (tb_count t)
          \<lparr>se_af = af, se_protocol = protocol, se_port = port, se_addr = a, se_pid = pid,
           se_name = copy_bounded PROCINFO_NAME_MAX name\<rparr>;
        Some (t\<lparr>entries := es, tb_count := tb_count t + 1\<rparr>) })"

definition v4mapped_prefix :: bytes where
  "v4mapped_prefix = [0,0,0,0, 0,0,0,0, 0,0,0xff,0xff]"

text \<open>The tests of the loop body of \<open>table_find\<close>, in their order.\<close>

definition entry_matches :: "sock_entry \<Rightarrow> int \<Rightarrow> bytes \<Rightarrow> u16 \<Rightarrow> u16 \<Rightarrow> bool" where
  "entry_matches e af address port protocol =
     (if se_port e \<noteq> port \<or> se_protocol e \<noteq> protocol then False
      else if se_af e = af \<and> af = AF_INET \<and>
              (take 4 (se_addr e) = take 4 address \<or> take 4 (se_addr e) = replicate 4 0) then True
      else if se_af e = af \<and> af = AF_INET6 \<and>
              (take 16 (se_addr e) = take 16 address \<or> take 16 (se_addr e) = replicate 16 0) then True
      else af = AF_INET \<and> se_af e = AF_INET6 \<and> take 12 (se_addr e) = v4mapped_prefix \<and>
           take 4 (drop 12 (se_addr e)) = take 4 address)"

text \<open>The loop of \<open>table_find\<close> from index \<open>i\<close>.\<close>

function table_find_from ::
  "sock_table_t \<Rightarrow> nat \<Rightarrow> int \<Rightarrow> bytes \<Rightarrow> u16 \<Rightarrow> u16 \<Rightarrow> proc_entry option option" where
  "table_find_from t i af address port protocol =
     (if i < tb_count t then do {
        e \<leftarrow> rd (entries t) i;
        if entry_matches e af address port protocol
        then Some (Some \<lparr>pe_pid = se_pid e, pe_name = se_name e\<rparr>)
        else table_find_from t (i + 1) af address port protocol }
      else Some None)"
  by pat_completeness auto
termination
  by (relation "measure (\<lambda>(t, i, _). tb_count t - i)") auto

declare table_find_from.simps [simp del]

definition table_find ::
  "sock_table_t option \<Rightarrow> int \<Rightarrow> bytes \<Rightarrow> u16 \<Rightarrow> u16 \<Rightarrow> proc_entry option option" where
  "table_find t af address port protocol =
     (case t of None \<Rightarrow> Some None | Some t \<Rightarrow> table_find_from t 0 af address port protocol)"

section \<open>The double buffer\<close>

definition procinfo_init :: procinfo_state where
  "procinfo_init = \<lparr>tables = Map.empty, live_table = None, staging_table = None,
     inode_table = [], inode_count = 0, inode_cap = 0\<rparr>"

definition table_free :: "procinfo_state \<Rightarrow> nat option \<Rightarrow> procinfo_state" where
  "table_free s t = (case t of None \<Rightarrow> s | Some a \<Rightarrow> s\<lparr>tables := (tables s)(a := None)\<rparr>)"

definition table_publish :: "procinfo_state \<Rightarrow> procinfo_state" where
  "table_publish s =
     (let old = live_table s;
          s = s\<lparr>live_table := staging_table s, staging_table := None\<rparr>
      in table_free s old)"

text \<open>
  A lookup is an atomic load of \<open>live_table\<close> followed by a search through that pointer;
  the two parts are separate because other threads may run between them.
\<close>

definition lookup_load :: "procinfo_state \<Rightarrow> nat option" where
  "lookup_load s = live_table s"

definition lookup_search ::
  "procinfo_state \<Rightarrow> nat option \<Rightarrow> int \<Rightarrow> bytes \<Rightarrow> u16 \<Rightarrow> u16 \<Rightarrow> proc_entry option option" where
  "lookup_search s p af address port protocol =
     (case p of
        None \<Rightarrow> table_find None af address port protocol
      | Some a \<Rightarrow> do { t \<leftarrow> tables s a; table_find (Some t) af address port protocol })"

definition procinfo_lookup ::
  "procinfo_state \<Rightarrow> int \<Rightarrow> bytes \<Rightarrow> u16 \<Rightarrow> u16 \<Rightarrow> proc_entry option option" where
  "procinfo_lookup s af address port protocol = lookup_search s (lookup_load s) af address port protocol"

definition procinfo_destroy :: "procinfo_state \<Rightarrow> procinfo_state" where
  "procinfo_destroy s =
     (let t = live_table s;
          s = table_free (s\<lparr>live_table := None\<rparr>) t;
          s = table_free s (staging_table s)
      in s\<lparr>staging_table := None, inode_table := [], inode_count := 0, inode_cap := 0\<rparr>)"

section \<open>The inode table\<close>

definition inode_table_clear :: "procinfo_state \<Rightarrow> procinfo_state" where
  "inode_table_clear s = s\<lparr>inode_count := 0\<rparr>"

definition inode_table_add ::
  "(nat \<Rightarrow> bool) \<Rightarrow> procinfo_state \<Rightarrow> u64 \<Rightarrow> int \<Rightarrow> u16 \<Rightarrow> u16 \<Rightarrow> bytes \<Rightarrow> procinfo_state option" where
  "inode_table_add mem s ino af protocol port address =
     (let c = (if inode_count s \<ge> inode_cap s
               then (if inode_cap s \<noteq> 0 then inode_cap s * 2 else 1024) else inode_cap s) in
      if inode_count s \<ge> inode_cap s \<and> \<not> mem c
      then Some (s\<lparr>inode_table := [], inode_count := 0, inode_cap := 0\<rparr>)
      else do {
        let s = (if inode_count s \<ge> inode_cap s
                 then s\<lparr>inode_cap := c, inode_table := realloc (inode_table s) c\<rparr> else s);
        a \<leftarrow> rd_slice address 0 (addr_size af);
        es \<leftarrow> wr (inode_table s) (inode_count s)
          \<lparr>inode = ino, ie_af = af, ie_protocol = protocol, ie_port = port, ie_addr = a\<rparr>;
        Some (s\<lparr>inode_table := es, inode_count := inode_count s + 1\<rparr>) })"

function inode_find_from :: "procinfo_state \<Rightarrow> nat \<Rightarrow> u64 \<Rightarrow> inode_entry option option" where
  "inode_find_from s i ino =
     (if i < inode_count s then do {
        e \<leftarrow> rd (inode_table s) i;
        if inode e = ino then Some (Some e) else inode_find_from s (i + 1) ino }
      else Some None)"
  by pat_completeness auto
termination
  by (relation "measure (\<lambda>(s, i, _). inode_count s - i)") auto

declare inode_find_from.simps [simp del]

definition inode_table_find :: "procinfo_state \<Rightarrow> u64 \<Rightarrow> inode_entry option option" where
  "inode_table_find s ino = inode_find_from s 0 ino"

section \<open>Parsing \<open>/proc/net\<close>\<close>

text \<open>The bytes of a 32-bit word in memory order.\<close>

definition word_bytes :: "u32 \<Rightarrow> bytes" where
  "word_bytes w = [ucast w, ucast (drop_bit 8 w), ucast (drop_bit 16 w), ucast (drop_bit 24 w)]"

text \<open>The tail both formats share: \<open>%x %*x:%*x %*x:%*x %*x %*u %*d %lu\<close>; the value is the inode.\<close>

definition scan_net_tail :: "string \<Rightarrow> u64 option" where
  "scan_net_tail s = do {
     (_, s) \<leftarrow> scan_hex s;
     (_, s) \<leftarrow> scan_hex s; s \<leftarrow> scan_literal CHR '':'' s; (_, s) \<leftarrow> scan_hex s;
     (_, s) \<leftarrow> scan_hex s; s \<leftarrow> scan_literal CHR '':'' s; (_, s) \<leftarrow> scan_hex s;
     (_, s) \<leftarrow> scan_hex s; (_, s) \<leftarrow> scan_int s; (_, s) \<leftarrow> scan_int s;
     (ino, _) \<leftarrow> scan_int s;
     Some (to_ulong ino)
   }"

text \<open>Local address, local port and inode of a line; \<^term>\<open>None\<close> when fewer than six fields match.\<close>

definition scan_net_line4 :: "string \<Rightarrow> (u32 \<times> u32 \<times> u64) option" where
  "scan_net_line4 s = do {
     (_, s) \<leftarrow> scan_int s; s \<leftarrow> scan_literal CHR '':'' s;
     (la, s) \<leftarrow> scan_hex s; s \<leftarrow> scan_literal CHR '':'' s; (lp, s) \<leftarrow> scan_hex s;
     (_, s) \<leftarrow> scan_hex s; s \<leftarrow> scan_literal CHR '':'' s; (_, s) \<leftarrow> scan_hex s;
     ino \<leftarrow> scan_net_tail s;
     Some (to_u32 la, to_u32 lp, ino)
   }"

definition scan_net_line6 :: "string \<Rightarrow> (string \<times> u32 \<times> u64) option" where
  "scan_net_line6 s = do {
     (_, s) \<leftarrow> scan_int s; s \<leftarrow> scan_literal CHR '':'' s;
     (la, s) \<leftarrow> scan_hex_string 32 (skip_ws s); s \<leftarrow> scan_literal CHR '':'' s; (lp, s) \<leftarrow> scan_hex s;
     (_, s) \<leftarrow> scan_hex_string 32 (skip_ws s); s \<leftarrow> scan_literal CHR '':'' s; (_, s) \<leftarrow> scan_hex s;
     ino \<leftarrow> scan_net_tail s;
     Some (la, to_u32 lp, ino)
   }"

text \<open>
  Four groups of eight digits, each a host-order word. With fewer than 32 digits the
  code copies bytes of the buffer that \<open>sscanf\<close> did not write.
\<close>

definition parse_addr6 :: "string \<Rightarrow> bytes option" where
  "parse_addr6 str =
     (if length str < 32 then None
      else Some (concat (map (\<lambda>i.
             case scan_hex (take 8 (drop (i * 8) str)) of
               Some (w, _) \<Rightarrow> word_bytes (to_u32 w) | None \<Rightarrow> []) [0..<4])))"

fun parse_net_lines ::
  "(nat \<Rightarrow> bool) \<Rightarrow> procinfo_state \<Rightarrow> string list \<Rightarrow> int \<Rightarrow> u16 \<Rightarrow> procinfo_state option" where
  "parse_net_lines mem s [] af protocol = Some s"
| "parse_net_lines mem s (line # lines) af protocol =
     (if af = AF_INET then
        (case scan_net_line4 line of
           None \<Rightarrow> parse_net_lines mem s lines af protocol
         | Some (la, lp, ino) \<Rightarrow>
             if ino = 0 then parse_net_lines mem s lines af protocol
             else do {
               s \<leftarrow> inode_table_add mem s ino AF_INET protocol (ucast lp) (word_bytes la);
               parse_net_lines mem s lines af protocol })
      else
        (case scan_net_line6 line of
           None \<Rightarrow> parse_net_lines mem s lines af protocol
         | Some (la, lp, ino) \<Rightarrow>
             if ino = 0 then parse_net_lines mem s lines af protocol
             else do {
               a \<leftarrow> parse_addr6 la;
               s \<leftarrow> inode_table_add mem s ino AF_INET6 protocol (ucast lp) a;
               parse_net_lines mem s lines af protocol }))"

text \<open>The first line is the header; \<^term>\<open>None\<close> for the file means \<open>fopen\<close> failed.\<close>

definition parse_proc_net ::
  "(nat \<Rightarrow> bool) \<Rightarrow> procinfo_state \<Rightarrow> string list option \<Rightarrow> int \<Rightarrow> u16 \<Rightarrow> procinfo_state option" where
  "parse_proc_net mem s file af protocol =
     (case file of
        None \<Rightarrow> Some s
      | Some [] \<Rightarrow> Some s
      | Some (_ # lines) \<Rightarrow> parse_net_lines mem s lines af protocol)"

section \<open>Walking \<open>/proc\<close>\<close>

text \<open>
  What the walk sees: the four socket files, the directory \<open>/proc\<close> with, for each
  entry, the targets of its \<open>fd\<close> links (\<^term>\<open>None\<close>: unreadable), and the first line of a
  \<open>comm\<close> file (outer \<^term>\<open>None\<close>: cannot be opened, inner: empty).
\<close>

record proc_fs =
  net_tcp :: "string list option"
  net_tcp6 :: "string list option"
  net_udp :: "string list option"
  net_udp6 :: "string list option"
  proc_dir :: "(string \<times> string option list option) list option"
  comm :: "int \<Rightarrow> string option option"

definition get_proc_name :: "proc_fs \<Rightarrow> int \<Rightarrow> nat \<Rightarrow> string" where
  "get_proc_name fs pid bufsize =
     (case comm fs pid of
        Some (Some line) \<Rightarrow> takeWhile (\<lambda>c. c \<noteq> newline) (take (bufsize - 1) line)
      | _ \<Rightarrow> take (bufsize - 1) (''pid:'' @ print_int pid))"

definition scan_socket_link :: "string \<Rightarrow> u64 option" where
  "scan_socket_link target = do {
     s \<leftarrow> scan_literals ''socket:['' target;
     (ino, _) \<leftarrow> scan_int s;
     Some (to_ulong ino)
   }"

text \<open>The inner loop over the links of one process; \<open>pname\<close> is set once it has been read.\<close>

fun walk_fds ::
  "(nat \<Rightarrow> bool) \<Rightarrow> proc_fs \<Rightarrow> procinfo_state \<Rightarrow> nat \<Rightarrow> int \<Rightarrow> string option \<Rightarrow> string option list
     \<Rightarrow> procinfo_state option" where
  "walk_fds mem fs s a pid pname [] = Some s"
| "walk_fds mem fs s a pid pname (link # links) =
     (case link of
        None \<Rightarrow> walk_fds mem fs s a pid pname links
      | Some target \<Rightarrow>
          (case scan_socket_link (take 127 target) of
             None \<Rightarrow> walk_fds mem fs s a pid pname links
           | Some ino \<Rightarrow> do {
               found \<leftarrow> inode_table_find s ino;
               (case found of
                  None \<Rightarrow> walk_fds mem fs s a pid pname links
                | Some ie \<Rightarrow> do {
                    let name = (case pname of Some n \<Rightarrow> n
                                | None \<Rightarrow> get_proc_name fs (to_int32 pid) PROCINFO_NAME_MAX);
                    t \<leftarrow> tables s a;
                    t \<leftarrow> table_add mem t (ie_af ie) (ie_protocol ie) (ie_port ie) (ie_addr ie)
                          (to_int32 pid) name;
                    walk_fds mem fs (s\<lparr>tables := (tables s)(a \<mapsto> t)\<rparr>) a pid (Some name) links }) }))"

fun walk_proc ::
  "(nat \<Rightarrow> bool) \<Rightarrow> proc_fs \<Rightarrow> procinfo_state \<Rightarrow> nat \<Rightarrow> (string \<times> string option list option) list
     \<Rightarrow> procinfo_state option" where
  "walk_proc mem fs s a [] = Some s"
| "walk_proc mem fs s a ((d_name, fds) # ents) =
     (let (pid, endp) = strtol d_name in
      if endp \<noteq> [] \<or> pid \<le> 0 then walk_proc mem fs s a ents
      else (case fds of
              None \<Rightarrow> walk_proc mem fs s a ents
            | Some links \<Rightarrow> do {
                s \<leftarrow> walk_fds mem fs s a pid None links;
                walk_proc mem fs s a ents }))"

text \<open>\<open>a\<close> is the address \<open>calloc\<close> gives the new table, or \<^term>\<open>None\<close> if it fails.\<close>

definition procinfo_refresh ::
  "(nat \<Rightarrow> bool) \<Rightarrow> proc_fs \<Rightarrow> nat option \<Rightarrow> procinfo_state \<Rightarrow> procinfo_state option" where
  "procinfo_refresh mem fs new s =
     (case new of
        None \<Rightarrow> Some (s\<lparr>staging_table := None\<rparr>)
      | Some a \<Rightarrow> do {
          let s = s\<lparr>staging_table := Some a, tables := (tables s)(a \<mapsto> table_create)\<rparr>;
          let s = inode_table_clear s;
          s \<leftarrow> parse_proc_net mem s (net_tcp fs) AF_INET 6;
          s \<leftarrow> parse_proc_net mem s (net_tcp6 fs) AF_INET6 6;
          s \<leftarrow> parse_proc_net mem s (net_udp fs) AF_INET 17;
          s \<leftarrow> parse_proc_net mem s (net_udp6 fs) AF_INET6 17;
          if inode_count s = 0 then Some (table_publish s)
          else (case proc_dir fs of
                  None \<Rightarrow> Some (table_publish s)
                | Some ents \<Rightarrow> do {
                    s \<leftarrow> walk_proc mem fs s a ents;
                    Some (table_publish s) }) })"

section \<open>Tables as lists\<close>

definition tb_ok :: "sock_table_t \<Rightarrow> bool" where
  "tb_ok t \<longleftrightarrow> length (entries t) = cap t \<and> tb_count t \<le> cap t"

definition rows :: "sock_table_t \<Rightarrow> sock_entry list" where
  "rows t = take (tb_count t) (entries t)"

definition entry_proc :: "sock_entry \<Rightarrow> proc_entry" where
  "entry_proc e = \<lparr>pe_pid = se_pid e, pe_name = se_name e\<rparr>"

definition mk_row :: "int \<Rightarrow> u16 \<Rightarrow> u16 \<Rightarrow> bytes \<Rightarrow> int \<Rightarrow> string \<Rightarrow> sock_entry" where
  "mk_row af protocol port address pid name =
     \<lparr>se_af = af, se_protocol = protocol, se_port = port, se_addr = take (addr_size af) address,
      se_pid = pid, se_name = copy_bounded PROCINFO_NAME_MAX name\<rparr>"

lemma table_create_ok: "tb_ok table_create" "rows table_create = []"
  by (simp_all add: tb_ok_def table_create_def rows_def)

lemma table_add_ok:
  assumes "tb_ok t" "addr_size af \<le> length address"
  shows "\<exists>t'. table_add mem t af protocol port address pid name = Some t' \<and> tb_ok t' \<and>
     (rows t' = rows t @ [mk_row af protocol port address pid name] \<or> rows t' = [] \<and> (\<exists>c. \<not> mem c))"
proof -
  define c where "c = (if tb_count t \<ge> cap t then (if cap t \<noteq> 0 then cap t * 2 else 512) else cap t)"
  define t1 where "t1 = (if tb_count t \<ge> cap t then t\<lparr>cap := c, entries := realloc (entries t) c\<rparr> else t)"
  show ?thesis
  proof (cases "tb_count t \<ge> cap t \<and> \<not> mem c")
    case True
    then show ?thesis
      unfolding table_add_def Let_def c_def [symmetric] by (auto simp: tb_ok_def rows_def)
  next
    case False
    have t1: "length (entries t1) = c" "cap t1 = c" "tb_count t1 = tb_count t" "tb_count t < c"
      "take (tb_count t) (entries t1) = rows t"
      using assms(1) by (auto simp: t1_def c_def tb_ok_def rows_def)
    let ?t = "t1\<lparr>entries := (entries t1)[tb_count t := mk_row af protocol port address pid name],
        tb_count := tb_count t + 1\<rparr>"
    have "table_add mem t af protocol port address pid name = Some ?t"
      using False assms(2) t1 unfolding table_add_def Let_def c_def [symmetric] t1_def [symmetric]
      by (auto simp: rd_slice_def wr_def mk_row_def)
    moreover have "tb_ok ?t" using t1 by (simp add: tb_ok_def)
    moreover have "rows ?t = rows t @ [mk_row af protocol port address pid name]"
      using t1 by (simp add: rows_def take_Suc_conv_app_nth)
    ultimately show ?thesis by blast
  qed
qed

lemma table_find_from_ok:
  assumes "tb_ok t"
  shows "table_find_from t i af address port protocol =
     Some (map_option entry_proc (List.find (\<lambda>e. entry_matches e af address port protocol) (drop i (rows t))))"
  using assms
proof (induction t i af address port protocol rule: table_find_from.induct)
  case (1 t i af address port protocol)
  show ?case
  proof (cases "i < tb_count t")
    case True
    with 1(2) have "rd (entries t) i = Some (rows t ! i)" "i < length (rows t)"
      by (auto simp: rows_def rd_def tb_ok_def)
    with 1 True show ?thesis
      by (subst table_find_from.simps) (simp add: Cons_nth_drop_Suc [symmetric] entry_proc_def [abs_def])
  next
    case False
    then have "drop i (rows t) = []" by (simp add: rows_def)
    with False show ?thesis by (subst table_find_from.simps) simp
  qed
qed

lemma table_find_ok:
  "tb_ok t \<Longrightarrow> table_find (Some t) af address port protocol =
     Some (map_option entry_proc (List.find (\<lambda>e. entry_matches e af address port protocol) (rows t)))"
  by (simp add: table_find_def table_find_from_ok)

definition in_ok :: "procinfo_state \<Rightarrow> bool" where
  "in_ok s \<longleftrightarrow> length (inode_table s) = inode_cap s \<and> inode_count s \<le> inode_cap s \<and>
     (\<forall>e\<in>set (take (inode_count s) (inode_table s)). length (ie_addr e) = addr_size (ie_af e))"

definition inodes :: "procinfo_state \<Rightarrow> inode_entry list" where
  "inodes s = take (inode_count s) (inode_table s)"

definition mk_inode :: "u64 \<Rightarrow> int \<Rightarrow> u16 \<Rightarrow> u16 \<Rightarrow> bytes \<Rightarrow> inode_entry" where
  "mk_inode ino af protocol port address = \<lparr>inode = ino, ie_af = af, ie_protocol = protocol,
     ie_port = port, ie_addr = take (addr_size af) address\<rparr>"

lemma inode_table_add_ok:
  assumes "in_ok s" "addr_size af \<le> length address" "\<forall>c. mem c"
  shows "\<exists>s'. inode_table_add mem s ino af protocol port address = Some s' \<and> in_ok s' \<and>
     inodes s' = inodes s @ [mk_inode ino af protocol port address] \<and>
     tables s' = tables s \<and> live_table s' = live_table s \<and> staging_table s' = staging_table s"
proof -
  define c where "c = (if inode_count s \<ge> inode_cap s
      then (if inode_cap s \<noteq> 0 then inode_cap s * 2 else 1024) else inode_cap s)"
  define s1 where "s1 = (if inode_count s \<ge> inode_cap s
      then s\<lparr>inode_cap := c, inode_table := realloc (inode_table s) c\<rparr> else s)"
  have s1: "length (inode_table s1) = c" "inode_cap s1 = c" "inode_count s1 = inode_count s"
    "inode_count s < c" "take (inode_count s) (inode_table s1) = inodes s"
    "tables s1 = tables s" "live_table s1 = live_table s" "staging_table s1 = staging_table s"
    using assms(1) by (auto simp: s1_def c_def in_ok_def inodes_def)
  let ?e = "mk_inode ino af protocol port address"
  let ?s = "s1\<lparr>inode_table := (inode_table s1)[inode_count s := ?e], inode_count := inode_count s + 1\<rparr>"
  have ino: "inodes ?s = inodes s @ [?e]" using s1 by (simp add: inodes_def take_Suc_conv_app_nth)
  moreover have "inode_table_add mem s ino af protocol port address = Some ?s"
    using assms(2,3) s1 unfolding inode_table_add_def Let_def c_def [symmetric] s1_def [symmetric]
    by (simp add: rd_slice_def wr_def mk_inode_def)
  moreover have "in_ok ?s"
    using s1 assms(1,2) ino unfolding in_ok_def inodes_def [symmetric]
    by (auto simp: mk_inode_def)
  ultimately show ?thesis using s1(6-8) by (intro exI [of _ ?s]) simp
qed

lemma inode_find_from_ok:
  assumes "in_ok s"
  shows "inode_find_from s i ino = Some (List.find (\<lambda>e. inode e = ino) (drop i (inodes s)))"
  using assms
proof (induction s i ino rule: inode_find_from.induct)
  case (1 s i ino)
  show ?case
  proof (cases "i < inode_count s")
    case True
    with 1(2) have "rd (inode_table s) i = Some (inodes s ! i)" "i < length (inodes s)"
      by (auto simp: inodes_def rd_def in_ok_def)
    with 1 True show ?thesis
      by (subst inode_find_from.simps) (simp add: Cons_nth_drop_Suc [symmetric])
  next
    case False
    then have "drop i (inodes s) = []" by (simp add: inodes_def)
    with False show ?thesis by (subst inode_find_from.simps) simp
  qed
qed

section \<open>What a refresh computes\<close>

text \<open>The inode entry of one line, if the line has one.\<close>

definition line_inode :: "int \<Rightarrow> u16 \<Rightarrow> string \<Rightarrow> inode_entry option" where
  "line_inode af protocol line =
     (if af = AF_INET then
        (case scan_net_line4 line of
           Some (la, lp, ino) \<Rightarrow> if ino = 0 then None
             else Some (mk_inode ino AF_INET protocol (ucast lp) (word_bytes la))
         | None \<Rightarrow> None)
      else
        (case scan_net_line6 line of
           Some (la, lp, ino) \<Rightarrow> if ino = 0 then None
             else Some (mk_inode ino AF_INET6 protocol (ucast lp) (the (parse_addr6 la)))
         | None \<Rightarrow> None))"

text \<open>A line of a version 6 file is complete if its address has all 32 digits.\<close>

definition line6_ok :: "string \<Rightarrow> bool" where
  "line6_ok line = (case scan_net_line6 line of Some (la, _, _) \<Rightarrow> length la = 32 | None \<Rightarrow> True)"

definition file_inodes :: "string list option \<Rightarrow> int \<Rightarrow> u16 \<Rightarrow> inode_entry list" where
  "file_inodes file af protocol =
     (case file of Some (_ # lines) \<Rightarrow> List.map_filter (line_inode af protocol) lines | _ \<Rightarrow> [])"

definition file6_ok :: "string list option \<Rightarrow> bool" where
  "file6_ok file = (case file of Some (_ # lines) \<Rightarrow> list_all line6_ok lines | _ \<Rightarrow> True)"

lemma hex_chunk:
  assumes "length ds = 8" "\<forall>c\<in>set ds. isxdigit c"
  shows "\<exists>w r. scan_hex ds = Some (w, r)"
proof -
  obtain c cs where c: "ds = c # cs" using assms(1) by (cases ds) auto
  with assms have x: "isxdigit c" by simp
  then have "\<not> isspace c" "c \<noteq> CHR ''-'' \<and> c \<noteq> CHR ''+''"
    by (auto simp: isxdigit_def isdigit_def isspace_def char_code_def)
  moreover have "\<not> isxdigit CHR ''x''" "\<not> isxdigit CHR ''X''"
    by (simp_all add: isxdigit_def isdigit_def char_code_def)
  ultimately show ?thesis
    using assms c x
    by (auto simp: scan_hex_def skip_ws_def scan_sign_def scan_digits_def Let_def split: list.split)
qed

lemma parse_addr6_length:
  assumes "length str = 32" "\<forall>c\<in>set str. isxdigit c"
  shows "\<exists>a. parse_addr6 str = Some a \<and> length a = 16"
proof -
  have chunk: "\<exists>w r. scan_hex (take 8 (drop (i * 8) str)) = Some (w, r)" if "i < 4" for i
    using assms that by (intro hex_chunk) (auto dest: in_set_takeD in_set_dropD)
  define f where "f i = (case scan_hex (take 8 (drop (i * 8) str)) of
      Some (w, _) \<Rightarrow> word_bytes (to_u32 w) | None \<Rightarrow> [])" for i
  have "length (f i) = 4" if "i < 4" for i
    using chunk [OF that] by (auto simp: f_def word_bytes_def)
  then have "sum_list (map (\<lambda>i. length (f i)) [0..<4]) = sum_list (map (\<lambda>_. 4) [0..<4])"
    by (intro arg_cong [of _ _ sum_list] map_cong) auto
  also have "\<dots> = 16" by (simp add: sum_list_triv)
  finally have "length (concat (map f [0..<4])) = 16" by (simp add: length_concat comp_def)
  then show ?thesis using assms(1) by (simp add: parse_addr6_def f_def [abs_def])
qed

lemma scan_net_line6_digits:
  assumes "scan_net_line6 line = Some (la, lp, ino)"
  shows "\<forall>c\<in>set la. isxdigit c"
proof -
  from assms obtain s r where "scan_hex_string 32 s = Some (la, r)"
    by (auto simp: scan_net_line6_def bind_eq_Some_conv split: prod.splits)
  then show ?thesis by (auto simp: scan_hex_string_def Let_def split: if_splits dest: set_takeWhileD)
qed

lemma parse_net_lines_ok:
  assumes "in_ok s" "\<forall>c. mem c" "af = AF_INET \<or> list_all line6_ok lines"
  shows "\<exists>s'. parse_net_lines mem s lines af protocol = Some s' \<and> in_ok s' \<and>
     inodes s' = inodes s @ List.map_filter (line_inode af protocol) lines \<and>
     tables s' = tables s \<and> live_table s' = live_table s \<and> staging_table s' = staging_table s"
  using assms
proof (induction lines arbitrary: s)
  case (Cons line lines)
  show ?case
  proof (cases "line_inode af protocol line")
    case None
    with Cons show ?thesis
      by (cases "af = AF_INET") (auto simp: line_inode_def List.map_filter_simps split: option.splits if_splits)
  next
    case (Some e)
    show ?thesis
    proof (cases "af = AF_INET")
      case True
      with Some obtain la lp ino where l: "scan_net_line4 line = Some (la, lp, ino)" "ino \<noteq> 0"
        "e = mk_inode ino AF_INET protocol (ucast lp) (word_bytes la)"
        by (auto simp: line_inode_def split: option.splits if_splits)
      from inode_table_add_ok [OF Cons.prems(1) _ Cons.prems(2), of AF_INET "word_bytes la" ino protocol "ucast lp"]
      obtain s1 where s1: "inode_table_add mem s ino AF_INET protocol (ucast lp) (word_bytes la) = Some s1"
        "in_ok s1" "inodes s1 = inodes s @ [e]" "tables s1 = tables s" "live_table s1 = live_table s"
        "staging_table s1 = staging_table s" by (auto simp: addr_size_def word_bytes_def l(3))
      from Cons.IH [OF s1(2) Cons.prems(2)] True s1 l Some show ?thesis
        by (auto simp: List.map_filter_simps)
    next
      case False
      with Some obtain la lp ino where l: "scan_net_line6 line = Some (la, lp, ino)" "ino \<noteq> 0"
        "e = mk_inode ino AF_INET6 protocol (ucast lp) (the (parse_addr6 la))"
        by (auto simp: line_inode_def split: option.splits if_splits)
      from False Cons.prems(3) l(1) have "length la = 32" by (auto simp: line6_ok_def)
      from parse_addr6_length [OF this scan_net_line6_digits [OF l(1)]] obtain a where
        a: "parse_addr6 la = Some a" "length a = 16" by blast
      from inode_table_add_ok [OF Cons.prems(1) _ Cons.prems(2), of AF_INET6 a ino protocol "ucast lp"] a l(3)
      obtain s1 where s1: "inode_table_add mem s ino AF_INET6 protocol (ucast lp) a = Some s1"
        "in_ok s1" "inodes s1 = inodes s @ [e]" "tables s1 = tables s" "live_table s1 = live_table s"
        "staging_table s1 = staging_table s" by (auto simp: addr_size_def net_consts)
      from Cons.IH [OF s1(2) Cons.prems(2)] Cons.prems(3) False s1 l a Some show ?thesis
        by (auto simp: List.map_filter_simps)
    qed
  qed
qed (simp add: List.map_filter_simps)

lemma parse_proc_net_ok:
  assumes "in_ok s" "\<forall>c. mem c" "af = AF_INET \<or> file6_ok file"
  shows "\<exists>s'. parse_proc_net mem s file af protocol = Some s' \<and> in_ok s' \<and>
     inodes s' = inodes s @ file_inodes file af protocol \<and>
     tables s' = tables s \<and> live_table s' = live_table s \<and> staging_table s' = staging_table s"
  using parse_net_lines_ok [OF assms(1,2), of af _ protocol] assms(1,3)
  by (auto simp: parse_proc_net_def file_inodes_def file6_ok_def split: option.split list.split)

text \<open>The rows one process contributes: one for each of its links to a known socket.\<close>

definition link_row :: "proc_fs \<Rightarrow> inode_entry list \<Rightarrow> int \<Rightarrow> string option \<Rightarrow> sock_entry option" where
  "link_row fs inos pid link = do {
     target \<leftarrow> link;
     ino \<leftarrow> scan_socket_link (take 127 target);
     ie \<leftarrow> List.find (\<lambda>e. inode e = ino) inos;
     Some (mk_row (ie_af ie) (ie_protocol ie) (ie_port ie) (ie_addr ie) (to_int32 pid)
       (get_proc_name fs (to_int32 pid) PROCINFO_NAME_MAX))
   }"

definition proc_rows ::
  "proc_fs \<Rightarrow> inode_entry list \<Rightarrow> string \<times> string option list option \<Rightarrow> sock_entry list" where
  "proc_rows fs inos ent =
     (let (pid, endp) = strtol (fst ent) in
      if endp \<noteq> [] \<or> pid \<le> 0 then []
      else case snd ent of None \<Rightarrow> [] | Some links \<Rightarrow> List.map_filter (link_row fs inos pid) links)"

lemma inode_table_find_ok:
  "in_ok s \<Longrightarrow> inode_table_find s ino = Some (List.find (\<lambda>e. inode e = ino) (inodes s))"
  by (simp add: inode_table_find_def inode_find_from_ok)

lemma in_ok_tables [simp]: "in_ok (s\<lparr>tables := x\<rparr>) = in_ok s" "inodes (s\<lparr>tables := x\<rparr>) = inodes s"
  by (simp_all add: in_ok_def inodes_def)

lemma in_ok_addr: "in_ok s \<Longrightarrow> e \<in> set (inodes s) \<Longrightarrow> length (ie_addr e) = addr_size (ie_af e)"
  by (simp add: in_ok_def inodes_def)

lemma tables_same: "tables s a = Some t \<Longrightarrow> s\<lparr>tables := (tables s)(a \<mapsto> t)\<rparr> = s"
  by (simp add: map_upd_triv)

lemma walk_fds_ok:
  assumes "in_ok s" "\<forall>c. mem c" "tables s a = Some t" "tb_ok t"
    "pname = None \<or> pname = Some (get_proc_name fs (to_int32 pid) PROCINFO_NAME_MAX)"
  shows "\<exists>t'. walk_fds mem fs s a pid pname links = Some (s\<lparr>tables := (tables s)(a \<mapsto> t')\<rparr>) \<and> tb_ok t' \<and>
     rows t' = rows t @ List.map_filter (link_row fs (inodes s) pid) links"
  using assms
proof (induction links arbitrary: s t pname)
  case Nil
  then have "walk_fds mem fs s a pid pname [] = Some (s\<lparr>tables := (tables s)(a \<mapsto> t)\<rparr>)"
    by (metis tables_same walk_fds.simps(1))
  moreover have "rows t = rows t @ List.map_filter (link_row fs (inodes s) pid) []"
    by (simp add: List.map_filter_simps)
  ultimately show ?case using Nil.prems(4) by blast
next
  case (Cons link links)
  show ?case
  proof (cases "link_row fs (inodes s) pid link")
    case None
    with Cons show ?thesis
      by (auto simp: link_row_def inode_table_find_ok List.map_filter_simps bind_eq_None_conv
          split: option.splits)
  next
    case (Some row)
    then obtain target ino ie where l: "link = Some target" "scan_socket_link (take 127 target) = Some ino"
      "List.find (\<lambda>e. inode e = ino) (inodes s) = Some ie"
      "row = mk_row (ie_af ie) (ie_protocol ie) (ie_port ie) (ie_addr ie) (to_int32 pid)
         (get_proc_name fs (to_int32 pid) PROCINFO_NAME_MAX)"
      by (auto simp: link_row_def bind_eq_Some_conv)
    let ?name = "get_proc_name fs (to_int32 pid) PROCINFO_NAME_MAX"
    have "addr_size (ie_af ie) \<le> length (ie_addr ie)"
      using in_ok_addr [OF Cons.prems(1)] find_SomeD [OF l(3)] by simp
    from table_add_ok [OF Cons.prems(4) this, of mem "ie_protocol ie" "ie_port ie" "to_int32 pid" ?name]
      Cons.prems(2) obtain t1 where
      t1: "table_add mem t (ie_af ie) (ie_protocol ie) (ie_port ie) (ie_addr ie) (to_int32 pid) ?name = Some t1"
        "tb_ok t1" "rows t1 = rows t @ [row]" by (auto simp: l(4))
    let ?s = "s\<lparr>tables := (tables s)(a \<mapsto> t1)\<rparr>"
    have "in_ok ?s" "tables ?s a = Some t1" using Cons.prems(1) by simp_all
    from Cons.IH [OF this(1) Cons.prems(2) this(2) t1(2), of "Some ?name"] obtain t2 where
      t2: "walk_fds mem fs ?s a pid (Some ?name) links = Some (?s\<lparr>tables := (tables ?s)(a \<mapsto> t2)\<rparr>)"
        "tb_ok t2" "rows t2 = rows t1 @ List.map_filter (link_row fs (inodes ?s) pid) links" by blast
    have "walk_fds mem fs s a pid pname (link # links) = walk_fds mem fs ?s a pid (Some ?name) links"
      using Cons.prems(3,5) l(1-3) t1(1) by (auto simp: inode_table_find_ok [OF Cons.prems(1)])
    also have "\<dots> = Some (s\<lparr>tables := (tables s)(a \<mapsto> t2)\<rparr>)" using t2(1) by simp
    finally have "walk_fds mem fs s a pid pname (link # links) = Some (s\<lparr>tables := (tables s)(a \<mapsto> t2)\<rparr>)" .
    moreover have "rows t2 = rows t @ List.map_filter (link_row fs (inodes s) pid) (link # links)"
      using t1(3) t2(3) Some by (simp add: List.map_filter_simps)
    ultimately show ?thesis using t2(2) by blast
  qed
qed

lemma walk_proc_ok:
  assumes "in_ok s" "\<forall>c. mem c" "tables s a = Some t" "tb_ok t"
  shows "\<exists>t'. walk_proc mem fs s a ents = Some (s\<lparr>tables := (tables s)(a \<mapsto> t')\<rparr>) \<and> tb_ok t' \<and>
     rows t' = rows t @ concat (map (proc_rows fs (inodes s)) ents)"
  using assms
proof (induction ents arbitrary: s t)
  case Nil
  then have "walk_proc mem fs s a [] = Some (s\<lparr>tables := (tables s)(a \<mapsto> t)\<rparr>)"
    by (metis tables_same walk_proc.simps(1))
  moreover have "rows t = rows t @ concat (map (proc_rows fs (inodes s)) [])" by simp
  ultimately show ?case using Nil.prems(4) by blast
next
  case (Cons ent ents)
  obtain d_name fds where ent: "ent = (d_name, fds)" by (cases ent)
  obtain pid endp where st: "strtol d_name = (pid, endp)" by (cases "strtol d_name")
  show ?case
  proof (cases "endp \<noteq> [] \<or> pid \<le> 0 \<or> fds = None")
    case True
    with Cons.IH [OF Cons.prems] ent st show ?thesis by (auto simp: proc_rows_def split: option.splits)
  next
    case False
    then obtain links where links: "fds = Some links" by auto
    from walk_fds_ok [OF Cons.prems, of None fs pid links] obtain t1 where
      t1: "walk_fds mem fs s a pid None links = Some (s\<lparr>tables := (tables s)(a \<mapsto> t1)\<rparr>)" "tb_ok t1"
        "rows t1 = rows t @ List.map_filter (link_row fs (inodes s) pid) links" by auto
    let ?s = "s\<lparr>tables := (tables s)(a \<mapsto> t1)\<rparr>"
    have "in_ok ?s" "tables ?s a = Some t1" using Cons.prems(1) by simp_all
    from Cons.IH [OF this(1) Cons.prems(2) this(2) t1(2)] obtain t2 where
      t2: "walk_proc mem fs ?s a ents = Some (?s\<lparr>tables := (tables ?s)(a \<mapsto> t2)\<rparr>)" "tb_ok t2"
        "rows t2 = rows t1 @ concat (map (proc_rows fs (inodes ?s)) ents)" by blast
    have "walk_proc mem fs s a (ent # ents) = Some (s\<lparr>tables := (tables s)(a \<mapsto> t2)\<rparr>)"
      using False ent st links t1(1) t2(1) by simp
    moreover have "rows t2 = rows t @ concat (map (proc_rows fs (inodes s)) (ent # ents))"
      using False ent st links t1(3) t2(3) by (simp add: proc_rows_def)
    ultimately show ?thesis using t2(2) by blast
  qed
qed

section \<open>Publication\<close>

definition pinv :: "procinfo_state \<Rightarrow> bool" where
  "pinv s \<longleftrightarrow> in_ok s \<and> staging_table s = None \<and>
     (\<forall>a. live_table s = Some a \<longrightarrow> (\<exists>t. tables s a = Some t \<and> tb_ok t))"

definition fs_inodes :: "proc_fs \<Rightarrow> inode_entry list" where
  "fs_inodes fs = file_inodes (net_tcp fs) AF_INET 6 @ file_inodes (net_tcp6 fs) AF_INET6 6 @
     file_inodes (net_udp fs) AF_INET 17 @ file_inodes (net_udp6 fs) AF_INET6 17"

text \<open>The sockets a refresh finds: every process, every link, in directory order.\<close>

definition fs_rows :: "proc_fs \<Rightarrow> sock_entry list" where
  "fs_rows fs = (case proc_dir fs of None \<Rightarrow> []
     | Some ents \<Rightarrow> concat (map (proc_rows fs (fs_inodes fs)) ents))"

lemma procinfo_init_pinv: "pinv procinfo_init"
  by (simp add: pinv_def procinfo_init_def in_ok_def)

lemma proc_rows_no_inodes: "proc_rows fs [] ent = []"
proof -
  have "link_row fs [] pid = (\<lambda>_. None)" for pid
    by (auto simp: link_row_def fun_eq_iff bind_eq_None_conv split: option.split)
  then show ?thesis
    by (auto simp: proc_rows_def map_filter_def split: prod.split option.split)
qed

lemma refresh_parse:
  assumes "in_ok s" "file6_ok (net_tcp6 fs)" "file6_ok (net_udp6 fs)" "\<forall>c. mem c"
  shows "\<exists>s'. do { s \<leftarrow> parse_proc_net mem (inode_table_clear s) (net_tcp fs) AF_INET 6;
       s \<leftarrow> parse_proc_net mem s (net_tcp6 fs) AF_INET6 6;
       s \<leftarrow> parse_proc_net mem s (net_udp fs) AF_INET 17;
       parse_proc_net mem s (net_udp6 fs) AF_INET6 17 } = Some s' \<and> in_ok s' \<and>
     inodes s' = fs_inodes fs \<and> tables s' = tables s \<and> live_table s' = live_table s \<and>
     staging_table s' = staging_table s"
proof -
  let ?s0 = "inode_table_clear s"
  have s0: "in_ok ?s0" "inodes ?s0 = []" "tables ?s0 = tables s" "live_table ?s0 = live_table s"
    "staging_table ?s0 = staging_table s"
    using assms(1) by (auto simp: in_ok_def inode_table_clear_def inodes_def)
  from parse_proc_net_ok [OF s0(1) assms(4), of AF_INET "net_tcp fs" 6] obtain s1 where
    s1: "parse_proc_net mem ?s0 (net_tcp fs) AF_INET 6 = Some s1" "in_ok s1"
      "inodes s1 = file_inodes (net_tcp fs) AF_INET 6" "tables s1 = tables s"
      "live_table s1 = live_table s" "staging_table s1 = staging_table s" using s0 by auto
  from parse_proc_net_ok [OF s1(2) assms(4), of AF_INET6 "net_tcp6 fs" 6] assms(2) obtain s2 where
    s2: "parse_proc_net mem s1 (net_tcp6 fs) AF_INET6 6 = Some s2" "in_ok s2"
      "inodes s2 = inodes s1 @ file_inodes (net_tcp6 fs) AF_INET6 6" "tables s2 = tables s"
      "live_table s2 = live_table s" "staging_table s2 = staging_table s" using s1 by auto
  from parse_proc_net_ok [OF s2(2) assms(4), of AF_INET "net_udp fs" 17] obtain s3 where
    s3: "parse_proc_net mem s2 (net_udp fs) AF_INET 17 = Some s3" "in_ok s3"
      "inodes s3 = inodes s2 @ file_inodes (net_udp fs) AF_INET 17" "tables s3 = tables s"
      "live_table s3 = live_table s" "staging_table s3 = staging_table s" using s2 by auto
  from parse_proc_net_ok [OF s3(2) assms(4), of AF_INET6 "net_udp6 fs" 17] assms(3) obtain s4 where
    s4: "parse_proc_net mem s3 (net_udp6 fs) AF_INET6 17 = Some s4" "in_ok s4"
      "inodes s4 = inodes s3 @ file_inodes (net_udp6 fs) AF_INET6 17" "tables s4 = tables s"
      "live_table s4 = live_table s" "staging_table s4 = staging_table s" using s3 by auto
  show ?thesis
    by (intro exI [of _ s4]) (simp add: s1(1) s2(1) s3(1) s4 s1(3) s2(3) s3(3) fs_inodes_def)
qed

text \<open>The tables left when the old live table is freed.\<close>

definition drop_table :: "nat option \<Rightarrow> (nat \<rightharpoonup> sock_table_t) \<Rightarrow> nat \<rightharpoonup> sock_table_t" where
  "drop_table p ts = (case p of None \<Rightarrow> ts | Some a \<Rightarrow> ts(a := None))"

lemma drop_table_None [simp]: "drop_table None ts = ts"
  by (simp add: drop_table_def)

lemma drop_table_apply: "drop_table p ts a = (if p = Some a then None else ts a)"
  by (auto simp: drop_table_def split: option.split)

lemma dom_drop_table [simp]: "dom (drop_table p ts) = dom ts - set_option p"
  by (auto simp: drop_table_apply split: if_splits)

lemma table_publish_ok:
  assumes "staging_table s = Some a" "tables s a = Some t" "tb_ok t" "in_ok s" "live_table s \<noteq> Some a"
  shows "pinv (table_publish s)" "live_table (table_publish s) = Some a"
    "tables (table_publish s) = drop_table (live_table s) (tables s)"
  using assms
  by (auto simp: table_publish_def table_free_def drop_table_def pinv_def in_ok_def Let_def split: option.splits)

lemma procinfo_refresh_ok:
  assumes inv: "pinv s" and fresh: "tables s a = None" and mem: "\<forall>c. mem c"
    and ok: "file6_ok (net_tcp6 fs)" "file6_ok (net_udp6 fs)"
  shows "\<exists>s' t. procinfo_refresh mem fs (Some a) s = Some s' \<and> pinv s' \<and> live_table s' = Some a \<and>
     tables s' = drop_table (live_table s) ((tables s)(a \<mapsto> t)) \<and> tb_ok t \<and> rows t = fs_rows fs"
proof -
  let ?s0 = "s\<lparr>staging_table := Some a, tables := (tables s)(a \<mapsto> table_create)\<rparr>"
  have s0: "in_ok ?s0" using inv by (simp add: pinv_def in_ok_def)
  have live: "live_table s \<noteq> Some a" using inv fresh by (auto simp: pinv_def)
  from refresh_parse [OF s0 ok mem] obtain s1 where
    s1: "do { s \<leftarrow> parse_proc_net mem (inode_table_clear ?s0) (net_tcp fs) AF_INET 6;
       s \<leftarrow> parse_proc_net mem s (net_tcp6 fs) AF_INET6 6;
       s \<leftarrow> parse_proc_net mem s (net_udp fs) AF_INET 17;
       parse_proc_net mem s (net_udp6 fs) AF_INET6 17 } = Some s1" "in_ok s1"
      "inodes s1 = fs_inodes fs" "tables s1 = (tables s)(a \<mapsto> table_create)" "live_table s1 = live_table s"
      "staging_table s1 = Some a" by auto
  have s1a: "tables s1 a = Some table_create" by (simp add: s1(4))
  have body: "procinfo_refresh mem fs (Some a) s =
     (if inode_count s1 = 0 then Some (table_publish s1)
      else (case proc_dir fs of None \<Rightarrow> Some (table_publish s1)
            | Some ents \<Rightarrow> do { s \<leftarrow> walk_proc mem fs s1 a ents; Some (table_publish s) }))"
  proof -
    from s1(1) obtain y ya yb where
      "parse_proc_net mem (inode_table_clear ?s0) (net_tcp fs) AF_INET 6 = Some y"
      "parse_proc_net mem y (net_tcp6 fs) AF_INET6 6 = Some ya"
      "parse_proc_net mem ya (net_udp fs) AF_INET 17 = Some yb"
      "parse_proc_net mem yb (net_udp6 fs) AF_INET6 17 = Some s1"
      by (auto simp: bind_eq_Some_conv)
    then show ?thesis by (simp add: procinfo_refresh_def Let_def)
  qed
  show ?thesis
  proof (cases "inode_count s1 = 0 \<or> proc_dir fs = None")
    case True
    then have "rows table_create = fs_rows fs"
    proof
      assume "inode_count s1 = 0"
      then have "fs_inodes fs = []" using s1(3) by (simp add: inodes_def)
      then show ?thesis by (simp add: fs_rows_def proc_rows_no_inodes table_create_ok split: option.split)
    qed (simp add: fs_rows_def table_create_ok)
    moreover have "procinfo_refresh mem fs (Some a) s = Some (table_publish s1)"
      using True body by auto
    ultimately show ?thesis
      using table_publish_ok [OF s1(6) s1a table_create_ok(1) s1(2)] s1(4,5) live table_create_ok(1) by auto
  next
    case False
    then obtain ents where ents: "proc_dir fs = Some ents" by auto
    from walk_proc_ok [OF s1(2) mem s1a table_create_ok(1), of fs ents] obtain t where
      t: "walk_proc mem fs s1 a ents = Some (s1\<lparr>tables := (tables s1)(a \<mapsto> t)\<rparr>)" "tb_ok t"
        "rows t = concat (map (proc_rows fs (fs_inodes fs)) ents)" by (auto simp: s1(3) table_create_ok(2))
    let ?s2 = "s1\<lparr>tables := (tables s1)(a \<mapsto> t)\<rparr>"
    have "procinfo_refresh mem fs (Some a) s = Some (table_publish ?s2)"
      using False body ents t(1) by simp
    moreover have "rows t = fs_rows fs" using t(3) ents by (simp add: fs_rows_def)
    ultimately show ?thesis
      using table_publish_ok [of ?s2 a t] s1 t(2) live by auto
  qed
qed

lemma lookup_ok:
  assumes "live_table s = Some a" "tables s a = Some t" "tb_ok t"
  shows "procinfo_lookup s af address port protocol =
     Some (map_option entry_proc (List.find (\<lambda>e. entry_matches e af address port protocol) (rows t)))"
  using assms by (simp add: procinfo_lookup_def lookup_load_def lookup_search_def table_find_ok)

section \<open>Sources of sockets\<close>

text \<open>
  A refresh in the environment \<open>env\<close>, with the address the allocator gives the new table. The
  contract every platform's form meets: it publishes one well-formed table that holds the
  sockets of the environment, frees the table that was live and touches no other.
\<close>

primrec refreshes ::
  "('e \<Rightarrow> nat \<Rightarrow> procinfo_state \<Rightarrow> procinfo_state option) \<Rightarrow> ('e \<times> nat) list \<Rightarrow> procinfo_state \<Rightarrow> procinfo_state option" where
  "refreshes refresh [] s = Some s"
| "refreshes refresh (ea # eas) s = do { s \<leftarrow> refresh (fst ea) (snd ea) s; refreshes refresh eas s }"

definition no_stray :: "procinfo_state \<Rightarrow> bool" where
  "no_stray s \<longleftrightarrow> pinv s \<and> dom (tables s) = set_option (live_table s)"

lemma no_stray_init: "no_stray procinfo_init"
  by (simp add: no_stray_def procinfo_init_pinv) (simp add: procinfo_init_def)

lemma live_table_init: "live_table procinfo_init = None"
  by (simp add: procinfo_init_def)

lemma procinfo_destroy_frees:
  "no_stray s \<Longrightarrow> tables (procinfo_destroy s) = Map.empty \<and> no_stray (procinfo_destroy s)"
  by (cases "live_table s")
    (auto simp: no_stray_def pinv_def in_ok_def procinfo_destroy_def table_free_def Let_def fun_eq_iff domIff [symmetric])

locale socket_source =
  fixes refresh :: "'e \<Rightarrow> nat \<Rightarrow> procinfo_state \<Rightarrow> procinfo_state option"
    and sockets :: "'e \<Rightarrow> sock_entry list"
    and ready :: "'e \<Rightarrow> bool"
  assumes publishes: "\<lbrakk>ready env; pinv s; tables s a = None\<rbrakk> \<Longrightarrow>
    \<exists>s' t. refresh env a s = Some s' \<and> pinv s' \<and> live_table s' = Some a \<and>
      tables s' = drop_table (live_table s) ((tables s)(a \<mapsto> t)) \<and> tb_ok t \<and> rows t = sockets env"
begin

lemma refresh_lookup:
  assumes "ready env" "pinv s" "tables s a = None"
  shows "\<exists>s'. refresh env a s = Some s' \<and> pinv s' \<and>
     procinfo_lookup s' af address port protocol = Some (map_option entry_proc
       (List.find (\<lambda>e. entry_matches e af address port protocol) (sockets env)))"
proof -
  have "live_table s \<noteq> Some a" using assms(2,3) by (auto simp: pinv_def)
  with publishes [OF assms] show ?thesis by (auto simp: drop_table_apply lookup_ok)
qed

lemma reader_race:
  assumes "ready env" "pinv s" "tables s a = None" "live_table s \<noteq> None"
  shows "\<exists>s'. refresh env a s = Some s' \<and>
     lookup_search s (lookup_load s) af address port protocol \<noteq> None \<and>
     lookup_search s' (lookup_load s) af address port protocol = None"
proof -
  from assms(2,4) obtain p t where p: "live_table s = Some p" "tables s p = Some t" "tb_ok t"
    by (auto simp: pinv_def)
  from publishes [OF assms(1-3)] p(1) obtain s' where
    "refresh env a s = Some s'" "tables s' p = None" by (auto simp: drop_table_apply)
  with p lookup_ok [OF p] show ?thesis
    by (auto simp: lookup_search_def lookup_load_def procinfo_lookup_def)
qed

lemma no_stray_refresh:
  assumes "ready env" "no_stray s" "live_table s \<noteq> Some a"
  shows "\<exists>s'. refresh env a s = Some s' \<and> no_stray s' \<and> live_table s' = Some a"
proof -
  have "pinv s" and fresh: "tables s a = None" using assms(2,3)
    by (auto simp: no_stray_def domIff [symmetric])
  from publishes [OF assms(1) this] obtain s' t where s': "refresh env a s = Some s'" "pinv s'"
    "live_table s' = Some a" "tables s' = drop_table (live_table s) ((tables s)(a \<mapsto> t))" by blast
  moreover have "dom (tables s') = {a}" using s'(4) assms(2,3) by (auto simp: no_stray_def)
  ultimately show ?thesis by (simp add: no_stray_def)
qed

lemma refreshes_no_stray:
  assumes "\<forall>ea\<in>set eas. ready (fst ea)" "no_stray s" "distinct_adj (live_table s # map (Some \<circ> snd) eas)"
  shows "\<exists>s'. refreshes refresh eas s = Some s' \<and> no_stray s' \<and>
     live_table s' = last (live_table s # map (Some \<circ> snd) eas)"
  using assms
proof (induction eas arbitrary: s)
  case (Cons ea eas)
  from no_stray_refresh [of "fst ea" s "snd ea"] Cons.prems obtain s1 where
    s1: "refresh (fst ea) (snd ea) s = Some s1" "no_stray s1" "live_table s1 = Some (snd ea)" by auto
  from Cons.IH [OF _ s1(2)] Cons.prems(1,3) s1 show ?case by auto
qed simp

lemma refreshes_append:
  "refreshes refresh (xs @ ys) s = Option.bind (refreshes refresh xs s) (refreshes refresh ys)"
  by (induction xs arbitrary: s) (auto split: bind_splits)

text \<open>After any refreshes no table is left behind and lookups see the sockets of the last one.\<close>

lemma refreshes_lookup:
  assumes "\<forall>ea\<in>set (eas @ [(env, a)]). ready (fst ea)" "no_stray s"
    "distinct_adj (live_table s # map (Some \<circ> snd) (eas @ [(env, a)]))"
  shows "\<exists>s'. refreshes refresh (eas @ [(env, a)]) s = Some s' \<and> no_stray s' \<and>
     procinfo_lookup s' af address port protocol = Some (map_option entry_proc
       (List.find (\<lambda>e. entry_matches e af address port protocol) (sockets env)))"
proof -
  let ?as = "live_table s # map (Some \<circ> snd) eas"
  have "distinct_adj (?as @ [Some a])" using assms(3) by simp
  then have adj: "distinct_adj ?as" "last ?as \<noteq> Some a"
    unfolding distinct_adj_append_iff by auto
  from refreshes_no_stray [OF _ assms(2) adj(1)] assms(1) obtain s1 where
    s1: "refreshes refresh eas s = Some s1" "no_stray s1" "live_table s1 = last ?as" by auto
  then have "pinv s1" "tables s1 a = None" using adj(2)
    by (auto simp: no_stray_def domIff [symmetric])
  with refresh_lookup [of env s1 a] no_stray_refresh [of env s1 a] adj(2) s1 assms(1) show ?thesis
    by (auto simp: refreshes_append)
qed

end

definition linux_ready :: "(nat \<Rightarrow> bool) \<times> proc_fs \<Rightarrow> bool" where
  "linux_ready env \<longleftrightarrow> (\<forall>c. fst env c) \<and> file6_ok (net_tcp6 (snd env)) \<and> file6_ok (net_udp6 (snd env))"

interpretation linux_source: socket_source
  "\<lambda>env a s. procinfo_refresh (fst env) (snd env) (Some a) s" "\<lambda>env. fs_rows (snd env)" linux_ready
  using procinfo_refresh_ok by unfold_locales (auto simp: linux_ready_def)

section \<open>Properties\<close>

text \<open>A small \<open>/proc\<close> for the witnesses: one TCP socket, owned by process 42.\<close>

definition demo_fs :: proc_fs where
  "demo_fs = \<lparr>net_tcp = Some [''header'',
       ''   0: 0100007F:1F90 00000000:0000 0A 00000000:00000000 00:00000000 00000000  1000        0 777 1''],
     net_tcp6 = None, net_udp = None, net_udp6 = None,
     proc_dir = Some [(''42'', Some [None, Some ''socket:[777]'']), (''net'', None)],
     comm = (\<lambda>_. None)\<rparr>"

lemma demo_fs_ok: "file6_ok (net_tcp6 demo_fs)" "file6_ok (net_udp6 demo_fs)"
  by (simp_all add: demo_fs_def file6_ok_def)

text \<open>C19: process attribution works end to end. From any well-formed state, if memory is
  available and the kernel's version 6 files give whole addresses, a refresh returns (no access
  outside a table, no read through a dangling pointer), publishes one table whose rows are
  exactly the sockets of the walk, namely for every numeric directory and every socket link
  whose inode occurs in one of the four files the endpoint of the first such entry with that
  process and its name, and a lookup afterwards returns the first row that matches.\<close>

theorem procinfo_refresh_lookup:
  assumes "pinv s" and "tables s a = None" and "\<forall>c. mem c"
    and "file6_ok (net_tcp6 fs)" and "file6_ok (net_udp6 fs)"
  shows "\<exists>s'. procinfo_refresh mem fs (Some a) s = Some s' \<and> pinv s' \<and>
     procinfo_lookup s' af address port protocol =
       Some (map_option entry_proc
         (List.find (\<lambda>e. entry_matches e af address port protocol) (fs_rows fs)))"
  using linux_source.refresh_lookup [of "(mem, fs)" s a] assms by (simp add: linux_ready_def)

theorem procinfo_refresh_lookup_witness:
  "\<exists>s'. procinfo_refresh (\<lambda>_. True) demo_fs (Some 0) procinfo_init = Some s' \<and> pinv s' \<and>
     procinfo_lookup s' AF_INET [127,0,0,1] 8080 6 =
       Some (map_option entry_proc
         (List.find (\<lambda>e. entry_matches e AF_INET [127,0,0,1] 8080 6) (fs_rows demo_fs)))"
  by (rule procinfo_refresh_lookup [OF procinfo_init_pinv _ _ demo_fs_ok])
     (simp_all add: procinfo_init_def)

text \<open>The double buffer does not protect a reader. If a lookup has loaded the live
  pointer and a refresh completes before the search starts, the search reads freed memory:
  publication frees the table the reader still points to.\<close>

theorem procinfo_reader_race:
  assumes "pinv s" and "live_table s \<noteq> None" and "tables s a = None" and "\<forall>c. mem c"
    and "file6_ok (net_tcp6 fs)" and "file6_ok (net_udp6 fs)"
  shows "\<exists>s'. procinfo_refresh mem fs (Some a) s = Some s' \<and>
     lookup_search s (lookup_load s) af address port protocol \<noteq> None \<and>
     lookup_search s' (lookup_load s) af address port protocol = None"
  using linux_source.reader_race [of "(mem, fs)" s a] assms by (simp add: linux_ready_def)

theorem procinfo_reader_race_witness:
  "\<exists>s s'. procinfo_refresh (\<lambda>_. True) demo_fs (Some 1) s = Some s' \<and>
     lookup_search s (lookup_load s) AF_INET [127,0,0,1] 8080 6 \<noteq> None \<and>
     lookup_search s' (lookup_load s) AF_INET [127,0,0,1] 8080 6 = None"
proof -
  let ?s = "procinfo_init\<lparr>tables := [0 \<mapsto> table_create], live_table := Some 0\<rparr>"
  have "pinv ?s" by (simp add: pinv_def procinfo_init_def in_ok_def table_create_ok)
  from procinfo_reader_race [OF this _ _ _ demo_fs_ok, of 1 "\<lambda>_. True" AF_INET "[127,0,0,1]" 8080 6]
  show ?thesis by auto
qed

end
