(* ===== verification/Stringmap.thy ===== *)
theory Stringmap
  imports Scanf "HOL-Library.Char_ord" "HOL-Library.List_Lexorder"
begin

text \<open>
  The string-keyed binary tree of \<open>src/data/map/stringmap.c\<close>, which stores the
  configuration. A fresh map is one node whose key is a null pointer; insertion never
  replaces a value. The interface the configuration code relies on is the locale
  \<open>string_dict\<close>.
\<close>

section \<open>String comparison\<close>

text \<open>\<open>strcmp\<close> compares as unsigned bytes; only the sign of its result is used.\<close>

fun strcmp :: "string \<Rightarrow> string \<Rightarrow> int" where
  "strcmp [] [] = 0"
| "strcmp [] (_ # _) = - 1"
| "strcmp (_ # _) [] = 1"
| "strcmp (a # as) (b # bs) =
     (if a = b then strcmp as bs else if char_code a < char_code b then - 1 else 1)"

lemma char_code_less: "char_code a < char_code b \<longleftrightarrow> a < b"
  by (simp add: char_code_def less_char_def)

lemma strcmp_sign: "(strcmp s t = 0 \<longleftrightarrow> s = t) \<and> (strcmp s t < 0 \<longleftrightarrow> s < t)"
  by (induction s t rule: strcmp.induct) (auto simp: char_code_less)

lemma strcmp_simps [simp]: "strcmp s t = 0 \<longleftrightarrow> s = t" "strcmp s t < 0 \<longleftrightarrow> s < t"
  using strcmp_sign by auto

section \<open>Data and operations\<close>

text \<open>A node: key (\<^term>\<open>None\<close> is \<open>NULL\<close>), data (\<^term>\<open>None\<close> is the zeroed item), \<open>lesser\<close>, \<open>greater\<close>.\<close>

datatype 'd stringmap = Null_Map | Map_Node "string option" "'d option" "'d stringmap" "'d stringmap"

definition stringmap_new :: "'d stringmap" where
  "stringmap_new = Map_Node None None Null_Map Null_Map"

text \<open>The loop of \<open>stringmap_insert\<close> at node \<open>current\<close>; the first result is the existing data, if any.\<close>

fun insert_loop :: "'d stringmap \<Rightarrow> string \<Rightarrow> 'd \<Rightarrow> ('d option option \<times> 'd stringmap) option" where
  "insert_loop Null_Map key data = None"
| "insert_loop (Map_Node None d l g) key data = None"
| "insert_loop (Map_Node (Some k) d l g) key data =
     (let cmp = strcmp key k in
      if cmp = 0 then Some (Some d, Map_Node (Some k) d l g)
      else if cmp < 0 then
        (case l of
           Null_Map \<Rightarrow> Some (None, Map_Node (Some k) d (Map_Node (Some key) (Some data) Null_Map Null_Map) g)
         | Map_Node _ _ _ _ \<Rightarrow> do {
             (r, l) \<leftarrow> insert_loop l key data;
             Some (r, Map_Node (Some k) d l g) })
      else
        (case g of
           Null_Map \<Rightarrow> Some (None, Map_Node (Some k) d l (Map_Node (Some key) (Some data) Null_Map Null_Map))
         | Map_Node _ _ _ _ \<Rightarrow> do {
             (r, g) \<leftarrow> insert_loop g key data;
             Some (r, Map_Node (Some k) d l g) }))"

definition stringmap_insert ::
  "'d stringmap \<Rightarrow> string \<Rightarrow> 'd \<Rightarrow> ('d option option \<times> 'd stringmap) option" where
  "stringmap_insert m key data =
     (case m of
        Null_Map \<Rightarrow> Some (None, Null_Map)
      | Map_Node None d l g \<Rightarrow> Some (None, Map_Node (Some key) (Some data) l g)
      | Map_Node (Some k) d l g \<Rightarrow> insert_loop m key data)"

text \<open>The loop of \<open>stringmap_find\<close>; the result is the data of the node it returns.\<close>

fun find_loop :: "'d stringmap \<Rightarrow> string \<Rightarrow> 'd option option option" where
  "find_loop Null_Map key = None"
| "find_loop (Map_Node None d l g) key = None"
| "find_loop (Map_Node (Some k) d l g) key =
     (let cmp = strcmp key k in
      if cmp = 0 then Some (Some d)
      else if cmp < 0 then (case l of Null_Map \<Rightarrow> Some None | Map_Node _ _ _ _ \<Rightarrow> find_loop l key)
      else (case g of Null_Map \<Rightarrow> Some None | Map_Node _ _ _ _ \<Rightarrow> find_loop g key))"

definition stringmap_find :: "'d stringmap \<Rightarrow> string \<Rightarrow> 'd option option option" where
  "stringmap_find m key =
     (case m of
        Null_Map \<Rightarrow> Some None
      | Map_Node None _ _ _ \<Rightarrow> Some None
      | Map_Node (Some k) d l g \<Rightarrow> find_loop m key)"

text \<open>Assignment to \<open>entry->data\<close> of the node \<open>stringmap_find\<close> returned for \<open>key\<close>.\<close>

fun assign_data :: "'d stringmap \<Rightarrow> string \<Rightarrow> 'd \<Rightarrow> 'd stringmap" where
  "assign_data Null_Map key data = Null_Map"
| "assign_data (Map_Node None d l g) key data = Map_Node None d l g"
| "assign_data (Map_Node (Some k) d l g) key data =
     (let cmp = strcmp key k in
      if cmp = 0 then Map_Node (Some k) (Some data) l g
      else if cmp < 0 then Map_Node (Some k) d (assign_data l key data) g
      else Map_Node (Some k) d l (assign_data g key data))"

text \<open>The data \<open>stringmap_delete_free\<close> releases, in its order; the map is gone afterwards.\<close>

fun stringmap_delete_free :: "'d stringmap \<Rightarrow> 'd option list" where
  "stringmap_delete_free Null_Map = []"
| "stringmap_delete_free (Map_Node k d l g) =
     stringmap_delete_free l @ stringmap_delete_free g @ [d]"

text \<open>The keys \<open>stringmap_delete\<close> releases; the stored data stay allocated.\<close>

fun stringmap_delete :: "'d stringmap \<Rightarrow> string option list" where
  "stringmap_delete Null_Map = []"
| "stringmap_delete (Map_Node k d l g) = stringmap_delete l @ stringmap_delete g @ [k]"

section \<open>Search trees\<close>

fun sm_entries :: "'d stringmap \<Rightarrow> (string \<times> 'd) list" where
  "sm_entries Null_Map = []"
| "sm_entries (Map_Node k d l g) =
     sm_entries l @ (case (k, d) of (Some k, Some d) \<Rightarrow> [(k, d)] | _ \<Rightarrow> []) @ sm_entries g"

fun bst :: "'d stringmap \<Rightarrow> bool" where
  "bst Null_Map = True"
| "bst (Map_Node k d l g) =
     (k \<noteq> None \<and> d \<noteq> None \<and> bst l \<and> bst g \<and>
      (\<forall>x\<in>fst ` set (sm_entries l). x < the k) \<and> (\<forall>x\<in>fst ` set (sm_entries g). the k < x))"

definition sm_map :: "'d stringmap \<Rightarrow> string \<Rightarrow> 'd option" where
  "sm_map m = map_of (sm_entries m)"

text \<open>A map as the program has it: never null; empty, or a search tree.\<close>

definition sm_inv :: "'d stringmap \<Rightarrow> bool" where
  "sm_inv m \<longleftrightarrow> m \<noteq> Null_Map \<and> (m = stringmap_new \<or> bst m)"

lemma map_of_less: "\<forall>x\<in>fst ` set xs. x < (k :: string) \<Longrightarrow> k \<le> key \<Longrightarrow> map_of xs key = None"
  by (auto simp: map_of_eq_None_iff dest: less_le_trans)

lemma map_of_greater: "\<forall>x\<in>fst ` set xs. (k :: string) < x \<Longrightarrow> key \<le> k \<Longrightarrow> map_of xs key = None"
  by (auto simp: map_of_eq_None_iff dest: le_less_trans)

lemma sm_map_node:
  assumes "bst (Map_Node (Some k) (Some d) l g)"
  shows "sm_map (Map_Node (Some k) (Some d) l g) key =
     (if key = k then Some d else if key < k then sm_map l key else sm_map g key)"
  using assms map_of_less [of "sm_entries l" k key] map_of_greater [of "sm_entries g" k key]
  by (auto simp: sm_map_def map_add_def split: option.split)

lemma bst_nodeE:
  assumes "bst (Map_Node k d l g)"
  obtains k' d' where "k = Some k'" "d = Some d'" "bst l" "bst g"
  using assms by auto

text \<open>What insertion into a possibly missing child does, and how a node absorbs it.\<close>

definition leaf :: "string \<Rightarrow> 'd \<Rightarrow> 'd stringmap" where
  "leaf key v = Map_Node (Some key) (Some v) Null_Map Null_Map"

definition inserted :: "string \<Rightarrow> 'd \<Rightarrow> 'd stringmap \<Rightarrow> 'd stringmap \<Rightarrow> bool" where
  "inserted key v m m' \<longleftrightarrow> bst m' \<and> m' \<noteq> Null_Map \<and>
     fst ` set (sm_entries m') = insert key (fst ` set (sm_entries m)) \<and>
     sm_map m' = (if sm_map m key = None then (sm_map m)(key \<mapsto> v) else sm_map m)"

lemma inserted_leaf: "inserted key v Null_Map (leaf key v)"
  by (auto simp: inserted_def leaf_def sm_map_def)

lemma inserted_left:
  assumes bst: "bst (Map_Node (Some k) (Some d) l g)" and lt: "key < k" and ins: "inserted key v l l'"
  shows "inserted key v (Map_Node (Some k) (Some d) l g) (Map_Node (Some k) (Some d) l' g)"
proof -
  have bst': "bst (Map_Node (Some k) (Some d) l' g)" using bst lt ins by (simp add: inserted_def)
  show ?thesis
    using ins lt bst' unfolding inserted_def sm_map_node [OF bst, abs_def] sm_map_node [OF bst', abs_def]
    by (auto simp: fun_eq_iff image_Un)
qed

lemma inserted_right:
  assumes bst: "bst (Map_Node (Some k) (Some d) l g)" and gt: "k < key" and ins: "inserted key v g g'"
  shows "inserted key v (Map_Node (Some k) (Some d) l g) (Map_Node (Some k) (Some d) l g')"
proof -
  have bst': "bst (Map_Node (Some k) (Some d) l g')" using bst gt ins by (simp add: inserted_def)
  show ?thesis
    using ins gt bst' unfolding inserted_def sm_map_node [OF bst, abs_def] sm_map_node [OF bst', abs_def]
    by (auto simp: fun_eq_iff image_Un)
qed

lemma insert_loop_ok:
  assumes "bst m" "m \<noteq> Null_Map"
  shows "\<exists>m'. insert_loop m key v = Some (map_option Some (sm_map m key), m') \<and> inserted key v m m'"
  using assms
proof (induction m)
  case (Map_Node k d l g)
  then obtain k' d' where kd: "k = Some k'" "d = Some d'" "bst l" "bst g" by (auto elim: bst_nodeE)
  note bst = Map_Node.prems(1) [unfolded kd(1,2)]
  note node = sm_map_node [OF bst]
  consider "key = k'" | "key < k'" | "k' < key" by force
  then show ?case
  proof cases
    case 1
    with bst kd node show ?thesis by (auto simp: inserted_def)
  next
    case 2
    show ?thesis
    proof (cases "l = Null_Map")
      case True
      with 2 kd node inserted_left [OF bst 2, of v "leaf key v"] inserted_leaf [of key v] show ?thesis
        by (auto simp: leaf_def sm_map_def)
    next
      case False
      from Map_Node.IH(1) [OF kd(3) False] obtain l' where
        "insert_loop l key v = Some (map_option Some (sm_map l key), l')" "inserted key v l l'" by blast
      with False 2 kd node inserted_left [OF bst 2] show ?thesis by (cases l) auto
    qed
  next
    case 3
    show ?thesis
    proof (cases "g = Null_Map")
      case True
      with 3 kd node inserted_right [OF bst 3, of v "leaf key v"] inserted_leaf [of key v] show ?thesis
        by (auto simp: leaf_def sm_map_def)
    next
      case False
      from Map_Node.IH(2) [OF kd(4) False] obtain g' where
        "insert_loop g key v = Some (map_option Some (sm_map g key), g')" "inserted key v g g'" by blast
      with False 3 kd node inserted_right [OF bst 3] show ?thesis by (cases g) auto
    qed
  qed
qed simp

lemma find_loop_ok:
  assumes "bst m" "m \<noteq> Null_Map"
  shows "find_loop m key = Some (map_option Some (sm_map m key))"
  using assms
proof (induction m)
  case (Map_Node k d l g)
  then obtain k' d' where kd: "k = Some k'" "d = Some d'" "bst l" "bst g" by (auto elim: bst_nodeE)
  have "sm_map Null_Map key = None" by (simp add: sm_map_def)
  with Map_Node.IH kd sm_map_node [OF Map_Node.prems(1) [unfolded kd(1,2)], of key] show ?case
    by (cases l; cases g) auto
qed simp

lemma assign_data_ok:
  assumes "bst m" "sm_map m key \<noteq> None"
  shows "bst (assign_data m key v) \<and> fst ` set (sm_entries (assign_data m key v)) = fst ` set (sm_entries m) \<and>
     sm_map (assign_data m key v) = (sm_map m)(key \<mapsto> v)"
  using assms
proof (induction m)
  case (Map_Node k d l g)
  then obtain k' d' where kd: "k = Some k'" "d = Some d'" "bst l" "bst g" by (auto elim: bst_nodeE)
  note bst = Map_Node.prems(1) [unfolded kd(1,2)]
  note node = sm_map_node [OF bst, abs_def]
  consider "key = k'" | "key < k'" | "k' < key" by force
  then show ?case
  proof cases
    case 1
    then have bst': "bst (Map_Node (Some k') (Some v) l g)" using bst by simp
    with 1 kd node sm_map_node [OF bst', abs_def] show ?thesis by (auto simp: fun_eq_iff)
  next
    case 2
    with Map_Node.prems(2) kd node have "sm_map l key \<noteq> None" by (auto split: if_splits)
    from Map_Node.IH(1) [OF kd(3) this] have
      l: "bst (assign_data l key v)" "fst ` set (sm_entries (assign_data l key v)) = fst ` set (sm_entries l)"
         "sm_map (assign_data l key v) = (sm_map l)(key \<mapsto> v)" by auto
    then have bst': "bst (Map_Node (Some k') (Some d') (assign_data l key v) g)" using bst by simp
    with 2 kd node sm_map_node [OF bst', abs_def] l show ?thesis by (auto simp: fun_eq_iff image_Un)
  next
    case 3
    with Map_Node.prems(2) kd node have "sm_map g key \<noteq> None" by (auto split: if_splits)
    from Map_Node.IH(2) [OF kd(4) this] have
      g: "bst (assign_data g key v)" "fst ` set (sm_entries (assign_data g key v)) = fst ` set (sm_entries g)"
         "sm_map (assign_data g key v) = (sm_map g)(key \<mapsto> v)" by auto
    then have bst': "bst (Map_Node (Some k') (Some d') l (assign_data g key v))" using bst by simp
    with 3 kd node sm_map_node [OF bst', abs_def] g show ?thesis by (auto simp: fun_eq_iff image_Un)
  qed
qed (simp add: sm_map_def)

section \<open>The dictionary contract\<close>

text \<open>
  What the configuration code needs: insertion keeps an existing value and says so,
  search returns the value, and assignment through a found entry replaces it.
\<close>

locale string_dict =
  fixes ins :: "'m \<Rightarrow> string \<Rightarrow> 'd \<Rightarrow> ('d option option \<times> 'm) option"
    and find :: "'m \<Rightarrow> string \<Rightarrow> 'd option option option"
    and assign :: "'m \<Rightarrow> string \<Rightarrow> 'd \<Rightarrow> 'm"
    and inv :: "'m \<Rightarrow> bool"
    and dict :: "'m \<Rightarrow> string \<Rightarrow> 'd option"
  assumes ins_law: "inv m \<Longrightarrow> \<exists>m'. ins m k v = Some (map_option Some (dict m k), m') \<and> inv m' \<and>
      dict m' = (if dict m k = None then (dict m)(k \<mapsto> v) else dict m)"
    and find_law: "inv m \<Longrightarrow> find m k = Some (map_option Some (dict m k))"
    and assign_law: "inv m \<Longrightarrow> dict m k \<noteq> None \<Longrightarrow> inv (assign m k v) \<and> dict (assign m k v) = (dict m)(k \<mapsto> v)"
begin

text \<open>Inserting a sequence of bindings: the first binding of a key wins, older ones before all.\<close>

fun ins_all :: "'m \<Rightarrow> (string \<times> 'd) list \<Rightarrow> 'm option" where
  "ins_all m [] = Some m"
| "ins_all m ((k, v) # kvs) = Option.bind (ins m k v) (\<lambda>(_, m). ins_all m kvs)"

lemma ins_all_law:
  "inv m \<Longrightarrow> \<exists>m'. ins_all m kvs = Some m' \<and> inv m' \<and>
     dict m' = (\<lambda>k. case dict m k of Some v \<Rightarrow> Some v | None \<Rightarrow> map_of kvs k)"
proof (induction kvs arbitrary: m)
  case Nil
  then show ?case by (auto simp: fun_eq_iff split: option.split)
next
  case (Cons kv kvs)
  obtain k v where kv: "kv = (k, v)" by (cases kv)
  from ins_law [OF Cons.prems, of k v] obtain m1 where
    m1: "ins m k v = Some (map_option Some (dict m k), m1)" "inv m1"
      "dict m1 = (if dict m k = None then (dict m)(k \<mapsto> v) else dict m)" by blast
  from Cons.IH [OF m1(2)] obtain m' where
    m': "ins_all m1 kvs = Some m'" "inv m'"
      "dict m' = (\<lambda>k. case dict m1 k of Some v \<Rightarrow> Some v | None \<Rightarrow> map_of kvs k)" by blast
  have "dict m' = (\<lambda>k. case dict m k of Some v \<Rightarrow> Some v | None \<Rightarrow> map_of (kv # kvs) k)"
    using m'(3) m1(3) by (auto simp: kv fun_eq_iff split: option.split)
  with m1(1) m'(1,2) show ?case by (simp add: kv)
qed

text \<open>Set: assign if the key is there, insert otherwise.\<close>

definition put :: "'m \<Rightarrow> string \<Rightarrow> 'd \<Rightarrow> 'm option" where
  "put m k v = Option.bind (find m k) (\<lambda>e. case e of
     Some _ \<Rightarrow> Some (assign m k v) | None \<Rightarrow> map_option snd (ins m k v))"

lemma put_law:
  assumes "inv m"
  shows "\<exists>m'. put m k v = Some m' \<and> inv m' \<and> dict m' = (dict m)(k \<mapsto> v)"
proof (cases "dict m k")
  case None
  with ins_law [OF assms, of k v] find_law [OF assms, of k] show ?thesis by (auto simp: put_def)
next
  case (Some d)
  with assign_law [OF assms, of k v] find_law [OF assms, of k] show ?thesis by (auto simp: put_def)
qed

end

lemma stringmap_insert_ok:
  assumes "sm_inv m"
  shows "\<exists>m'. stringmap_insert m k v = Some (map_option Some (sm_map m k), m') \<and> sm_inv m' \<and>
     sm_map m' = (if sm_map m k = None then (sm_map m)(k \<mapsto> v) else sm_map m)"
proof (cases "m = stringmap_new")
  case True
  then show ?thesis
    by (auto simp: stringmap_new_def stringmap_insert_def sm_inv_def sm_map_def)
next
  case False
  with assms have m: "bst m" "m \<noteq> Null_Map" by (auto simp: sm_inv_def)
  then have "stringmap_insert m k v = insert_loop m k v" by (cases m) (auto simp: stringmap_insert_def)
  with insert_loop_ok [OF m, of k v] show ?thesis unfolding inserted_def sm_inv_def by auto
qed

lemma stringmap_find_ok:
  assumes "sm_inv m"
  shows "stringmap_find m k = Some (map_option Some (sm_map m k))"
proof (cases "m = stringmap_new")
  case True
  then show ?thesis by (auto simp: stringmap_new_def stringmap_find_def sm_map_def)
next
  case False
  with assms have m: "bst m" "m \<noteq> Null_Map" by (auto simp: sm_inv_def)
  then obtain k' d' l g where "m = Map_Node (Some k') d' l g" by (cases m) auto
  with find_loop_ok [OF m, of k] show ?thesis by (auto simp: stringmap_find_def)
qed

lemma stringmap_assign_ok:
  assumes "sm_inv m" "sm_map m k \<noteq> None"
  shows "sm_inv (assign_data m k v) \<and> sm_map (assign_data m k v) = (sm_map m)(k \<mapsto> v)"
proof -
  from assms have m: "bst m" "m \<noteq> Null_Map" by (auto simp: sm_inv_def sm_map_def stringmap_new_def)
  moreover have "assign_data m k v \<noteq> Null_Map"
    using m by (cases m) (auto simp: Let_def split: if_splits)
  ultimately show ?thesis using assign_data_ok [OF m(1) assms(2)] by (simp add: sm_inv_def)
qed

interpretation strmap: string_dict stringmap_insert stringmap_find assign_data sm_inv sm_map
  by unfold_locales (rule stringmap_insert_ok stringmap_find_ok stringmap_assign_ok; assumption)+

lemma stringmap_new_ok: "sm_inv stringmap_new" "sm_map stringmap_new = Map.empty"
  by (simp_all add: sm_inv_def stringmap_new_def sm_map_def)

text \<open>Deleting a map releases every node once.\<close>

lemma stringmap_delete_free_entries:
  "bst m \<Longrightarrow> mset (stringmap_delete_free m) = image_mset (Some \<circ> snd) (mset (sm_entries m))"
  by (induction m) auto

section \<open>Properties\<close>

text \<open>The string tree is a dictionary in which the first binding of a key wins. Starting
  from a fresh map, inserting any sequence of bindings succeeds and leaves exactly the first
  binding of each key; looking a key up returns it; storing through a found entry replaces it
  and inserts it if it was missing.\<close>

theorem stringmap_first_wins:
  "\<exists>m. strmap.ins_all stringmap_new kvs = Some m \<and> sm_inv m \<and>
     stringmap_find m k = Some (map_option Some (map_of kvs k)) \<and>
     (\<exists>m'. strmap.put m k v = Some m' \<and> stringmap_find m' k' =
        Some (map_option Some (if k' = k then Some v else map_of kvs k')))"
proof -
  from strmap.ins_all_law [OF stringmap_new_ok(1), of kvs] obtain m where
    m: "strmap.ins_all stringmap_new kvs = Some m" "sm_inv m" "sm_map m = map_of kvs"
    by (auto simp: stringmap_new_ok(2))
  from strmap.put_law [OF m(2), of k v] obtain m' where
    "strmap.put m k v = Some m'" "sm_inv m'" "sm_map m' = (sm_map m)(k \<mapsto> v)" by blast
  with m show ?thesis by (auto simp: stringmap_find_ok)
qed

end
