(* ===== verification/Config.thy ===== *)
theory Config
  imports Stringmap
begin

text \<open>
  The configuration of \<open>src/config/cfgfile.c\<close>: the list of directives, the parser of
  \<open>key: value\<close> files with comments and continuation lines, and the typed getters. The
  file is the text \<open>fopen\<close> would give, without NUL bytes, or \<^term>\<open>None\<close> if it cannot be
  opened; the line buffer has its real size.
\<close>

section \<open>Data\<close>

type_synonym config = "string stringmap"

definition MAX_CONFIG_LINE :: nat where "MAX_CONFIG_LINE = 2048"

definition config_directives :: "string list" where
  "config_directives =
     [''interface'', ''dns-resolution'', ''port-resolution'', ''filter-code'', ''show-bars'',
      ''promiscuous'', ''hide-source'', ''hide-destination'', ''use-bytes'', ''sort'',
      ''line-display'', ''show-totals'', ''log-scale'', ''max-bandwidth'', ''net-filter'',
      ''net-filter6'', ''link-local'', ''port-display'', ''show-processes'']"

definition is_cfgdirective_valid :: "string \<Rightarrow> bool" where
  "is_cfgdirective_valid directive = list_ex (\<lambda>d. strcmp directive d = 0) config_directives"

definition config_init :: config where
  "config_init = stringmap_new"

section \<open>Reading lines\<close>

text \<open>
  \<open>fgets(buf, n, fp)\<close>: up to \<open>n - 1\<close> characters, ending after a newline. With room for
  the terminator only, the C library returns an empty string without reading.
\<close>

definition line_prefix :: "nat \<Rightarrow> string \<Rightarrow> string" where
  "line_prefix n inp =
     (let t = take (n - 1) inp; l = takeWhile (\<lambda>c. c \<noteq> newline) t in
      if length l < length t then l @ [newline] else l)"

definition fgets :: "nat \<Rightarrow> string \<Rightarrow> (string \<times> string) option" where
  "fgets n inp =
     (if n = 1 then Some ([], inp)
      else if inp = [] then None
      else let s = line_prefix n inp in Some (s, drop (length s) inp))"

text \<open>\<open>for (end = line + strlen(line) - 1; end > line && *end == '\n'; *(end--) = 0);\<close>\<close>

function strip_newlines :: "string \<Rightarrow> string" where
  "strip_newlines s =
     (if length s > 1 \<and> last s = newline then strip_newlines (butlast s) else s)"
  by pat_completeness auto
termination
  by (relation "measure length") auto

declare strip_newlines.simps [simp del]

lemma strip_newlines_length: "length (strip_newlines s) \<le> length s"
  by (induction s rule: strip_newlines.induct) (subst strip_newlines.simps, auto)

lemma line_prefix_length: "length (line_prefix n inp) \<le> length inp"
proof -
  let ?t = "take (n - 1) inp"
  have "length (takeWhile (\<lambda>c. c \<noteq> newline) ?t) \<le> length ?t" by (rule length_takeWhile_le)
  moreover have "length ?t \<le> length inp" by simp
  ultimately show ?thesis unfolding line_prefix_def Let_def by (auto simp del: length_take)
qed

lemma fgets_consumes:
  "fgets n inp = Some (s, rest) \<Longrightarrow> length rest + length s \<le> length inp \<and> (1 < n \<longrightarrow> inp \<noteq> [])"
  using line_prefix_length [of n inp] by (auto simp: fgets_def Let_def split: if_splits)

text \<open>
  Continuation lines: while the line ends in a backslash, the next piece of the file is
  read over that backslash. An empty line would make the code read before the buffer.
\<close>

function continuation :: "string \<Rightarrow> string \<Rightarrow> (string \<times> string) option" where
  "continuation line inp =
     (if line = [] then None
      else if last line = CHR 0x5C then
        (case fgets (MAX_CONFIG_LINE - length line) inp of
           None \<Rightarrow> Some (line, inp)
         | Some (s, rest) \<Rightarrow> continuation (strip_newlines (butlast line @ s)) rest)
      else Some (line, inp))"
  by pat_completeness auto
termination
proof (relation "measure (\<lambda>(line, inp). 2 * length inp + length line)", goal_cases)
  case (2 line inp x s rest)
  then have "fgets (MAX_CONFIG_LINE - length line) inp = Some (s, rest)" by simp
  from fgets_consumes [OF this] strip_newlines_length [of "butlast line @ s"] 2(1) show ?case
    by (cases line) auto
qed simp

declare continuation.simps [simp del]

section \<open>Parsing a line\<close>

definition is_blank :: "char \<Rightarrow> bool" where
  "is_blank c \<longleftrightarrow> c = CHR '' '' \<or> char_code c = 9"

text \<open>Blanks stripped at the end, but never the first character (\<open>end > value\<close>).\<close>

function rstrip :: "string \<Rightarrow> string" where
  "rstrip s = (if length s > 1 \<and> is_blank (last s) then rstrip (butlast s) else s)"
  by pat_completeness auto
termination
  by (relation "measure length") auto

declare rstrip.simps [simp del]

text \<open>Comment removal, key and value of a line; \<^term>\<open>None\<close> if the line has no binding.\<close>

definition parse_line :: "string \<Rightarrow> (string \<times> string) option" where
  "parse_line line =
     (let line = takeWhile (\<lambda>c. c \<noteq> CHR ''#'' \<and> c \<noteq> newline) line;
          key = dropWhile is_blank line;
          value = dropWhile (\<lambda>c. c \<noteq> CHR '':'') line in
      if value = [] then None
      else
        let key = takeWhile (\<lambda>c. \<not> is_blank c \<and> c \<noteq> CHR '':'') key in
        if key = [] then None
        else Some (key, rstrip (dropWhile is_blank (List.tl value))))"

text \<open>The body of the reading loop after the line is complete.\<close>

definition config_line :: "config \<Rightarrow> string \<Rightarrow> config option" where
  "config_line cfg line =
     (case parse_line line of
        None \<Rightarrow> Some cfg
      | Some (key, value) \<Rightarrow>
          if \<not> is_cfgdirective_valid key then Some cfg
          else do { (_, cfg) \<leftarrow> stringmap_insert cfg key value; Some cfg })"

lemma continuation_consumes:
  "continuation line inp = Some (l, rest) \<Longrightarrow> length rest \<le> length inp"
proof (induction line inp arbitrary: l rest rule: continuation.induct)
  case (1 line inp)
  show ?case
  proof (cases "line = [] \<or> last line \<noteq> CHR 0x5C")
    case True
    with "1.prems" show ?thesis by (auto simp: continuation.simps [of line inp] split: if_splits)
  next
    case False
    show ?thesis
    proof (cases "fgets (MAX_CONFIG_LINE - length line) inp")
      case None
      with False "1.prems" show ?thesis by (auto simp: continuation.simps [of line inp])
    next
      case (Some sr)
      then obtain s r where sr: "sr = (s, r)" by (cases sr)
      with Some False "1.prems" have "continuation (strip_newlines (butlast line @ s)) r = Some (l, rest)"
        by (simp add: continuation.simps [of line inp])
      with "1.IH" [OF _ _ Some sr [symmetric]] False have "length rest \<le> length r" by auto
      with fgets_consumes [OF Some [unfolded sr]] show ?thesis by auto
    qed
  qed
qed

lemma fgets_progress:
  "fgets n inp = Some (s, rest) \<Longrightarrow> 1 < n \<Longrightarrow> length rest < length inp"
proof -
  assume f: "fgets n inp = Some (s, rest)" and n: "1 < n"
  from n have ne: "inp \<noteq> []" using fgets_consumes [OF f] by simp
  then have "line_prefix n inp \<noteq> []"
    using n by (cases inp) (auto simp: line_prefix_def Let_def take_Cons' split: if_splits)
  with f n ne show ?thesis by (auto simp: fgets_def Let_def split: if_splits)
qed

function config_lines :: "config \<Rightarrow> string \<Rightarrow> config option" where
  "config_lines cfg inp =
     (case fgets MAX_CONFIG_LINE inp of
        None \<Rightarrow> Some cfg
      | Some (line, rest) \<Rightarrow>
          (case continuation (strip_newlines line) rest of
             None \<Rightarrow> None
           | Some (line, rest) \<Rightarrow>
               (case config_line cfg line of
                  None \<Rightarrow> None
                | Some cfg \<Rightarrow> config_lines cfg rest)))"
  by pat_completeness auto
termination
proof (relation "measure (\<lambda>(cfg, inp). length inp)", goal_cases)
  case (2 cfg inp a line rest b line' rest' cfg')
  then show ?case
    using fgets_progress [of MAX_CONFIG_LINE inp line rest]
      continuation_consumes [of "strip_newlines line" rest line' rest']
    by (simp add: MAX_CONFIG_LINE_def)
qed simp

declare config_lines.simps [simp del]

text \<open>The return value and the configuration; failing to open the file changes nothing.\<close>

definition read_config_file :: "config \<Rightarrow> string option \<Rightarrow> (int \<times> config) option" where
  "read_config_file cfg inp =
     (case inp of
        None \<Rightarrow> Some (0, cfg)
      | Some text \<Rightarrow> do { cfg \<leftarrow> config_lines cfg text; Some (1, cfg) })"

section \<open>Getters and setter\<close>

text \<open>An entry's data pointer is never null once it is stored.\<close>

definition config_get_string :: "config \<Rightarrow> string \<Rightarrow> string option option" where
  "config_get_string cfg directive = do {
     entry \<leftarrow> stringmap_find cfg directive;
     Some (case entry of Some d \<Rightarrow> d | None \<Rightarrow> None)
   }"

definition config_get_bool :: "config \<Rightarrow> string \<Rightarrow> int option" where
  "config_get_bool cfg directive = do {
     str \<leftarrow> config_get_string cfg directive;
     Some (case str of
             Some s \<Rightarrow> if strcmp s ''yes'' = 0 \<or> strcmp s ''true'' = 0 then 1 else 0
           | None \<Rightarrow> 0)
   }"

text \<open>Return code and, when \<open>*value\<close> is assigned, the new value.\<close>

definition config_get_int :: "config \<Rightarrow> string \<Rightarrow> (int \<times> int option) option" where
  "config_get_int cfg directive = do {
     str \<leftarrow> config_get_string cfg directive;
     Some (case str of
         None \<Rightarrow> (0, None)
       | Some s \<Rightarrow>
           if s = [] then (- 1, None)
           else let (v, endptr) = strtol s in
                if endptr \<noteq> [] then (- 1, Some (to_int32 v))
                else if (case scan_int s of Some (x, _) \<Rightarrow> clamp_long x \<noteq> x | None \<Rightarrow> False)
                  then (- 1, Some (to_int32 v))
                else (1, Some (to_int32 v)))
   }"

text \<open>The C library's \<open>strtod\<close> is an argument: the number, the rest of the text, and whether it was out of range.\<close>

definition config_get_float ::
  "(string \<Rightarrow> 'f \<times> string \<times> bool) \<Rightarrow> config \<Rightarrow> string \<Rightarrow> (int \<times> 'f option) option" where
  "config_get_float strtod cfg directive = do {
     str \<leftarrow> config_get_string cfg directive;
     Some (case str of
         None \<Rightarrow> (0, None)
       | Some s \<Rightarrow>
           if s = [] then (- 1, None)
           else let (v, endptr, erange) = strtod s in
                if endptr \<noteq> [] then (- 1, Some v) else (if erange then - 1 else 1, Some v))
   }"

record config_enumeration_type =
  en_name :: string
  en_value :: int

definition config_get_enum ::
  "config \<Rightarrow> string \<Rightarrow> config_enumeration_type list \<Rightarrow> (int \<times> int option) option" where
  "config_get_enum cfg directive enumeration = do {
     str \<leftarrow> config_get_string cfg directive;
     Some (case str of
         Some s \<Rightarrow> (case List.find (\<lambda>e. strcmp s (en_name e) = 0) enumeration of
             Some e \<Rightarrow> (1, Some (en_value e)) | None \<Rightarrow> (0, None))
       | None \<Rightarrow> (0, None))
   }"

definition config_set_string :: "config \<Rightarrow> string \<Rightarrow> string \<Rightarrow> config option" where
  "config_set_string cfg directive str = do {
     entry \<leftarrow> stringmap_find cfg directive;
     (case entry of
        Some _ \<Rightarrow> Some (assign_data cfg directive str)
      | None \<Rightarrow> do { (_, cfg) \<leftarrow> stringmap_insert cfg directive str; Some cfg })
   }"

section \<open>Reading a file is total\<close>

lemma strip_newlines_ne: "s \<noteq> [] \<Longrightarrow> strip_newlines s \<noteq> []"
proof (induction s rule: strip_newlines.induct)
  case (1 s)
  show ?case
  proof (cases "length s > 1 \<and> last s = newline")
    case True
    then have "butlast s \<noteq> []" by (cases s) auto
    with True 1 show ?thesis by (simp add: strip_newlines.simps [of s])
  qed (use 1 in \<open>auto simp: strip_newlines.simps [of s]\<close>)
qed

lemma line_prefix_bound: "length (line_prefix n inp) \<le> n - 1"
proof -
  have "length (takeWhile (\<lambda>c. c \<noteq> newline) (take (n - 1) inp)) \<le> length (take (n - 1) inp)"
    by (rule length_takeWhile_le)
  then show ?thesis unfolding line_prefix_def Let_def by auto
qed

lemma fgets_length: "fgets n inp = Some (s, rest) \<Longrightarrow> length s \<le> n - 1"
  using line_prefix_bound [of n inp] by (auto simp: fgets_def Let_def split: if_splits)

text \<open>The buffer never overflows and the line never becomes empty, so no access leaves the buffer.\<close>

lemma continuation_ok:
  "line \<noteq> [] \<Longrightarrow> length line < MAX_CONFIG_LINE \<Longrightarrow>
     \<exists>l rest. continuation line inp = Some (l, rest) \<and> l \<noteq> [] \<and> length l < MAX_CONFIG_LINE"
proof (induction line inp rule: continuation.induct)
  case (1 line inp)
  let ?n = "MAX_CONFIG_LINE - length line"
  show ?case
  proof (cases "last line = CHR 0x5C")
    case True
    show ?thesis
    proof (cases "fgets ?n inp")
      case None
      with True 1 show ?thesis by (simp add: continuation.simps [of line inp])
    next
      case (Some sr)
      then obtain s r where sr: "sr = (s, r)" by (cases sr)
      let ?l = "strip_newlines (butlast line @ s)"
      have len: "length (butlast line @ s) < MAX_CONFIG_LINE"
        using fgets_length [OF Some [unfolded sr]] "1.prems" by (cases line) auto
      have ne: "butlast line @ s \<noteq> []"
      proof (cases "s = []")
        case empty: True
        have "?n = 1 \<or> line_prefix ?n inp = []"
          using Some sr empty by (auto simp: fgets_def Let_def split: if_splits)
        moreover have "\<not> (1 < ?n)"
        proof
          assume n: "1 < ?n"
          from fgets_progress [OF Some [unfolded sr] n] Some sr empty n
          show False by (auto simp: fgets_def Let_def split: if_splits)
        qed
        ultimately have "length line > 1" using "1.prems" by (auto simp: MAX_CONFIG_LINE_def)
        then show ?thesis by (cases line) auto
      qed auto
      from strip_newlines_ne [OF ne] strip_newlines_length [of "butlast line @ s"] len
        "1.IH" [OF "1.prems"(1) True Some sr [symmetric]]
      obtain l rest where "continuation ?l r = Some (l, rest)" "l \<noteq> []" "length l < MAX_CONFIG_LINE"
        by auto
      with True Some sr "1.prems"(1) show ?thesis by (simp add: continuation.simps [of line inp])
    qed
  qed (use 1 in \<open>simp add: continuation.simps [of line inp]\<close>)
qed

lemma config_line_ok:
  assumes "sm_inv cfg"
  shows "\<exists>cfg'. config_line cfg line = Some cfg' \<and> sm_inv cfg' \<and> sm_map cfg' =
     (case parse_line line of
        Some (k, v) \<Rightarrow> if is_cfgdirective_valid k \<and> sm_map cfg k = None then (sm_map cfg)(k \<mapsto> v) else sm_map cfg
      | None \<Rightarrow> sm_map cfg)"
proof (cases "parse_line line")
  case (Some kv)
  then obtain k v where kv: "kv = (k, v)" by (cases kv)
  from stringmap_insert_ok [OF assms, of k v] assms Some kv show ?thesis
    by (auto simp: config_line_def)
qed (use assms in \<open>simp add: config_line_def\<close>)

lemma config_lines_ok:
  assumes "sm_inv cfg"
  shows "\<exists>cfg'. config_lines cfg inp = Some cfg' \<and> sm_inv cfg' \<and> sm_map cfg \<subseteq>\<^sub>m sm_map cfg' \<and>
     (\<forall>k. sm_map cfg' k \<noteq> None \<longrightarrow> sm_map cfg k \<noteq> None \<or> is_cfgdirective_valid k)"
  using assms
proof (induction cfg inp rule: config_lines.induct)
  case (1 cfg inp)
  show ?case
  proof (cases "fgets MAX_CONFIG_LINE inp")
    case None
    with 1 show ?thesis by (simp add: config_lines.simps [of cfg inp])
  next
    case (Some lr)
    then obtain line rest where lr: "lr = (line, rest)" by (cases lr)
    have big: "1 < MAX_CONFIG_LINE" by (simp add: MAX_CONFIG_LINE_def)
    have "line \<noteq> []"
      using fgets_progress [OF Some [unfolded lr] big] Some lr big
      by (auto simp: fgets_def Let_def split: if_splits)
    moreover have "length (strip_newlines line) < MAX_CONFIG_LINE"
      using fgets_length [OF Some [unfolded lr]] strip_newlines_length [of line] big by linarith
    ultimately obtain l r where c: "continuation (strip_newlines line) rest = Some (l, r)"
      using continuation_ok [OF strip_newlines_ne] by blast
    obtain cfg1 where cfg1: "config_line cfg l = Some cfg1" "sm_inv cfg1" "sm_map cfg1 =
       (case parse_line l of
        Some (k, v) \<Rightarrow> if is_cfgdirective_valid k \<and> sm_map cfg k = None then (sm_map cfg)(k \<mapsto> v) else sm_map cfg
      | None \<Rightarrow> sm_map cfg)" using config_line_ok [OF "1.prems"] by blast
    from "1.IH" [OF Some lr [symmetric] c refl cfg1(1,2)] obtain cfg' where
      cfg': "config_lines cfg1 r = Some cfg'" "sm_inv cfg'" "sm_map cfg1 \<subseteq>\<^sub>m sm_map cfg'"
        "\<forall>k. sm_map cfg' k \<noteq> None \<longrightarrow> sm_map cfg1 k \<noteq> None \<or> is_cfgdirective_valid k" by blast
    have le: "sm_map cfg \<subseteq>\<^sub>m sm_map cfg1"
      and valid: "\<forall>k. sm_map cfg1 k \<noteq> None \<longrightarrow> sm_map cfg k \<noteq> None \<or> is_cfgdirective_valid k"
      unfolding cfg1(3) by (auto simp: map_le_def split: option.splits if_splits)
    have "config_lines cfg inp = Some cfg'"
      using Some lr c cfg1(1) cfg'(1) by (simp add: config_lines.simps [of cfg inp])
    with cfg' valid map_le_trans [OF le cfg'(3)] show ?thesis by blast
  qed
qed

section \<open>Written and read back\<close>

definition plain_char :: "char \<Rightarrow> bool" where
  "plain_char c \<longleftrightarrow> \<not> is_blank c \<and> c \<noteq> CHR '':'' \<and> c \<noteq> CHR ''#'' \<and> c \<noteq> newline"

text \<open>A value a file can carry: one line, no comment sign, no blank or backslash at its ends.\<close>

definition value_ok :: "string \<Rightarrow> bool" where
  "value_ok v \<longleftrightarrow> (\<forall>c\<in>set v. c \<noteq> CHR ''#'' \<and> c \<noteq> newline) \<and>
     (v \<noteq> [] \<longrightarrow> \<not> is_blank (hd v) \<and> \<not> is_blank (last v) \<and> last v \<noteq> CHR 0x5C)"

lemma directives_plain: "list_all (\<lambda>d. d \<noteq> [] \<and> list_all plain_char d) config_directives"
  by (simp add: config_directives_def plain_char_def is_blank_def char_code_def newline_def char_of_def
      del: char_of_eq_iff)

lemma directive_plain:
  assumes "is_cfgdirective_valid k"
  shows "k \<noteq> []" "\<forall>c\<in>set k. plain_char c"
  using assms directives_plain by (auto simp: is_cfgdirective_valid_def list_ex_iff list_all_iff)

lemma rstrip_id: "v = [] \<or> \<not> is_blank (last v) \<Longrightarrow> rstrip v = v"
  by (auto simp: rstrip.simps [of v])

lemma parse_line_roundtrip:
  assumes k: "k \<noteq> []" "\<forall>c\<in>set k. plain_char c" and v: "value_ok v"
  shows "parse_line (k @ '': '' @ v) = Some (k, v)"
proof -
  let ?line = "k @ '': '' @ v"
  have "\<forall>c\<in>set ?line. c \<noteq> CHR ''#'' \<and> c \<noteq> newline"
    using k v by (auto simp: plain_char_def value_ok_def newline_def char_of_def)
  then have strip: "takeWhile (\<lambda>c. c \<noteq> CHR ''#'' \<and> c \<noteq> newline) ?line = ?line"
    by (simp only: takeWhile_eq_all_conv)
  have key: "dropWhile is_blank ?line = ?line"
    using k by (cases k) (auto simp: plain_char_def)
  have "\<forall>c\<in>set k. c \<noteq> CHR '':''" using k(2) by (simp add: plain_char_def)
  then have val: "dropWhile (\<lambda>c. c \<noteq> CHR '':'') ?line = '': '' @ v"
    by (subst dropWhile_append2) auto
  have "\<forall>c\<in>set k. \<not> is_blank c \<and> c \<noteq> CHR '':''" using k(2) by (simp add: plain_char_def)
  then have tok: "takeWhile (\<lambda>c. \<not> is_blank c \<and> c \<noteq> CHR '':'') ?line = k"
    by (subst takeWhile_append2) auto
  have "is_blank CHR '' ''" by (simp add: is_blank_def)
  moreover have "dropWhile is_blank v = v" using v by (cases v) (auto simp: value_ok_def)
  ultimately have "dropWhile is_blank (List.tl ('': '' @ v)) = v" by simp
  moreover have "rstrip v = v" using v by (intro rstrip_id) (auto simp: value_ok_def)
  ultimately show ?thesis
    using k(1) unfolding parse_line_def Let_def strip key val tok by simp
qed

lemma fgets_line:
  assumes "newline \<notin> set s" "length s + 1 < n"
  shows "fgets n (s @ newline # rest) = Some (s @ [newline], rest)"
proof -
  have t: "take (n - 1) (s @ newline # rest) = s @ newline # take (n - 2 - length s) rest"
    using assms(2) by (simp add: take_Cons' Suc_diff_le numeral_2_eq_2)
  have "takeWhile (\<lambda>c. c \<noteq> newline) (s @ newline # r) = s" for r
    using assms(1) by (subst takeWhile_append2) auto
  then have "line_prefix n (s @ newline # rest) = s @ [newline]"
    unfolding line_prefix_def Let_def t by simp
  with assms(2) show ?thesis by (simp add: fgets_def Let_def)
qed

lemma strip_one_newline: "s \<noteq> [] \<Longrightarrow> last s \<noteq> newline \<Longrightarrow> strip_newlines (s @ [newline]) = s"
  by (simp add: strip_newlines.simps [of "s @ [newline]"] strip_newlines.simps [of s])

lemma config_get_string_ok: "sm_inv cfg \<Longrightarrow> config_get_string cfg k = Some (sm_map cfg k)"
  by (cases "sm_map cfg k") (simp_all add: config_get_string_def stringmap_find_ok)

lemma config_set_string_ok:
  assumes "sm_inv cfg"
  shows "\<exists>cfg'. config_set_string cfg k v = Some cfg' \<and> sm_inv cfg' \<and> sm_map cfg' = (sm_map cfg)(k \<mapsto> v)"
proof -
  have "config_set_string cfg k v = strmap.put cfg k v"
    by (auto simp: config_set_string_def strmap.put_def map_option_case split: option.split bind_splits)
  with strmap.put_law [OF assms, of k v] show ?thesis by simp
qed

lemma config_lines_nil: "config_lines cfg [] = Some cfg"
  by (simp add: config_lines.simps [of cfg "[]"] fgets_def MAX_CONFIG_LINE_def)

lemma config_lines_line:
  assumes "sm_inv cfg" "is_cfgdirective_valid k" "value_ok v" "length k + length v < 2044"
  shows "config_lines cfg (k @ '': '' @ v @ newline # rest) =
     Option.bind (config_line cfg (k @ '': '' @ v)) (\<lambda>cfg. config_lines cfg rest)"
proof -
  let ?line = "k @ '': '' @ v"
  have ne: "?line \<noteq> []" by simp
  have nl: "newline \<notin> set ?line"
    using directive_plain(2) [OF assms(2)] assms(3)
    by (auto simp: plain_char_def value_ok_def newline_def char_of_def)
  then have lst: "last ?line \<noteq> newline" using last_in_set [OF ne] by metis
  have bs: "last ?line \<noteq> CHR 0x5C" using assms(3) by (auto simp: value_ok_def)
  have "fgets MAX_CONFIG_LINE (?line @ newline # rest) = Some (?line @ [newline], rest)"
    using assms(4) by (intro fgets_line [OF nl]) (simp add: MAX_CONFIG_LINE_def)
  moreover have "continuation ?line rest = Some (?line, rest)"
    using ne bs by (subst continuation.simps) simp
  ultimately show ?thesis
    using strip_one_newline [OF ne lst]
    by (subst config_lines.simps) (auto split: option.split)
qed

section \<open>Properties\<close>



text \<open>The text of a file that writes the given bindings.\<close>

fun config_text :: "(string \<times> string) list \<Rightarrow> string" where
  "config_text [] = []"
| "config_text ((k, v) # kvs) = k @ '': '' @ v @ newline # config_text kvs"

lemma config_lines_text:
  assumes "sm_inv cfg"
    "\<forall>(k, v)\<in>set kvs. is_cfgdirective_valid k \<and> value_ok v \<and> length k + length v < 2044"
  shows "\<exists>cfg'. config_lines cfg (config_text kvs) = Some cfg' \<and> sm_inv cfg' \<and>
     sm_map cfg' = (\<lambda>k. case sm_map cfg k of Some v \<Rightarrow> Some v | None \<Rightarrow> map_of kvs k)"
  using assms
proof (induction kvs arbitrary: cfg)
  case Nil
  then show ?case by (auto simp: config_lines_nil fun_eq_iff split: option.split)
next
  case (Cons kv kvs)
  obtain k v where kv: "kv = (k, v)" by (cases kv)
  with Cons.prems have h: "is_cfgdirective_valid k" "value_ok v" "length k + length v < 2044" by auto
  note pl = parse_line_roundtrip [OF directive_plain [OF h(1)] h(2)]
  from config_line_ok [OF Cons.prems(1), of "k @ '': '' @ v"] obtain cfg1 where
    c1: "config_line cfg (k @ '': '' @ v) = Some cfg1" "sm_inv cfg1"
      "sm_map cfg1 = (if sm_map cfg k = None then (sm_map cfg)(k \<mapsto> v) else sm_map cfg)"
    unfolding pl using h(1) by auto
  from Cons.IH [OF c1(2)] Cons.prems(2) obtain cfg' where
    c': "config_lines cfg1 (config_text kvs) = Some cfg'" "sm_inv cfg'"
      "sm_map cfg' = (\<lambda>k. case sm_map cfg1 k of Some v \<Rightarrow> Some v | None \<Rightarrow> map_of kvs k)" by auto
  have "config_lines cfg (config_text (kv # kvs)) = Some cfg'"
    using config_lines_line [OF Cons.prems(1) h] c1(1) c'(1) by (simp add: kv)
  moreover have "sm_map cfg' = (\<lambda>k. case sm_map cfg k of Some v \<Rightarrow> Some v | None \<Rightarrow> map_of (kv # kvs) k)"
    unfolding c'(3) c1(3) by (auto simp: kv fun_eq_iff split: option.split)
  ultimately show ?case using c'(2) by blast
qed

text \<open>C23: round trip of the configuration file. Writing bindings of known directives, each
  as a line \<open>key: value\<close>, and reading the file into an empty configuration gives back the
  first value written for every directive, for values of one line without comment signs
  and without blanks or a backslash at their ends.\<close>

theorem config_file_roundtrip:
  assumes "\<forall>(k, v)\<in>set kvs. is_cfgdirective_valid k \<and> value_ok v \<and> length k + length v < 2044"
  shows "\<exists>cfg. read_config_file config_init (Some (config_text kvs)) = Some (1, cfg) \<and>
     config_get_string cfg k = Some (map_of kvs k)"
proof -
  have i: "sm_inv config_init" "sm_map config_init = Map.empty"
    by (simp_all add: config_init_def stringmap_new_ok)
  from config_lines_text [OF i(1) assms] show ?thesis
    by (auto simp: read_config_file_def config_get_string_ok i(2))
qed

theorem config_file_roundtrip_witness:
  "\<exists>cfg. read_config_file config_init (Some (config_text [(''sort'', ''2s''), (''sort'', ''10s'')])) =
     Some (1, cfg) \<and> config_get_string cfg ''sort'' = Some (map_of [(''sort'', ''2s''), (''sort'', ''10s'')] ''sort'')"
  by (rule config_file_roundtrip)
     (simp add: is_cfgdirective_valid_def config_directives_def value_ok_def is_blank_def char_code_def
       newline_def char_of_def)

text \<open>A screen filter cannot come from a configuration file. The option code asks for
  the directive \<open>screen-filter\<close>, but the list of known directives does not have it, so no
  file sets it.\<close>

theorem screen_filter_not_configurable:
  "\<exists>r cfg. read_config_file config_init file_text = Some (r, cfg) \<and>
     config_get_string cfg ''screen-filter'' = Some None"
proof -
  have i: "sm_inv config_init" "sm_map config_init = Map.empty"
    by (simp_all add: config_init_def stringmap_new_ok)
  have no: "\<not> is_cfgdirective_valid ''screen-filter''"
    by (simp add: is_cfgdirective_valid_def config_directives_def)
  show ?thesis
  proof (cases file_text)
    case (Some ftext)
    with config_lines_ok [OF i(1), of ftext] no i(2) show ?thesis
      by (auto simp: read_config_file_def config_get_string_ok)
  qed (use i in \<open>simp add: read_config_file_def config_get_string_ok\<close>)
qed

end
