(* ===== verification/Options.thy ===== *)
theory Options
  imports Config
begin

text \<open>
  Program options, \<open>src/config/options.c\<close>: the choice of an interface, the defaults,
  the command line, the conversion of configuration values, the bandwidth limit and the
  two network filters. \<open>if_nameindex\<close>, \<open>ioctl\<close>, \<open>inet_aton\<close> and \<open>inet_pton\<close> are
  parameters. An IPv4 address is the 32-bit word \<open>s_addr\<close> as the host loads it, an IPv6
  address its sixteen bytes. Ending the process with \<open>exit\<close> is the left value of a sum.
\<close>

section \<open>Data\<close>

datatype option_port_t = OPTION_PORTS_OFF | OPTION_PORTS_SRC | OPTION_PORTS_DEST | OPTION_PORTS_ON

datatype option_sort_t =
  OPTION_SORT_DIV1 | OPTION_SORT_DIV2 | OPTION_SORT_DIV3 | OPTION_SORT_SRC | OPTION_SORT_DEST

datatype option_linedisplay_t =
    OPTION_LINEDISPLAY_TWO_LINE
  | OPTION_LINEDISPLAY_ONE_LINE_BOTH
  | OPTION_LINEDISPLAY_ONE_LINE_RECV
  | OPTION_LINEDISPLAY_ONE_LINE_SENT

record options_t =
  interface :: "string option"
  dnsresolution :: int
  portresolution :: int
  filtercode :: "string option"
  showbars :: int
  showports :: option_port_t
  promiscuous :: int
  promiscuous_but_choosy :: int
  aggregate_src :: int
  aggregate_dest :: int
  paused :: int
  showhelp :: int
  bandwidth_in_bytes :: int
  sort_by :: option_sort_t
  bar_interval :: int
  screenfilter :: "string option"
  freezeorder :: int
  screen_offset :: int
  linedisplay :: option_linedisplay_t
  show_totals :: int
  max_bandwidth :: int
  log_scale :: int
  netfilter :: int
  netfilternet :: u32
  netfiltermask :: u32
  netfilter6 :: int
  netfilter6net :: bytes
  netfilter6mask :: bytes
  link_local :: int
  config_file :: string
  config_file_specified :: int
  export_mode :: int
  export_duration :: int
  show_processes :: int

section \<open>Interface and defaults\<close>

definition bad_interface_names :: "string list" where
  "bad_interface_names = [''lo:'', ''lo'', ''stf'', ''gif'', ''dummy'', ''vmnet'', ''wmaster'']"

text \<open>\<open>strncmp(name, prefix, strlen(prefix)) == 0\<close>.\<close>

definition is_bad_interface_name :: "string \<Rightarrow> bool" where
  "is_bad_interface_name name = list_ex (\<lambda>prefix. take (length prefix) name = prefix) bad_interface_names"

text \<open>
  \<open>sock\<close>: whether a socket could be opened; \<open>flags\<close>: the interface flags \<open>ioctl\<close>
  reports, or \<^term>\<open>None\<close> if it fails. \<open>IFF_UP\<close> is bit 0. The name list ends where the index is zero.
\<close>

fun first_interface ::
  "bool \<Rightarrow> (string \<Rightarrow> int option) \<Rightarrow> (int \<times> string) list \<Rightarrow> string option" where
  "first_interface sock flags [] = None"
| "first_interface sock flags ((idx, name) # ifs) =
     (if idx = 0 then None
      else if strcmp name ''lo'' \<noteq> 0 \<and> \<not> is_bad_interface_name name \<and>
              (\<not> sock \<or> (case flags name of None \<Rightarrow> True | Some f \<Rightarrow> odd f))
        then Some name
      else first_interface sock flags ifs)"

definition get_first_interface ::
  "bool \<Rightarrow> (string \<Rightarrow> int option) \<Rightarrow> (int \<times> string) list option \<Rightarrow> string option" where
  "get_first_interface sock flags nameindex =
     (case nameindex of None \<Rightarrow> None | Some ifs \<Rightarrow> first_interface sock flags ifs)"

text \<open>\<open>first\<close> is the result of \<open>get_first_interface\<close>, \<open>home\<close> the environment variable \<open>HOME\<close>.\<close>

definition options_set_defaults :: "string option \<Rightarrow> string option \<Rightarrow> options_t" where
  "options_set_defaults first home = \<lparr>
     interface = Some (case first of Some i \<Rightarrow> i | None \<Rightarrow> ''eth0''),
     dnsresolution = 1, portresolution = 1, filtercode = None, showbars = 1,
     showports = OPTION_PORTS_OFF, promiscuous = 0, promiscuous_but_choosy = 0,
     aggregate_src = 0, aggregate_dest = 0, paused = 0, showhelp = 0, bandwidth_in_bytes = 0,
     sort_by = OPTION_SORT_DIV2, bar_interval = 1, screenfilter = None, freezeorder = 0,
     screen_offset = 0, linedisplay = OPTION_LINEDISPLAY_TWO_LINE, show_totals = 0,
     max_bandwidth = 0, log_scale = 0, netfilter = 0, netfilternet = le32 10 0 1 0,
     netfiltermask = le32 255 255 255 0, netfilter6 = 0,
     netfilter6net = [0xfe, 0x80] @ replicate 14 0, netfilter6mask = [0xff, 0xff] @ replicate 14 0,
     link_local = 0,
     config_file = (case home of Some h \<Rightarrow> h @ ''/.iftoprc'' | None \<Rightarrow> ''iftoprc''),
     config_file_specified = 0, export_mode = 0, export_duration = 0, show_processes = 1\<rparr>"

section \<open>Command line\<close>

text \<open>
  \<open>getopt\<close> with \<open>"+i:f:nNF:G:lhpbBPm:c:o:t:Z"\<close>: options without and with an argument. The
  leading plus stops at the first non-option; a missing argument and an unknown option are
  both reported as a question mark.
\<close>

definition opt_flags :: string where "opt_flags = ''nNlhpbBPZ''"
definition opt_args :: string where "opt_args = ''ifFGmcot''"

datatype getopt_event = Opt char string | Opt_Error

text \<open>Options of one argument word \<open>cs\<close> (after the dash) and the words after it.\<close>

fun getopt_word :: "string \<Rightarrow> string list \<Rightarrow> getopt_event list \<times> string list" where
  "getopt_word [] rest = ([], rest)"
| "getopt_word (c # cs) rest =
     (if c \<in> set opt_flags then (let (es, rest) = getopt_word cs rest in (Opt c [] # es, rest))
      else if c \<in> set opt_args then
        (if cs \<noteq> [] then ([Opt c cs], rest)
         else case rest of a # rest \<Rightarrow> ([Opt c a], rest) | [] \<Rightarrow> ([Opt_Error], []))
      else ([Opt_Error], rest))"

lemma getopt_word_shrinks: "length (snd (getopt_word cs rest)) \<le> length rest"
  by (induction cs rest rule: getopt_word.induct) (auto simp: Let_def split: prod.split list.split)

function getopt_all :: "string list \<Rightarrow> getopt_event list \<times> string list" where
  "getopt_all [] = ([], [])"
| "getopt_all (a # rest) =
     (if length a < 2 \<or> hd a \<noteq> CHR ''-'' then ([], a # rest)
      else if a = ''--'' then ([], rest)
      else let w = getopt_word (List.tl a) rest;
               r = getopt_all (snd w) in (fst w @ fst r, snd r))"
  by pat_completeness auto
termination
  by (relation "measure length") (auto simp: le_imp_less_Suc getopt_word_shrinks)

text \<open>One turn of the \<open>switch\<close>; the left value is the exit status.\<close>

definition handle_opt ::
  "options_t \<Rightarrow> config \<Rightarrow> getopt_event \<Rightarrow> (int + options_t \<times> config) option" where
  "handle_opt op cfg e =
     (let set = (\<lambda>k v. do { cfg \<leftarrow> config_set_string cfg k v; Some (Inr (op, cfg)) }) in
      case e of
        Opt_Error \<Rightarrow> Some (Inl 1)
      | Opt c optarg \<Rightarrow>
          if c = CHR ''h'' then Some (Inl 0)
          else if c = CHR ''n'' then set ''dns-resolution'' ''false''
          else if c = CHR ''N'' then set ''port-resolution'' ''false''
          else if c = CHR ''i'' then set ''interface'' optarg
          else if c = CHR ''f'' then set ''filter-code'' optarg
          else if c = CHR ''l'' then set ''link-local'' ''true''
          else if c = CHR ''p'' then set ''promiscuous'' ''true''
          else if c = CHR ''P'' then set ''port-display'' ''on''
          else if c = CHR ''F'' then set ''net-filter'' optarg
          else if c = CHR ''G'' then set ''net-filter6'' optarg
          else if c = CHR ''m'' then set ''max-bandwidth'' optarg
          else if c = CHR ''b'' then set ''show-bars'' ''false''
          else if c = CHR ''B'' then set ''use-bytes'' ''true''
          else if c = CHR ''c'' then Some (Inr (op\<lparr>config_file := optarg, config_file_specified := 1\<rparr>, cfg))
          else if c = CHR ''o'' then
            (if strcmp optarg ''json'' = 0 then Some (Inr (op\<lparr>export_mode := 1\<rparr>, cfg))
             else if strcmp optarg ''csv'' = 0 then Some (Inr (op\<lparr>export_mode := 2\<rparr>, cfg))
             else Some (Inl 1))
          else if c = CHR ''t'' then
            (let d = to_int32 (fst (strtol optarg)) in
             if d \<le> 0 then Some (Inl 1) else Some (Inr (op\<lparr>export_duration := d\<rparr>, cfg)))
          else if c = CHR ''Z'' then set ''show-processes'' ''true''
          else Some (Inr (op, cfg)))"

fun handle_opts ::
  "options_t \<Rightarrow> config \<Rightarrow> getopt_event list \<Rightarrow> (int + options_t \<times> config) option" where
  "handle_opts op cfg [] = Some (Inr (op, cfg))"
| "handle_opts op cfg (e # es) = do {
     r \<leftarrow> handle_opt op cfg e;
     (case r of Inl st \<Rightarrow> Some (Inl st) | Inr (op, cfg) \<Rightarrow> handle_opts op cfg es)
   }"

text \<open>\<open>args\<close> is \<open>argv\<close> without the program name.\<close>

definition options_read_args ::
  "options_t \<Rightarrow> config \<Rightarrow> string list \<Rightarrow> (int + options_t \<times> config) option" where
  "options_read_args op cfg args =
     (let (es, left) = getopt_all args in do {
        r \<leftarrow> handle_opts op cfg es;
        Some (case r of Inl st \<Rightarrow> Inl st | Inr x \<Rightarrow> if left \<noteq> [] then Inl 1 else Inr x) })"

section \<open>Numbers with units\<close>

text \<open>The length of the initial run of digits, \<open>strspn(s, "0123456789")\<close>.\<close>

definition digit_span :: "string \<Rightarrow> string" where
  "digit_span s = takeWhile isdigit s"

definition unit_mult :: "char \<Rightarrow> int option" where
  "unit_mult u =
     (if u = CHR ''k'' \<or> u = CHR ''K'' then Some 1024
      else if u = CHR ''m'' \<or> u = CHR ''M'' then Some (1024 * 1024)
      else if u = CHR ''g'' \<or> u = CHR ''G'' then Some (1024 * 1024 * 1024)
      else if u = CHR ''b'' \<or> u = CHR ''B'' then Some 1
      else None)"

text \<open>
  \<open>sscanf(str, "%lld", &value)\<close> and the product. Without digits \<open>value\<close> is read
  uninitialised, and a product outside 64 bits overflows; both are undefined.
\<close>

definition scan_product :: "string \<Rightarrow> int \<Rightarrow> int option" where
  "scan_product digits mul = do {
     (v, _) \<leftarrow> scan_int digits;
     let p = clamp_long v * mul;
     if - (2 ^ 63) \<le> p \<and> p < 2 ^ 63 then Some p else None
   }"

text \<open>Return value, options, configuration: the unit is cut off in the stored string too.\<close>

definition options_config_get_bw_rate ::
  "options_t \<Rightarrow> config \<Rightarrow> string \<Rightarrow> (int \<times> options_t \<times> config) option" where
  "options_config_get_bw_rate op cfg directive = do {
     str \<leftarrow> config_get_string cfg directive;
     (case str of
        None \<Rightarrow> Some (0, op, cfg)
      | Some s \<Rightarrow>
          let digits = digit_span s; units = drop (length digits) s in
          if length units > 1 then Some (0, op, cfg)
          else if length units = 1 \<and> unit_mult (hd units) = None then Some (0, op, cfg)
          else do {
            let mul = (if units = [] then 1 else the (unit_mult (hd units)));
            let cfg = assign_data cfg directive digits;
            v \<leftarrow> scan_product digits mul;
            Some (1, op\<lparr>max_bandwidth := v\<rparr>, cfg) })
   }"

text \<open>The older command line variant; here an unknown unit counts as one, and errors end the process.\<close>

definition set_max_bandwidth :: "options_t \<Rightarrow> string \<Rightarrow> (int + options_t) option" where
  "set_max_bandwidth op arg =
     (let digits = digit_span arg; units = drop (length digits) arg in
      if length units > 1 then Some (Inl 1)
      else if scan_int digits = None then Some (Inl 1)
      else do {
        let mul = (if units = [] then 1
                    else case unit_mult (hd units) of Some m \<Rightarrow> m | None \<Rightarrow> 1);
        v \<leftarrow> scan_product digits mul;
        Some (Inr (op\<lparr>max_bandwidth := v\<rparr>)) })"

section \<open>Network filters\<close>

definition htonl :: "u32 \<Rightarrow> u32" where
  "htonl w = le32 (ucast (drop_bit 24 w)) (ucast (drop_bit 16 w)) (ucast (drop_bit 8 w)) (ucast w)"

text \<open>\<open>atoi\<close>.\<close>

definition atoi :: "string \<Rightarrow> int" where
  "atoi s = to_int32 (fst (strtol s))"

text \<open>
  The mask for a prefix length of at most 32. A negative length, which \<open>atoi\<close> can
  return for a very long digit string, would be an undefined shift.
\<close>

definition prefix_mask :: "int \<Rightarrow> u32 option" where
  "prefix_mask n =
     (if n = 32 then Some (htonl 0xffffffff)
      else if 0 \<le> n \<and> n < 32 then Some (htonl (NOT (drop_bit (nat n) 0xffffffff)))
      else None)"

definition all_digits :: "string \<Rightarrow> bool" where
  "all_digits s \<longleftrightarrow> digit_span s = s"

text \<open>Text before the first slash and after it, if there is one.\<close>

definition split_slash :: "string \<Rightarrow> (string \<times> string) option" where
  "split_slash s =
     (let net = takeWhile (\<lambda>c. c \<noteq> CHR ''/'') s in
      if net = s then None else Some (net, drop (length net + 1) s))"

definition options_config_get_net_filter ::
  "(string \<Rightarrow> u32 option) \<Rightarrow> options_t \<Rightarrow> config \<Rightarrow> (int \<times> options_t \<times> config) option" where
  "options_config_get_net_filter inet_aton op cfg = do {
     str \<leftarrow> config_get_string cfg ''net-filter'';
     (case str of
        None \<Rightarrow> Some (0, op, cfg)
      | Some s \<Rightarrow>
          let op = op\<lparr>netfilter := 0\<rparr> in
          (case split_slash s of
             None \<Rightarrow> Some (0, op, cfg)
           | Some (net, msk) \<Rightarrow>
               let cfg = assign_data cfg ''net-filter'' net in
               (case inet_aton net of
                  None \<Rightarrow> Some (0, op, cfg)
                | Some a \<Rightarrow>
                    let op = op\<lparr>netfilternet := a\<rparr> in do {
                      r \<leftarrow> (if all_digits msk then do {
                               let prefix_len = atoi msk;
                               op \<leftarrow> (if prefix_len > 32 then Some op
                                      else do { m \<leftarrow> prefix_mask prefix_len; Some (op\<lparr>netfiltermask := m\<rparr>) });
                               Some (Some (op\<lparr>netfilter := 1\<rparr>)) }
                             else Some (case inet_aton msk of
                                    Some m \<Rightarrow> Some (op\<lparr>netfiltermask := m, netfilter := 1\<rparr>)
                                  | None \<Rightarrow> None));
                      Some (case r of
                              None \<Rightarrow> (0, op, cfg)
                            | Some op \<Rightarrow> (1, op\<lparr>netfilternet := netfilternet op AND netfiltermask op\<rparr>, cfg)) }))) }"

text \<open>The older command line variant; every error ends the process.\<close>

definition set_net_filter ::
  "(string \<Rightarrow> u32 option) \<Rightarrow> options_t \<Rightarrow> string \<Rightarrow> (int + options_t) option" where
  "set_net_filter inet_aton op arg =
     (case split_slash arg of
        None \<Rightarrow> Some (Inl 1)
      | Some (net, msk) \<Rightarrow>
          (case inet_aton net of
             None \<Rightarrow> Some (Inl 1)
           | Some a \<Rightarrow> do {
               r \<leftarrow> (if all_digits msk then
                        (if atoi msk > 32 then Some None else map_option Some (prefix_mask (atoi msk)))
                      else Some (inet_aton msk));
               Some (case r of
                   None \<Rightarrow> Inl 1
                 | Some m \<Rightarrow> Inr (op\<lparr>netfiltermask := m, netfilternet := a AND m, netfilter := 1\<rparr>)) }))"

text \<open>
  The mask bytes for an IPv6 prefix: whole bytes of ones, then the partial byte. The
  bytes behind keep the value they had.
\<close>

definition prefix_mask6 :: "nat \<Rightarrow> bytes \<Rightarrow> bytes option" where
  "prefix_mask6 prefix_len old = do {
     let full_bytes = prefix_len div 8;
     let remainder = prefix_len mod 8;
     let partial = (push_bit (8 - remainder) 0xff :: u8);
     m \<leftarrow> memset old 0 0xff full_bytes;
     if remainder > 0 then wr m full_bytes partial else Some m
   }"

definition options_config_get_net_filter6 ::
  "(string \<Rightarrow> bytes option) \<Rightarrow> options_t \<Rightarrow> config \<Rightarrow> (int \<times> options_t \<times> config) option" where
  "options_config_get_net_filter6 inet_pton6 op cfg = do {
     str \<leftarrow> config_get_string cfg ''net-filter6'';
     (case str of
        None \<Rightarrow> Some (0, op, cfg)
      | Some s \<Rightarrow>
          let op = op\<lparr>netfilter6 := 0\<rparr> in
          (case split_slash s of
             None \<Rightarrow> Some (0, op, cfg)
           | Some (net, msk) \<Rightarrow>
               let cfg = assign_data cfg ''net-filter6'' net in
               (case inet_pton6 net of
                  None \<Rightarrow> Some (0, op, cfg)
                | Some a \<Rightarrow>
                    let op = op\<lparr>netfilter6net := a\<rparr> in do {
                      r \<leftarrow> (if all_digits msk then
                               let prefix_len = unat (word_of_int (atoi msk) :: u32) in
                               if prefix_len > 128 \<or> prefix_len < 1 then Some (Some op)
                               else do {
                                 m \<leftarrow> prefix_mask6 prefix_len (netfilter6mask op);
                                 Some (Some (op\<lparr>netfilter6mask := m, netfilter6 := 1\<rparr>)) }
                             else Some (case inet_pton6 msk of
                                    Some m \<Rightarrow> Some (op\<lparr>netfilter6mask := m, netfilter6 := 1\<rparr>)
                                  | None \<Rightarrow> None));
                      Some (case r of
                              None \<Rightarrow> (0, op, cfg)
                            | Some op \<Rightarrow> (1, op\<lparr>netfilter6net := map2 (\<lambda>a m. a AND m) (netfilter6net op) (netfilter6mask op)\<rparr>, cfg)) }))) }"

section \<open>Building the options\<close>

definition options_config_get_string ::
  "config \<Rightarrow> string \<Rightarrow> string option \<Rightarrow> (int \<times> string option) option" where
  "options_config_get_string cfg name value = do {
     str \<leftarrow> config_get_string cfg name;
     Some (case str of Some s \<Rightarrow> (1, Some s) | None \<Rightarrow> (0, value))
   }"

definition options_config_get_bool :: "config \<Rightarrow> string \<Rightarrow> int \<Rightarrow> (int \<times> int) option" where
  "options_config_get_bool cfg name value = do {
     str \<leftarrow> config_get_string cfg name;
     (case str of
        Some _ \<Rightarrow> do { b \<leftarrow> config_get_bool cfg name; Some (1, b) }
      | None \<Rightarrow> Some (0, value))
   }"

definition options_config_get_int :: "config \<Rightarrow> string \<Rightarrow> int \<Rightarrow> (int \<times> int) option" where
  "options_config_get_int cfg name value = do {
     str \<leftarrow> config_get_string cfg name;
     (case str of
        Some _ \<Rightarrow> do {
          (_, v) \<leftarrow> config_get_int cfg name;
          Some (1, case v of Some x \<Rightarrow> x | None \<Rightarrow> value) }
      | None \<Rightarrow> Some (0, value))
   }"

definition options_config_get_enum ::
  "config \<Rightarrow> string \<Rightarrow> config_enumeration_type list \<Rightarrow> (int \<times> int option) option" where
  "options_config_get_enum cfg name enumeration = do {
     str \<leftarrow> config_get_string cfg name;
     (case str of
        Some _ \<Rightarrow> do {
          (ok, v) \<leftarrow> config_get_enum cfg name enumeration;
          Some (if ok \<noteq> 0 then (1, v) else (0, None)) }
      | None \<Rightarrow> Some (0, None))
   }"

text \<open>The numbers C gives the enumerators, and back.\<close>

fun sort_num :: "option_sort_t \<Rightarrow> int" where
  "sort_num OPTION_SORT_DIV1 = 0"
| "sort_num OPTION_SORT_DIV2 = 1"
| "sort_num OPTION_SORT_DIV3 = 2"
| "sort_num OPTION_SORT_SRC = 3"
| "sort_num OPTION_SORT_DEST = 4"

fun linedisplay_num :: "option_linedisplay_t \<Rightarrow> int" where
  "linedisplay_num OPTION_LINEDISPLAY_TWO_LINE = 0"
| "linedisplay_num OPTION_LINEDISPLAY_ONE_LINE_BOTH = 1"
| "linedisplay_num OPTION_LINEDISPLAY_ONE_LINE_RECV = 2"
| "linedisplay_num OPTION_LINEDISPLAY_ONE_LINE_SENT = 3"

fun port_num :: "option_port_t \<Rightarrow> int" where
  "port_num OPTION_PORTS_OFF = 0"
| "port_num OPTION_PORTS_SRC = 1"
| "port_num OPTION_PORTS_DEST = 2"
| "port_num OPTION_PORTS_ON = 3"

definition sort_of_num :: "int \<Rightarrow> option_sort_t" where
  "sort_of_num n = (if n = 0 then OPTION_SORT_DIV1 else if n = 1 then OPTION_SORT_DIV2
     else if n = 2 then OPTION_SORT_DIV3 else if n = 3 then OPTION_SORT_SRC else OPTION_SORT_DEST)"

definition linedisplay_of_num :: "int \<Rightarrow> option_linedisplay_t" where
  "linedisplay_of_num n = (if n = 0 then OPTION_LINEDISPLAY_TWO_LINE
     else if n = 1 then OPTION_LINEDISPLAY_ONE_LINE_BOTH
     else if n = 2 then OPTION_LINEDISPLAY_ONE_LINE_RECV else OPTION_LINEDISPLAY_ONE_LINE_SENT)"

definition port_of_num :: "int \<Rightarrow> option_port_t" where
  "port_of_num n = (if n = 0 then OPTION_PORTS_OFF else if n = 1 then OPTION_PORTS_SRC
     else if n = 2 then OPTION_PORTS_DEST else OPTION_PORTS_ON)"

definition sort_enumeration :: "config_enumeration_type list" where
  "sort_enumeration =
     [\<lparr>en_name = ''2s'', en_value = sort_num OPTION_SORT_DIV1\<rparr>,
      \<lparr>en_name = ''10s'', en_value = sort_num OPTION_SORT_DIV2\<rparr>,
      \<lparr>en_name = ''40s'', en_value = sort_num OPTION_SORT_DIV3\<rparr>,
      \<lparr>en_name = ''source'', en_value = sort_num OPTION_SORT_SRC\<rparr>,
      \<lparr>en_name = ''destination'', en_value = sort_num OPTION_SORT_DEST\<rparr>]"

definition linedisplay_enumeration :: "config_enumeration_type list" where
  "linedisplay_enumeration =
     [\<lparr>en_name = ''two-line'', en_value = linedisplay_num OPTION_LINEDISPLAY_TWO_LINE\<rparr>,
      \<lparr>en_name = ''one-line-both'', en_value = linedisplay_num OPTION_LINEDISPLAY_ONE_LINE_BOTH\<rparr>,
      \<lparr>en_name = ''one-line-sent'', en_value = linedisplay_num OPTION_LINEDISPLAY_ONE_LINE_SENT\<rparr>,
      \<lparr>en_name = ''one-line-received'', en_value = linedisplay_num OPTION_LINEDISPLAY_ONE_LINE_RECV\<rparr>]"

definition showports_enumeration :: "config_enumeration_type list" where
  "showports_enumeration =
     [\<lparr>en_name = ''off'', en_value = port_num OPTION_PORTS_OFF\<rparr>,
      \<lparr>en_name = ''source-only'', en_value = port_num OPTION_PORTS_SRC\<rparr>,
      \<lparr>en_name = ''destination-only'', en_value = port_num OPTION_PORTS_DEST\<rparr>,
      \<lparr>en_name = ''on'', en_value = port_num OPTION_PORTS_ON\<rparr>]"

definition options_config_get_promiscuous :: "options_t \<Rightarrow> config \<Rightarrow> (int \<times> options_t) option" where
  "options_config_get_promiscuous op cfg = do {
     str \<leftarrow> config_get_string cfg ''promiscuous'';
     (case str of
        Some _ \<Rightarrow> do {
          b \<leftarrow> config_get_bool cfg ''promiscuous'';
          let op = op\<lparr>promiscuous := b\<rparr>;
          Some (1, if promiscuous op \<noteq> 0 then op\<lparr>promiscuous_but_choosy := 0\<rparr> else op) }
      | None \<Rightarrow> Some (0, op))
   }"

text \<open>\<open>first\<close> is what \<open>get_first_interface\<close> returns when it is called here.\<close>

definition options_make ::
  "(string \<Rightarrow> u32 option) \<Rightarrow> (string \<Rightarrow> bytes option) \<Rightarrow> string option \<Rightarrow> options_t \<Rightarrow> config
     \<Rightarrow> (options_t \<times> config) option" where
  "options_make inet_aton inet_pton6 first op cfg = do {
     (_, iface) \<leftarrow> options_config_get_string cfg ''interface'' None;
     let op = op\<lparr>interface := (case iface of Some i \<Rightarrow> Some i
                | None \<Rightarrow> Some (case first of Some i \<Rightarrow> i | None \<Rightarrow> ''eth0''))\<rparr>;
     (_, v) \<leftarrow> options_config_get_bool cfg ''dns-resolution'' (dnsresolution op);
     let op = op\<lparr>dnsresolution := v\<rparr>;
     (_, v) \<leftarrow> options_config_get_bool cfg ''port-resolution'' (portresolution op);
     let op = op\<lparr>portresolution := v\<rparr>;
     (_, fc) \<leftarrow> options_config_get_string cfg ''filter-code'' None;
     let op = op\<lparr>filtercode := fc\<rparr>;
     (_, v) \<leftarrow> options_config_get_bool cfg ''show-bars'' (showbars op);
     let op = op\<lparr>showbars := v\<rparr>;
     (_, op) \<leftarrow> options_config_get_promiscuous op cfg;
     (_, v) \<leftarrow> options_config_get_bool cfg ''hide-source'' (aggregate_src op);
     let op = op\<lparr>aggregate_src := v\<rparr>;
     (_, v) \<leftarrow> options_config_get_bool cfg ''hide-destination'' (aggregate_dest op);
     let op = op\<lparr>aggregate_dest := v\<rparr>;
     (_, v) \<leftarrow> options_config_get_bool cfg ''use-bytes'' (bandwidth_in_bytes op);
     let op = op\<lparr>bandwidth_in_bytes := v\<rparr>;
     (_, e) \<leftarrow> options_config_get_enum cfg ''sort'' sort_enumeration;
     let op = (case e of Some n \<Rightarrow> op\<lparr>sort_by := sort_of_num n\<rparr> | None \<Rightarrow> op);
     (_, e) \<leftarrow> options_config_get_enum cfg ''line-display'' linedisplay_enumeration;
     let op = (case e of Some n \<Rightarrow> op\<lparr>linedisplay := linedisplay_of_num n\<rparr> | None \<Rightarrow> op);
     (_, v) \<leftarrow> options_config_get_bool cfg ''show-totals'' (show_totals op);
     let op = op\<lparr>show_totals := v\<rparr>;
     (_, v) \<leftarrow> options_config_get_bool cfg ''log-scale'' (log_scale op);
     let op = op\<lparr>log_scale := v\<rparr>;
     (_, op, cfg) \<leftarrow> options_config_get_bw_rate op cfg ''max-bandwidth'';
     (_, e) \<leftarrow> options_config_get_enum cfg ''port-display'' showports_enumeration;
     let op = (case e of Some n \<Rightarrow> op\<lparr>showports := port_of_num n\<rparr> | None \<Rightarrow> op);
     (_, sf) \<leftarrow> options_config_get_string cfg ''screen-filter'' None;
     let op = op\<lparr>screenfilter := sf\<rparr>;
     (_, v) \<leftarrow> options_config_get_bool cfg ''link-local'' (link_local op);
     let op = op\<lparr>link_local := v\<rparr>;
     (_, v) \<leftarrow> options_config_get_bool cfg ''show-processes'' (show_processes op);
     let op = op\<lparr>show_processes := v\<rparr>;
     (_, op, cfg) \<leftarrow> options_config_get_net_filter inet_aton op cfg;
     (_, op, cfg) \<leftarrow> options_config_get_net_filter6 inet_pton6 op cfg;
     Some (op, cfg)
   }"

section \<open>Addresses bit by bit\<close>

lemma bit_u8_high: "8 \<le> k \<Longrightarrow> \<not> bit (b :: u8) k"
  using bit_imp_le_length [of b k] by auto

lemma bit_le32:
  "bit (le32 b0 b1 b2 b3) i =
     (if i < 8 then bit b0 i else if i < 16 then bit b1 (i - 8) else if i < 24 then bit b2 (i - 16)
      else i < 32 \<and> bit b3 (i - 24))"
  by (auto simp: le32_def bit_simps not_less bit_u8_high)

lemma bit_htonl:
  assumes "i < 32"
  shows "bit (htonl w) i = bit w (8 * (3 - i div 8) + i mod 8)"
proof -
  define j k where "j = i div 8" and "k = i mod 8"
  have i: "i = 8 * j + k" "k < 8" "j < 4" using assms by (simp_all add: j_def k_def less_mult_imp_div_less)
  then have dm: "i div 8 = j" "i mod 8 = k" by (simp_all add: j_def k_def)
  from i(3) have "j = 0 \<or> j = 1 \<or> j = 2 \<or> j = 3" by auto
  then show ?thesis using i(2) unfolding dm unfolding i(1)
    by (elim disjE) (simp_all add: htonl_def bit_le32 bit_simps ac_simps)
qed

lemma byte_split: "r < 8 \<Longrightarrow> (8 * a + r) div 8 = a \<and> (8 * a + r) mod 8 = (r :: nat)"
  by simp

text \<open>Bit \<open>j\<close> of an address in network order, counted from the most significant one.\<close>

definition net_bit :: "u32 \<Rightarrow> nat \<Rightarrow> bool" where
  "net_bit w j = bit w (8 * (j div 8) + (7 - j mod 8))"

lemma net_bit_htonl:
  assumes "j < 32"
  shows "net_bit (htonl w) j = bit w (31 - j)"
proof -
  define a b where "a = j div 8" and "b = j mod 8"
  have j: "j = 8 * a + b" "b < 8" "a < 4" using assms by (simp_all add: a_def b_def less_mult_imp_div_less)
  let ?i = "8 * a + (7 - b)"
  have "?i div 8 = a" "?i mod 8 = 7 - b" using byte_split [of "7 - b" a] by simp_all
  moreover have "?i < 32" using j by auto
  ultimately have "bit (htonl w) ?i = bit w (8 * (3 - a) + (7 - b))" using bit_htonl [of ?i w] by simp
  moreover have "8 * (3 - a) + (7 - b) = 31 - j" using j by auto
  ultimately show ?thesis by (simp add: net_bit_def a_def b_def)
qed

lemma masked_eq_iff:
  "(w AND m) = (a AND m) \<longleftrightarrow> (\<forall>j<32. net_bit m j \<longrightarrow> net_bit w j = net_bit (a :: u32) j)"
proof
  assume eq: "w AND m = a AND m"
  have "bit m i \<Longrightarrow> bit w i = bit a i" for i using arg_cong [OF eq, of "\<lambda>x. bit x i"] by (auto simp: bit_and_iff)
  then show "\<forall>j<32. net_bit m j \<longrightarrow> net_bit w j = net_bit a j" by (simp add: net_bit_def)
next
  assume all: "\<forall>j<32. net_bit m j \<longrightarrow> net_bit w j = net_bit a j"
  have "bit m i \<longrightarrow> bit w i = bit a i" if "i < 32" for i
  proof -
    define j where "j = 8 * (i div 8) + (7 - i mod 8)"
    have b: "i mod 8 < 8" by simp
    have "j div 8 = i div 8" "j mod 8 = 7 - i mod 8" using byte_split [of "7 - i mod 8" "i div 8"] by (simp_all add: j_def)
    then have "8 * (j div 8) + (7 - j mod 8) = i" using b by simp
    moreover have "j < 32"
    proof -
      have "i div 8 < 4" using that by (simp add: less_mult_imp_div_less)
      moreover have "j \<le> 8 * (i div 8) + 7" by (simp add: j_def)
      ultimately show ?thesis by linarith
    qed
    ultimately show ?thesis using all by (auto simp: net_bit_def)
  qed
  then show "w AND m = a AND m" by (intro bit_word_eqI) (auto simp: bit_and_iff)
qed
definition net_bits :: "u32 \<Rightarrow> bool list" where
  "net_bits w = map (net_bit w) [0..<32]"

lemma net_bits_take: "n \<le> 32 \<Longrightarrow> take n (net_bits w) = take n (net_bits a) \<longleftrightarrow> (\<forall>j<n. net_bit w j = net_bit a j)"
  by (auto simp: net_bits_def take_map [symmetric] list_eq_iff_nth_eq)

lemma bit_all_ones: "bit (0xffffffff :: u32) i = (i < 32)"
proof -
  have e: "(0xffffffff :: u32) = mask 32" by (simp add: mask_eq_exp_minus_1)
  show ?thesis unfolding e by (simp add: bit_mask_iff)
qed

lemma prefix_mask_bits:
  assumes "n \<le> 32"
  shows "\<exists>m. prefix_mask (int n) = Some m \<and> (\<forall>j<32. net_bit m j = (j < n))"
proof (cases "n = 32")
  case True
  have "net_bit (htonl 0xffffffff) j" if "j < 32" for j
    unfolding net_bit_htonl [OF that] bit_all_ones by simp
  with True show ?thesis by (simp add: prefix_mask_def)
next
  case False
  have "net_bit (htonl (NOT (drop_bit n 0xffffffff))) j = (j < n)" if "j < 32" for j
    unfolding net_bit_htonl [OF that] bit_not_iff bit_drop_bit_eq comp_def bit_all_ones
    using that assms False by auto
  with False assms show ?thesis by (simp add: prefix_mask_def)
qed

lemma atoi_print:
  assumes "n < 2 ^ 31"
  shows "atoi (print_nat n) = int n"
proof -
  have "int n < 2 ^ 31" using assms by (metis of_nat_less_iff of_nat_numeral of_nat_power)
  moreover have "n < 2 ^ 63" using assms by simp
  ultimately show ?thesis by (simp add: atoi_def strtol_print to_int32_id)
qed

lemma all_digits_print: "all_digits (print_nat n)"
  using print_nat_digits [of n] by (simp add: all_digits_def digit_span_def)

section \<open>Filters set from text\<close>

lemma split_slash_append: "CHR ''/'' \<notin> set net \<Longrightarrow> split_slash (net @ ''/'' @ m) = Some (net, m)"
proof -
  assume a: "CHR ''/'' \<notin> set net"
  have "takeWhile (\<lambda>c. c \<noteq> CHR ''/'') (net @ CHR ''/'' # m) = net"
    using a by (subst takeWhile_append2) auto
  then show ?thesis by (simp add: split_slash_def Let_def)
qed

lemma net_filter_prefix:
  assumes "sm_inv cfg" "sm_map cfg ''net-filter'' = Some (net @ ''/'' @ print_nat n)"
    "CHR ''/'' \<notin> set net" "inet_aton net = Some a" "n \<le> 32"
  shows "\<exists>op' cfg' m. options_config_get_net_filter inet_aton op cfg = Some (1, op', cfg') \<and>
     netfilter op' = 1 \<and> netfiltermask op' = m \<and> netfilternet op' = a AND m \<and>
     (\<forall>j<32. net_bit m j = (j < n))"
proof -
  from prefix_mask_bits [OF assms(5)] obtain m where
    m: "prefix_mask (int n) = Some m" "\<forall>j<32. net_bit m j = (j < n)" by blast
  have "n < 2 ^ 31" using assms(5) by (rule le_less_trans) simp
  then show ?thesis
    using assms m
    by (simp add: options_config_get_net_filter_def config_get_string_ok split_slash_append [simplified]
        all_digits_print atoi_print)
qed

lemma net_filter_bad_prefix:
  assumes "sm_inv cfg" "sm_map cfg ''net-filter'' = Some (net @ ''/'' @ print_nat n)"
    "CHR ''/'' \<notin> set net" "inet_aton net = Some a" "32 < n" "n < 2 ^ 31"
  shows "\<exists>op' cfg'. options_config_get_net_filter inet_aton op cfg = Some (1, op', cfg') \<and>
     netfilter op' = 1 \<and> netfiltermask op' = netfiltermask op \<and>
     netfilternet op' = a AND netfiltermask op"
  using assms
  by (simp add: options_config_get_net_filter_def config_get_string_ok split_slash_append [simplified]
      all_digits_print atoi_print)

lemma prefix_mask6_bytes:
  assumes "length old = 16" "1 \<le> n" "n \<le> 128"
  shows "\<exists>m. prefix_mask6 n old = Some m \<and> length m = 16 \<and>
     (\<forall>j<16. m ! j = (if j < n div 8 then 0xff
        else if j = n div 8 \<and> n mod 8 > 0 then push_bit (8 - n mod 8) 0xff else old ! j))"
proof -
  let ?f = "n div 8"
  have f: "?f \<le> 16" "n mod 8 > 0 \<longrightarrow> ?f < 16" using assms(3) by presburger+
  let ?m = "replicate ?f 0xff @ drop ?f old"
  have m: "memset old 0 0xff ?f = Some ?m" using f(1) assms(1) by (simp add: memset_def)
  have nth: "?m ! j = (if j < ?f then 0xff else old ! j)" if "j < 16" for j
    using that assms(1) f(1) by (simp add: nth_append)
  show ?thesis
  proof (cases "n mod 8 > 0")
    case True
    with f m assms(1) have "prefix_mask6 n old = Some (?m[?f := push_bit (8 - n mod 8) 0xff])"
      by (simp add: prefix_mask6_def wr_def Let_def)
    then show ?thesis using True f(1) assms(1) nth by (auto simp: nth_list_update)
  next
    case False
    with m have "prefix_mask6 n old = Some ?m" by (simp add: prefix_mask6_def Let_def)
    then show ?thesis using False f(1) assms(1) nth by auto
  qed
qed

lemma net_filter6_prefix:
  assumes "sm_inv cfg" "sm_map cfg ''net-filter6'' = Some (net @ ''/'' @ print_nat n)"
    "CHR ''/'' \<notin> set net" "inet_pton6 net = Some a" "1 \<le> n" "n \<le> 128"
    "length (netfilter6mask op) = 16"
  shows "\<exists>op' cfg' m. options_config_get_net_filter6 inet_pton6 op cfg = Some (1, op', cfg') \<and>
     netfilter6 op' = 1 \<and> prefix_mask6 n (netfilter6mask op) = Some m \<and> netfilter6mask op' = m \<and>
     netfilter6net op' = map2 (\<lambda>a m. a AND m) a m"
proof -
  from prefix_mask6_bytes [OF assms(7,5,6)] obtain m where
    m: "prefix_mask6 n (netfilter6mask op) = Some m" by blast
  have "n < 2 ^ 31" using assms(6) by (rule le_less_trans) simp
  then have at: "atoi (print_nat n) = int n" by (rule atoi_print)
  have "unat (word_of_int (int n) :: u32) = n"
    using assms(6) by (simp add: unat_of_nat take_bit_nat_eq_self)
  with assms m at show ?thesis
    by (simp add: options_config_get_net_filter6_def config_get_string_ok split_slash_append [simplified]
        all_digits_print Let_def)
qed

section \<open>Rates\<close>

lemma unit_not_digit: "unit_mult c = Some mul \<Longrightarrow> \<not> isdigit c"
proof -
  assume "unit_mult c = Some mul"
  then have "c \<in> set ''kKmMgGbB''" by (auto simp: unit_mult_def split: if_splits)
  moreover have "list_all (\<lambda>c. \<not> isdigit c) ''kKmMgGbB''" by (simp add: isdigit_def char_code_def)
  ultimately show ?thesis by (metis Ball_set)
qed

lemma unit_mult_pos: "unit_mult c = Some mul \<Longrightarrow> 1 \<le> mul"
  by (simp add: unit_mult_def split: if_splits)

lemma digit_span_print:
  assumes "u = [] \<or> (\<exists>c. u = [c] \<and> \<not> isdigit c)"
  shows "digit_span (print_nat n @ u) = print_nat n"
proof -
  have "\<forall>c\<in>set (print_nat n). isdigit c" using print_nat_digits by auto
  moreover have "takeWhile isdigit u = []" using assms by auto
  ultimately show ?thesis by (simp add: digit_span_def takeWhile_append2)
qed

lemma scan_product_print:
  assumes "1 \<le> mul" "int n * mul < 2 ^ 63"
  shows "scan_product (print_nat n) mul = Some (int n * mul)"
proof -
  have "int n * 1 \<le> int n * mul" using assms(1) by (intro mult_left_mono) auto
  with assms(2) have "int n < 2 ^ 63" by linarith
  moreover have "0 \<le> int n * mul" using assms(1) by simp
  moreover have "scan_int (print_nat n) = Some (int n, [])"
    using scan_int_print_nat [of "[]" n] by (simp add: no_digit_def)
  ultimately show ?thesis using assms(2) by (simp add: scan_product_def clamp_long_def)
qed

section \<open>Properties\<close>

text \<open>A bandwidth limit written as a decimal number with an optional unit letter is
  taken as that number times 1, 1024, 1024 squared or 1024 cubed, as long as the product fits
  64 bits. A value without digits, such as an empty string or a bare unit, is not rejected:
  the code multiplies a variable it never initialised.\<close>

theorem bw_rate_value:
  assumes "sm_inv cfg" and "sm_map cfg d = Some (digits @ u)"
    and "u = [] \<and> mul = 1 \<or> (\<exists>c. u = [c] \<and> unit_mult c = Some mul)"
    and "int n * mul < 2 ^ 63" and "digits = [] \<or> digits = print_nat n"
  shows "(if digits = [] then options_config_get_bw_rate op cfg d = None
    else \<exists>cfg'. options_config_get_bw_rate op cfg d = Some (1, op\<lparr>max_bandwidth := int n * mul\<rparr>, cfg'))"
proof (cases "digits = []")
  case True
  have "digit_span u = []"
    using assms(3) unit_not_digit by (auto simp: digit_span_def)
  with True assms(1-3) show ?thesis
    by (auto simp: options_config_get_bw_rate_def config_get_string_ok Let_def scan_product_def
        scan_int_def scan_digits_def scan_sign_def skip_ws_def)
next
  case False
  with assms(5) have d: "digits = print_nat n" by simp
  have u: "u = [] \<or> (\<exists>c. u = [c] \<and> \<not> isdigit c)" using assms(3) unit_not_digit by auto
  have mul: "1 \<le> mul" using assms(3) unit_mult_pos by auto
  have span: "digit_span (digits @ u) = digits" using digit_span_print [OF u, of n] d by simp
  note prod = scan_product_print [OF mul assms(4)]
  have "options_config_get_bw_rate op cfg d =
      Some (1, op\<lparr>max_bandwidth := int n * mul\<rparr>, assign_data cfg d digits)"
    using assms(3)
  proof (elim disjE exE conjE)
    assume "u = []" "mul = 1"
    with prod span show ?thesis
      unfolding options_config_get_bw_rate_def config_get_string_ok [OF assms(1)] assms(2)
      by (simp add: \<open>digits = print_nat n\<close>)
  next
    fix c assume "u = [c]" "unit_mult c = Some mul"
    with prod span show ?thesis
      unfolding options_config_get_bw_rate_def config_get_string_ok [OF assms(1)] assms(2)
      by (simp add: \<open>digits = print_nat n\<close>)
  qed
  with False show ?thesis by simp
qed

theorem bw_rate_value_witness:
  "\<exists>cfg cfg'. options_config_get_bw_rate (options_set_defaults None None) cfg ''max-bandwidth'' =
     Some (1, (options_set_defaults None None)\<lparr>max_bandwidth := 10 * 1024\<rparr>, cfg')"
proof -
  let ?cfg = "Map_Node (Some ''max-bandwidth'') (Some (print_nat 10 @ ''k'')) Null_Map Null_Map"
  have ne: "print_nat 10 \<noteq> []" using print_nat_digits by blast
  have "sm_inv ?cfg" "sm_map ?cfg ''max-bandwidth'' = Some (print_nat 10 @ ''k'')"
    by (simp_all add: sm_inv_def sm_map_def)
  from bw_rate_value [OF this, of 1024 10 "options_set_defaults None None"] ne
  show ?thesis by (auto simp: unit_mult_def)
qed

text \<open>An IPv4 filter with a prefix longer than 32 bits is reported as invalid but switched
  on all the same: the mask keeps its previous value (255.255.255.0 by default), so traffic is
  silently filtered by another network than the one asked for.\<close>

theorem net_filter_invalid_prefix_active:
  assumes "sm_inv cfg" and "sm_map cfg ''net-filter'' = Some (net @ ''/'' @ print_nat n)"
    and "CHR ''/'' \<notin> set net" and "inet_aton net = Some a" and "32 < n" and "n < 2 ^ 31"
  shows "\<exists>op' cfg'. options_config_get_net_filter inet_aton (options_set_defaults first home) cfg =
       Some (1, op', cfg') \<and> netfilter op' = 1 \<and> netfiltermask op' = le32 255 255 255 0 \<and>
       netfilternet op' = a AND le32 255 255 255 0"
  using net_filter_bad_prefix [of cfg net n inet_aton a "options_set_defaults first home"] assms
  by (simp add: options_set_defaults_def)

theorem net_filter_invalid_prefix_active_witness:
  "\<exists>cfg op' cfg'. options_config_get_net_filter (\<lambda>_. Some 0) (options_set_defaults None None) cfg =
     Some (1, op', cfg') \<and> netfilter op' = 1 \<and> netfiltermask op' = le32 255 255 255 0"
proof -
  let ?cfg = "Map_Node (Some ''net-filter'') (Some (''0.0.0.0'' @ ''/'' @ print_nat 33)) Null_Map Null_Map"
  have "sm_inv ?cfg" "sm_map ?cfg ''net-filter'' = Some (''0.0.0.0'' @ ''/'' @ print_nat 33)"
    by (simp_all add: sm_inv_def sm_map_def)
  from net_filter_invalid_prefix_active [OF this, of "\<lambda>_. Some 0" 0 None None] show ?thesis by auto
qed

end
