(* ===== verification/Packet.thy ===== *)
theory Packet
  imports History Resolver Procinfo Options
begin

text \<open>
  Packet accounting of \<open>src/entry/iftop.c\<close>: the construction of a connection key, the
  decision on the direction of a packet, \<open>handle_ip_packet\<close> with everything it changes
  (connection table, records, totals, resolver, attribution). A packet is the list of captured bytes from the IP header on; the code
  never looks at the captured length (the PPP handler apart), so reading past the end of
  the list is undefined behaviour here.
\<close>

section \<open>Environment\<close>

text \<open>The addresses of the interface, global variables of \<open>iftop.c\<close>.\<close>

record if_addrs =
  have_hw_addr :: int
  if_hw_addr :: bytes
  have_ip_addr :: int
  have_ip6_addr :: int
  if_ip_addr :: u32
  if_ip6_addr :: bytes

text \<open>All state a packet can change or consult.\<close>

record capture_state =
  acct :: iftop_state
  names :: resolver_state
  procs :: procinfo_state

text \<open>An address for a new cache node: one that no node has.\<close>

definition ns_malloc :: "ns_table \<Rightarrow> nat" where
  "ns_malloc h = Suc (fold max (map nd_addr (nodes h)) 0)"

section \<open>Header fields\<close>

definition IP_V :: "u8 \<Rightarrow> nat" where
  "IP_V vhl = unat (drop_bit 4 (vhl AND 0xf0))"

definition IP_HL :: "u8 \<Rightarrow> nat" where
  "IP_HL vhl = unat (vhl AND 0x0f)"

definition ip_version :: "bytes \<Rightarrow> nat option" where
  "ip_version p = do { b \<leftarrow> rd p 0; Some (IP_V b) }"

definition ip4_src :: "bytes \<Rightarrow> bytes option" where "ip4_src p = rd_slice p 12 4"
definition ip4_dst :: "bytes \<Rightarrow> bytes option" where "ip4_dst p = rd_slice p 16 4"
definition ip6_src :: "bytes \<Rightarrow> bytes option" where "ip6_src p = rd_slice p 8 16"
definition ip6_dst :: "bytes \<Rightarrow> bytes option" where "ip6_dst p = rd_slice p 24 16"

text \<open>A four-byte address as the word \<open>s_addr\<close>, and as a zero-padded union.\<close>

definition s_addr :: "bytes \<Rightarrow> u32" where "s_addr a = load_le32 a 0"
definition in_union :: "bytes \<Rightarrow> bytes" where "in_union a = a @ replicate 12 0"

section \<open>The connection key\<close>

text \<open>Source and destination port at offset \<open>off\<close> if the protocol has ports, else zero.\<close>

definition read_ports :: "bytes \<Rightarrow> u8 \<Rightarrow> nat \<Rightarrow> (u16 \<times> u16) option" where
  "read_ports p proto off =
     (if proto = 6 \<or> proto = 17 then do {
        sport \<leftarrow> rd_be16 p off;
        dport \<leftarrow> rd_be16 p (off + 2);
        Some (sport, dport) }
      else Some (0, 0))"

definition assign_addr_pair :: "bytes \<Rightarrow> int \<Rightarrow> addr_pair option" where
  "assign_addr_pair p flip = do {
     vhl \<leftarrow> rd p 0;
     let ap = addr_pair_zero;
     if IP_V vhl = 4 then do {
       let ap = ap\<lparr>address_family := AF_INET\<rparr>;
       ip_p \<leftarrow> rd p 9;
       (sport, dport) \<leftarrow> read_ports p ip_p (IP_HL vhl * 4);
       src \<leftarrow> ip4_src p;
       dst \<leftarrow> ip4_dst p;
       Some (if flip = 0
             then ap\<lparr>src6 := in_union src, src_port := sport, dst6 := in_union dst, dst_port := dport\<rparr>
             else ap\<lparr>src6 := in_union dst, src_port := dport, dst6 := in_union src, dst_port := sport\<rparr>) }
     else if IP_V vhl = 6 then do {
       let ap = ap\<lparr>address_family := AF_INET6\<rparr>;
       nxt \<leftarrow> rd p 6;
       (sport, dport) \<leftarrow> read_ports p nxt 40;
       src \<leftarrow> ip6_src p;
       dst \<leftarrow> ip6_dst p;
       Some (if flip = 0
             then ap\<lparr>src6 := src, src_port := sport, dst6 := dst, dst_port := dport\<rparr>
             else ap\<lparr>src6 := dst, src_port := dport, dst6 := src, dst_port := sport\<rparr>) }
     else Some ap
   }"

section \<open>The direction of a packet\<close>

definition in_filter_net :: "options_t \<Rightarrow> u32 \<Rightarrow> bool" where
  "in_filter_net op a \<longleftrightarrow> (a AND netfiltermask op) = netfilternet op"

definition ip_addr_match :: "if_addrs \<Rightarrow> u32 \<Rightarrow> bool" where
  "ip_addr_match env a \<longleftrightarrow> a = if_ip_addr env"

definition ip6_addr_match :: "if_addrs \<Rightarrow> bytes \<Rightarrow> bool" where
  "ip6_addr_match env a \<longleftrightarrow> a = if_ip6_addr env"

text \<open>
  What the branches decide: return without accounting, call \<open>assign_addr_pair\<close> with a
  flip and set the direction (1 is outgoing), or leave key and direction at zero.
\<close>

datatype decision = Junk | Assign int int | Unassigned

text \<open>No net filter: hardware direction, then our own addresses, then numerical order.\<close>

definition decide_by_address :: "options_t \<Rightarrow> if_addrs \<Rightarrow> bytes \<Rightarrow> nat \<Rightarrow> int \<Rightarrow> decision option" where
  "decide_by_address op env p ip_ver hw_dir =
     (if hw_dir = 1 then Some (Assign 0 1)
      else if hw_dir = 0 then Some (Assign 1 0)
      else do {
        out4 \<leftarrow> (if ip_ver = 4 \<and> have_ip_addr env \<noteq> 0
                  then do { a \<leftarrow> ip4_src p; Some (ip_addr_match env (s_addr a)) } else Some False);
        if out4 then Some (Assign 0 1) else do {
        in4 \<leftarrow> (if ip_ver = 4 \<and> have_ip_addr env \<noteq> 0
                  then do { a \<leftarrow> ip4_dst p; Some (ip_addr_match env (s_addr a)) } else Some False);
        if in4 then Some (Assign 1 0) else do {
        out6 \<leftarrow> (if ip_ver = 6 \<and> have_ip6_addr env \<noteq> 0
                  then do { a \<leftarrow> ip6_src p; Some (ip6_addr_match env a) } else Some False);
        if out6 then Some (Assign 0 1) else do {
        in6 \<leftarrow> (if ip_ver = 6 \<and> have_ip6_addr env \<noteq> 0
                  then do { a \<leftarrow> ip6_dst p; Some (ip6_addr_match env a) } else Some False);
        if in6 then Some (Assign 1 0)
        else if promiscuous_but_choosy op \<noteq> 0 then Some Junk
        else if ip_ver = 4 then do {
          s \<leftarrow> ip4_src p; d \<leftarrow> ip4_dst p;
          Some (if s_addr s < s_addr d then Assign 1 0 else Assign 0 0) }
        else Some Unassigned }}}})"

definition decide_by_filter4 :: "options_t \<Rightarrow> bytes \<Rightarrow> decision option" where
  "decide_by_filter4 op p = do {
     s \<leftarrow> ip4_src p; d \<leftarrow> ip4_dst p;
     let s_in = in_filter_net op (s_addr s);
     let d_in = in_filter_net op (s_addr d);
     Some (if s_in \<and> \<not> d_in then Assign 0 1
           else if d_in \<and> \<not> s_in then Assign 1 0
           else Junk)
   }"

definition mask6 :: "bytes \<Rightarrow> bytes \<Rightarrow> bytes" where
  "mask6 a m = map2 (\<lambda>x y. x AND y) a m"

definition decide_by_filter6 :: "options_t \<Rightarrow> bytes \<Rightarrow> decision option" where
  "decide_by_filter6 op p = do {
     d \<leftarrow> ip6_dst p; s \<leftarrow> ip6_src p;
     let scribdst = mask6 d (netfilter6mask op);
     let scribsrc = mask6 s (netfilter6mask op);
     Some (if scribsrc = netfilter6net op \<and> scribdst \<noteq> netfilter6net op then Assign 0 1
           else if scribsrc \<noteq> netfilter6net op \<and> scribdst = netfilter6net op then Assign 1 0
           else Junk)
   }"

text \<open>The three blocks of \<open>handle_ip_packet\<close>; at most one of their conditions holds.\<close>

definition decide :: "options_t \<Rightarrow> if_addrs \<Rightarrow> bytes \<Rightarrow> nat \<Rightarrow> int \<Rightarrow> decision option" where
  "decide op env p ip_ver hw_dir =
     (if ip_ver = 4 \<and> netfilter op = 0 \<or> ip_ver = 6 \<and> netfilter6 op = 0
        then decide_by_address op env p ip_ver hw_dir
      else if ip_ver = 4 \<and> netfilter op \<noteq> 0 then decide_by_filter4 op p
      else if ip_ver = 6 \<and> netfilter6 op \<noteq> 0 then decide_by_filter6 op p
      else Some Unassigned)"

text \<open>Whether a version 6 packet is dropped as link-local.\<close>

definition drop_link_local :: "options_t \<Rightarrow> bytes \<Rightarrow> nat \<Rightarrow> bool option" where
  "drop_link_local op p ip_ver =
     (if ip_ver = 6 \<and> link_local op = 0 then do {
        d \<leftarrow> ip6_dst p;
        if IN6_IS_ADDR_LINKLOCAL d then Some True
        else do { s \<leftarrow> ip6_src p; Some (IN6_IS_ADDR_LINKLOCAL s) } }
      else Some False)"

definition packet_length :: "bytes \<Rightarrow> nat \<Rightarrow> nat option" where
  "packet_length p ip_ver =
     (if ip_ver = 4 then map_option unat (rd_be16 p 2)
      else map_option (\<lambda>l. unat l + 40) (rd_be16 p 4))"

section \<open>Accounting\<close>

text \<open>Process attribution of a new connection: source endpoint first, then destination.\<close>

definition attribute :: "procinfo_state \<Rightarrow> addr_pair \<Rightarrow> history_type \<Rightarrow> history_type option" where
  "attribute ps ap hist =
     (if address_family ap = AF_INET \<or> address_family ap = AF_INET6 then do {
        f1 \<leftarrow> procinfo_lookup ps (address_family ap) (src6 ap) (src_port ap) (protocol ap);
        f \<leftarrow> (case f1 of Some e \<Rightarrow> Some (Some e)
              | None \<Rightarrow> procinfo_lookup ps (address_family ap) (dst6 ap) (dst_port ap) (protocol ap));
        Some (case f of
            Some pe \<Rightarrow> hist\<lparr>proc_resolved := 1, proc_pid := pe_pid pe,
                            proc_name := copy_bounded PROCINFO_NAME_MAX (pe_name pe)\<rparr>
          | None \<Rightarrow> hist) }
      else Some hist)"

text \<open>\<open>arr[pos] += len\<close>.\<close>

definition bump :: "int list \<Rightarrow> int \<Rightarrow> nat \<Rightarrow> int list option" where
  "bump arr pos len = do { x \<leftarrow> rdi arr pos; wri arr pos (x + int len) }"

text \<open>The record of a connection after a packet of \<open>len\<close> bytes, sent or received.\<close>

definition add_packet :: "int \<Rightarrow> bool \<Rightarrow> nat \<Rightarrow> history_type \<Rightarrow> history_type option" where
  "add_packet pos is_sent len hist =
     (if is_sent then do {
        s \<leftarrow> bump (sent hist) pos len;
        Some (hist\<lparr>last_write := pos, sent := s, total_sent := total_sent hist + of_nat len\<rparr>) }
      else do {
        r \<leftarrow> bump (recv hist) pos len;
        Some (hist\<lparr>last_write := pos, recv := r, total_recv := total_recv hist + of_nat len\<rparr>) })"

definition add_totals :: "int \<Rightarrow> int \<Rightarrow> nat \<Rightarrow> history_type \<Rightarrow> history_type option" where
  "add_totals pos direction len tot =
     (if direction \<noteq> 0 then do {
        s \<leftarrow> bump (sent tot) pos len;
        Some (tot\<lparr>sent := s, total_sent := total_sent tot + of_nat len\<rparr>) }
      else do {
        r \<leftarrow> bump (recv tot) pos len;
        Some (tot\<lparr>recv := r, total_recv := total_recv tot + of_nat len\<rparr>) })"

text \<open>The record of a key, created, entered and attributed if the table does not have it.\<close>

definition find_or_create ::
  "options_t \<Rightarrow> procinfo_state \<Rightarrow> iftop_state \<Rightarrow> addr_pair \<Rightarrow> (pool_addr \<times> iftop_state) option" where
  "find_or_create op ps st ap = do {
     (status, found) \<leftarrow> addr_hash_find (history st) ap;
     if status = HASH_STATUS_KEY_NOT_FOUND then do {
       let (hist, s) = history_create (store st);
       (_, ht, pool) \<leftarrow> addr_hash_insert (history st) (nodes_pool st) ap hist;
       h \<leftarrow> hist_items s hist;
       h \<leftarrow> (if show_processes op \<noteq> 0 \<and> proc_resolved h = 0 then attribute ps ap h else Some h);
       Some (hist, st\<lparr>history := ht, nodes_pool := pool,
                      store := s\<lparr>hist_items := (hist_items s)(hist \<mapsto> h)\<rparr>\<rparr>) }
     else do { hist \<leftarrow> found; Some (hist, st) }
   }"

definition account ::
  "options_t \<Rightarrow> procinfo_state \<Rightarrow> iftop_state \<Rightarrow> addr_pair \<Rightarrow> bool \<Rightarrow> int \<Rightarrow> nat \<Rightarrow> iftop_state option" where
  "account op ps st ap is_sent direction len = do {
     (hist, st) \<leftarrow> find_or_create op ps st ap;
     h \<leftarrow> hist_items (store st) hist;
     h \<leftarrow> add_packet (history_pos st) is_sent len h;
     let st = st\<lparr>store := (store st)\<lparr>hist_items := (hist_items (store st))(hist \<mapsto> h)\<rparr>\<rparr>;
     tot \<leftarrow> add_totals (history_pos st) direction len (history_totals st);
     Some (st\<lparr>history_totals := tot\<rparr>)
   }"

text \<open>
  Queueing of the addresses of a packet for resolution. The family is that of the
  connection key, which is zero for a key that was never assigned. The addresses are
  read from the packet only when resolution is on.
\<close>

definition queue_names ::
  "(int \<Rightarrow> bytes \<Rightarrow> string) \<Rightarrow> options_t \<Rightarrow> resolver_state \<Rightarrow> int \<Rightarrow> bytes option \<Rightarrow> bytes option
     \<Rightarrow> resolver_state option" where
  "queue_names inet_ntop op r af rd_dst rd_src =
     (if dnsresolution op \<noteq> 0 then do {
        dst \<leftarrow> rd_dst; src \<leftarrow> rd_src;
        (_, _, r) \<leftarrow> resolve inet_ntop (dnsresolution op) (ns_malloc (ns_hash r)) r af dst None;
        (_, _, r) \<leftarrow> resolve inet_ntop (dnsresolution op) (ns_malloc (ns_hash r)) r af src None;
        Some r }
      else Some r)"

definition handle_ip_packet ::
  "(int \<Rightarrow> bytes \<Rightarrow> string) \<Rightarrow> options_t \<Rightarrow> if_addrs \<Rightarrow> capture_state \<Rightarrow> bytes \<Rightarrow> int \<Rightarrow> capture_state option" where
  "handle_ip_packet inet_ntop op env cs p hw_dir = do {
     ip_ver \<leftarrow> ip_version p;
     d \<leftarrow> decide op env p ip_ver hw_dir;
     if d = Junk then Some cs
     else do {
       (ap, direction) \<leftarrow> (case d of
           Assign flip dir \<Rightarrow> do { ap \<leftarrow> assign_addr_pair p flip; Some (ap, dir) }
         | _ \<Rightarrow> Some (addr_pair_zero, 0));
       ll \<leftarrow> drop_link_local op p ip_ver;
       if ll then Some cs
       else do {
         (ap, r) \<leftarrow> (if ip_ver = 4 then do {
                       ip_p \<leftarrow> rd p 9;
                       r \<leftarrow> queue_names inet_ntop op (names cs) (address_family ap)
                             (map_option in_union (ip4_dst p)) (map_option in_union (ip4_src p));
                       Some (ap\<lparr>protocol := ucast ip_p\<rparr>, r) }
                     else if ip_ver = 6 then do {
                       nxt \<leftarrow> rd p 6;
                       r \<leftarrow> queue_names inet_ntop op (names cs) (address_family ap) (ip6_dst p) (ip6_src p);
                       Some (ap\<lparr>protocol := ucast nxt\<rparr>, r) }
                     else Some (ap, names cs));
         len \<leftarrow> packet_length p ip_ver;
         is_sent \<leftarrow> (if ip_ver = 4 then do { s \<leftarrow> ip4_src p; Some (s_addr s = src_s_addr ap) }
                     else if ip_ver = 6 then do { s \<leftarrow> ip6_src p; Some (s = src6 ap) }
                     else Some False);
         st \<leftarrow> account op (procs cs) (acct cs) ap is_sent direction len;
         Some (cs\<lparr>acct := st, names := r\<rparr>) } }
   }"

section \<open>Accounting is a map update\<close>

text \<open>A record after a packet, and the totals after it.\<close>

definition bumped :: "int \<Rightarrow> bool \<Rightarrow> nat \<Rightarrow> history_type \<Rightarrow> history_type" where
  "bumped pos is_sent len h =
     (if is_sent
      then h\<lparr>last_write := pos, sent := (sent h)[nat pos := sent h ! nat pos + int len],
             total_sent := total_sent h + of_nat len\<rparr>
      else h\<lparr>last_write := pos, recv := (recv h)[nat pos := recv h ! nat pos + int len],
             total_recv := total_recv h + of_nat len\<rparr>)"

definition bumped_totals :: "int \<Rightarrow> int \<Rightarrow> nat \<Rightarrow> history_type \<Rightarrow> history_type" where
  "bumped_totals pos direction len tot =
     (if direction \<noteq> 0
      then tot\<lparr>sent := (sent tot)[nat pos := sent tot ! nat pos + int len],
               total_sent := total_sent tot + of_nat len\<rparr>
      else tot\<lparr>recv := (recv tot)[nat pos := recv tot ! nat pos + int len],
               total_recv := total_recv tot + of_nat len\<rparr>)"

lemma add_packet_ok:
  assumes "hist_ok h" "0 \<le> pos" "pos < 40"
  shows "add_packet pos is_sent len h = Some (bumped pos is_sent len h)" "hist_ok (bumped pos is_sent len h)"
  using assms by (auto simp: add_packet_def bumped_def bump_def rdi_def wri_def hist_ok_def)

lemma add_totals_ok:
  assumes "hist_ok h" "0 \<le> pos" "pos < 40"
  shows "add_totals pos direction len h = Some (bumped_totals pos direction len h)"
    "hist_ok (bumped_totals pos direction len h)"
  using assms by (auto simp: add_totals_def bumped_totals_def bump_def rdi_def wri_def hist_ok_def)

text \<open>Records that differ in the process fields only.\<close>

definition same_counts :: "history_type \<Rightarrow> history_type \<Rightarrow> bool" where
  "same_counts h h' \<longleftrightarrow> recv h' = recv h \<and> sent h' = sent h \<and> total_sent h' = total_sent h \<and>
     total_recv h' = total_recv h \<and> last_write h' = last_write h"

lemma lookup_total:
  assumes "pinv ps"
  shows "\<exists>e. procinfo_lookup ps af address port proto = Some e"
proof (cases "live_table ps")
  case None
  then show ?thesis
    by (simp add: procinfo_lookup_def lookup_load_def lookup_search_def table_find_def)
next
  case (Some a)
  with assms obtain tb where "tables ps a = Some tb" "tb_ok tb" by (auto simp: pinv_def)
  from lookup_ok [OF Some this] show ?thesis by blast
qed

lemma attribute_ok:
  assumes "pinv ps"
  shows "\<exists>h'. attribute ps ap h = Some h' \<and> same_counts h h'"
proof (cases "address_family ap = AF_INET \<or> address_family ap = AF_INET6")
  case True
  obtain e1 where e1: "procinfo_lookup ps (address_family ap) (src6 ap) (src_port ap) (protocol ap) = Some e1"
    using lookup_total [OF assms] by blast
  obtain e2 where e2: "procinfo_lookup ps (address_family ap) (dst6 ap) (dst_port ap) (protocol ap) = Some e2"
    using lookup_total [OF assms] by blast
  show ?thesis
    using True by (cases e1; cases e2) (simp_all add: attribute_def e1 e2 same_counts_def)
qed (auto simp: attribute_def same_counts_def)

lemma same_counts_ok: "same_counts h h' \<Longrightarrow> hist_ok h \<Longrightarrow> hist_ok h'"
  by (simp add: same_counts_def hist_ok_def)

lemma flows_None_iff:
  assumes "flow_inv st rest"
  shows "flows st k = None \<longleftrightarrow> hash_map (history st) k = None"
proof -
  have live: "hist_items (store st) r \<noteq> None" if "hash_map (history st) k = Some r" for r
  proof -
    from that hash_map_iff [OF addr_invD(2,3) [OF flow_invD(1) [OF assms]]] have "r \<in> set (flow_recs st)"
      by (auto simp: flow_recs_def)
    with flow_invD(3) [OF assms] show ?thesis by (auto simp: hist_inv_def)
  qed
  show ?thesis
  proof (cases "hash_map (history st) k")
    case (Some r)
    with live [OF Some] show ?thesis by (simp add: flows_def)
  qed (simp add: flows_def)
qed

text \<open>Writing the record of a node changes what is known of its key only.\<close>

lemma flows_update:
  assumes inv: "flow_inv st rest" and n: "n \<in> set (nodes (history st))"
  shows "flows (st\<lparr>store := (store st)\<lparr>hist_items := (hist_items (store st))(nd_record n \<mapsto> h)\<rparr>\<rparr>) =
     (flows st)(nd_key n \<mapsto> h)" (is "flows ?st = _")
proof
  fix k
  note m = hash_map_iff [OF addr_invD(2,3) [OF flow_invD(1) [OF inv]]]
  have self: "hash_map (history st) (nd_key n) = Some (nd_record n)" using m n by blast
  have "hash_map (history st) k = Some (nd_record n) \<Longrightarrow> k = nd_key n"
  proof -
    assume "hash_map (history st) k = Some (nd_record n)"
    with m obtain n' where n': "n' \<in> set (nodes (history st))" "nd_key n' = k" "nd_record n' = nd_record n"
      by blast
    with n flow_invD(2) [OF inv] have "n' = n" by (auto simp: flow_recs_def distinct_map dest: inj_onD)
    with n' show ?thesis by simp
  qed
  with self show "flows ?st k = ((flows st)(nd_key n \<mapsto> h)) k"
    by (cases "hash_map (history st) k") (auto simp: flows_def)
qed

lemma flow_create:
  assumes inv: "flow_inv st rest" and ap: "addr_pair_ok ap" and none: "flows st ap = None"
    and al: "history_create (store st) = (hist, s)"
  obtains ht pool n where
    "addr_hash_insert (history st) (nodes_pool st) ap hist = Some (HASH_STATUS_OK, ht, pool)"
    "n \<in> set (nodes ht)" "nd_key n = ap" "nd_record n = hist" "hist_items s hist = Some history_zero"
    "flow_inv (st\<lparr>history := ht, nodes_pool := pool, store := s\<rparr>) rest"
    "flows (st\<lparr>history := ht, nodes_pool := pool, store := s\<rparr>) = (flows st)(ap \<mapsto> history_zero)"
proof -
  note i = flow_invD [OF inv]
  have hm: "hash_map (history st) ap = None" using none flows_None_iff [OF inv] by simp
  obtain a ht pool where h:
    "addr_hash_insert (history st) (nodes_pool st) ap hist = Some (HASH_STATUS_OK, ht, pool)"
    "addr_inv ht pool rest"
    "\<forall>k'. addr_pair_ok k' \<longrightarrow> hash_map ht k' = (if ap = k' then Some hist else hash_map (history st) k')"
    "mset (nodes ht) = mset (nodes (history st)) +
       {# \<lparr>nd_addr = a, nd_key = ap, nd_record = hist, nd_bucket = addr_hash_bucket ap\<rparr> #}"
    by (rule addr_hash_insert_ok [OF i(1) ap hm, of hist])
  define n where "n = \<lparr>nd_addr = a, nd_key = ap, nd_record = hist, nd_bucket = addr_hash_bucket ap\<rparr>"
  let ?st = "st\<lparr>history := ht, nodes_pool := pool, store := s\<rparr>"
  have nodes: "set (nodes ht) = insert n (set (nodes (history st)))"
    using arg_cong [OF h(4), of set_mset] by (simp add: n_def)
  have items: "hist_items s = (hist_items (store st))(hist \<mapsto> history_zero)"
    by (rule history_create_items [OF al])
  have fresh: "hist \<notin> set (flow_recs st)" "hist_inv s (insert hist (set (flow_recs st)))"
    using hist_pool.alloc_fresh [OF i(3) al] by auto
  have "mset (flow_recs ?st) = add_mset hist (mset (flow_recs st))"
    using arg_cong [OF h(4), of "image_mset nd_record"] by (simp add: flow_recs_def)
  then have recs: "distinct (flow_recs ?st)" "set (flow_recs ?st) = insert hist (set (flow_recs st))"
    using i(2) fresh(1) by (metis distinct.simps(2) mset.simps(2) mset_eq_imp_distinct_iff)
      (use nodes in \<open>auto simp: flow_recs_def n_def\<close>)
  have inv': "flow_inv ?st rest"
    using i h(2) recs fresh(2) history_zero_ok unfolding flow_inv_def
    by (auto simp: items ran_def split: if_splits)
  have "flows ?st k = ((flows st)(ap \<mapsto> history_zero)) k" for k
  proof -
    have "flows ?st k = Some x \<longleftrightarrow> ((flows st)(ap \<mapsto> history_zero)) k = Some x" for x
    proof -
      have "nd_record m \<noteq> hist" if "m \<in> set (nodes (history st))" for m
        using fresh(1) that by (auto simp: flow_recs_def)
      moreover have "nd_key m \<noteq> ap" if "m \<in> set (nodes (history st))" for m
        using hm that hash_map_iff [OF addr_invD(2,3) [OF i(1)], of ap] by fastforce
      ultimately show ?thesis
        unfolding flows_iff [OF inv'] using flows_iff [OF inv, of k x]
        by (auto simp: nodes items n_def)
    qed
    then show ?thesis by (metis not_None_eq)
  qed
  then show thesis
    using h(1) nodes items inv' by (intro that [of ht pool n]) (auto simp: n_def)
qed

lemma find_or_create_ok:
  assumes inv: "flow_inv st rest" and ap: "addr_pair_ok ap" and ps: "pinv ps"
  obtains n st' h0 where
    "find_or_create op ps st ap = Some (nd_record n, st')" "flow_inv st' rest"
    "n \<in> set (nodes (history st'))" "nd_key n = ap" "hist_items (store st') (nd_record n) = Some h0"
    "flows st' = (flows st)(ap \<mapsto> h0)"
    "same_counts (case flows st ap of Some h \<Rightarrow> h | None \<Rightarrow> history_zero) h0"
    "\<forall>h. flows st ap = Some h \<longrightarrow> h0 = h"
    "history_totals st' = history_totals st" "history_pos st' = history_pos st"
    "history_len st' = history_len st"
proof (cases "flows st ap")
  case None
  note i = flow_invD [OF inv]
  obtain hist s where al: "history_create (store st) = (hist, s)" by (cases "history_create (store st)")
  obtain ht pool n where c:
    "addr_hash_insert (history st) (nodes_pool st) ap hist = Some (HASH_STATUS_OK, ht, pool)"
    "n \<in> set (nodes ht)" "nd_key n = ap" "nd_record n = hist" "hist_items s hist = Some history_zero"
    "flow_inv (st\<lparr>history := ht, nodes_pool := pool, store := s\<rparr>) rest"
    "flows (st\<lparr>history := ht, nodes_pool := pool, store := s\<rparr>) = (flows st)(ap \<mapsto> history_zero)"
    by (rule flow_create [OF inv ap None al])
  let ?st = "st\<lparr>history := ht, nodes_pool := pool, store := s\<rparr>"
  have "\<exists>h0. (if show_processes op \<noteq> 0 \<and> proc_resolved history_zero = 0
      then attribute ps ap history_zero else Some history_zero) = Some h0 \<and> same_counts history_zero h0"
    using attribute_ok [OF ps, of ap history_zero] by (simp add: same_counts_def)
  then obtain h0 where h0: "(if show_processes op \<noteq> 0 \<and> proc_resolved history_zero = 0
      then attribute ps ap history_zero else Some history_zero) = Some h0" "same_counts history_zero h0"
    by blast
  let ?st' = "?st\<lparr>store := (store ?st)\<lparr>hist_items := (hist_items (store ?st))(nd_record n \<mapsto> h0)\<rparr>\<rparr>"
  have "hash_map (history st) ap = None" using None flows_None_iff [OF inv] by simp
  then have "find_or_create op ps st ap = Some (nd_record n, ?st')"
    using addr_hash_find_ok [OF i(1) ap] al c(1,4,5) h0(1) by (simp add: find_or_create_def)
  moreover have "flow_inv ?st' rest"
    using flow_update [OF c(6), of n h0] c(2) same_counts_ok [OF h0(2) history_zero_ok] by simp
  moreover have "flows ?st' = (flows st)(ap \<mapsto> h0)"
    using flows_update [OF c(6), of n h0] c(2,3,7) by simp
  ultimately show thesis using c(2,3) h0(2) None by (intro that [of n ?st' h0]) simp_all
next
  case (Some h)
  note i = flow_invD [OF inv]
  from Some flows_iff [OF inv] obtain n where
    n: "n \<in> set (nodes (history st))" "nd_key n = ap" "hist_items (store st) (nd_record n) = Some h" by blast
  then have "hash_map (history st) ap = Some (nd_record n)"
    using hash_map_iff [OF addr_invD(2,3) [OF i(1)]] by blast
  then have "find_or_create op ps st ap = Some (nd_record n, st)"
    using addr_hash_find_ok [OF i(1) ap] by (simp add: find_or_create_def)
  with n Some inv show thesis by (intro that [of n st h]) (auto simp: same_counts_def)
qed

lemma account_ok:
  assumes inv: "flow_inv st rest" and ap: "addr_pair_ok ap" and ps: "pinv ps"
  obtains st' h0 where
    "account op ps st ap is_sent direction len = Some st'" "flow_inv st' rest"
    "same_counts (case flows st ap of Some h \<Rightarrow> h | None \<Rightarrow> history_zero) h0"
    "\<forall>h. flows st ap = Some h \<longrightarrow> h0 = h"
    "flows st' = (flows st)(ap \<mapsto> bumped (history_pos st) is_sent len h0)"
    "history_totals st' = bumped_totals (history_pos st) direction len (history_totals st)"
    "history_pos st' = history_pos st" "history_len st' = history_len st"
proof -
  obtain n st1 h0 where f:
    "find_or_create op ps st ap = Some (nd_record n, st1)" "flow_inv st1 rest"
    "n \<in> set (nodes (history st1))" "nd_key n = ap" "hist_items (store st1) (nd_record n) = Some h0"
    "flows st1 = (flows st)(ap \<mapsto> h0)"
    "same_counts (case flows st ap of Some h \<Rightarrow> h | None \<Rightarrow> history_zero) h0"
    "\<forall>h. flows st ap = Some h \<longrightarrow> h0 = h"
    "history_totals st1 = history_totals st" "history_pos st1 = history_pos st"
    "history_len st1 = history_len st"
    by (rule find_or_create_ok [OF inv ap ps, of op])
  note i = flow_invD [OF inv]
  have "hist_ok h0" using flow_invD(4) [OF f(2)] f(5) by (blast intro: ranI)
  note b = add_packet_ok [OF this i(6,7), of is_sent len]
  note tt = add_totals_ok [OF i(5,6,7), of direction len]
  let ?h = "bumped (history_pos st) is_sent len h0"
  let ?st2 = "st1\<lparr>store := (store st1)\<lparr>hist_items := (hist_items (store st1))(nd_record n \<mapsto> ?h)\<rparr>\<rparr>"
  let ?st' = "?st2\<lparr>history_totals := bumped_totals (history_pos st) direction len (history_totals st)\<rparr>"
  have "account op ps st ap is_sent direction len = Some ?st'"
    using b(1) tt(1) f(5,9,10) by (simp add: account_def f(1) Let_def)
  moreover have "flow_inv ?st' rest"
    using flow_update [OF f(2,3) b(2)] tt(2) by (simp add: flow_inv_def flow_recs_def)
  moreover have "flows ?st' = (flows st)(ap \<mapsto> ?h)"
    using flows_update [OF f(2,3), of ?h] f(4,6) by (simp add: flows_def [abs_def])
  ultimately show thesis using f by (intro that [of ?st' h0]) simp_all
qed

end
