(* ===== verification/Link_Layer.thy ===== *)
theory Link_Layer
  imports Packet
begin

text \<open>
  The handlers of the link layers in \<open>src/entry/iftop.c\<close>: each strips the header of one
  kind of capture, finds out the direction if the header tells it, and hands the rest to
  \<open>handle_ip_packet\<close>. The handler of IP packets is an argument here, because the theorems
  are about what is handed to it, not about what it does.
\<close>

section \<open>Handlers\<close>

text \<open>\<open>ip_handler\<close> is \<open>handle_ip_packet\<close> for the current options: packet and hardware direction.\<close>

type_synonym 's ip_handler = "'s \<Rightarrow> bytes \<Rightarrow> int \<Rightarrow> 's option"

definition handle_raw_packet :: "'s ip_handler \<Rightarrow> 's \<Rightarrow> bytes \<Rightarrow> 's option" where
  "handle_raw_packet ip cs packet = ip cs packet (- 1)"

text \<open>\<open>BPF_WORDALIGN\<close> rounds up to a multiple of four.\<close>

definition handle_pflog_packet :: "'s ip_handler \<Rightarrow> 's \<Rightarrow> bytes \<Rightarrow> 's option" where
  "handle_pflog_packet ip cs packet = do {
     len \<leftarrow> rd packet 0;
     let hdrlen = (unat len + 3) div 4 * 4;
     ip cs (drop hdrlen packet) (- 1)
   }"

definition handle_null_packet :: "'s ip_handler \<Rightarrow> 's \<Rightarrow> bytes \<Rightarrow> 's option" where
  "handle_null_packet ip cs packet = ip cs (drop 4 packet) (- 1)"

definition extract_24bits :: "bytes \<Rightarrow> nat \<Rightarrow> nat option" where
  "extract_24bits p i = do {
     a \<leftarrow> rd p i; b \<leftarrow> rd p (i + 1); c \<leftarrow> rd p (i + 2);
     Some (unat a * 65536 + unat b * 256 + unat c)
   }"

definition handle_llc_packet :: "'s ip_handler \<Rightarrow> 's \<Rightarrow> bytes \<Rightarrow> int \<Rightarrow> 's option" where
  "handle_llc_packet ip cs llc dir = do {
     ssap \<leftarrow> rd llc 1;
     snap \<leftarrow> (if ssap \<noteq> 0xaa then Some False else do {
       dsap \<leftarrow> rd llc 0;
       if dsap \<noteq> 0xaa then Some False else do { ui \<leftarrow> rd llc 2; Some (ui = 0x03) } });
     if snap then do {
       orgcode \<leftarrow> extract_24bits llc 3;
       et \<leftarrow> rd_be16 llc 6;
       if orgcode = 0x000000 \<or> orgcode = 0x0000f8 then ip cs (drop 8 llc) dir
       else if orgcode = 0x080007 \<and> et = 0x809b then ip cs (drop 8 llc) dir
       else Some cs }
     else Some cs
   }"

text \<open>Direction from the link layer addresses; \<open>dhost\<close> also counts when it is broadcast.\<close>

definition broadcast :: bytes where "broadcast = replicate 6 0xff"

definition handle_tokenring_packet :: "'s ip_handler \<Rightarrow> if_addrs \<Rightarrow> 's \<Rightarrow> bytes \<Rightarrow> 's option" where
  "handle_tokenring_packet ip env cs packet = do {
     sh0 \<leftarrow> rd packet 8;
     rif \<leftarrow> (if sh0 AND 0x80 \<noteq> 0 then do {
              rcf \<leftarrow> rd_be16 packet 14;
              Some (unat (drop_bit 8 (rcf AND 0x1f00))) }
            else Some 0);
     let llc = drop (rif + 14) packet;
     shost \<leftarrow> rd_slice packet 8 6;
     dir \<leftarrow> (if shost = if_hw_addr env then Some 1
             else do {
               dhost \<leftarrow> rd_slice packet 2 6;
               Some (if dhost = if_hw_addr env \<or> dhost = broadcast then 0 else - 1) });
     fc \<leftarrow> rd packet 1;
     if drop_bit 6 (fc AND 0xc0) = 1 then handle_llc_packet ip cs llc dir else Some cs
   }"

text \<open>\<open>caplen\<close> is the captured length.\<close>

definition handle_ppp_packet :: "'s ip_handler \<Rightarrow> 's \<Rightarrow> nat \<Rightarrow> bytes \<Rightarrow> 's option" where
  "handle_ppp_packet ip cs caplen packet =
     (if caplen < 2 then Some cs
      else do {
        b \<leftarrow> rd packet 0;
        if b = 0xff then
          (if caplen < 4 then Some cs
           else do {
             proto \<leftarrow> rd_be16 packet 2;
             if proto = 0x0021 \<or> proto = 0x0800 \<or> proto = 0x86dd
             then ip cs (drop 4 packet) (- 1) else Some cs })
        else Some cs })"

definition handle_cooked_packet :: "'s ip_handler \<Rightarrow> 's \<Rightarrow> bytes \<Rightarrow> 's option" where
  "handle_cooked_packet ip cs packet = do {
     pkttype \<leftarrow> rd_be16 packet 0;
     let dir = (if pkttype = 0 then 0 else if pkttype = 4 then 1 else - 1);
     ip cs (drop 16 packet) dir
   }"

text \<open>\<open>tick\<close> is the periodic work, done before the frame is looked at.\<close>

definition handle_eth_packet ::
  "'s ip_handler \<Rightarrow> ('s \<Rightarrow> 's option) \<Rightarrow> if_addrs \<Rightarrow> 's \<Rightarrow> bytes \<Rightarrow> 's option" where
  "handle_eth_packet ip tick env cs packet = do {
     ether_type \<leftarrow> rd_be16 packet 12;
     cs \<leftarrow> tick cs;
     (ether_type, off) \<leftarrow> (if ether_type = 0x8100
        then do { et \<leftarrow> rd_be16 packet 16; Some (et, 18) } else Some (ether_type, 14));
     if ether_type = 0x0800 \<or> ether_type = 0x86dd then do {
       shost \<leftarrow> rd_slice packet 6 6;
       dhost \<leftarrow> rd_slice packet 0 6;
       let dir = (if have_hw_addr env \<noteq> 0 \<and> shost = if_hw_addr env then 1
                  else if have_hw_addr env \<noteq> 0 \<and> dhost = if_hw_addr env then 0
                  else if dhost = broadcast then 0
                  else - 1);
       ip cs (drop off packet) dir }
     else Some cs
   }"

text \<open>\<open>it_len\<close> is read in host order.\<close>

definition handle_radiotap_packet :: "'s ip_handler \<Rightarrow> 's \<Rightarrow> bytes \<Rightarrow> 's option" where
  "handle_radiotap_packet ip cs packet = do {
     lo \<leftarrow> rd packet 2; hi \<leftarrow> rd packet 3;
     ip cs (drop (unat (le16 lo hi) + 34) packet) (- 1)
   }"

text \<open>The choice of a handler in \<open>packet_init\<close>; \<^term>\<open>None\<close> ends the process.\<close>

datatype link_handler =
    Eth_Handler | Pflog_Handler | Raw_Handler | Null_Handler | Radiotap_Handler
  | Tokenring_Handler | Ppp_Handler | Cooked_Handler

definition select_handler :: "int \<Rightarrow> link_handler option" where
  "select_handler datalink_type =
     (if datalink_type = 1 then Some Eth_Handler
      else if datalink_type = 117 then Some Pflog_Handler
      else if datalink_type = 12 then Some Raw_Handler
      else if datalink_type = 0 then Some Null_Handler
      else if datalink_type = 108 then Some Null_Handler
      else if datalink_type = 127 then Some Radiotap_Handler
      else if datalink_type = 6 then Some Tokenring_Handler
      else if datalink_type = 9 then Some Ppp_Handler
      else if datalink_type = 113 then Some Cooked_Handler
      else None)"

fun run_handler ::
  "link_handler \<Rightarrow> 's ip_handler \<Rightarrow> ('s \<Rightarrow> 's option) \<Rightarrow> if_addrs \<Rightarrow> 's \<Rightarrow> nat \<Rightarrow> bytes \<Rightarrow> 's option" where
  "run_handler Eth_Handler ip tick env cs caplen p = handle_eth_packet ip tick env cs p"
| "run_handler Pflog_Handler ip tick env cs caplen p = handle_pflog_packet ip cs p"
| "run_handler Raw_Handler ip tick env cs caplen p = handle_raw_packet ip cs p"
| "run_handler Null_Handler ip tick env cs caplen p = handle_null_packet ip cs p"
| "run_handler Radiotap_Handler ip tick env cs caplen p = handle_radiotap_packet ip cs p"
| "run_handler Tokenring_Handler ip tick env cs caplen p = handle_tokenring_packet ip env cs p"
| "run_handler Ppp_Handler ip tick env cs caplen p = handle_ppp_packet ip cs caplen p"
| "run_handler Cooked_Handler ip tick env cs caplen p = handle_cooked_packet ip cs p"

section \<open>Ethernet\<close>

lemma rd_be16_append: "i = length xs \<Longrightarrow> rd_be16 (xs @ a # b # ys) i = Some (be16 a b)"
  by (simp add: rd_be16_def rd_def nth_append)

text \<open>The direction the hardware addresses of a frame imply.\<close>

definition hw_direction :: "if_addrs \<Rightarrow> bytes \<Rightarrow> bytes \<Rightarrow> int" where
  "hw_direction env dhost shost =
     (if have_hw_addr env \<noteq> 0 \<and> shost = if_hw_addr env then 1
      else if have_hw_addr env \<noteq> 0 \<and> dhost = if_hw_addr env \<or> dhost = broadcast then 0 else - 1)"

definition eth_frame :: "bytes \<Rightarrow> bytes \<Rightarrow> u8 \<times> u8 \<Rightarrow> bytes \<Rightarrow> bytes" where
  "eth_frame dhost shost et p = dhost @ shost @ [fst et, snd et] @ p"

definition vlan_frame :: "bytes \<Rightarrow> bytes \<Rightarrow> u8 \<times> u8 \<Rightarrow> u8 \<times> u8 \<Rightarrow> bytes \<Rightarrow> bytes" where
  "vlan_frame dhost shost tci et p = eth_frame dhost shost (0x81, 0x00) ([fst tci, snd tci, fst et, snd et] @ p)"

definition is_ip_type :: "u8 \<times> u8 \<Rightarrow> bool" where
  "is_ip_type et \<longleftrightarrow> be16 (fst et) (snd et) = 0x0800 \<or> be16 (fst et) (snd et) = 0x86dd"

text \<open>What happens to the payload of a frame.\<close>

definition deliver ::
  "'s ip_handler \<Rightarrow> ('s \<Rightarrow> 's option) \<Rightarrow> 's \<Rightarrow> bool \<Rightarrow> bytes \<Rightarrow> int \<Rightarrow> 's option" where
  "deliver ip tick cs is_ip p dir = do { cs \<leftarrow> tick cs; if is_ip then ip cs p dir else Some cs }"

lemma eth_hosts:
  assumes "length dhost = 6" "length shost = 6"
  shows "rd_slice (eth_frame dhost shost et p) 6 6 = Some shost"
    "rd_slice (eth_frame dhost shost et p) 0 6 = Some dhost"
    "rd_be16 (eth_frame dhost shost et p) 12 = Some (be16 (fst et) (snd et))"
    "drop 14 (eth_frame dhost shost et p) = p"
  using assms rd_be16_append [of 12 "dhost @ shost"]
  by (simp_all add: eth_frame_def rd_slice_def)

lemma vlan_type:
  assumes "length dhost = 6" "length shost = 6"
  shows "rd_be16 (vlan_frame dhost shost tci et p) 16 = Some (be16 (fst et) (snd et))"
    "drop 18 (vlan_frame dhost shost tci et p) = p"
  using assms rd_be16_append [of 16 "dhost @ shost @ [0x81, 0, fst tci, snd tci]"]
  by (simp_all add: vlan_frame_def eth_frame_def)

lemma eth_untagged:
  assumes "length dhost = 6" "length shost = 6" "be16 (fst et) (snd et) \<noteq> 0x8100"
  shows "handle_eth_packet ip tick env cs (eth_frame dhost shost et p) =
     deliver ip tick cs (is_ip_type et) p (hw_direction env dhost shost)"
  unfolding handle_eth_packet_def deliver_def
  using assms(3) eth_hosts [OF assms(1,2)]
  by (cases "tick cs"; cases "is_ip_type et") (simp_all add: is_ip_type_def hw_direction_def Let_def)

lemma eth_tagged:
  assumes "length dhost = 6" "length shost = 6"
  shows "handle_eth_packet ip tick env cs (vlan_frame dhost shost tci et p) =
     deliver ip tick cs (is_ip_type et) p (hw_direction env dhost shost)"
proof -
  let ?f = "vlan_frame dhost shost tci et p"
  have f: "rd_slice ?f 6 6 = Some shost" "rd_slice ?f 0 6 = Some dhost" "rd_be16 ?f 12 = Some 0x8100"
    using eth_hosts [OF assms, of "(0x81, 0)"] by (simp_all add: vlan_frame_def be16_def)
  show ?thesis
    unfolding handle_eth_packet_def deliver_def
    using f vlan_type [OF assms, of tci et p]
    by (cases "tick cs"; cases "is_ip_type et") (simp_all add: is_ip_type_def hw_direction_def Let_def)
qed

section \<open>Properties\<close>

text \<open>C32: an Ethernet frame with or without a VLAN tag hands exactly its payload to the IP
  handler, after the periodic work, if its (inner) type is IPv4 or IPv6, and is ignored
  otherwise. The direction is outgoing if the source is the address of the interface,
  incoming if the destination is or is broadcast, and unknown otherwise; the tag makes no
  difference.\<close>

theorem eth_frame_delivered:
  assumes "length dhost = 6" and "length shost = 6" and "be16 (fst et) (snd et) \<noteq> 0x8100"
  shows "handle_eth_packet ip tick env cs (eth_frame dhost shost et p) =
       deliver ip tick cs (is_ip_type et) p (hw_direction env dhost shost) \<and>
     handle_eth_packet ip tick env cs (vlan_frame dhost shost tci et p) =
       deliver ip tick cs (is_ip_type et) p (hw_direction env dhost shost)"
  by (intro conjI eth_untagged eth_tagged assms)

theorem eth_frame_delivered_witness:
  "handle_eth_packet (\<lambda>cs p dir. Some (cs @ [(p, dir)])) Some
       \<lparr>have_hw_addr = 1, if_hw_addr = [1, 2, 3, 4, 5, 6], have_ip_addr = 0, have_ip6_addr = 0, if_ip_addr = 0,
        if_ip6_addr = []\<rparr> [] (vlan_frame [9, 9, 9, 9, 9, 9] [1, 2, 3, 4, 5, 6] (0, 7) (0x86, 0xdd) [0x60]) =
     Some [([0x60], 1)]"
proof -
  have e: "be16 0x86 0xdd = 0x86dd" by code_simp
  show ?thesis
    using eth_frame_delivered [of "[9, 9, 9, 9, 9, 9]" "[1, 2, 3, 4, 5, 6]" "(0x86, 0xdd)"
        "\<lambda>cs p dir. Some (cs @ [(p, dir)])" Some
        "\<lparr>have_hw_addr = 1, if_hw_addr = [1, 2, 3, 4, 5, 6], have_ip_addr = 0, have_ip6_addr = 0, if_ip_addr = 0,
          if_ip6_addr = []\<rparr>" "[]" "[0x60]" "(0, 7)"]
    by (simp add: e deliver_def is_ip_type_def hw_direction_def)
qed

text \<open>The PPP handler never reads beyond the captured bytes; it delivers the payload of
  frames with the address byte 0xff and one of the numbers 0x0021, 0x0800 and 0x86dd. The
  number PPP itself uses for IPv6, 0x0057, is not among them, so IPv6 over PPP is not
  counted.\<close>

theorem ppp_delivers:
  "handle_ppp_packet ip cs (length frame) frame =
     (if 4 \<le> length frame \<and> frame ! 0 = 0xff \<and>
         be16 (frame ! 2) (frame ! 3) \<in> {0x0021, 0x0800, 0x86dd}
      then ip cs (drop 4 frame) (- 1) else Some cs) \<and>
   handle_ppp_packet ip cs (length p + 4) ([0xff, 0x03, 0x00, 0x57] @ p) = Some cs"
proof
  show "handle_ppp_packet ip cs (length frame) frame =
     (if 4 \<le> length frame \<and> frame ! 0 = 0xff \<and>
         be16 (frame ! 2) (frame ! 3) \<in> {0x0021, 0x0800, 0x86dd}
      then ip cs (drop 4 frame) (- 1) else Some cs)"
  proof (cases "4 \<le> length frame")
    case True
    then have "rd frame 0 = Some (frame ! 0)" "rd_be16 frame 2 = Some (be16 (frame ! 2) (frame ! 3))"
      by (auto simp: rd_def rd_be16_def)
    with True show ?thesis by (auto simp: handle_ppp_packet_def)
  next
    case False
    then show ?thesis by (auto simp: handle_ppp_packet_def rd_def)
  qed
  have "rd_be16 ([0xff, 0x03, 0x00, 0x57] @ p) 2 = Some 0x57"
    by (simp add: rd_be16_def rd_def be16_def)
  then show "handle_ppp_packet ip cs (length p + 4) ([0xff, 0x03, 0x00, 0x57] @ p) = Some cs"
    by (simp add: handle_ppp_packet_def rd_def)
qed

end
