(* ===== verification/Accounting.thy ===== *)
theory Accounting
  imports Packet Link_Layer
begin

text \<open>
  What packet accounting guarantees: with complete headers \<open>handle_ip_packet\<close> never
  reads out of bounds and keeps every invariant, it charges each packet to one
  connection and to the totals, the two directions of a conversation share one record,
  and over any sequence of packets and rotations the slots of the connections add up to
  the slots of the totals.
\<close>

section \<open>Packets with complete headers\<close>

text \<open>The bytes \<open>handle_ip_packet\<close> may look at, by version and protocol.\<close>

definition header_ok :: "bytes \<Rightarrow> bool" where
  "header_ok p \<longleftrightarrow> p \<noteq> [] \<and>
     (if IP_V (p ! 0) = 4 then 20 \<le> length p \<and>
        (p ! 9 = 6 \<or> p ! 9 = 17 \<longrightarrow> IP_HL (p ! 0) * 4 + 4 \<le> length p)
      else if IP_V (p ! 0) = 6 then 40 \<le> length p \<and> (p ! 6 = 6 \<or> p ! 6 = 17 \<longrightarrow> 44 \<le> length p)
      else 6 \<le> length p)"

abbreviation ver :: "bytes \<Rightarrow> nat" where "ver p \<equiv> IP_V (p ! 0)"

lemma header_nonempty: "header_ok p \<Longrightarrow> 0 < length p"
  by (simp add: header_ok_def)

lemma header4: "header_ok p \<Longrightarrow> ver p = 4 \<Longrightarrow> 20 \<le> length p"
  by (simp add: header_ok_def)

lemma header6: "header_ok p \<Longrightarrow> ver p = 6 \<Longrightarrow> 40 \<le> length p"
  by (simp add: header_ok_def)

lemma ip4_fields:
  assumes "20 \<le> length p"
  shows "ip4_src p = Some (take 4 (drop 12 p))" "ip4_dst p = Some (take 4 (drop 16 p))" "rd p 9 = Some (p ! 9)"
  using assms by (simp_all add: ip4_src_def ip4_dst_def rd_slice_def rd_def)

lemma ip6_fields:
  assumes "40 \<le> length p"
  shows "ip6_src p = Some (take 16 (drop 8 p))" "ip6_dst p = Some (take 16 (drop 24 p))" "rd p 6 = Some (p ! 6)"
  using assms by (simp_all add: ip6_src_def ip6_dst_def rd_slice_def rd_def)

lemma ip_version_ok: "header_ok p \<Longrightarrow> ip_version p = Some (ver p)"
  using header_nonempty by (simp add: ip_version_def rd_def)

text \<open>The ports of a packet as the key sees them.\<close>

definition ports :: "bytes \<Rightarrow> u16 \<times> u16" where
  "ports p = (if ver p = 4
     then (if p ! 9 = 6 \<or> p ! 9 = 17
           then let i = IP_HL (p ! 0) * 4 in (be16 (p ! i) (p ! (i + 1)), be16 (p ! (i + 2)) (p ! (i + 3)))
           else (0, 0))
     else (if p ! 6 = 6 \<or> p ! 6 = 17 then (be16 (p ! 40) (p ! 41), be16 (p ! 42) (p ! 43)) else (0, 0)))"

text \<open>Source and destination as the sixteen bytes of a union, and the protocol number.\<close>

definition src_addr :: "bytes \<Rightarrow> bytes" where
  "src_addr p = (if ver p = 4 then in_union (take 4 (drop 12 p)) else take 16 (drop 8 p))"

definition dst_addr :: "bytes \<Rightarrow> bytes" where
  "dst_addr p = (if ver p = 4 then in_union (take 4 (drop 16 p)) else take 16 (drop 24 p))"

definition ip_proto :: "bytes \<Rightarrow> u16" where
  "ip_proto p = (if ver p = 4 then ucast (p ! 9) else ucast (p ! 6))"

lemma addr_lengths:
  assumes "header_ok p" "ver p = 4 \<or> ver p = 6"
  shows "length (src_addr p) = 16" "length (dst_addr p) = 16"
  using assms header4 [OF assms(1)] header6 [OF assms(1)]
  by (auto simp: src_addr_def dst_addr_def in_union_def)

definition pair_of :: "bytes \<Rightarrow> bool \<Rightarrow> addr_pair" where
  "pair_of p swap =
     (let (s, d) = ports p; ap = addr_pair_zero\<lparr>address_family := (if ver p = 4 then AF_INET else AF_INET6)\<rparr> in
      if swap then ap\<lparr>src6 := dst_addr p, src_port := d, dst6 := src_addr p, dst_port := s\<rparr>
      else ap\<lparr>src6 := src_addr p, src_port := s, dst6 := dst_addr p, dst_port := d\<rparr>)"

lemma assign_addr_pair_ok:
  assumes h: "header_ok p" and v: "ver p = 4 \<or> ver p = 6"
  shows "assign_addr_pair p flip = Some (pair_of p (flip \<noteq> 0))"
proof (cases "ver p = 4")
  case True
  note f = ip4_fields [OF header4 [OF h True]]
  have "p ! 9 = 6 \<or> p ! 9 = 17 \<Longrightarrow> IP_HL (p ! 0) * 4 + 4 \<le> length p"
    using h True by (simp add: header_ok_def)
  then have "read_ports p (p ! 9) (IP_HL (p ! 0) * 4) = Some (ports p)"
    using True by (auto simp: read_ports_def ports_def rd_be16_in Let_def add.assoc eval_nat_numeral)
  with f True header_nonempty [OF h] show ?thesis
    by (simp add: assign_addr_pair_def rd_def pair_of_def src_addr_def dst_addr_def Let_def
        split: prod.split)
next
  case False
  with v have v6: "ver p = 6" by simp
  note f = ip6_fields [OF header6 [OF h v6]]
  have "p ! 6 = 6 \<or> p ! 6 = 17 \<Longrightarrow> 44 \<le> length p" using h v6 by (simp add: header_ok_def)
  then have "read_ports p (p ! 6) 40 = Some (ports p)"
    using v6 by (auto simp: read_ports_def ports_def rd_be16_in)
  with f v6 header_nonempty [OF h] show ?thesis
    by (simp add: assign_addr_pair_def rd_def pair_of_def src_addr_def dst_addr_def Let_def
        split: prod.split)
qed

lemma pair_of_ok:
  assumes "header_ok p" "ver p = 4 \<or> ver p = 6"
  shows "addr_pair_ok (pair_of p swap)"
  using addr_lengths [OF assms] by (auto simp: addr_pair_ok_def pair_of_def Let_def split: prod.split)

lemma decide_total:
  assumes h: "header_ok p"
  shows "\<exists>d. decide op env p (ver p) hw = Some d"
proof -
  consider "ver p = 4" | "ver p = 6" | "ver p \<noteq> 4" "ver p \<noteq> 6" by blast
  then show ?thesis
  proof cases
    case 1
    then show ?thesis
      using ip4_fields [OF header4 [OF h 1]]
      by (simp add: decide_def decide_by_address_def decide_by_filter4_def Let_def)
  next
    case 2
    then show ?thesis
      using ip6_fields [OF header6 [OF h 2]]
      by (simp add: decide_def decide_by_address_def decide_by_filter6_def Let_def)
  qed (simp add: decide_def)
qed

lemma decide_assign_version: "decide op env p v hw = Some (Assign flip dir) \<Longrightarrow> v = 4 \<or> v = 6"
  by (auto simp: decide_def split: if_splits)

lemma drop_link_local_ok:
  assumes h: "header_ok p"
  shows "drop_link_local op p (ver p) = Some (ver p = 6 \<and> link_local op = 0 \<and>
     (IN6_IS_ADDR_LINKLOCAL (dst_addr p) \<or> IN6_IS_ADDR_LINKLOCAL (src_addr p)))"
  using ip6_fields [OF header6 [OF h]]
  by (auto simp: drop_link_local_def src_addr_def dst_addr_def)

text \<open>The length a packet is charged with.\<close>

definition charge :: "bytes \<Rightarrow> nat" where
  "charge p = (if ver p = 4 then unat (be16 (p ! 2) (p ! 3)) else unat (be16 (p ! 4) (p ! 5)) + 40)"

lemma packet_length_ok: "header_ok p \<Longrightarrow> packet_length p (ver p) = Some (charge p)"
  by (auto simp: packet_length_def charge_def rd_be16_in header_ok_def eval_nat_numeral
      split: if_splits)

section \<open>What a packet is charged to\<close>

definition with_proto :: "bytes \<Rightarrow> addr_pair \<Rightarrow> addr_pair" where
  "with_proto p ap = (if ver p = 4 \<or> ver p = 6 then ap\<lparr>protocol := ip_proto p\<rparr> else ap)"

text \<open>The key and the direction, or nothing if the packet is not counted.\<close>

definition packet_entry :: "options_t \<Rightarrow> if_addrs \<Rightarrow> bytes \<Rightarrow> int \<Rightarrow> (addr_pair \<times> int) option" where
  "packet_entry op env p hw =
     (if ver p = 6 \<and> link_local op = 0 \<and>
         (IN6_IS_ADDR_LINKLOCAL (dst_addr p) \<or> IN6_IS_ADDR_LINKLOCAL (src_addr p)) then None
      else case decide op env p (ver p) hw of
          Some (Assign flip dir) \<Rightarrow> Some (with_proto p (pair_of p (flip \<noteq> 0)), dir)
        | Some Unassigned \<Rightarrow> Some (with_proto p addr_pair_zero, 0)
        | _ \<Rightarrow> None)"

definition counts_as_sent :: "bytes \<Rightarrow> addr_pair \<Rightarrow> bool" where
  "counts_as_sent p ap = (if ver p = 4 then s_addr (take 4 (drop 12 p)) = src_s_addr ap
     else ver p = 6 \<and> take 16 (drop 8 p) = src6 ap)"

text \<open>The record of a key before a packet, fresh if there is none; attribution apart.\<close>

definition cap_inv :: "capture_state \<Rightarrow> pool_addr set \<Rightarrow> bool" where
  "cap_inv cs rest \<longleftrightarrow> flow_inv (acct cs) rest \<and> rs_inv (names cs) \<and> pinv (procs cs)"

lemma with_proto_ok: "addr_pair_ok (with_proto p ap) = addr_pair_ok ap"
  by (simp add: with_proto_def addr_pair_ok_def)

lemma packet_entry_ok:
  assumes "header_ok p" "packet_entry op env p hw = Some (ap, dir)"
  shows "addr_pair_ok ap"
  using assms pair_of_ok [OF assms(1)] decide_assign_version
  by (auto simp: packet_entry_def with_proto_ok addr_pair_zero_ok split: if_splits option.splits decision.splits)

lemma fold_max_ge: "x \<in> set xs \<or> x = a \<Longrightarrow> x \<le> fold max xs (a::nat)"
proof (induction xs arbitrary: a x)
  case (Cons y xs)
  have "max y a \<le> fold max xs (max y a)" by (intro Cons.IH) simp
  with Cons show ?case by auto
qed simp

lemma ns_malloc_fresh: "ns_malloc h \<notin> nd_addr ` set (nodes h)"
  using fold_max_ge [of _ "map nd_addr (nodes h)" 0] by (fastforce simp: ns_malloc_def)

lemma resolve_total:
  assumes inv: "rs_inv r" and len: "length address = 16"
  shows "\<exists>out added r'. resolve ntop dns (ns_malloc (ns_hash r)) r af address buflen = Some (out, added, r') \<and>
     rs_inv r'"
proof (cases "dns = 1")
  case True
  obtain k where k: "make_raddr af address = Some k" "ns_key_ok k" using make_raddr_ok [OF len] by blast
  show ?thesis
  proof (cases "cached r k")
    case None
    with resolve_miss [OF inv k None ns_malloc_fresh, of ntop buflen] True show ?thesis by auto
  next
    case (Some name)
    with resolve_hit [OF inv k Some] True inv show ?thesis by auto
  qed
qed (use inv in \<open>auto simp: resolve_def\<close>)

lemma queue_names_ok:
  assumes inv: "rs_inv r" and len: "length dst = 16" "length src = 16"
  shows "\<exists>r'. queue_names ntop op r af (Some dst) (Some src) = Some r' \<and> rs_inv r'"
proof -
  obtain o1 a1 r1 where 1: "resolve ntop (dnsresolution op) (ns_malloc (ns_hash r)) r af dst None = Some (o1, a1, r1)"
    "rs_inv r1" using resolve_total [OF inv len(1)] by blast
  obtain o2 a2 r2 where 2: "resolve ntop (dnsresolution op) (ns_malloc (ns_hash r1)) r1 af src None = Some (o2, a2, r2)"
    "rs_inv r2" using resolve_total [OF 1(2) len(2)] by blast
  show ?thesis using 1 2 inv by (simp add: queue_names_def)
qed

text \<open>The middle of the handler: protocol into the key, names into the queue.\<close>

definition mid_step ::
  "(int \<Rightarrow> bytes \<Rightarrow> string) \<Rightarrow> options_t \<Rightarrow> capture_state \<Rightarrow> bytes \<Rightarrow> addr_pair \<Rightarrow> (addr_pair \<times> resolver_state) option" where
  "mid_step ntop op cs p ap = (if ver p = 4 then do {
       ip_p \<leftarrow> rd p 9;
       r \<leftarrow> queue_names ntop op (names cs) (address_family ap)
             (map_option in_union (ip4_dst p)) (map_option in_union (ip4_src p));
       Some (ap\<lparr>protocol := ucast ip_p\<rparr>, r) }
     else if ver p = 6 then do {
       nxt \<leftarrow> rd p 6;
       r \<leftarrow> queue_names ntop op (names cs) (address_family ap) (ip6_dst p) (ip6_src p);
       Some (ap\<lparr>protocol := ucast nxt\<rparr>, r) }
     else Some (ap, names cs))"

lemma mid_step_ok:
  assumes h: "header_ok p" and inv: "rs_inv (names cs)"
  obtains r where "mid_step ntop op cs p ap = Some (with_proto p ap, r)" "rs_inv r"
proof -
  consider "ver p = 4" | "ver p = 6" | "ver p \<noteq> 4" "ver p \<noteq> 6" by blast
  then show thesis
  proof cases
    case 1
    note f = ip4_fields [OF header4 [OF h 1]]
    obtain r where r: "queue_names ntop op (names cs) (address_family ap) (Some (dst_addr p)) (Some (src_addr p)) = Some r"
      "rs_inv r" using queue_names_ok [OF inv addr_lengths(2,1) [OF h]] 1 by blast
    then show thesis
      using 1 f by (intro that [of r]) (simp_all add: mid_step_def with_proto_def ip_proto_def dst_addr_def src_addr_def)
  next
    case 2
    note f = ip6_fields [OF header6 [OF h 2]]
    obtain r where r: "queue_names ntop op (names cs) (address_family ap) (Some (dst_addr p)) (Some (src_addr p)) = Some r"
      "rs_inv r" using queue_names_ok [OF inv addr_lengths(2,1) [OF h]] 2 by blast
    then show thesis
      using 2 f by (intro that [of r]) (simp_all add: mid_step_def with_proto_def ip_proto_def dst_addr_def src_addr_def)
  next
    case 3
    then show thesis using inv by (intro that [of "names cs"]) (simp_all add: mid_step_def with_proto_def)
  qed
qed

lemma sent_test:
  assumes h: "header_ok p"
  shows "(if ver p = 4 then do { s \<leftarrow> ip4_src p; Some (s_addr s = src_s_addr ap) }
     else if ver p = 6 then do { s \<leftarrow> ip6_src p; Some (s = src6 ap) }
     else Some False) = Some (counts_as_sent p ap)"
  using ip4_fields(1) [OF header4 [OF h]] ip6_fields(1) [OF header6 [OF h]] by (simp add: counts_as_sent_def)

lemma handle_dropped:
  assumes h: "header_ok p" and none: "packet_entry op env p hw = None"
  shows "handle_ip_packet ntop op env cs p hw = Some cs"
proof -
  obtain d where d: "decide op env p (ver p) hw = Some d" using decide_total [OF h] by blast
  show ?thesis
  proof (cases d)
    case (Assign flip dir)
    with d have v: "ver p = 4 \<or> ver p = 6" using decide_assign_version by blast
    from none Assign d show ?thesis
      by (auto simp: handle_ip_packet_def ip_version_ok [OF h] drop_link_local_ok [OF h]
          assign_addr_pair_ok [OF h v] packet_entry_def split: if_splits)
  qed (use none d in \<open>auto simp: handle_ip_packet_def ip_version_ok [OF h] drop_link_local_ok [OF h]
         packet_entry_def split: if_splits\<close>)
qed

lemma handle_accounted:
  assumes h: "header_ok p" and ent: "packet_entry op env p hw = Some (ap, dir)"
  shows "\<exists>ap0. ap = with_proto p ap0 \<and> handle_ip_packet ntop op env cs p hw = do {
     (k, r) \<leftarrow> mid_step ntop op cs p ap0;
     st \<leftarrow> account op (procs cs) (acct cs) k (counts_as_sent p k) dir (charge p);
     Some (cs\<lparr>acct := st, names := r\<rparr>) }"
proof -
  obtain d where d: "decide op env p (ver p) hw = Some d" using decide_total [OF h] by blast
  have nl: "drop_link_local op p (ver p) = Some False"
    using ent by (auto simp: drop_link_local_ok [OF h] packet_entry_def split: if_splits)
  note simps = handle_ip_packet_def ip_version_ok [OF h] nl packet_length_ok [OF h] sent_test [OF h]
    mid_step_def [symmetric]
  show ?thesis
  proof (cases d)
    case (Assign flip dr)
    with d have v: "ver p = 4 \<or> ver p = 6" using decide_assign_version by blast
    show ?thesis
      using ent Assign d
      by (intro exI [of _ "pair_of p (flip \<noteq> 0)"])
        (auto simp: simps assign_addr_pair_ok [OF h v] packet_entry_def split: if_splits)
  next
    case Unassigned
    show ?thesis
      using ent Unassigned d by (intro exI [of _ addr_pair_zero]) (auto simp: simps packet_entry_def split: if_splits)
  qed (use ent d in \<open>auto simp: packet_entry_def split: if_splits\<close>)
qed

lemma handle_ip_packet_ok:
  assumes h: "header_ok p" and inv: "cap_inv cs rest" and ent: "packet_entry op env p hw = Some (ap, dir)"
  obtains cs' h0 where
    "handle_ip_packet ntop op env cs p hw = Some cs'" "cap_inv cs' rest" "procs cs' = procs cs"
    "same_counts (case flows (acct cs) ap of Some x \<Rightarrow> x | None \<Rightarrow> history_zero) h0"
    "\<forall>x. flows (acct cs) ap = Some x \<longrightarrow> h0 = x"
    "flows (acct cs') = (flows (acct cs))(ap \<mapsto> bumped (history_pos (acct cs)) (counts_as_sent p ap) (charge p) h0)"
    "history_totals (acct cs') = bumped_totals (history_pos (acct cs)) dir (charge p) (history_totals (acct cs))"
    "history_pos (acct cs') = history_pos (acct cs)"
proof -
  obtain ap0 where ap0: "ap = with_proto p ap0" and eq: "handle_ip_packet ntop op env cs p hw = do {
     (k, r) \<leftarrow> mid_step ntop op cs p ap0;
     st \<leftarrow> account op (procs cs) (acct cs) k (counts_as_sent p k) dir (charge p);
     Some (cs\<lparr>acct := st, names := r\<rparr>) }"
    using handle_accounted [OF h ent] by blast
  from inv have i: "flow_inv (acct cs) rest" "rs_inv (names cs)" "pinv (procs cs)"
    by (simp_all add: cap_inv_def)
  obtain r where r: "mid_step ntop op cs p ap0 = Some (ap, r)" "rs_inv r"
    using mid_step_ok [OF h i(2)] ap0 by metis
  show thesis
  proof (rule account_ok [OF i(1) packet_entry_ok [OF h ent] i(3), of op "counts_as_sent p ap" dir "charge p"])
    fix st' h0
    assume a: "account op (procs cs) (acct cs) ap (counts_as_sent p ap) dir (charge p) = Some st'" "flow_inv st' rest"
      "same_counts (case flows (acct cs) ap of Some x \<Rightarrow> x | None \<Rightarrow> history_zero) h0"
      "\<forall>x. flows (acct cs) ap = Some x \<longrightarrow> h0 = x"
      "flows st' = (flows (acct cs))(ap \<mapsto> bumped (history_pos (acct cs)) (counts_as_sent p ap) (charge p) h0)"
      "history_totals st' = bumped_totals (history_pos (acct cs)) dir (charge p) (history_totals (acct cs))"
      "history_pos st' = history_pos (acct cs)"
    show thesis
      using a i r by (intro that [of "cs\<lparr>acct := st', names := r\<rparr>" h0]) (simp_all add: eq cap_inv_def)
  qed
qed

section \<open>Runs\<close>

text \<open>
  What happens to the accounting state while the program runs: packets and rotations in
  any order. The packet function gets the options and interface addresses of the run.
\<close>

datatype capture_event = Packet_In bytes int | Rotate

fun capture_run ::
  "(int \<Rightarrow> bytes \<Rightarrow> string) \<Rightarrow> options_t \<Rightarrow> if_addrs \<Rightarrow> capture_state \<Rightarrow> capture_event list \<Rightarrow> capture_state option" where
  "capture_run ntop op env cs [] = Some cs"
| "capture_run ntop op env cs (Packet_In p hw # es) =
     do { cs \<leftarrow> handle_ip_packet ntop op env cs p hw; capture_run ntop op env cs es }"
| "capture_run ntop op env cs (Rotate # es) =
     do { st \<leftarrow> history_rotate (acct cs); capture_run ntop op env (cs\<lparr>acct := st\<rparr>) es }"

fun event_ok :: "capture_event \<Rightarrow> bool" where
  "event_ok (Packet_In p hw) = header_ok p"
| "event_ok Rotate = True"

definition capture_start :: "procinfo_state \<Rightarrow> capture_state" where
  "capture_start ps = \<lparr>acct = init_history pool_empty, names = resolver_initialise, procs = ps\<rparr>"

section \<open>Conservation\<close>

text \<open>Bytes of a slot, and what has been charged to a slot over all connections.\<close>

definition slot_bytes :: "nat \<Rightarrow> history_type \<Rightarrow> int" where
  "slot_bytes i h = sent h ! i + recv h ! i"

definition flow_sum :: "(addr_pair \<Rightarrow> history_type option) \<Rightarrow> nat \<Rightarrow> int" where
  "flow_sum m i = (\<Sum>k\<in>dom m. slot_bytes i (the (m k)))"

text \<open>
  Age of a slot: zero for the current one. A record has bytes only in slots at least as
  old as its last write and less than one turn old.
\<close>

definition age :: "int \<Rightarrow> int \<Rightarrow> int" where
  "age pos i = (pos - i) mod 40"

definition clean :: "int \<Rightarrow> history_type \<Rightarrow> bool" where
  "clean pos h \<longleftrightarrow> 0 \<le> last_write h \<and> last_write h < 40 \<and>
     (\<forall>i<40. age pos (int i) < age pos (last_write h) \<longrightarrow> sent h ! i = 0 \<and> recv h ! i = 0)"

definition conserved :: "iftop_state \<Rightarrow> bool" where
  "conserved st \<longleftrightarrow> finite (dom (flows st)) \<and> (\<forall>h\<in>ran (flows st). clean (history_pos st) h \<and> hist_ok h) \<and>
     (\<forall>i<40. flow_sum (flows st) i = slot_bytes i (history_totals st))"

lemma flow_sum_upd:
  assumes "finite (dom m)"
  shows "flow_sum (m(k \<mapsto> h)) i =
     flow_sum m i - (case m k of Some x \<Rightarrow> slot_bytes i x | None \<Rightarrow> 0) + slot_bytes i h"
proof (cases "m k")
  case None
  then have "k \<notin> dom m" by auto
  then have "flow_sum (m(k \<mapsto> h)) i = slot_bytes i h + (\<Sum>j\<in>dom m. slot_bytes i (the ((m(k \<mapsto> h)) j)))"
    using assms by (simp add: flow_sum_def)
  also have "(\<Sum>j\<in>dom m. slot_bytes i (the ((m(k \<mapsto> h)) j))) = flow_sum m i"
    unfolding flow_sum_def using \<open>k \<notin> dom m\<close> by (intro sum.cong) auto
  finally show ?thesis by (simp add: None fun_upd_def)
next
  case (Some x)
  then have k: "k \<in> dom m" by auto
  let ?rest = "\<Sum>j\<in>dom m - {k}. slot_bytes i (the (m j))"
  have d: "dom (m(k \<mapsto> h)) = dom m" using k by auto
  have "flow_sum (m(k \<mapsto> h)) i = slot_bytes i h + (\<Sum>j\<in>dom m - {k}. slot_bytes i (the ((m(k \<mapsto> h)) j)))"
    unfolding flow_sum_def d by (subst sum.remove [OF assms k]) simp
  also have "(\<Sum>j\<in>dom m - {k}. slot_bytes i (the ((m(k \<mapsto> h)) j))) = ?rest"
    by (intro sum.cong) auto
  also have "?rest = flow_sum m i - slot_bytes i x"
    unfolding flow_sum_def by (subst sum.remove [OF assms k]) (simp add: Some)
  finally show ?thesis by (simp add: Some fun_upd_def)
qed

lemma slot_bytes_bumped:
  assumes "hist_ok h" "0 \<le> pos" "pos < 40" "i < 40"
  shows "slot_bytes i (bumped pos is_sent len h) = slot_bytes i h + (if i = nat pos then int len else 0)"
    "slot_bytes i (bumped_totals pos dir len h) = slot_bytes i h + (if i = nat pos then int len else 0)"
  using assms by (auto simp: slot_bytes_def bumped_def bumped_totals_def hist_ok_def)

lemma slot_bytes_same: "same_counts h h' \<Longrightarrow> slot_bytes i h' = slot_bytes i h"
  by (simp add: slot_bytes_def same_counts_def)

lemma slot_bytes_zero [simp]: "i < 40 \<Longrightarrow> slot_bytes i history_zero = 0"
  by (simp add: slot_bytes_def history_zero_def HISTORY_LENGTH_def)

lemma flows_hist_ok: "flow_inv st rest \<Longrightarrow> flows st k = Some h \<Longrightarrow> hist_ok h"
  using flow_invD(4) by (fastforce simp: flows_def ran_def bind_eq_Some_conv split: option.splits)

lemma clean_bumped:
  assumes "0 \<le> pos" "pos < 40"
  shows "clean pos (bumped pos is_sent len h)"
  using assms by (auto simp: clean_def bumped_def age_def)

lemma conserved_packet:
  assumes h: "header_ok p" and inv: "cap_inv cs rest" and c: "conserved (acct cs)"
  shows "\<exists>cs'. handle_ip_packet ntop op env cs p hw = Some cs' \<and> cap_inv cs' rest \<and> conserved (acct cs')"
proof (cases "packet_entry op env p hw")
  case None
  with handle_dropped [OF h None] inv c show ?thesis by simp
next
  case (Some e)
  obtain ap dir where e: "packet_entry op env p hw = Some (ap, dir)" using Some by (cases e) simp
  let ?st = "acct cs"
  let ?pos = "history_pos ?st"
  have fi: "flow_inv ?st rest" using inv by (simp add: cap_inv_def)
  note pos = flow_invD(6,7) [OF fi] and tok = flow_invD(5) [OF fi]
  obtain cs' h0 where a:
    "handle_ip_packet ntop op env cs p hw = Some cs'" "cap_inv cs' rest"
    "same_counts (case flows ?st ap of Some x \<Rightarrow> x | None \<Rightarrow> history_zero) h0"
    "flows (acct cs') = (flows ?st)(ap \<mapsto> bumped ?pos (counts_as_sent p ap) (charge p) h0)"
    "history_totals (acct cs') = bumped_totals ?pos dir (charge p) (history_totals ?st)"
    "history_pos (acct cs') = ?pos"
    by (rule handle_ip_packet_ok [OF h inv e])
  let ?h = "bumped ?pos (counts_as_sent p ap) (charge p) h0"
  have fin: "finite (dom (flows ?st))" and cl: "\<forall>x\<in>ran (flows ?st). clean ?pos x \<and> hist_ok x"
    and sums: "\<And>i. i < 40 \<Longrightarrow> flow_sum (flows ?st) i = slot_bytes i (history_totals ?st)"
    using c by (auto simp: conserved_def)
  have ok: "hist_ok h0"
    using a(3) cl history_zero_ok
    by (cases "flows ?st ap") (auto intro: same_counts_ok dest: ranI)
  have old: "(case flows ?st ap of Some x \<Rightarrow> slot_bytes i x | None \<Rightarrow> 0) = slot_bytes i h0" if "i < 40" for i
    using slot_bytes_same [OF a(3), of i] that by (cases "flows ?st ap") simp_all
  have "flow_sum (flows (acct cs')) i = slot_bytes i (history_totals (acct cs'))" if "i < 40" for i
    using slot_bytes_bumped [OF ok pos that] slot_bytes_bumped(2) [OF tok pos that] sums [OF that] old [OF that]
    by (simp add: a(4,5) flow_sum_upd [OF fin])
  moreover have "\<forall>x\<in>ran (flows (acct cs')). clean ?pos x \<and> hist_ok x"
    using cl clean_bumped [OF pos] add_packet_ok(2) [OF ok pos] by (auto simp: a(4) ran_def split: if_splits)
  ultimately have "conserved (acct cs')" using fin by (simp add: conserved_def a(4,6))
  with a(1,2) show ?thesis by blast
qed

lemma age_alt:
  assumes "0 \<le> pos" "pos < 40" "0 \<le> i" "i < 40"
  shows "age pos i = (if i \<le> pos then pos - i else pos - i + 40)"
proof (cases "i \<le> pos")
  case False
  have "(pos - i) mod 40 = (pos - i + 40) mod 40" by simp
  also have "\<dots> = pos - i + 40" using assms False by (intro mod_pos_pos_trivial) auto
  finally show ?thesis using False by (simp add: age_def)
qed (use assms in \<open>simp add: age_def\<close>)

lemma next_slot:
  assumes "0 \<le> pos" "pos < (40::int)"
  shows "(pos + 1) mod 40 = (if pos = 39 then 0 else pos + 1)"
  using assms by (cases "pos = 39") (simp_all add: mod_pos_pos_trivial)

lemma age_next:
  assumes "0 \<le> pos" "pos < 40" "0 \<le> i" "i < 40"
  shows "age ((pos + 1) mod 40) i = (if i = (pos + 1) mod 40 then 0 else age pos i + 1)"
  using assms by (auto simp: next_slot age_alt)

lemma age_last:
  assumes "0 \<le> pos" "pos < 40" "0 \<le> i" "i < 40"
  shows "i \<noteq> (pos + 1) mod 40 \<longleftrightarrow> age pos i < 39" "age pos ((pos + 1) mod 40) = 39"
  using assms by (auto simp: next_slot age_alt)

lemma clean_rotated:
  assumes c: "clean pos h" and ok: "hist_ok h" and pos: "0 \<le> pos" "pos < 40"
    and r: "rotated ((pos + 1) mod 40) h = Some h'"
  shows "clean ((pos + 1) mod 40) h' \<and> hist_ok h'"
proof -
  let ?q = "(pos + 1) mod 40"
  have q: "0 \<le> ?q" "?q < 40" by simp_all
  from r have lw: "last_write h \<noteq> ?q"
    and h': "h' = h\<lparr>recv := (recv h)[nat ?q := 0], sent := (sent h)[nat ?q := 0]\<rparr>"
    by (auto simp: rotated_def split: if_splits)
  have "sent h' ! i = 0 \<and> recv h' ! i = 0" if i: "i < 40" "age ?q (int i) < age ?q (last_write h)" for i
  proof (cases "int i = ?q")
    case True
    then have "nat ?q = i" by (metis nat_int)
    with ok i(1) show ?thesis by (simp add: h' hist_ok_def)
  next
    case False
    then have "nat ?q \<noteq> i" by (metis int_nat_eq q(1))
    moreover have "age pos (int i) < age pos (last_write h)"
      using i c False lw age_next [OF pos, of "int i"] age_next [OF pos, of "last_write h"]
      by (simp add: clean_def)
    ultimately show ?thesis using c i(1) by (simp add: h' clean_def)
  qed
  then have "clean ?q h'" using c by (simp add: clean_def h')
  moreover have "hist_ok h'" using ok by (simp add: h' hist_ok_def)
  ultimately show ?thesis by blast
qed

lemma slot_bytes_rotated:
  assumes c: "clean pos h" and ok: "hist_ok h" and pos: "0 \<le> pos" "pos < 40" and i: "i < 40"
  shows "(case rotated ((pos + 1) mod 40) h of Some x \<Rightarrow> slot_bytes i x | None \<Rightarrow> 0) =
     (if int i = (pos + 1) mod 40 then 0 else slot_bytes i h)"
proof -
  let ?q = "(pos + 1) mod 40"
  have idx: "nat ?q = i \<longleftrightarrow> int i = ?q" by (metis int_nat_eq nat_int pos_mod_sign zero_less_numeral)
  show ?thesis
  proof (cases "last_write h = ?q")
    case True
    have "slot_bytes i h = 0" if "int i \<noteq> ?q"
      using c i that age_last [OF pos, of "int i"] True by (auto simp: clean_def slot_bytes_def)
    with True show ?thesis by (simp add: rotated_def)
  next
    case False
    with ok i idx show ?thesis by (auto simp: rotated_def slot_bytes_def hist_ok_def)
  qed
qed

lemma conserved_rotate:
  assumes inv: "flow_inv st rest" and c: "conserved st"
  shows "\<exists>st'. history_rotate st = Some st' \<and> flow_inv st' rest \<and> conserved st'"
proof -
  let ?q = "(history_pos st + 1) mod 40"
  note pos = flow_invD(6,7) [OF inv] and tok = flow_invD(5) [OF inv]
  obtain st' where r: "history_rotate st = Some st'" "flow_inv st' rest" "history_pos st' = ?q"
    "\<forall>k. flows st' k = Option.bind (flows st k) (rotated ?q)"
    "history_totals st' = (history_totals st)\<lparr>recv := (recv (history_totals st))[nat ?q := 0],
       sent := (sent (history_totals st))[nat ?q := 0]\<rparr>"
    using history_rotate_ok [OF inv] by blast
  have fin: "finite (dom (flows st))" and cl: "\<And>x. x \<in> ran (flows st) \<Longrightarrow> clean (history_pos st) x \<and> hist_ok x"
    and sums: "\<And>i. i < 40 \<Longrightarrow> flow_sum (flows st) i = slot_bytes i (history_totals st)"
    using c by (auto simp: conserved_def)
  have sub: "dom (flows st') \<subseteq> dom (flows st)" using r(4) by (auto simp: bind_eq_Some_conv)
  have ran: "clean ?q x \<and> hist_ok x" if "x \<in> ran (flows st')" for x
  proof -
    from that r(4) obtain k y where "flows st k = Some y" "rotated ?q y = Some x"
      by (auto simp: ran_def bind_eq_Some_conv)
    with cl clean_rotated pos show ?thesis by (meson ranI)
  qed
  have "flow_sum (flows st') i = slot_bytes i (history_totals st')" if i: "i < 40" for i
  proof -
    have "flow_sum (flows st') i = (\<Sum>k\<in>dom (flows st). case flows st' k of Some x \<Rightarrow> slot_bytes i x | None \<Rightarrow> 0)"
      unfolding flow_sum_def using fin sub
      by (intro sum.mono_neutral_cong_left) (auto split: option.split)
    also have "\<dots> = (\<Sum>k\<in>dom (flows st). if int i = ?q then 0 else slot_bytes i (the (flows st k)))"
    proof (intro sum.cong refl)
      fix k assume "k \<in> dom (flows st)"
      then obtain y where y: "flows st k = Some y" by blast
      with cl have "clean (history_pos st) y" "hist_ok y" by (auto intro: ranI)
      from slot_bytes_rotated [OF this pos i] y r(4) show
        "(case flows st' k of Some x \<Rightarrow> slot_bytes i x | None \<Rightarrow> 0) =
         (if int i = ?q then 0 else slot_bytes i (the (flows st k)))" by simp
    qed
    also have "\<dots> = (if int i = ?q then 0 else flow_sum (flows st) i)" by (simp add: flow_sum_def)
    also have "\<dots> = slot_bytes i (history_totals st')"
    proof -
      have "nat ?q = i \<longleftrightarrow> int i = ?q" by (metis int_nat_eq nat_int pos_mod_sign zero_less_numeral)
      with tok i sums [OF i] show ?thesis by (auto simp: r(5) slot_bytes_def hist_ok_def)
    qed
    finally show ?thesis .
  qed
  with r fin sub ran have "conserved st'" by (auto simp: conserved_def intro: finite_subset)
  with r show ?thesis by blast
qed

lemma conserved_event:
  assumes "cap_inv cs rest \<and> conserved (acct cs)" "event_ok e"
  shows "\<exists>cs'. capture_run ntop op env cs [e] = Some cs' \<and> cap_inv cs' rest \<and> conserved (acct cs')"
proof (cases e)
  case (Packet_In p hw)
  with assms conserved_packet [of p cs rest ntop op env hw] show ?thesis by auto
next
  case Rotate
  with assms conserved_rotate [of "acct cs" rest] show ?thesis by (fastforce simp: cap_inv_def)
qed

lemma capture_run_Cons: "capture_run ntop op env cs (e # es) = Option.bind (capture_run ntop op env cs [e]) (\<lambda>cs. capture_run ntop op env cs es)"
  by (cases e) simp_all

interpretation capture_machine: safe_run "\<lambda>e cs. capture_run ntop op env cs [e]" "\<lambda>es cs. capture_run ntop op env cs es" "\<lambda>e _. event_ok e"
    "\<lambda>cs. cap_inv cs rest \<and> conserved (acct cs)"
  for ntop op env rest
  by unfold_locales (simp, rule capture_run_Cons, rule conserved_event)

lemma conserved_run:
  assumes "cap_inv cs rest" "conserved (acct cs)" "\<forall>e\<in>set es. event_ok e"
  shows "\<exists>cs'. capture_run ntop op env cs es = Some cs' \<and> cap_inv cs' rest \<and> conserved (acct cs')"
  using capture_machine.run_safe [of cs rest ntop op env es] capture_machine.run_ready_always assms by blast

lemma capture_start_ok:
  assumes "pinv ps"
  shows "cap_inv (capture_start ps) {}" "conserved (acct (capture_start ps))"
  using assms init_history_ok [OF pool_empty_inv] resolver_initialise_inv(1)
  by (simp_all add: cap_inv_def conserved_def capture_start_def flow_sum_def init_history_def)

section \<open>Conversations\<close>

lemma byte_high: "8 \<le> n \<Longrightarrow> \<not> bit (w :: u8) n"
  using bit_imp_le_length [of w n] by fastforce

lemma le32_bytes:
  "ucast (le32 a b c d) = a" "ucast (drop_bit 8 (le32 a b c d)) = b"
  "ucast (drop_bit 16 (le32 a b c d)) = c" "ucast (drop_bit 24 (le32 a b c d)) = d"
  by (auto simp: le32_def bit_simps byte_high intro!: bit_word_eqI)

lemma le32_inj: "le32 a b c d = le32 a' b' c' d' \<longleftrightarrow> a = a' \<and> b = b' \<and> c = c' \<and> d = d'"
  by (metis le32_bytes)

lemma four: "length (a :: bytes) = 4 \<Longrightarrow> a = [a ! 0, a ! 1, a ! 2, a ! 3]"
  by (simp add: list_eq_iff_nth_eq less_Suc_eq numeral_eq_Suc)

lemma load_le32_inj:
  assumes "length a = 4" "length b = 4"
  shows "load_le32 a 0 = load_le32 b 0 \<longleftrightarrow> a = b"
  using four [OF assms(1)] four [OF assms(2)] by (auto simp: load_le32_def le32_inj eval_nat_numeral)

lemma load_in_union: "length a = 4 \<Longrightarrow> load_le32 (in_union a) 0 = load_le32 a 0"
  by (simp add: load_le32_def in_union_def nth_append)

lemma in_union_inj: "length a = length b \<Longrightarrow> in_union a = in_union b \<longleftrightarrow> a = b"
  by (simp add: in_union_def)

lemma sent_iff:
  assumes h: "header_ok p" and v: "ver p = 4 \<or> ver p = 6"
  shows "counts_as_sent p (with_proto p (pair_of p swap)) \<longleftrightarrow> \<not> swap \<or> src_addr p = dst_addr p"
proof (cases "ver p = 4")
  case True
  let ?s = "take 4 (drop 12 p)" and ?d = "take 4 (drop 16 p)"
  have l: "length ?s = 4" "length ?d = 4" using header4 [OF h True] by simp_all
  then show ?thesis
    using True load_le32_inj [OF l] in_union_inj [of ?s ?d]
    by (auto simp: counts_as_sent_def with_proto_def pair_of_def src_s_addr_def s_addr_def
        src_addr_def dst_addr_def load_in_union Let_def split: prod.split)
next
  case False
  with v show ?thesis
    by (auto simp: counts_as_sent_def with_proto_def pair_of_def src_addr_def dst_addr_def Let_def
        split: prod.split)
qed

text \<open>A packet and an answer to it.\<close>

definition answers :: "bytes \<Rightarrow> bytes \<Rightarrow> bool" where
  "answers q p \<longleftrightarrow> ver q = ver p \<and> src_addr q = dst_addr p \<and> dst_addr q = src_addr p \<and>
     ip_proto q = ip_proto p \<and> ports q = (snd (ports p), fst (ports p))"

lemma answer_key: "answers q p \<Longrightarrow> with_proto q (pair_of q (\<not> swap)) = with_proto p (pair_of p swap)"
  by (auto simp: answers_def pair_of_def with_proto_def Let_def split: prod.split)

lemma hw_entry:
  assumes "ver p = 4 \<or> ver p = 6" "netfilter op = 0" "netfilter6 op = 0" "link_local op \<noteq> 0"
  shows "packet_entry op env p 1 = Some (with_proto p (pair_of p False), 1)"
    "packet_entry op env p 0 = Some (with_proto p (pair_of p True), 0)"
  using assms by (auto simp: packet_entry_def decide_def decide_by_address_def)

section \<open>Properties\<close>

text \<open>A UDP packet of 60 bytes from 10.0.0.1 port 1000 to 10.0.0.2 port 53, and an answer of 80 bytes.\<close>

definition query :: bytes where
  "query = [0x45, 0, 0, 60, 0, 0, 0, 0, 64, 17, 0, 0, 10, 0, 0, 1, 10, 0, 0, 2, 3, 232, 0, 53]"

definition answer :: bytes where
  "answer = [0x45, 0, 0, 80, 0, 0, 0, 0, 64, 17, 0, 0, 10, 0, 0, 2, 10, 0, 0, 1, 0, 53, 3, 232]"

lemma query_facts:
  "header_ok query" "ver query = 4" "charge query = 60" "header_ok answer" "charge answer = 80"
  "answers answer query" "src_addr query \<noteq> dst_addr query"
  by code_simp+

text \<open>Options of the examples: no filters, link-local traffic counted, names not resolved.\<close>

definition plain_options :: options_t where
  "plain_options = (options_set_defaults None None)\<lparr>dnsresolution := 0, link_local := 1\<rparr>"

definition no_addrs :: if_addrs where
  "no_addrs = \<lparr>have_hw_addr = 0, if_hw_addr = [], have_ip_addr = 0, have_ip6_addr = 0, if_ip_addr = 0,
     if_ip6_addr = []\<rparr>"

definition no_names :: "int \<Rightarrow> bytes \<Rightarrow> string" where
  "no_names af a = []"

lemma plain_options_facts:
  "netfilter plain_options = 0" "netfilter6 plain_options = 0" "link_local plain_options \<noteq> 0"
  by (simp_all add: plain_options_def options_set_defaults_def)

text \<open>C2: whatever packets with complete headers arrive, however rotations interleave
  with them, and whatever the options, the program never touches memory it does not own
  (the run returns a state), keeps its invariants, and in each of the forty slots the bytes
  sent and received over all connections add up to the bytes of the totals.\<close>

theorem packet_conservation:
  assumes "pinv ps" and "\<forall>e\<in>set es. event_ok e"
  shows "\<exists>cs. capture_run ntop op env (capture_start ps) es = Some cs \<and> cap_inv cs {} \<and>
     finite (dom (flows (acct cs))) \<and>
     (\<forall>i<40. (\<Sum>k\<in>dom (flows (acct cs)). slot_bytes i (the (flows (acct cs) k))) =
        slot_bytes i (history_totals (acct cs)))"
  using conserved_run [OF capture_start_ok [OF assms(1)] assms(2), of ntop op env]
  by (auto simp: conserved_def flow_sum_def)

theorem packet_conservation_witness:
  "\<exists>cs. capture_run no_names plain_options no_addrs (capture_start procinfo_init)
       [Packet_In query 1, Rotate, Packet_In answer 0] = Some cs \<and> cap_inv cs {} \<and>
     finite (dom (flows (acct cs))) \<and>
     (\<forall>i<40. (\<Sum>k\<in>dom (flows (acct cs)). slot_bytes i (the (flows (acct cs) k))) =
        slot_bytes i (history_totals (acct cs)))"
  by (rule packet_conservation) (auto simp: query_facts procinfo_init_pinv)

text \<open>C3: a packet with complete headers is either ignored, and then nothing at all
  changes, or charged with its IP length to exactly one connection, to the sent or to the
  received side of the current slot, and to the totals; every other connection keeps its
  record, and the record of a new connection starts from zero.\<close>

theorem handle_ip_packet_correct:
  assumes "cap_inv cs rest" and "header_ok p"
  shows "\<exists>cs'. handle_ip_packet ntop op env cs p hw = Some cs' \<and> cap_inv cs' rest \<and>
     (case packet_entry op env p hw of
        None \<Rightarrow> cs' = cs
      | Some (k, dir) \<Rightarrow>
          (\<exists>h. same_counts (case flows (acct cs) k of Some x \<Rightarrow> x | None \<Rightarrow> history_zero) h \<and>
             (flows (acct cs) k = Some h \<or> flows (acct cs) k = None) \<and>
             flows (acct cs') = (flows (acct cs))
               (k \<mapsto> bumped (history_pos (acct cs)) (counts_as_sent p k) (charge p) h)) \<and>
          history_totals (acct cs') =
            bumped_totals (history_pos (acct cs)) dir (charge p) (history_totals (acct cs)) \<and>
          history_pos (acct cs') = history_pos (acct cs) \<and> procs cs' = procs cs)"
proof (cases "packet_entry op env p hw")
  case None
  with handle_dropped [OF assms(2) None] assms(1) show ?thesis by simp
next
  case (Some e)
  obtain k dir where e: "packet_entry op env p hw = Some (k, dir)" using Some by (cases e) simp
  show ?thesis
    by (rule handle_ip_packet_ok [OF assms(2,1) e, of ntop]) (auto simp: e intro!: exI split: option.splits)
qed

theorem handle_ip_packet_correct_witness:
  "\<exists>cs'. handle_ip_packet no_names plain_options no_addrs (capture_start procinfo_init) query 1 = Some cs' \<and>
     history_totals (acct cs') = bumped_totals 0 1 60 history_zero"
  using handle_ip_packet_correct [OF capture_start_ok(1) [OF procinfo_init_pinv] query_facts(1),
      of no_names plain_options no_addrs 1]
    hw_entry(1) [OF _ plain_options_facts, of query no_addrs] query_facts
  by (auto simp: capture_start_def init_history_def)

text \<open>C11: the two directions of a conversation are one connection. With no net filter
  set, a packet that leaves the interface followed by an answer that enters it are charged
  to the same record, the first as sent and the second as received, each with its own
  length, and no other record changes.\<close>

theorem conversation_accounted:
  assumes "cap_inv cs rest" and "header_ok p" and "header_ok q" and "ver p = 4 \<or> ver p = 6"
    and "answers q p" and "src_addr p \<noteq> dst_addr p"
    and "netfilter op = 0" and "netfilter6 op = 0" and "link_local op \<noteq> 0"
  shows "\<exists>cs' k old h. capture_run ntop op env cs [Packet_In p 1, Packet_In q 0] = Some cs' \<and>
     flows (acct cs') = (flows (acct cs))(k \<mapsto> h) \<and> src6 k = src_addr p \<and> dst6 k = dst_addr p \<and>
     old = (case flows (acct cs) k of Some x \<Rightarrow> x | None \<Rightarrow> history_zero) \<and>
     (let i = nat (history_pos (acct cs)) in
        sent h ! i = sent old ! i + int (charge p) \<and> recv h ! i = recv old ! i + int (charge q)) \<and>
     total_sent h = total_sent old + of_nat (charge p) \<and> total_recv h = total_recv old + of_nat (charge q)"
proof -
  let ?k = "with_proto p (pair_of p False)"
  let ?pos = "history_pos (acct cs)"
  have v: "ver q = 4 \<or> ver q = 6" using assms(4,5) by (simp add: answers_def)
  have key: "with_proto q (pair_of q True) = ?k" using answer_key [OF assms(5), of False] by simp
  have sp: "counts_as_sent p ?k" using sent_iff [OF assms(2,4)] by simp
  have sq: "\<not> counts_as_sent q ?k"
    using sent_iff [OF assms(3) v, of True] assms(5,6) by (simp add: key answers_def)
  have fi: "flow_inv (acct cs) rest" using assms(1) by (simp add: cap_inv_def)
  obtain cs1 h0 where a:
    "handle_ip_packet ntop op env cs p 1 = Some cs1" "cap_inv cs1 rest"
    "same_counts (case flows (acct cs) ?k of Some x \<Rightarrow> x | None \<Rightarrow> history_zero) h0"
    "flows (acct cs1) = (flows (acct cs))(?k \<mapsto> bumped ?pos (counts_as_sent p ?k) (charge p) h0)"
    "history_pos (acct cs1) = ?pos"
    by (rule handle_ip_packet_ok [OF assms(2,1) hw_entry(1) [OF assms(4,7,8,9)]])
  let ?h1 = "bumped ?pos True (charge p) h0"
  obtain cs2 h2 where b:
    "handle_ip_packet ntop op env cs1 q 0 = Some cs2"
    "\<forall>x. flows (acct cs1) ?k = Some x \<longrightarrow> h2 = x"
    "flows (acct cs2) = (flows (acct cs1))(?k \<mapsto> bumped ?pos (counts_as_sent q ?k) (charge q) h2)"
    by (rule handle_ip_packet_ok [OF assms(3) a(2) hw_entry(2) [OF v assms(7,8,9)]]) (simp add: key a(5))
  have h2: "h2 = ?h1" using b(2) sp by (simp add: a(4))
  let ?old = "case flows (acct cs) ?k of Some x \<Rightarrow> x | None \<Rightarrow> history_zero"
  let ?h = "bumped ?pos False (charge q) ?h1"
  have "hist_ok ?old" using flows_hist_ok [OF fi] history_zero_ok by (simp split: option.split)
  then have len: "length (sent h0) = 40" "length (recv h0) = 40" and h0: "sent h0 = sent ?old" "recv h0 = recv ?old"
    "total_sent h0 = total_sent ?old" "total_recv h0 = total_recv ?old"
    using a(3) by (auto simp: hist_ok_def same_counts_def)
  have "capture_run ntop op env cs [Packet_In p 1, Packet_In q 0] = Some cs2" using a(1) b(1) by simp
  moreover have "flows (acct cs2) = (flows (acct cs))(?k \<mapsto> ?h)" using sp sq h2 by (simp add: b(3) a(4))
  moreover have "src6 ?k = src_addr p" "dst6 ?k = dst_addr p"
    by (simp_all add: with_proto_def pair_of_def Let_def split: prod.split)
  moreover have "let i = nat ?pos in
      sent ?h ! i = sent ?old ! i + int (charge p) \<and> recv ?h ! i = recv ?old ! i + int (charge q)"
    using flow_invD(6,7) [OF fi] len by (simp add: bumped_def h0 Let_def)
  moreover have "total_sent ?h = total_sent ?old + of_nat (charge p)" "total_recv ?h = total_recv ?old + of_nat (charge q)"
    by (simp_all add: bumped_def h0)
  ultimately show ?thesis by blast
qed

theorem conversation_accounted_witness:
  "\<exists>cs' k old h. capture_run no_names plain_options no_addrs (capture_start procinfo_init)
       [Packet_In query 1, Packet_In answer 0] = Some cs' \<and>
     flows (acct cs') = (flows (acct (capture_start procinfo_init)))(k \<mapsto> h) \<and>
     src6 k = src_addr query \<and> dst6 k = dst_addr query \<and>
     old = (case flows (acct (capture_start procinfo_init)) k of Some x \<Rightarrow> x | None \<Rightarrow> history_zero) \<and>
     (let i = nat (history_pos (acct (capture_start procinfo_init))) in
        sent h ! i = sent old ! i + int (charge query) \<and> recv h ! i = recv old ! i + int (charge answer)) \<and>
     total_sent h = total_sent old + of_nat (charge query) \<and> total_recv h = total_recv old + of_nat (charge answer)"
  by (rule conversation_accounted [OF capture_start_ok(1) [OF procinfo_init_pinv]])
    (simp_all add: query_facts plain_options_facts)

end
