(* ===== verification/Net_Filter.thy ===== *)
theory Net_Filter
  imports Accounting
begin

text \<open>
  What the net filters mean for packets: the text of a filter directive
  (\<open>options_config_get_net_filter\<close>, \<open>options_config_get_net_filter6\<close> in
  \<open>src/config/options.c\<close>) against the decision \<open>handle_ip_packet\<close> takes on a packet
  (\<open>src/entry/iftop.c\<close>), stated on the leading bits of the addresses.
\<close>

section \<open>IPv4\<close>

text \<open>The address \<open>x\<close> lies in the network of \<open>a\<close> with a prefix of \<open>n\<close> bits.\<close>

definition in_net :: "nat \<Rightarrow> u32 \<Rightarrow> u32 \<Rightarrow> bool" where
  "in_net n a x \<longleftrightarrow> take n (net_bits x) = take n (net_bits a)"

lemma in_filter_net_iff:
  assumes "netfiltermask op = m" "netfilternet op = a AND m" "\<forall>j<32. net_bit m j = (j < n)" "n \<le> 32"
  shows "in_filter_net op x = in_net n a x"
  using assms(3,4) unfolding in_filter_net_def assms(1,2) masked_eq_iff in_net_def net_bits_take [OF assms(4)]
  by auto

section \<open>IPv6\<close>

text \<open>Bit \<open>j\<close> of an address in network order.\<close>

definition bit6 :: "bytes \<Rightarrow> nat \<Rightarrow> bool" where
  "bit6 x j = bit (x ! (j div 8)) (7 - j mod 8)"

lemma byte_and_eq: "(x AND m) = (a AND m) \<longleftrightarrow> (\<forall>b<8. bit m b \<longrightarrow> bit x b = bit (a :: u8) b)"
proof
  assume eq: "x AND m = a AND m"
  show "\<forall>b<8. bit m b \<longrightarrow> bit x b = bit a b"
    using arg_cong [OF eq, of bit] by (auto simp: bit_and_iff fun_eq_iff)
next
  assume "\<forall>b<8. bit m b \<longrightarrow> bit x b = bit a b"
  then show "x AND m = a AND m" by (intro bit_word_eqI) (auto simp: bit_and_iff)
qed

lemma masked6_eq_iff:
  assumes "length x = 16" "length a = 16" "length m = 16"
  shows "mask6 x m = map2 (\<lambda>a m. a AND m) a m \<longleftrightarrow> (\<forall>j<128. bit6 m j \<longrightarrow> bit6 x j = bit6 a j)"
proof -
  have "mask6 x m = map2 (\<lambda>a m. a AND m) a m \<longleftrightarrow>
      (\<forall>i<16. \<forall>b<8. bit (m ! i) b \<longrightarrow> bit (x ! i) b = bit (a ! i) b)"
    using assms by (simp add: mask6_def list_eq_iff_nth_eq byte_and_eq)
  also have "\<dots> \<longleftrightarrow> (\<forall>j<128. bit6 m j \<longrightarrow> bit6 x j = bit6 a j)"
  proof
    assume l: "\<forall>i<16. \<forall>b<8. bit (m ! i) b \<longrightarrow> bit (x ! i) b = bit (a ! i) b"
    show "\<forall>j<128. bit6 m j \<longrightarrow> bit6 x j = bit6 a j"
    proof (intro allI impI)
      fix j :: nat assume "j < 128" "bit6 m j"
      moreover have "j div 8 < 16" "7 - j mod 8 < 8" using \<open>j < 128\<close> by auto
      ultimately show "bit6 x j = bit6 a j" using l by (simp add: bit6_def)
    qed
  next
    assume r: "\<forall>j<128. bit6 m j \<longrightarrow> bit6 x j = bit6 a j"
    show "\<forall>i<16. \<forall>b<8. bit (m ! i) b \<longrightarrow> bit (x ! i) b = bit (a ! i) b"
    proof (intro allI impI)
      fix i b :: nat assume ib: "i < 16" "b < 8" and m: "bit (m ! i) b"
      let ?j = "8 * i + (7 - b)"
      have "?j < 128" "?j div 8 = i" "7 - ?j mod 8 = b" using ib byte_split [of "7 - b" i] by simp_all
      then have "bit6 y ?j = bit (y ! i) b" for y by (simp only: bit6_def)
      then show "bit (x ! i) b = bit (a ! i) b" using r m \<open>?j < 128\<close> by blast
    qed
  qed
  finally show ?thesis .
qed

lemma bit_ff: "bit (0xff :: u8) b = (b < 8)"
proof -
  have e: "(0xff :: u8) = mask 8" by (simp add: mask_eq_exp_minus_1)
  show ?thesis unfolding e by (simp add: bit_mask_iff)
qed

lemma bit_push_ff: "bit (push_bit k 0xff :: u8) b = (k \<le> b \<and> b < 8)"
  unfolding bit_push_bit_iff bit_ff by auto

text \<open>
  The mask a prefix leaves on top of the default \<open>ffff::\<close>: a prefix of at most eight bits
  does not reach the second byte, which stays set.
\<close>

lemma prefix_mask6_bits:
  assumes n: "1 \<le> n" "n \<le> 128" and m: "prefix_mask6 n ([0xff, 0xff] @ replicate 14 0) = Some m"
  shows "length m = 16" "\<forall>j<128. bit6 m j \<longleftrightarrow> j < n \<or> n \<le> 8 \<and> 8 \<le> j \<and> j < 16"
proof -
  let ?old = "[0xff, 0xff] @ replicate 14 0 :: bytes"
  have l: "length ?old = 16" by simp
  from prefix_mask6_bytes [OF l n] m
  have len: "length m = 16" and nth: "\<And>i. i < 16 \<Longrightarrow> m ! i = (if i < n div 8 then 0xff
        else if i = n div 8 \<and> n mod 8 > 0 then push_bit (8 - n mod 8) 0xff else ?old ! i)" by auto
  show "length m = 16" by (rule len)
  have old: "?old ! i = (if i < 2 then 0xff else 0)" if "i < 16" for i
    using that by (auto simp: nth_append nth_Cons' less_2_cases_iff)
  show "\<forall>j<128. bit6 m j \<longleftrightarrow> j < n \<or> n \<le> 8 \<and> 8 \<le> j \<and> j < 16"
  proof (intro allI impI)
    fix j :: nat assume j: "j < 128"
    define i b where "i = j div 8" and "b = j mod 8"
    have jd: "j = 8 * i + b" "b < 8" "i < 16" using j by (simp_all add: i_def b_def)
    define f r where "f = n div 8" and "r = n mod 8"
    have nd: "n = 8 * f + r" "r < 8" by (simp_all add: f_def r_def)
    have bitj: "bit6 m j = bit (m ! i) (7 - b)" by (simp add: bit6_def i_def b_def)
    consider "i < f" | "i = f" "r > 0" | "f \<le> i" "i = f \<longrightarrow> r = 0" by fastforce
    then show "bit6 m j \<longleftrightarrow> j < n \<or> n \<le> 8 \<and> 8 \<le> j \<and> j < 16"
    proof cases
      case 1
      then have "bit6 m j" using nth [OF jd(3)] unfolding bitj f_def by (simp only: if_True bit_ff)
      moreover have "j < n" using 1 jd nd by auto
      ultimately show ?thesis by simp
    next
      case 2
      then have "bit6 m j \<longleftrightarrow> 8 - r \<le> 7 - b"
        using nth [OF jd(3)] bit_push_ff [of "8 - r" "7 - b"] by (auto simp: bitj f_def r_def)
      also have "\<dots> \<longleftrightarrow> j < n" using 2 jd nd by auto
      finally have "bit6 m j \<longleftrightarrow> j < n" .
      moreover have "\<not> (n \<le> 8 \<and> 8 \<le> j)" using 2 jd nd by presburger
      ultimately show ?thesis by auto
    next
      case 3
      then have "\<not> i < n div 8" "\<not> (i = n div 8 \<and> n mod 8 > 0)" by (auto simp: f_def r_def)
      then have "m ! i = ?old ! i" unfolding nth [OF jd(3)] by (simp only: if_False)
      then have "bit6 m j \<longleftrightarrow> i < 2"
        unfolding bitj old [OF jd(3)] by (cases "i < 2") (simp_all only: bit_ff if_True if_False bit_0_eq bot_apply, simp_all)
      moreover have "\<not> j < n" using 3 jd nd by auto
      moreover have "i < 2 \<longleftrightarrow> n \<le> 8 \<and> 8 \<le> j \<and> j < 16"
      proof -
        consider "i = 0" | "i = 1" | "2 \<le> i" by linarith
        then show ?thesis
        proof cases
          case 2
          with 3 have "f = 0 \<or> f = 1 \<and> r = 0" by auto
          with 2 jd nd show ?thesis by auto
        qed (use 3 jd nd n(1) in auto)
      qed
      ultimately show ?thesis by simp
    qed
  qed
qed

section \<open>Properties\<close>

text \<open>C26: a filter \<open>net/n\<close> with a prefix of at most 32 bits does what it says: a version 4
  packet is counted exactly when one of its two addresses has the first \<open>n\<close> bits of the
  network and the other has not, as outgoing when it is the source that is inside.\<close>

theorem net_filter_semantics:
  assumes "sm_inv cfg" and "sm_map cfg ''net-filter'' = Some (net @ ''/'' @ print_nat n)"
    and "CHR ''/'' \<notin> set net" and "inet_aton net = Some a" and "n \<le> 32"
    and "header_ok p" and "ver p = 4"
  shows "\<exists>op' cfg'. options_config_get_net_filter inet_aton op cfg = Some (1, op', cfg') \<and>
     decide op' env p 4 hw = Some
       (let s = in_net n a (s_addr (take 4 (drop 12 p))); d = in_net n a (s_addr (take 4 (drop 16 p))) in
        if s \<and> \<not> d then Assign 0 1 else if d \<and> \<not> s then Assign 1 0 else Junk)"
proof -
  obtain op' cfg' m where f: "options_config_get_net_filter inet_aton op cfg = Some (1, op', cfg')"
    "netfilter op' = 1" "netfiltermask op' = m" "netfilternet op' = a AND m" "\<forall>j<32. net_bit m j = (j < n)"
    using net_filter_prefix [where inet_aton = inet_aton, OF assms(1-5)] by blast
  have "decide op' env p 4 hw = decide_by_filter4 op' p" using f(2) by (simp add: decide_def)
  then show ?thesis
    using f(1) ip4_fields [OF header4 [OF assms(6,7)]]
    by (simp add: decide_by_filter4_def in_filter_net_iff [OF f(3,4,5) assms(5)] Let_def)
qed

theorem net_filter_semantics_witness:
  "\<exists>cfg op' cfg'. options_config_get_net_filter (\<lambda>_. Some (le32 10 0 0 0)) (options_set_defaults None None) cfg =
     Some (1, op', cfg') \<and> decide op' no_addrs query 4 (- 1) = Some Junk"
proof -
  let ?cfg = "Map_Node (Some ''net-filter'') (Some (''10.0.0.0'' @ ''/'' @ print_nat 8)) Null_Map Null_Map"
  have c: "sm_inv ?cfg" "sm_map ?cfg ''net-filter'' = Some (''10.0.0.0'' @ ''/'' @ print_nat 8)"
    by (simp_all add: sm_inv_def sm_map_def)
  have "in_net 8 (le32 10 0 0 0) (s_addr (take 4 (drop 12 query)))"
    "in_net 8 (le32 10 0 0 0) (s_addr (take 4 (drop 16 query)))" by code_simp+
  with net_filter_semantics [OF c, of "\<lambda>_. Some (le32 10 0 0 0)" "le32 10 0 0 0" query
      "options_set_defaults None None" no_addrs "- 1"] query_facts
  show ?thesis by auto
qed

text \<open>A version 6 filter with a prefix of nine bits or more compares the first \<open>n\<close> bits of
  an address with those of the network. A prefix of eight bits or less also compares bits 8 to
  15, because the mask is written over the default \<open>ffff::\<close> and never cleared.\<close>

theorem net_filter6_semantics:
  assumes "sm_inv cfg" and "sm_map cfg ''net-filter6'' = Some (net @ ''/'' @ print_nat n)"
    and "CHR ''/'' \<notin> set net" and "inet_pton6 net = Some a" and "1 \<le> n" and "n \<le> 128"
    and "length a = 16" and "header_ok p" and "ver p = 6"
  shows "\<exists>op' cfg'. options_config_get_net_filter6 inet_pton6 (options_set_defaults first home) cfg =
       Some (1, op', cfg') \<and>
     (let inside = (\<lambda>x. \<forall>j<128. j < n \<or> n \<le> 8 \<and> 8 \<le> j \<and> j < 16 \<longrightarrow> bit6 x j = bit6 a j) in
      decide op' env p 6 hw = Some
        (if inside (src_addr p) \<and> \<not> inside (dst_addr p) then Assign 0 1
         else if inside (dst_addr p) \<and> \<not> inside (src_addr p) then Assign 1 0 else Junk))"
proof -
  let ?op = "options_set_defaults first home"
  have old: "netfilter6mask ?op = [0xff, 0xff] @ replicate 14 0" by (simp add: options_set_defaults_def)
  then have "length (netfilter6mask ?op) = 16" by simp
  from net_filter6_prefix [where ?inet_pton6.0 = inet_pton6, OF assms(1-6) this] obtain op' cfg' m where
    f: "options_config_get_net_filter6 inet_pton6 ?op cfg = Some (1, op', cfg')" "netfilter6 op' = 1"
    "prefix_mask6 n ([0xff, 0xff] @ replicate 14 0) = Some m" "netfilter6mask op' = m"
    "netfilter6net op' = map2 (\<lambda>a m. a AND m) a m" unfolding old by blast
  note m = prefix_mask6_bits [OF assms(5,6) f(3)]
  let ?inside = "\<lambda>x. \<forall>j<128. j < n \<or> n \<le> 8 \<and> 8 \<le> j \<and> j < 16 \<longrightarrow> bit6 x j = bit6 a j"
  have inside: "mask6 x m = netfilter6net op' \<longleftrightarrow> ?inside x" if "length x = 16" for x
    using masked6_eq_iff [OF that assms(7) m(1)] m(2) by (simp add: f(5))
  have l: "length (src_addr p) = 16" "length (dst_addr p) = 16" using addr_lengths [OF assms(8)] assms(9) by auto
  have "decide op' env p 6 hw = decide_by_filter6 op' p" using f(2) by (simp add: decide_def)
  moreover have "ip6_src p = Some (src_addr p)" "ip6_dst p = Some (dst_addr p)"
    using ip6_fields [OF header6 [OF assms(8,9)]] assms(9) by (simp_all add: src_addr_def dst_addr_def)
  ultimately have "decide op' env p 6 hw = Some
      (if ?inside (src_addr p) \<and> \<not> ?inside (dst_addr p) then Assign 0 1
       else if ?inside (dst_addr p) \<and> \<not> ?inside (src_addr p) then Assign 1 0 else Junk)"
    unfolding decide_by_filter6_def f(4) Let_def inside [OF l(1), symmetric] inside [OF l(2), symmetric]
    by (cases "mask6 (src_addr p) m = netfilter6net op'"; cases "mask6 (dst_addr p) m = netfilter6net op'") simp_all
  with f(1) show ?thesis unfolding Let_def by blast
qed

text \<open>A version 6 packet from \<open>2001:db8::1\<close> to \<open>2002::2\<close>, next header 59 (no payload).\<close>

definition packet6 :: bytes where
  "packet6 = [0x60, 0, 0, 0, 0, 0, 59, 64] @ [0x20, 0x01, 0x0d, 0xb8] @ replicate 11 0 @ [1] @
     [0x20, 0x02] @ replicate 13 0 @ [2]"

lemma packet6_facts: "header_ok packet6" "ver packet6 = 6"
  by code_simp+

theorem net_filter6_semantics_witness:
  "\<exists>cfg op' cfg'. options_config_get_net_filter6 (\<lambda>_. Some ([0x20, 0x01] @ replicate 14 0))
     (options_set_defaults None None) cfg = Some (1, op', cfg') \<and>
   decide op' no_addrs packet6 6 (- 1) = Some (Assign 0 1)"
proof -
  let ?cfg = "Map_Node (Some ''net-filter6'') (Some (''2001::'' @ ''/'' @ print_nat 8)) Null_Map Null_Map"
  let ?a = "[0x20, 0x01] @ replicate 14 0 :: bytes"
  have c: "sm_inv ?cfg" "sm_map ?cfg ''net-filter6'' = Some (''2001::'' @ ''/'' @ print_nat 8)"
    by (simp_all add: sm_inv_def sm_map_def)
  have same: "\<forall>j<16. bit6 (src_addr packet6) j = bit6 ?a j" by code_simp
  have differ: "bit6 (dst_addr packet6) 15 \<noteq> bit6 ?a 15" by code_simp
  have "\<forall>j<128. j < 8 \<or> (8::nat) \<le> 8 \<and> 8 \<le> j \<and> j < 16 \<longrightarrow> bit6 (src_addr packet6) j = bit6 ?a j"
    "\<not> (\<forall>j<128. j < 8 \<or> (8::nat) \<le> 8 \<and> 8 \<le> j \<and> j < 16 \<longrightarrow> bit6 (dst_addr packet6) j = bit6 ?a j)"
    using same differ by (auto intro!: exI [of _ 15])
  with net_filter6_semantics [OF c, of "\<lambda>_. Some ?a" ?a packet6 None None no_addrs "- 1"] packet6_facts
  show ?thesis by (auto simp: Let_def)
qed

text \<open>A version 6 packet whose direction is unknown is not dropped, although a comment
  in the code says so: with no filter, no hardware direction and foreign addresses it is
  charged as incoming to one connection whose addresses and family are all zero, the same
  one for every such packet of its protocol.\<close>

theorem uncertain_packets_counted:
  assumes "ver p = 6" and "netfilter6 op = 0" and "have_ip6_addr env = 0"
    and "promiscuous_but_choosy op = 0" and "link_local op \<noteq> 0" and "header_ok p" and "cap_inv cs rest"
  shows "\<exists>cs' h. handle_ip_packet ntop op env cs p (- 1) = Some cs' \<and>
     flows (acct cs') (addr_pair_zero\<lparr>protocol := ucast (p ! 6)\<rparr>) = Some h \<and>
     last_write h = history_pos (acct cs)"
proof -
  have "packet_entry op env p (- 1) = Some (addr_pair_zero\<lparr>protocol := ucast (p ! 6)\<rparr>, 0)"
    using assms(1-5) by (simp add: packet_entry_def decide_def decide_by_address_def with_proto_def ip_proto_def)
  then show ?thesis
    by (rule handle_ip_packet_ok [OF assms(6,7), of op env "- 1" _ 0 ntop]) (simp add: bumped_def)
qed

theorem uncertain_packets_counted_witness:
  "\<exists>cs' h. handle_ip_packet no_names plain_options no_addrs (capture_start procinfo_init) packet6 (- 1) = Some cs' \<and>
     flows (acct cs') (addr_pair_zero\<lparr>protocol := ucast (packet6 ! 6)\<rparr>) = Some h \<and>
     last_write h = history_pos (acct (capture_start procinfo_init))"
  by (rule uncertain_packets_counted [OF packet6_facts(2) plain_options_facts(2) _ _ plain_options_facts(3)
        packet6_facts(1) capture_start_ok(1) [OF procinfo_init_pinv]])
    (simp_all add: no_addrs_def plain_options_def options_set_defaults_def)

end
