(* ===== verification/Race.thy ===== *)
theory Race
  imports Accounting
begin

text \<open>
  Packet accounting takes no lock, while \<open>tick\<close> holds \<open>tick_mutex\<close> when it rotates the
  history in another thread. The accounting of \<open>handle_ip_packet\<close> is split here where it
  holds a pointer to a record, and a rotation runs in between.
\<close>

text \<open>The part of the accounting after the record has been found.\<close>

definition account_record ::
  "pool_addr \<Rightarrow> bool \<Rightarrow> int \<Rightarrow> nat \<Rightarrow> iftop_state \<Rightarrow> iftop_state option" where
  "account_record hist is_sent direction len st = do {
     h \<leftarrow> hist_items (store st) hist;
     h \<leftarrow> add_packet (history_pos st) is_sent len h;
     let st = st\<lparr>store := (store st)\<lparr>hist_items := (hist_items (store st))(hist \<mapsto> h)\<rparr>\<rparr>;
     tot \<leftarrow> add_totals (history_pos st) direction len (history_totals st);
     Some (st\<lparr>history_totals := tot\<rparr>)
   }"

lemma account_split:
  "account op ps st ap is_sent direction len =
     Option.bind (find_or_create op ps st ap) (\<lambda>(hist, st). account_record hist is_sent direction len st)"
  by (simp add: account_def account_record_def Let_def)

lemma rotate_frees:
  assumes inv: "flow_inv st rest" and n: "n \<in> set (nodes (history st))"
    and h: "hist_items (store st) (nd_record n) = Some h" and last: "last_write h = (history_pos st + 1) mod 40"
  shows "\<exists>st'. history_rotate st = Some st' \<and> hist_items (store st') (nd_record n) = None"
proof -
  let ?pos = "(history_pos st + 1) mod 40"
  let ?st = "st\<lparr>history_pos := ?pos\<rparr>"
  have pos: "0 \<le> ?pos" "?pos < 40" by simp_all
  note i = flow_invD [OF inv]
  have inv0: "flow_inv ?st rest" using inv pos by (simp add: flow_inv_def flow_recs_def)
  from rotate_loop_ok [OF inv0, of "[]" "nodes (history st)"] obtain st1 where
    r: "rotate_loop ?st (iter_start (nodes (history st))) = Some st1" "loop_post [] (nodes (history ?st)) ?st st1" by auto
  from r(2) have items: "hist_items (store st1) (nd_record n) = Option.bind (hist_items (store st) (nd_record n)) (rotated ?pos)"
    and eq: "history_totals st1 = history_totals st" "history_pos st1 = ?pos"
    using n unfolding loop_post_def by (simp_all del: split_paired_All)
  obtain s where nx: "hash_next_item (history st) None = Some (s, iter_start (nodes (history st)))"
    using hash_next_item_start [OF addr_invD(4) [OF i(1)]] by (metis prod.collapse snd_iter_result)
  obtain tot where "clear_slot ?pos (history_totals st) = Some tot" using clear_slot_ok [OF i(5) pos] by blast
  with r(1) eq obtain st' where "history_rotate st = Some st'" "store st' = store st1"
    by (auto simp: history_rotate_def Let_def nx HISTORY_LENGTH_def)
  with items h last show ?thesis by (simp add: rotated_def)
qed

text \<open>C18: accounting without the lock is a use after free. If a packet of a connection
  arrives that has been idle for thirty-nine slots, and the other thread rotates the history
  after the record has been found, the rotation frees exactly that record, and the rest of the
  accounting then writes through a dangling pointer; without the rotation the same accounting
  succeeds.\<close>

theorem accounting_race:
  assumes "flow_inv st rest" and "addr_pair_ok ap" and "pinv ps"
    and "flows st ap = Some h" and "last_write h = (history_pos st + 1) mod 40"
  shows "\<exists>hist st'. find_or_create op ps st ap = Some (hist, st) \<and> history_rotate st = Some st' \<and>
     account_record hist is_sent direction len st' = None \<and>
     account op ps st ap is_sent direction len = account_record hist is_sent direction len st \<and>
     hist_items (store st) hist = Some h"
proof -
  obtain n where n: "n \<in> set (nodes (history st))" "nd_key n = ap" "hist_items (store st) (nd_record n) = Some h"
    using assms(1,4) by (auto simp: flows_iff)
  have "hash_map (history st) ap = Some (nd_record n)"
    using n hash_map_iff [OF addr_invD(2,3) [OF flow_invD(1) [OF assms(1)]]] by blast
  then have f: "find_or_create op ps st ap = Some (nd_record n, st)"
    using addr_hash_find_ok [OF flow_invD(1) [OF assms(1)] assms(2)] by (simp add: find_or_create_def)
  obtain st' where "history_rotate st = Some st'" "hist_items (store st') (nd_record n) = None"
    using rotate_frees [OF assms(1) n(1,3) assms(5)] by blast
  with f n(3) show ?thesis by (auto simp: account_split account_record_def)
qed

theorem accounting_race_witness:
  "\<exists>hist st'. find_or_create plain_options procinfo_init (one_flow\<lparr>history_pos := 39\<rparr>) addr_pair_zero =
       Some (hist, one_flow\<lparr>history_pos := 39\<rparr>) \<and>
     history_rotate (one_flow\<lparr>history_pos := 39\<rparr>) = Some st' \<and> account_record hist True 1 60 st' = None"
proof -
  let ?st = "one_flow\<lparr>history_pos := 39\<rparr>"
  have "flow_inv ?st {}" using one_flow_ok(1) by (simp add: flow_inv_def flow_recs_def)
  moreover have "flows ?st addr_pair_zero = Some history_zero" using one_flow_ok(2) by (simp add: flows_def)
  moreover have "last_write history_zero = (history_pos ?st + 1) mod 40" by (simp add: history_zero_def)
  ultimately show ?thesis
    using accounting_race [OF _ addr_pair_zero_ok procinfo_init_pinv, of ?st "{}" history_zero plain_options True 1 60] by blast
qed

end
