(* ===== verification/Sorted_List.thy ===== *)
theory Sorted_List
  imports Prelude "HOL-Library.Multiset"
begin

text \<open>
  The sorted linked list of \<open>src/data/sorted_list.c\<close>. The chain of nodes is kept with the
  address of every node, because \<open>sorted_list_destroy\<close> frees nodes one by one or as one
  block depending on a flag: an address is a block and an index into it, and \<open>live\<close> lists
  the blocks that have been allocated and not been freed. Freeing anything but the start of
  a live block is undefined behaviour.

  \<open>compare\<close> is a field of the list, as in C. \<open>qsort\<close> is a function of the C library and a
  parameter: it is only known to sort when the comparison it is given is consistent.
\<close>

section \<open>Data\<close>

type_synonym node_addr = "nat \<times> nat"

record 'd sorted_list_type =
  chain :: "(node_addr \<times> 'd) list"
  batch_allocated :: int
  compare :: "'d \<Rightarrow> 'd \<Rightarrow> int"
  live :: "nat list"

text \<open>The items in list order.\<close>

definition items :: "'d sorted_list_type \<Rightarrow> 'd list" where
  "items l = map snd (chain l)"

text \<open>\<open>malloc\<close> gives a block that is not in use; \<open>free\<close> takes the address of a live block.\<close>

definition new_block :: "nat list \<Rightarrow> nat" where
  "new_block bs = Suc (sum_list bs)"

definition free_block :: "node_addr \<Rightarrow> nat list \<Rightarrow> nat list option" where
  "free_block a bs = (if snd a = 0 \<and> fst a \<in> set bs then Some (remove1 (fst a) bs) else None)"

section \<open>Operations\<close>

definition sorted_list_initialise :: "'d sorted_list_type \<Rightarrow> 'd sorted_list_type" where
  "sorted_list_initialise l = l\<lparr>chain := [], batch_allocated := 0\<rparr>"

text \<open>The walk of \<open>sorted_list_insert\<close>, then the new node at that place.\<close>

fun insert_after ::
  "('d \<Rightarrow> 'd \<Rightarrow> int) \<Rightarrow> node_addr \<times> 'd \<Rightarrow> (node_addr \<times> 'd) list \<Rightarrow> (node_addr \<times> 'd) list" where
  "insert_after cmp n [] = [n]"
| "insert_after cmp n (m # ms) = (if cmp (snd n) (snd m) > 0 then m # insert_after cmp n ms else n # m # ms)"

definition sorted_list_insert :: "'d sorted_list_type \<Rightarrow> 'd \<Rightarrow> 'd sorted_list_type" where
  "sorted_list_insert l x =
     (let b = new_block (live l) in
      l\<lparr>chain := insert_after (compare l) ((b, 0), x) (chain l), live := b # live l\<rparr>)"

text \<open>The comparison handed to \<open>qsort\<close>: never zero.\<close>

definition qsort_compare_wrapper :: "('d \<Rightarrow> 'd \<Rightarrow> int) \<Rightarrow> 'd \<Rightarrow> 'd \<Rightarrow> int" where
  "qsort_compare_wrapper qsort_compare_fn a b = (if qsort_compare_fn a b \<noteq> 0 then 1 else - 1)"

definition sorted_list_insert_batch ::
  "(('d \<Rightarrow> 'd \<Rightarrow> int) \<Rightarrow> 'd list \<Rightarrow> 'd list) \<Rightarrow> 'd sorted_list_type \<Rightarrow> 'd list \<Rightarrow> 'd sorted_list_type" where
  "sorted_list_insert_batch qsort l xs =
     (if xs = [] then l
      else let b = new_block (live l);
               sorted = qsort (qsort_compare_wrapper (compare l)) xs in
           l\<lparr>chain := zip (map (Pair b) [0..<length sorted]) sorted, batch_allocated := 1, live := b # live l\<rparr>)"

text \<open>The position after \<open>prev\<close>; positions are indices into the chain.\<close>

definition sorted_list_next_item :: "'d sorted_list_type \<Rightarrow> nat option \<Rightarrow> nat option" where
  "sorted_list_next_item l prev =
     (let i = (case prev of None \<Rightarrow> 0 | Some j \<Rightarrow> Suc j) in if i < length (chain l) then Some i else None)"

fun free_nodes :: "node_addr list \<Rightarrow> nat list \<Rightarrow> nat list option" where
  "free_nodes [] bs = Some bs"
| "free_nodes (a # as) bs = Option.bind (free_block a bs) (free_nodes as)"

definition sorted_list_destroy :: "'d sorted_list_type \<Rightarrow> 'd sorted_list_type option" where
  "sorted_list_destroy l =
     (case chain l of
        [] \<Rightarrow> Some l
      | n # _ \<Rightarrow> do {
          bs \<leftarrow> (if batch_allocated l \<noteq> 0 then free_block (fst n) (live l)
                  else free_nodes (map fst (chain l)) (live l));
          Some (l\<lparr>chain := [], batch_allocated := 0, live := bs\<rparr>) })"

section \<open>Memory\<close>

text \<open>
  The blocks of the list are exactly the blocks in use: either the chain is one block laid
  out in order, or every node is a block of its own. Nothing leaks and nothing dangles.
\<close>

definition list_mem :: "'d sorted_list_type \<Rightarrow> bool" where
  "list_mem l \<longleftrightarrow>
     (if batch_allocated l \<noteq> 0
      then \<exists>b. live l = [b] \<and> chain l \<noteq> [] \<and> map fst (chain l) = map (Pair b) [0..<length (chain l)]
      else (\<forall>a\<in>set (map fst (chain l)). snd a = 0) \<and> distinct (map fst (chain l)) \<and>
           mset (map (fst \<circ> fst) (chain l)) = mset (live l))"

lemma new_block_fresh: "new_block bs \<notin> set bs"
  using member_le_sum_list [of _ bs] by (fastforce simp: new_block_def)

lemma mset_insert_after: "mset (insert_after cmp n ms) = add_mset n (mset ms)"
  by (induction ms) auto

lemma free_nodes_all:
  assumes "\<forall>a\<in>set as. snd a = 0" "mset (map fst as) = mset bs"
  shows "free_nodes as bs = Some []"
  using assms
proof (induction as arbitrary: bs)
  case (Cons a as)
  then have "fst a \<in> set bs" by (metis list.set_intros(1) list.simps(9) set_mset_mset)
  moreover have "mset (map fst as) = mset (remove1 (fst a) bs)"
    using Cons.prems(2) by (metis add_mset_remove_trivial list.simps(9) mset.simps(2) mset_remove1)
  ultimately show ?case using Cons by (simp add: free_block_def)
qed simp

lemma sorted_list_initialise_mem: "live l = [] \<Longrightarrow> list_mem (sorted_list_initialise l)"
  by (simp add: list_mem_def sorted_list_initialise_def)

lemma sorted_list_insert_mem:
  assumes "list_mem l" "batch_allocated l = 0"
  shows "list_mem (sorted_list_insert l x)" "batch_allocated (sorted_list_insert l x) = 0"
proof -
  let ?n = "((new_block (live l), 0), x)"
  from assms have h: "\<forall>a\<in>set (map fst (chain l)). snd a = 0" "distinct (map fst (chain l))"
    "mset (map (fst \<circ> fst) (chain l)) = mset (live l)" by (auto simp: list_mem_def)
  have s: "mset (insert_after (compare l) ?n (chain l)) = mset (?n # chain l)" by (simp add: mset_insert_after)
  have "set (map (fst \<circ> fst) (chain l)) = set (live l)" using h(3) by (metis set_mset_mset)
  then have "(new_block (live l), 0) \<notin> set (map fst (chain l))" using new_block_fresh [of "live l"] by force
  then have "distinct (map fst (?n # chain l))" using h(2) by simp
  then have "distinct (map fst (insert_after (compare l) ?n (chain l)))"
    using arg_cong [OF s, of "image_mset fst"] by (metis mset_eq_imp_distinct_iff mset_map)
  moreover have "\<forall>a\<in>set (map fst (insert_after (compare l) ?n (chain l))). snd a = 0"
    using h(1) mset_eq_setD [OF s] by auto
  moreover have "mset (map (fst \<circ> fst) (insert_after (compare l) ?n (chain l))) = mset (new_block (live l) # live l)"
    using arg_cong [OF s, of "image_mset (fst \<circ> fst)"] h(3) by simp
  ultimately show "list_mem (sorted_list_insert l x)" "batch_allocated (sorted_list_insert l x) = 0"
    using assms(2) by (simp_all add: list_mem_def sorted_list_insert_def Let_def)
qed

lemma sorted_list_insert_batch_mem:
  assumes "list_mem l" "chain l = []" "length (qsort (qsort_compare_wrapper (compare l)) xs) = length xs"
  shows "list_mem (sorted_list_insert_batch qsort l xs)"
proof (cases "xs = []")
  case False
  from assms(1,2) have "live l = []" by (auto simp: list_mem_def split: if_splits)
  with False assms(3) show ?thesis
    by (auto simp: list_mem_def sorted_list_insert_batch_def Let_def)
qed (use assms in \<open>simp add: sorted_list_insert_batch_def\<close>)

lemma sorted_list_destroy_ok:
  assumes "list_mem l"
  shows "sorted_list_destroy l = Some (l\<lparr>chain := [], batch_allocated := 0, live := []\<rparr>)"
proof (cases "chain l")
  case Nil
  with assms have "batch_allocated l = 0" "live l = []" by (auto simp: list_mem_def split: if_splits)
  with Nil show ?thesis by (simp add: sorted_list_destroy_def)
next
  case (Cons n ns)
  show ?thesis
  proof (cases "batch_allocated l = 0")
    case True
    with assms have "\<forall>a\<in>set (map fst (chain l)). snd a = 0" "mset (map fst (map fst (chain l))) = mset (live l)"
      by (auto simp: list_mem_def)
    from free_nodes_all [OF this] True Cons show ?thesis by (simp add: sorted_list_destroy_def)
  next
    case False
    with assms obtain b where b: "live l = [b]" "map fst (chain l) = map (Pair b) [0..<length (chain l)]"
      by (auto simp: list_mem_def)
    have "fst n = (b, 0)" using b(2) Cons by (simp add: upt_conv_Cons del: upt_Suc)
    with False b(1) Cons show ?thesis by (simp add: sorted_list_destroy_def free_block_def)
  qed
qed

section \<open>Order\<close>

text \<open>
  What the list asks of a comparison: a positive value for \<open>cmp x y\<close> says that \<open>x\<close> goes
  behind \<open>y\<close>, and this is a total preorder. Two items that each go behind the other tie.
\<close>

locale list_order =
  fixes cmp :: "'d \<Rightarrow> 'd \<Rightarrow> int"
  assumes behind_total: "cmp x y > 0 \<or> cmp y x > 0"
    and behind_trans: "cmp x y > 0 \<Longrightarrow> cmp y z > 0 \<Longrightarrow> cmp x z > 0"
begin

abbreviation ordered :: "'d list \<Rightarrow> bool" where
  "ordered \<equiv> sorted_wrt (\<lambda>x y. cmp y x > 0)"

lemma insert_after_ordered:
  assumes "ordered (map snd ms)"
  shows "ordered (map snd (insert_after cmp n ms))"
  using assms
proof (induction ms)
  case (Cons m ms)
  show ?case
  proof (cases "cmp (snd n) (snd m) > 0")
    case True
    have "set (map snd (insert_after cmp n ms)) = insert (snd n) (set (map snd ms))"
      using arg_cong [OF mset_insert_after [of cmp n ms], of "\<lambda>m. snd ` set_mset m"] by simp
    with True Cons show ?thesis by auto
  next
    case False
    then have "cmp (snd m) (snd n) > 0" using behind_total by blast
    with False Cons.prems show ?thesis by (auto intro: behind_trans)
  qed
qed simp

text \<open>Items of an ordered list without ties are determined by the set of items.\<close>

lemma ordered_unique:
  assumes "ordered xs" "ordered ys" "mset xs = mset ys"
    and "\<forall>x\<in>set xs. \<forall>y\<in>set xs. cmp x y > 0 \<and> cmp y x > 0 \<longrightarrow> x = y"
  shows "xs = ys"
  using assms
proof (induction xs arbitrary: ys)
  case (Cons x xs)
  then obtain y ys' where ys: "ys = y # ys'" by (cases ys) auto
  have "x = y"
  proof (rule ccontr)
    assume ne: "x \<noteq> y"
    have "set (x # xs) = set ys" using Cons.prems(3) by (metis set_mset_mset)
    then have "y \<in> set xs" "x \<in> set ys'" using ne ys by auto
    with Cons.prems(1,2,4) ys ne show False by auto
  qed
  with Cons ys show ?case by auto
qed simp

end

section \<open>Sorting in one go\<close>

text \<open>
  A comparison function is consistent on a set if it orders every two of its elements one
  way only; this is what the C standard demands of the argument of \<open>qsort\<close>.
\<close>

definition consistent :: "('d \<Rightarrow> 'd \<Rightarrow> int) \<Rightarrow> 'd set \<Rightarrow> bool" where
  "consistent c S \<longleftrightarrow>
     (\<forall>x\<in>S. \<forall>y\<in>S. x \<noteq> y \<longrightarrow> (c x y > 0 \<longleftrightarrow> c y x < 0) \<and> (c x y = 0 \<longleftrightarrow> c y x = 0)) \<and>
     (\<forall>x\<in>S. \<forall>y\<in>S. \<forall>z\<in>S. x \<noteq> y \<and> y \<noteq> z \<and> x \<noteq> z \<longrightarrow> c x y \<le> 0 \<longrightarrow> c y z \<le> 0 \<longrightarrow> c x z \<le> 0)"

text \<open>What is documented of \<open>qsort\<close> on an array of distinct pointers.\<close>

definition qsort_spec :: "(('d \<Rightarrow> 'd \<Rightarrow> int) \<Rightarrow> 'd list \<Rightarrow> 'd list) \<Rightarrow> bool" where
  "qsort_spec qsort \<longleftrightarrow> (\<forall>c xs. distinct xs \<longrightarrow> consistent c (set xs) \<longrightarrow>
     mset (qsort c xs) = mset xs \<and> sorted_wrt (\<lambda>x y. c x y \<le> 0) (qsort c xs))"

fun insert_all :: "'d sorted_list_type \<Rightarrow> 'd list \<Rightarrow> 'd sorted_list_type" where
  "insert_all l [] = l"
| "insert_all l (x # xs) = insert_all (sorted_list_insert l x) xs"

lemma insert_all_compare [simp]: "compare (insert_all l xs) = compare l"
  by (induction xs arbitrary: l) (simp_all add: sorted_list_insert_def Let_def)

lemma insert_all_mset: "mset (items (insert_all l xs)) = mset (items l) + mset xs"
proof (induction xs arbitrary: l)
  case (Cons x xs)
  have "mset (items (sorted_list_insert l x)) = add_mset x (mset (items l))"
    using arg_cong [OF mset_insert_after, of "image_mset snd" "compare l" "((new_block (live l), 0), x)" "chain l"]
    by (simp add: items_def sorted_list_insert_def Let_def)
  with Cons show ?case by simp
qed (simp add: items_def)

lemma insert_all_mem:
  "list_mem l \<Longrightarrow> batch_allocated l = 0 \<Longrightarrow> list_mem (insert_all l xs) \<and> batch_allocated (insert_all l xs) = 0"
  by (induction xs arbitrary: l) (auto simp: sorted_list_insert_mem)

context list_order
begin

lemma insert_all_ordered:
  assumes "compare l = cmp" "ordered (items l)"
  shows "ordered (items (insert_all l xs))"
  using assms
proof (induction xs arbitrary: l)
  case (Cons x xs)
  then have "ordered (items (sorted_list_insert l x))"
    using insert_after_ordered [of "chain l"] by (simp add: items_def sorted_list_insert_def Let_def)
  moreover have "compare (sorted_list_insert l x) = cmp" using Cons.prems by (simp add: sorted_list_insert_def Let_def)
  ultimately show ?case using Cons.IH by simp
qed simp

text \<open>The wrapper is consistent exactly when no two items tie.\<close>

lemma wrapper_consistent_iff:
  assumes "\<forall>x y. cmp x y \<ge> 0"
  shows "consistent (qsort_compare_wrapper cmp) S \<longleftrightarrow>
     (\<forall>x\<in>S. \<forall>y\<in>S. x \<noteq> y \<longrightarrow> \<not> (cmp x y > 0 \<and> cmp y x > 0))"
proof
  assume c: "consistent (qsort_compare_wrapper cmp) S"
  show "\<forall>x\<in>S. \<forall>y\<in>S. x \<noteq> y \<longrightarrow> \<not> (cmp x y > 0 \<and> cmp y x > 0)"
  proof (intro ballI impI notI)
    fix x y assume "x \<in> S" "y \<in> S" "x \<noteq> y" and pos: "cmp x y > 0 \<and> cmp y x > 0"
    with c have "qsort_compare_wrapper cmp x y > 0 \<longleftrightarrow> qsort_compare_wrapper cmp y x < 0"
      unfolding consistent_def by blast
    with pos show False by (simp add: qsort_compare_wrapper_def)
  qed
next
  assume t: "\<forall>x\<in>S. \<forall>y\<in>S. x \<noteq> y \<longrightarrow> \<not> (cmp x y > 0 \<and> cmp y x > 0)"
  have w: "qsort_compare_wrapper cmp x y = (if cmp x y > 0 then 1 else - 1)" for x y
    using assms by (simp add: qsort_compare_wrapper_def order_less_le)
  show "consistent (qsort_compare_wrapper cmp) S"
    unfolding consistent_def w
  proof (intro conjI ballI impI)
    fix x y assume "x \<in> S" "y \<in> S" "x \<noteq> y"
    with t behind_total [of x y] show
      "((if cmp x y > 0 then 1 else - 1) > (0::int)) = ((if cmp y x > 0 then 1 else - 1) < (0::int))"
      "((if cmp x y > 0 then 1 else - 1) = (0::int)) = ((if cmp y x > 0 then 1 else - 1) = (0::int))" by auto
  next
    fix x y z assume S: "x \<in> S" "y \<in> S" "z \<in> S" and ne: "x \<noteq> y \<and> y \<noteq> z \<and> x \<noteq> z"
      and "(if cmp x y > 0 then 1 else - 1) \<le> (0::int)" "(if cmp y z > 0 then 1 else - 1) \<le> (0::int)"
    then have "cmp y x > 0" "cmp z y > 0" using behind_total [of x y] behind_total [of y z] by (auto split: if_splits)
    then have "cmp z x > 0" by (rule behind_trans [rotated])
    with t S ne show "(if cmp x z > 0 then 1 else - 1) \<le> (0::int)" by auto
  qed
qed

lemma batch_ordered:
  assumes q: "qsort_spec qsort" and nonneg: "\<forall>x y. cmp x y \<ge> 0" and d: "distinct xs"
    and t: "\<forall>x\<in>set xs. \<forall>y\<in>set xs. x \<noteq> y \<longrightarrow> \<not> (cmp x y > 0 \<and> cmp y x > 0)"
  shows "mset (qsort (qsort_compare_wrapper cmp) xs) = mset xs" "ordered (qsort (qsort_compare_wrapper cmp) xs)"
proof -
  let ?s = "qsort (qsort_compare_wrapper cmp) xs"
  have c: "consistent (qsort_compare_wrapper cmp) (set xs)" using wrapper_consistent_iff [OF nonneg] t by blast
  with q d have p: "mset ?s = mset xs" "sorted_wrt (\<lambda>x y. qsort_compare_wrapper cmp x y \<le> 0) ?s"
    by (auto simp: qsort_spec_def)
  show "mset ?s = mset xs" by (rule p)
  have "cmp y x > 0" if "qsort_compare_wrapper cmp x y \<le> 0" for x y
    using that behind_total [of x y] by (auto simp: qsort_compare_wrapper_def split: if_splits)
  then show "ordered ?s" by (intro sorted_wrt_mono_rel [OF _ p(2)])
qed

lemma batch_eq_insert_all:
  assumes "qsort_spec qsort" "\<forall>x y. cmp x y \<ge> 0" "distinct xs"
    "\<forall>x\<in>set xs. \<forall>y\<in>set xs. x \<noteq> y \<longrightarrow> \<not> (cmp x y > 0 \<and> cmp y x > 0)"
    "compare l = cmp" "chain l = []"
  shows "items (sorted_list_insert_batch qsort l xs) = items (insert_all l xs)"
proof (cases "xs = []")
  case False
  let ?s = "qsort (qsort_compare_wrapper cmp) xs"
  note s = batch_ordered [OF assms(1-4)]
  have i: "items (sorted_list_insert_batch qsort l xs) = ?s"
    using False assms(5) by (simp add: sorted_list_insert_batch_def items_def Let_def)
  have e: "items l = []" using assms(6) by (simp add: items_def)
  have "set ?s = set xs" using s(1) by (metis set_mset_mset)
  moreover have "ordered (items (insert_all l xs))" using insert_all_ordered [OF assms(5)] e by simp
  ultimately have "?s = items (insert_all l xs)"
    using s assms(4) by (intro ordered_unique) (auto simp: insert_all_mset e)
  with i show ?thesis by simp
qed (use assms(6) in \<open>simp add: sorted_list_insert_batch_def\<close>)

end

end
