(* ===== verification/Screen_Line.thy ===== *)
theory Screen_Line
  imports Complex_Main Sorted_List Addr_Hash Options
begin

text \<open>
  The lines of the display (\<open>src/include/host_pair_line.h\<close>) and the order in which
  \<open>src/ui/ui.c\<close> sorts them. Rates are \<open>long double\<close> in C and rationals here: sums of byte
  counts are exact in both, the rounding of a division is not modelled.
\<close>

section \<open>Data\<close>

definition HISTORY_DIVISIONS :: nat where "HISTORY_DIVISIONS = 3"
definition HOSTNAME_LENGTH :: nat where "HOSTNAME_LENGTH = 256"
definition PROCNAME_LENGTH :: nat where "PROCNAME_LENGTH = 64"

record host_pair_line =
  line_ap :: addr_pair
  line_total_recv :: u64
  line_total_sent :: u64
  line_recv :: "rat list"
  line_sent :: "rat list"
  cached_hostname :: string
  line_pid :: int
  process_name :: string

text \<open>A line after \<open>xcalloc\<close>.\<close>

definition line_zero :: host_pair_line where
  "line_zero = \<lparr>line_ap = addr_pair_zero, line_total_recv = 0, line_total_sent = 0,
     line_recv = replicate HISTORY_DIVISIONS 0, line_sent = replicate HISTORY_DIVISIONS 0,
     cached_hostname = [], line_pid = 0, process_name = []\<rparr>"

section \<open>Comparison\<close>

text \<open>The loop over the divisions: the first one that differs decides.\<close>

fun div_compare :: "(rat \<times> rat) list \<Rightarrow> int option" where
  "div_compare [] = None"
| "div_compare ((a, b) # ps) = (if a \<noteq> b then Some (if a < b then 1 else 0) else div_compare ps)"

definition divs :: "nat \<Rightarrow> (nat \<Rightarrow> rat) \<Rightarrow> rat list" where
  "divs start f = map f [start..<HISTORY_DIVISIONS]"

definition line_both :: "host_pair_line \<Rightarrow> nat \<Rightarrow> rat" where
  "line_both l i = line_recv l ! i + line_sent l ! i"

definition screen_line_bandwidth_compare :: "options_t \<Rightarrow> host_pair_line \<Rightarrow> host_pair_line \<Rightarrow> nat \<Rightarrow> int" where
  "screen_line_bandwidth_compare op aa bb start_div =
     (let cmp = (\<lambda>f. div_compare (zip (divs start_div (f aa)) (divs start_div (f bb))));
          first = (case linedisplay op of
              OPTION_LINEDISPLAY_ONE_LINE_SENT \<Rightarrow> cmp (\<lambda>l i. line_sent l ! i)
            | OPTION_LINEDISPLAY_ONE_LINE_RECV \<Rightarrow> cmp (\<lambda>l i. line_recv l ! i)
            | _ \<Rightarrow> None) in
      case first of
        Some r \<Rightarrow> r
      | None \<Rightarrow> (case cmp line_both of Some r \<Rightarrow> r | None \<Rightarrow> 1))"

definition screen_line_host_compare :: "options_t \<Rightarrow> host_pair_line \<Rightarrow> host_pair_line \<Rightarrow> int" where
  "screen_line_host_compare op aa bb =
     (let cmp_result = strcmp (cached_hostname aa) (cached_hostname bb) in
      if cmp_result = 0 then screen_line_bandwidth_compare op aa bb 2
      else if cmp_result > 0 then 1 else 0)"

definition screen_line_compare :: "options_t \<Rightarrow> host_pair_line \<Rightarrow> host_pair_line \<Rightarrow> int" where
  "screen_line_compare op aa bb =
     (case sort_by op of
        OPTION_SORT_DIV1 \<Rightarrow> screen_line_bandwidth_compare op aa bb 0
      | OPTION_SORT_DIV2 \<Rightarrow> screen_line_bandwidth_compare op aa bb 1
      | OPTION_SORT_DIV3 \<Rightarrow> screen_line_bandwidth_compare op aa bb 2
      | OPTION_SORT_SRC \<Rightarrow> screen_line_host_compare op aa bb
      | OPTION_SORT_DEST \<Rightarrow> screen_line_host_compare op aa bb)"

section \<open>The comparison is a total preorder\<close>

text \<open>The key by which lines are compared from division \<open>start\<close> on, lexicographically.\<close>

definition bandwidth_key :: "options_t \<Rightarrow> nat \<Rightarrow> host_pair_line \<Rightarrow> rat list" where
  "bandwidth_key op start l =
     (case linedisplay op of
        OPTION_LINEDISPLAY_ONE_LINE_SENT \<Rightarrow> divs start (\<lambda>i. line_sent l ! i)
      | OPTION_LINEDISPLAY_ONE_LINE_RECV \<Rightarrow> divs start (\<lambda>i. line_recv l ! i)
      | _ \<Rightarrow> []) @ divs start (line_both l)"

lemma div_compare_append:
  "div_compare (ps @ qs) = (case div_compare ps of Some r \<Rightarrow> Some r | None \<Rightarrow> div_compare qs)"
  by (induction ps rule: div_compare.induct) auto

lemma div_compare_le:
  assumes "length as = length bs"
  shows "(case div_compare (zip as bs) of Some r \<Rightarrow> r | None \<Rightarrow> 1) = (if as \<le> bs then 1 else 0)"
  using assms by (induction as bs rule: list_induct2) auto

lemma bandwidth_compare_key:
  "screen_line_bandwidth_compare op aa bb start =
     (if bandwidth_key op start aa \<le> bandwidth_key op start bb then 1 else 0)"
proof -
  have l: "length (bandwidth_key op start aa) = length (bandwidth_key op start bb)"
    by (simp add: bandwidth_key_def divs_def split: option_linedisplay_t.split)
  have z: "div_compare (zip (divs start f @ xs) (divs start g @ ys)) =
      (case div_compare (zip (divs start f) (divs start g)) of Some r \<Rightarrow> Some r | None \<Rightarrow> div_compare (zip xs ys))"
    for f g xs ys by (simp add: divs_def div_compare_append)
  have "screen_line_bandwidth_compare op aa bb start =
      (case div_compare (zip (bandwidth_key op start aa) (bandwidth_key op start bb)) of Some r \<Rightarrow> r | None \<Rightarrow> 1)"
    unfolding screen_line_bandwidth_compare_def bandwidth_key_def Let_def
    by (cases "linedisplay op") (simp_all add: z split: option.split)
  with div_compare_le [OF l] show ?thesis by simp
qed

lemma strcmp_pos: "strcmp s t > 0 \<longleftrightarrow> t < s"
  using strcmp_simps [of s t] by (metis less_irrefl linorder_less_linear not_less_iff_gr_or_eq)

lemma host_compare_key:
  "screen_line_host_compare op aa bb =
     (if cached_hostname bb < cached_hostname aa \<or>
         cached_hostname aa = cached_hostname bb \<and> bandwidth_key op 2 aa \<le> bandwidth_key op 2 bb then 1 else 0)"
  by (auto simp: screen_line_host_compare_def bandwidth_compare_key strcmp_pos Let_def)

lemma screen_line_compare_cases:
  obtains n where "\<And>aa bb. screen_line_compare op aa bb = screen_line_bandwidth_compare op aa bb n"
  | "\<And>aa bb. screen_line_compare op aa bb = screen_line_host_compare op aa bb"
  by (cases "sort_by op") (auto simp: screen_line_compare_def)

lemma screen_line_compare_nonneg: "screen_line_compare op aa bb \<ge> 0"
  by (rule screen_line_compare_cases [of op]) (simp_all add: bandwidth_compare_key host_compare_key)

interpretation screen_order: list_order "screen_line_compare op" for op
proof
  fix x y show "screen_line_compare op x y > 0 \<or> screen_line_compare op y x > 0"
    by (rule screen_line_compare_cases [of op]) (auto simp: bandwidth_compare_key host_compare_key split: if_splits)
next
  fix x y z
  assume "screen_line_compare op x y > 0" "screen_line_compare op y z > 0"
  then show "screen_line_compare op x z > 0"
    by (cases rule: screen_line_compare_cases [of op])
      (auto simp: bandwidth_compare_key host_compare_key split: if_splits)
qed

end
