(* ===== verification/Export.thy ===== *)
theory Export
  imports Screen_Line
begin

text \<open>
  The export mode of \<open>src/ui/export.c\<close>: the sorted lines as JSON or CSV on the standard
  output. What is printed is a string. The text of a rate (\<open>"%.0Lf"\<close>) and of the time are
  parameters. The address buffers live across the lines, and \<open>inet_ntop\<close> leaves them alone
  for an unknown family: \<^term>\<open>None\<close> is a buffer never written, and printing it is undefined.
\<close>

record export_env =
  e_ntop :: "int \<Rightarrow> bytes \<Rightarrow> string"
  e_rate :: "rat \<Rightarrow> string"
  e_time :: string
  e_opts :: options_t

definition nl :: string where "nl = [CHR 0x0A]"

definition protocol_name :: "u16 \<Rightarrow> string" where
  "protocol_name proto =
     (if proto = 6 then ''TCP'' else if proto = 17 then ''UDP'' else if proto = 1 then ''ICMP''
      else if proto = 58 then ''ICMPv6'' else ''OTHER'')"

definition sprint_addr :: "export_env \<Rightarrow> int \<Rightarrow> bytes \<Rightarrow> string option \<Rightarrow> string option" where
  "sprint_addr env af address buf = (if af = AF_INET \<or> af = AF_INET6 then Some (e_ntop env af address) else buf)"

fun json_escape_chars :: "string \<Rightarrow> string" where
  "json_escape_chars [] = []"
| "json_escape_chars (c # s) =
     (if c = CHR 0x22 then [CHR 0x5C, CHR 0x22]
      else if c = CHR 0x5C then [CHR 0x5C, CHR 0x5C]
      else [c]) @ json_escape_chars s"

definition json_escape_string :: "string \<Rightarrow> string" where
  "json_escape_string s = CHR 0x22 # json_escape_chars s @ [CHR 0x22]"

text \<open>A member \<open>"name": value\<close>, as the format strings have it.\<close>

definition member :: "string \<Rightarrow> string \<Rightarrow> string \<Rightarrow> string" where
  "member indent name val = indent @ [CHR 0x22] @ name @ [CHR 0x22] @ '': '' @ val"

definition quoted :: "string \<Rightarrow> string" where
  "quoted s = [CHR 0x22] @ s @ [CHR 0x22]"

definition json_flow :: "export_env \<Rightarrow> string \<Rightarrow> string \<Rightarrow> host_pair_line \<Rightarrow> string" where
  "json_flow env src dst line =
     (let m = (\<lambda>name val. member ''      '' name val @ '','' @ nl) in
      ''    {'' @ nl @
      m ''source'' (quoted src) @ m ''source_port'' (print_nat (unat (src_port (line_ap line)))) @
      m ''destination'' (quoted dst) @ m ''destination_port'' (print_nat (unat (dst_port (line_ap line)))) @
      m ''protocol'' (quoted (protocol_name (protocol (line_ap line)))) @
      (if show_processes (e_opts env) \<noteq> 0
       then m ''pid'' (print_int (line_pid line)) @ m ''process_name'' (json_escape_string (process_name line)) else []) @
      m ''sent_2s'' (e_rate env (line_sent line ! 0)) @ m ''sent_10s'' (e_rate env (line_sent line ! 1)) @
      m ''sent_40s'' (e_rate env (line_sent line ! 2)) @
      m ''recv_2s'' (e_rate env (line_recv line ! 0)) @ m ''recv_10s'' (e_rate env (line_recv line ! 1)) @
      m ''recv_40s'' (e_rate env (line_recv line ! 2)) @
      m ''total_sent'' (print_nat (unat (line_total_sent line))) @
      member ''      '' ''total_recv'' (print_nat (unat (line_total_recv line))) @ nl @ ''    }'')"

text \<open>The loop over the list, with the two address buffers and the flag \<open>first\<close>.\<close>

fun json_flows :: "export_env \<Rightarrow> bool \<Rightarrow> string option \<Rightarrow> string option \<Rightarrow> host_pair_line list \<Rightarrow> string option" where
  "json_flows env first src dst [] = Some []"
| "json_flows env first src dst (line # ls) = do {
     let src = sprint_addr env (address_family (line_ap line)) (src6 (line_ap line)) src;
     let dst = sprint_addr env (address_family (line_ap line)) (dst6 (line_ap line)) dst;
     s \<leftarrow> src; d \<leftarrow> dst;
     rest \<leftarrow> json_flows env False src dst ls;
     Some ((if first then [] else '','' @ nl) @ json_flow env s d line @ rest)
   }"

definition json_head :: "export_env \<Rightarrow> string \<Rightarrow> string" where
  "json_head env iface =
     ''{'' @ nl @ member ''  '' ''timestamp'' (quoted (e_time env)) @ '','' @ nl @
     member ''  '' ''interface'' (json_escape_string iface) @ '','' @ nl @ member ''  '' ''flows'' ''['' @ nl"

text \<open>\<open>cum\<close> and \<open>peak\<close>: the cumulative totals and the peaks, sent and received.\<close>

definition json_tail :: "export_env \<Rightarrow> host_pair_line \<Rightarrow> u64 \<times> u64 \<Rightarrow> int \<times> int \<Rightarrow> string" where
  "json_tail env tot cum peak =
     (let m = (\<lambda>name val. member ''    '' name val @ '','' @ nl) in
      nl @ ''  ],'' @ nl @ member ''  '' ''totals'' ''{'' @ nl @
      m ''sent_2s'' (e_rate env (line_sent tot ! 0)) @ m ''sent_10s'' (e_rate env (line_sent tot ! 1)) @
      m ''sent_40s'' (e_rate env (line_sent tot ! 2)) @
      m ''recv_2s'' (e_rate env (line_recv tot ! 0)) @ m ''recv_10s'' (e_rate env (line_recv tot ! 1)) @
      m ''recv_40s'' (e_rate env (line_recv tot ! 2)) @
      m ''cumulative_sent'' (print_nat (unat (fst cum))) @ m ''cumulative_recv'' (print_nat (unat (snd cum))) @
      m ''peak_sent'' (print_int (fst peak)) @ member ''    '' ''peak_recv'' (print_int (snd peak)) @ nl @
      ''  }'' @ nl @ ''}'' @ nl)"

definition export_print_json ::
  "export_env \<Rightarrow> host_pair_line list \<Rightarrow> host_pair_line \<Rightarrow> u64 \<times> u64 \<Rightarrow> int \<times> int \<Rightarrow> string option" where
  "export_print_json env ls tot cum peak = do {
     iface \<leftarrow> interface (e_opts env);
     flows \<leftarrow> json_flows env True None None ls;
     Some (json_head env iface @ flows @ json_tail env tot cum peak)
   }"

definition csv_header :: "export_env \<Rightarrow> string" where
  "csv_header env =
     ''timestamp,source,source_port,destination,destination_port,protocol,'' @
     (if show_processes (e_opts env) \<noteq> 0 then ''pid,process_name,'' else []) @
     ''sent_2s,sent_10s,sent_40s,recv_2s,recv_10s,recv_40s,total_sent,total_recv'' @ nl"

definition csv_row :: "export_env \<Rightarrow> string \<Rightarrow> string \<Rightarrow> host_pair_line \<Rightarrow> string" where
  "csv_row env src dst line =
     (let f = (\<lambda>s. s @ '','') in
      f (e_time env) @ f src @ f (print_nat (unat (src_port (line_ap line)))) @ f dst @
      f (print_nat (unat (dst_port (line_ap line)))) @ f (protocol_name (protocol (line_ap line))) @
      (if show_processes (e_opts env) \<noteq> 0 then f (print_int (line_pid line)) @ f (process_name line) else []) @
      f (e_rate env (line_sent line ! 0)) @ f (e_rate env (line_sent line ! 1)) @ f (e_rate env (line_sent line ! 2)) @
      f (e_rate env (line_recv line ! 0)) @ f (e_rate env (line_recv line ! 1)) @ f (e_rate env (line_recv line ! 2)) @
      f (print_nat (unat (line_total_sent line))) @ print_nat (unat (line_total_recv line)) @ nl)"

fun csv_rows :: "export_env \<Rightarrow> string option \<Rightarrow> string option \<Rightarrow> host_pair_line list \<Rightarrow> string option" where
  "csv_rows env src dst [] = Some []"
| "csv_rows env src dst (line # ls) = do {
     let src = sprint_addr env (address_family (line_ap line)) (src6 (line_ap line)) src;
     let dst = sprint_addr env (address_family (line_ap line)) (dst6 (line_ap line)) dst;
     s \<leftarrow> src; d \<leftarrow> dst;
     rest \<leftarrow> csv_rows env src dst ls;
     Some (csv_row env s d line @ rest)
   }"

text \<open>The flag \<open>csv_header_printed\<close> is passed and returned.\<close>

definition export_print_csv :: "export_env \<Rightarrow> bool \<Rightarrow> host_pair_line list \<Rightarrow> (string \<times> bool) option" where
  "export_print_csv env header_printed ls = do {
     rows \<leftarrow> csv_rows env None None ls;
     Some ((if header_printed then [] else csv_header env) @ rows, True)
   }"

definition export_print ::
  "export_env \<Rightarrow> bool \<Rightarrow> host_pair_line list \<Rightarrow> host_pair_line \<Rightarrow> u64 \<times> u64 \<Rightarrow> int \<times> int \<Rightarrow> (string \<times> bool) option" where
  "export_print env header_printed ls tot cum peak =
     (if export_mode (e_opts env) = 1 then do { s \<leftarrow> export_print_json env ls tot cum peak; Some (s, header_printed) }
      else if export_mode (e_opts env) = 2 then export_print_csv env header_printed ls
      else Some ([], header_printed))"

text \<open>The loop: \<open>clock\<close> are the readings of \<open>time\<close> and of \<open>foad\<close> on entry of each round; the result counts ticks.\<close>

fun export_loop :: "int \<Rightarrow> int \<Rightarrow> (int \<times> int) list \<Rightarrow> nat" where
  "export_loop duration start [] = 0"
| "export_loop duration start ((now, foad) # clock) =
     (if foad \<noteq> 0 then 0
      else if duration > 0 \<and> now - start \<ge> duration then 0
      else Suc (export_loop duration start clock))"

section \<open>Reading it back\<close>

text \<open>A reader of JSON string literals.\<close>

fun json_chars :: "string \<Rightarrow> (string \<times> string) option" where
  "json_chars [] = None"
| "json_chars (c # s) =
     (if c = CHR 0x22 then Some ([], s)
      else if c = CHR 0x5C then
        (case s of
           d # s' \<Rightarrow> if d = CHR 0x22 \<or> d = CHR 0x5C then map_option (\<lambda>(t, r). (d # t, r)) (json_chars s') else None
         | [] \<Rightarrow> None)
      else map_option (\<lambda>(t, r). (c # t, r)) (json_chars s))"

definition json_string :: "string \<Rightarrow> (string \<times> string) option" where
  "json_string s = (case s of c # s' \<Rightarrow> if c = CHR 0x22 then json_chars s' else None | [] \<Rightarrow> None)"

lemma json_chars_escape: "json_chars (json_escape_chars s @ CHR 0x22 # rest) = Some (s, rest)"
  by (induction s) auto

text \<open>The lines with known families, and the flows they give, separated by commas.\<close>

definition known_family :: "host_pair_line \<Rightarrow> bool" where
  "known_family l \<longleftrightarrow> address_family (line_ap l) = AF_INET \<or> address_family (line_ap l) = AF_INET6"

definition flow_text :: "export_env \<Rightarrow> host_pair_line \<Rightarrow> string" where
  "flow_text env l = json_flow env (e_ntop env (address_family (line_ap l)) (src6 (line_ap l)))
     (e_ntop env (address_family (line_ap l)) (dst6 (line_ap l))) l"

definition row_text :: "export_env \<Rightarrow> host_pair_line \<Rightarrow> string" where
  "row_text env l = csv_row env (e_ntop env (address_family (line_ap l)) (src6 (line_ap l)))
     (e_ntop env (address_family (line_ap l)) (dst6 (line_ap l))) l"

fun separated :: "string \<Rightarrow> string list \<Rightarrow> string" where
  "separated sep [] = []"
| "separated sep [x] = x"
| "separated sep (x # y # xs) = x @ sep @ separated sep (y # xs)"

lemma json_flows_known:
  "\<forall>l\<in>set ls. known_family l \<Longrightarrow>
   json_flows env first src dst ls = Some ((if first \<or> ls = [] then [] else '','' @ nl) @ separated ('','' @ nl) (map (flow_text env) ls))"
proof (induction ls arbitrary: first src dst)
  case (Cons l ls)
  then have k: "known_family l" "\<forall>l\<in>set ls. known_family l" by auto
  have "sprint_addr env (address_family (line_ap l)) a buf = Some (e_ntop env (address_family (line_ap l)) a)" for a buf
    using k(1) by (simp add: sprint_addr_def known_family_def)
  with Cons.IH [OF k(2), of False] show ?case
    by (cases ls) (simp_all add: Let_def flow_text_def)
qed simp

lemma csv_rows_known:
  "\<forall>l\<in>set ls. known_family l \<Longrightarrow> csv_rows env src dst ls = Some (concat (map (row_text env) ls))"
  by (induction ls arbitrary: src dst) (auto simp: sprint_addr_def known_family_def row_text_def Let_def)

section \<open>Columns\<close>

definition commas :: "string \<Rightarrow> nat" where
  "commas s = count_list s (CHR '','')"

lemma commas_simps [simp]:
  "commas [] = 0" "commas (c # s) = (if c = CHR '','' then Suc (commas s) else commas s)" "commas (s @ t) = commas s + commas t"
  by (simp_all add: commas_def)

lemma commas_nat [simp]: "commas (print_nat n) = 0"
proof -
  have "CHR '','' \<notin> set (print_nat n)" using print_nat_digits [of n] by (auto simp: isdigit_def char_code_def)
  then show ?thesis by (simp add: commas_def count_list_0_iff)
qed

lemma commas_int [simp]: "commas (print_int v) = 0"
  by (simp add: print_int_def)

lemma commas_protocol [simp]: "commas (protocol_name p) = 0"
  by (simp add: protocol_name_def)

lemma commas_nl [simp]: "commas nl = 0"
  by (simp add: nl_def)

section \<open>Properties\<close>


text \<open>C31: the export lists exactly the lines of the display, in their order. If every line has
  a known address family, the JSON output returns and contains the flows of the lines
  separated by commas, none before the first and none after the last, and the CSV output is
  one row per line, with the header in front of the first output only.\<close>

theorem export_lists_lines:
  assumes "\<forall>l\<in>set ls. known_family l" and "interface (e_opts env) = Some i"
  shows "export_print_json env ls tot cum peak =
       Some (json_head env i @ separated ('','' @ nl) (map (flow_text env) ls) @ json_tail env tot cum peak) \<and>
     export_print_csv env False ls = Some (csv_header env @ concat (map (row_text env) ls), True) \<and>
     export_print_csv env True ls = Some (concat (map (row_text env) ls), True)"
  using assms(2)
  by (simp add: export_print_csv_def csv_rows_known [OF assms(1)] export_print_json_def json_flows_known [OF assms(1)])

definition example_export :: export_env where
  "example_export = \<lparr>e_ntop = (\<lambda>af a. ''10.0.0.1''), e_rate = (\<lambda>r. ''0''), e_time = ''now'',
     e_opts = options_set_defaults (Some ''eth0'') None\<rparr>"

theorem export_lists_lines_witness:
  "export_print_json example_export [line_zero\<lparr>line_ap := addr_pair_zero\<lparr>address_family := 2\<rparr>\<rparr>] line_zero (0, 0) (0, 0) =
     Some (json_head example_export ''eth0'' @ flow_text example_export (line_zero\<lparr>line_ap := addr_pair_zero\<lparr>address_family := 2\<rparr>\<rparr>) @
       json_tail example_export line_zero (0, 0) (0, 0))"
  using export_lists_lines [of "[line_zero\<lparr>line_ap := addr_pair_zero\<lparr>address_family := 2\<rparr>\<rparr>]" example_export "''eth0''" line_zero "(0, 0)" "(0, 0)"]
  by (simp add: known_family_def example_export_def options_set_defaults_def AF_INET_def)

text \<open>A CSV row has the columns of the header, unless a process name has a comma. Provided
  the texts of addresses, rates and time have none, a row has as many commas as the header
  plus those of the process name if processes are shown: process names are not quoted.\<close>

theorem csv_columns:
  assumes "commas (e_time env) = 0" and "\<forall>r. commas (e_rate env r) = 0" and "\<forall>af a. commas (e_ntop env af a) = 0"
  shows "commas (row_text env l) =
     commas (csv_header env) + (if show_processes (e_opts env) \<noteq> 0 then commas (process_name l) else 0)"
  using assms by (simp add: row_text_def csv_row_def csv_header_def Let_def)

theorem csv_columns_witness:
  "commas (row_text example_export (line_zero\<lparr>process_name := ''a,b''\<rparr>)) = commas (csv_header example_export) + 1"
  using csv_columns [of example_export "line_zero\<lparr>process_name := ''a,b''\<rparr>"]
  by (simp add: example_export_def options_set_defaults_def)

text \<open>The duration ends the loop at the first reading that is that far from the start.\<close>

lemma export_loop_duration:
  assumes "0 < d" "\<forall>(now, foad)\<in>set early. foad = 0 \<and> now - start < d" "now - start \<ge> d"
  shows "export_loop d start (early @ (now, 0) # later) = length early"
  using assms by (induction early) auto

end
