(* ===== verification/Cstring.thy ===== *)
theory Cstring
  imports Scanf
begin

text \<open>
  Strings in character arrays, for the code that edits buffers in place: an array holds a
  string if the string is followed by a null byte. Reading past the end of an array while
  looking for the null byte is undefined behaviour.
\<close>

definition NUL :: char where "NUL = CHR 0x00"

text \<open>\<open>strlen(b + k)\<close>.\<close>

definition c_strlen :: "string \<Rightarrow> nat \<Rightarrow> nat option" where
  "c_strlen b k = (let n = length (takeWhile (\<lambda>c. c \<noteq> NUL) (drop k b)) in if k + n < length b then Some n else None)"

text \<open>The string that starts at \<open>k\<close>.\<close>

definition c_string :: "string \<Rightarrow> nat \<Rightarrow> string" where
  "c_string b k = takeWhile (\<lambda>c. c \<noteq> NUL) (drop k b)"

definition holds :: "string \<Rightarrow> string \<Rightarrow> bool" where
  "holds b s \<longleftrightarrow> NUL \<notin> set s \<and> length s < length b \<and> take (Suc (length s)) b = s @ [NUL]"

lemma holdsE:
  assumes "holds b s"
  obtains rest where "b = s @ NUL # rest" "NUL \<notin> set s"
proof -
  from assms have "take (Suc (length s)) b = s @ [NUL]" by (simp add: holds_def)
  then have "b = s @ NUL # drop (Suc (length s)) b"
    using append_take_drop_id [of "Suc (length s)" b] by simp
  with assms that show thesis by (simp add: holds_def)
qed

lemma holdsI [intro]: "NUL \<notin> set s \<Longrightarrow> holds (s @ NUL # rest) s"
  by (simp add: holds_def)

lemma takeWhile_nul: "NUL \<notin> set s \<Longrightarrow> takeWhile (\<lambda>c. c \<noteq> NUL) (s @ NUL # rest) = s"
  by (induction s) auto

lemma c_string_holds: "holds b s \<Longrightarrow> c_string b 0 = s"
  by (auto elim!: holdsE simp: c_string_def takeWhile_nul)

lemma c_strlen_holds:
  assumes "holds b s" "k \<le> length s"
  shows "c_strlen b k = Some (length s - k)"
proof -
  from assms(1) obtain rest where b: "b = s @ NUL # rest" "NUL \<notin> set s" by (rule holdsE)
  have "NUL \<notin> set (drop k s)" using b(2) by (meson in_set_dropD)
  with b assms(2) show ?thesis by (simp add: c_strlen_def takeWhile_nul Let_def)
qed

lemma holds_length: "holds b s \<Longrightarrow> length s < length b"
  by (simp add: holds_def)

lemma holds_realloc:
  assumes "holds b s" "length b \<le> n"
  shows "holds (realloc b n) s"
  using assms by (auto simp: holds_def)

text \<open>Closing a gap: the tail from \<open>src\<close>, null byte included, moves down to \<open>dst\<close>.\<close>

lemma memmove_down:
  assumes h: "holds b s" and "dst \<le> src" "src \<le> length s"
  obtains b' where "memmove b dst src (length s - src + 1) = Some b'" "holds b' (take dst s @ drop src s)"
    "length b' = length b"
proof -
  from h obtain rest where b: "b = s @ NUL # rest" "NUL \<notin> set s" by (rule holdsE)
  let ?n = "length s - src + 1"
  let ?b = "take dst b @ take ?n (drop src b) @ drop (dst + ?n) b"
  have t: "take ?n (drop src b) = drop src s @ [NUL]" "take dst b = take dst s"
    using assms(2,3) by (simp_all add: b(1))
  have "NUL \<notin> set (take dst s @ drop src s)" using b(2) by (auto dest: in_set_takeD in_set_dropD)
  then have "holds ((take dst s @ drop src s) @ NUL # drop (dst + ?n) b) (take dst s @ drop src s)" by (rule holdsI)
  then have "holds ?b (take dst s @ drop src s)" unfolding t by simp
  moreover have "memmove b dst src ?n = Some ?b" "length ?b = length b"
    using assms(2,3) by (auto simp: memmove_def b(1))
  ultimately show thesis by (intro that)
qed

text \<open>Opening a gap of one character at \<open>p\<close> and filling it.\<close>

lemma memmove_up:
  assumes h: "holds b s" and p: "p \<le> length s" and room: "length s + 2 \<le> length b" and c: "c \<noteq> NUL"
  obtains b' where "memmove b (p + 1) p (length s - p + 1) = Some b'" "p < length b'"
    "holds (b'[p := c]) (take p s @ c # drop p s)" "length b' = length b"
proof -
  from h obtain rest where b: "b = s @ NUL # rest" "NUL \<notin> set s" by (rule holdsE)
  let ?n = "length s - p + 1"
  let ?b = "take (p + 1) b @ take ?n (drop p b) @ drop (p + 1 + ?n) b"
  have t: "take ?n (drop p b) = drop p s @ [NUL]" using p by (simp add: b(1))
  have u: "take (p + 1) b = take p s @ [b ! p]" using p by (simp add: b(1) take_Suc_conv_app_nth nth_append)
  have "NUL \<notin> set (take p s @ c # drop p s)" using b(2) c by (auto dest: in_set_takeD in_set_dropD)
  then have "holds ((take p s @ c # drop p s) @ NUL # drop (p + 1 + ?n) b) (take p s @ c # drop p s)" by (rule holdsI)
  moreover have "?b[p := c] = (take p s @ c # drop p s) @ NUL # drop (p + 1 + ?n) b"
    using p unfolding t u by (simp add: list_update_append)
  ultimately have "holds (?b[p := c]) (take p s @ c # drop p s)" by simp
  moreover have "memmove b (p + 1) p ?n = Some ?b" "length ?b = length b" "p < length ?b"
    using p room by (auto simp: memmove_def b(1))
  ultimately show thesis by (intro that)
qed

end
