(* ===== verification/Edline.thy ===== *)
theory Edline
  imports Cstring
begin

text \<open>
  The line editor of \<open>src/util/edline.c\<close>. The buffer is an array of \<open>slen\<close> characters, of
  which only the string before the first null byte is meaningful. Keys come as a list; an
  exhausted list means that the editor is still waiting. \<open>isprint\<close> is only defined for the
  values of an \<open>unsigned char\<close> and for \<open>EOF\<close>; for those it depends on the locale and is the
  parameter \<open>prints\<close>. Sounds and the drawing itself are not modelled, but the reads the
  drawing makes of the buffer are.
\<close>

section \<open>Keys of the terminal library\<close>

definition KEY_DL :: int where "KEY_DL = 328"
definition KEY_LEFT :: int where "KEY_LEFT = 260"
definition KEY_RIGHT :: int where "KEY_RIGHT = 261"
definition KEY_HOME :: int where "KEY_HOME = 262"
definition KEY_BACKSPACE :: int where "KEY_BACKSPACE = 263"
definition KEY_DC :: int where "KEY_DC = 330"
definition KEY_ENTER :: int where "KEY_ENTER = 343"
definition KEY_END :: int where "KEY_END = 360"
definition KEY_CLEAR :: int where "KEY_CLEAR = 333"
definition ERR :: int where "ERR = - 1"

lemmas key_codes = KEY_DL_def KEY_LEFT_def KEY_RIGHT_def KEY_HOME_def KEY_BACKSPACE_def KEY_DC_def
  KEY_ENTER_def KEY_END_def KEY_CLEAR_def ERR_def

section \<open>The editor\<close>

record edit_buf =
  buf_str :: string
  buf_len :: int
  buf_pos :: int

definition isprint :: "(int \<Rightarrow> bool) \<Rightarrow> int \<Rightarrow> bool option" where
  "isprint prints c = (if - 1 \<le> c \<and> c \<le> 255 then Some (prints c) else None)"

text \<open>The loops of \<open>^W\<close>: down from \<open>i\<close> while the character at \<open>i\<close> satisfies \<open>P\<close>.\<close>

fun back_while :: "(char \<Rightarrow> bool) \<Rightarrow> string \<Rightarrow> nat \<Rightarrow> nat option" where
  "back_while P b 0 = Some 0"
| "back_while P b (Suc i) = do {
     c \<leftarrow> rd b (Suc i);
     if P c then back_while P b i else Some (Suc i)
   }"

definition edline_start :: "string option \<Rightarrow> edit_buf" where
  "edline_start initial =
     (case initial of
        Some s \<Rightarrow> \<lparr>buf_str = s @ NUL # replicate (length s) undefined, buf_len = int (length s * 2 + 1), buf_pos = int (length s)\<rparr>
      | None \<Rightarrow> \<lparr>buf_str = NUL # replicate 255 undefined, buf_len = 256, buf_pos = 0\<rparr>)"

text \<open>The body of the switch, for one key.\<close>

definition edline_key :: "(int \<Rightarrow> bool) \<Rightarrow> int \<Rightarrow> edit_buf \<Rightarrow> edit_buf option" where
  "edline_key prints c b =
     (if c = KEY_DL \<or> c = 21 then do {
        s \<leftarrow> wr (buf_str b) 0 NUL;
        Some (b\<lparr>buf_str := s, buf_pos := 0\<rparr>) }
      else if c = KEY_LEFT then
        Some (if buf_pos b - 1 < 0 then b\<lparr>buf_pos := 0\<rparr> else b\<lparr>buf_pos := buf_pos b - 1\<rparr>)
      else if c = KEY_RIGHT then do {
        n \<leftarrow> c_strlen (buf_str b) 0;
        Some (if buf_pos b + 1 > int n then b\<lparr>buf_pos := int n\<rparr> else b\<lparr>buf_pos := buf_pos b + 1\<rparr>) }
      else if c = KEY_HOME \<or> c = 1 then Some (b\<lparr>buf_pos := 0\<rparr>)
      else if c = KEY_END \<or> c = 5 then do {
        n \<leftarrow> c_strlen (buf_str b) 0;
        Some (b\<lparr>buf_pos := int n\<rparr>) }
      else if c = KEY_DC then do {
        n \<leftarrow> c_strlen (buf_str b) 0;
        if buf_pos b = int n then Some b
        else do {
          m \<leftarrow> c_strlen (buf_str b) (nat (buf_pos b) + 1);
          s \<leftarrow> memmove (buf_str b) (nat (buf_pos b)) (nat (buf_pos b) + 1) (m + 1);
          Some (b\<lparr>buf_str := s\<rparr>) } }
      else if c = KEY_BACKSPACE then
        (if buf_pos b = 0 then Some b
         else do {
           m \<leftarrow> c_strlen (buf_str b) (nat (buf_pos b));
           s \<leftarrow> memmove (buf_str b) (nat (buf_pos b) - 1) (nat (buf_pos b)) (m + 1);
           Some (b\<lparr>buf_str := s, buf_pos := buf_pos b - 1\<rparr>) })
      else if c = 23 then do {
        i \<leftarrow> back_while isspace (buf_str b) (nat (buf_pos b));
        i \<leftarrow> back_while (\<lambda>x. \<not> isspace x) (buf_str b) i;
        if int i \<noteq> buf_pos b then do {
          m \<leftarrow> c_strlen (buf_str b) (nat (buf_pos b));
          s \<leftarrow> memmove (buf_str b) i (nat (buf_pos b)) (m + 1);
          Some (b\<lparr>buf_str := s, buf_pos := int i\<rparr>) }
        else Some b }
      else if c = ERR then Some b
      else do {
        p \<leftarrow> isprint prints c;
        if p \<and> c \<noteq> 9 then do {
          n \<leftarrow> c_strlen (buf_str b) 0;
          let b = (if int n = buf_len b - 1 then b\<lparr>buf_str := realloc (buf_str b) (nat (buf_len b * 2)), buf_len := buf_len b * 2\<rparr> else b);
          m \<leftarrow> c_strlen (buf_str b) (nat (buf_pos b));
          s \<leftarrow> memmove (buf_str b) (nat (buf_pos b) + 1) (nat (buf_pos b)) (m + 1);
          s \<leftarrow> wri s (buf_pos b) (char_of (nat c));
          Some (b\<lparr>buf_str := s, buf_pos := buf_pos b + 1\<rparr>) }
        else Some b })"

text \<open>The offset of the part that is drawn; \<open>strlen(str + off)\<close> is read.\<close>

definition edline_show :: "int \<Rightarrow> int \<Rightarrow> edit_buf \<Rightarrow> int option" where
  "edline_show cols xstart b = do {
     let off = (if buf_pos b > cols - xstart - 1 then buf_pos b - (cols - xstart - 1) else 0);
     _ \<leftarrow> c_strlen (buf_str b) (nat off);
     Some off
   }"

datatype edline_result = Waiting edit_buf | Returned string | Cancelled

fun edline_loop :: "(int \<Rightarrow> bool) \<Rightarrow> int \<Rightarrow> int \<Rightarrow> int list \<Rightarrow> edit_buf \<Rightarrow> edline_result option" where
  "edline_loop prints cols xstart [] b = Some (Waiting b)"
| "edline_loop prints cols xstart (c # cs) b = do {
     b \<leftarrow> edline_key prints c b;
     _ \<leftarrow> edline_show cols xstart b;
     if c = KEY_ENTER \<or> c = 13 then Some (Returned (c_string (buf_str b) 0))
     else if c = 27 \<or> c = 7 then Some Cancelled
     else edline_loop prints cols xstart cs b
   }"

definition edline :: "(int \<Rightarrow> bool) \<Rightarrow> int \<Rightarrow> string \<Rightarrow> string option \<Rightarrow> int list \<Rightarrow> edline_result option" where
  "edline prints cols prompt initial keys =
     edline_loop prints cols (int (length prompt) + 2) keys (edline_start initial)"

section \<open>What the keys mean\<close>

text \<open>A line with a cursor between its characters.\<close>

type_synonym line_state = "string \<times> nat"

fun word_back :: "(char \<Rightarrow> bool) \<Rightarrow> string \<Rightarrow> nat \<Rightarrow> nat" where
  "word_back P t 0 = 0"
| "word_back P t (Suc i) = (if P (t ! Suc i) then word_back P t i else Suc i)"

definition word_start :: "string \<Rightarrow> nat \<Rightarrow> nat" where
  "word_start s p = (let t = s @ [NUL] in word_back (\<lambda>x. \<not> isspace x) t (word_back isspace t p))"

definition edit :: "(int \<Rightarrow> bool) \<Rightarrow> int \<Rightarrow> line_state \<Rightarrow> line_state" where
  "edit prints c l =
     (let (s, p) = l in
      if c = KEY_DL \<or> c = 21 then ([], 0)
      else if c = KEY_LEFT then (s, p - 1)
      else if c = KEY_RIGHT then (s, min (p + 1) (length s))
      else if c = KEY_HOME \<or> c = 1 then (s, 0)
      else if c = KEY_END \<or> c = 5 then (s, length s)
      else if c = KEY_DC then (take p s @ drop (p + 1) s, p)
      else if c = KEY_BACKSPACE then (take (p - 1) s @ drop p s, p - 1)
      else if c = 23 then (take (word_start s p) s @ drop p s, word_start s p)
      else if c \<noteq> ERR \<and> c \<noteq> 9 \<and> prints c then (take p s @ char_of (nat c) # drop p s, p + 1)
      else (s, p))"

fun edit_line :: "(int \<Rightarrow> bool) \<Rightarrow> int list \<Rightarrow> line_state \<Rightarrow> string option option" where
  "edit_line prints [] l = None"
| "edit_line prints (c # cs) l =
     (let l = edit prints c l in
      if c = 13 then Some (Some (fst l)) else if c = 27 \<or> c = 7 then Some None else edit_line prints cs l)"

text \<open>The keys for which the editor is defined: those it names and the values of a character.\<close>

definition key_ok :: "int \<Rightarrow> bool" where
  "key_ok c \<longleftrightarrow> - 1 \<le> c \<and> c \<le> 255 \<or> c \<in> {KEY_DL, KEY_LEFT, KEY_RIGHT, KEY_HOME, KEY_END, KEY_DC, KEY_BACKSPACE}"

section \<open>Refinement\<close>

definition edit_rel :: "edit_buf \<Rightarrow> line_state \<Rightarrow> bool" where
  "edit_rel b l \<longleftrightarrow> holds (buf_str b) (fst l) \<and> int (length (buf_str b)) = buf_len b \<and> buf_pos b = int (snd l) \<and> snd l \<le> length (fst l)"

lemma word_back_le: "word_back P t i \<le> i"
  by (induction i) auto

lemma word_start_le: "word_start s p \<le> p"
  unfolding word_start_def Let_def by (meson le_trans word_back_le)

lemma back_while_eq:
  assumes "holds b s" "i \<le> length s"
  shows "back_while P b i = Some (word_back P (s @ [NUL]) i)"
proof -
  from assms(1) obtain rest where b: "b = s @ NUL # rest" by (rule holdsE)
  show ?thesis using assms(2)
  proof (induction i)
    case (Suc i)
    then have "rd b (Suc i) = Some ((s @ [NUL]) ! Suc i)" by (simp add: rd_def b nth_append)
    with Suc show ?case by simp
  qed simp
qed

lemma char_not_nul: "0 < c \<Longrightarrow> c \<le> 255 \<Longrightarrow> char_of (nat c) \<noteq> NUL"
proof
  assume c: "0 < c" "c \<le> 255" and e: "char_of (nat c) = NUL"
  have "of_char (char_of (nat c)) = nat c" using c by (simp add: of_char_of)
  with e c show False by (simp add: NUL_def)
qed

lemma edline_start_rel:
  assumes "\<forall>s. initial = Some s \<longrightarrow> NUL \<notin> set s"
  shows "edit_rel (edline_start initial) (case initial of Some s \<Rightarrow> (s, length s) | None \<Rightarrow> ([], 0))"
  using assms holdsI [of "[]"] by (cases initial) (auto simp: edline_start_def edit_rel_def)

lemma edit_relD:
  assumes "edit_rel b (s, p)"
  shows "holds (buf_str b) s" "int (length (buf_str b)) = buf_len b" "buf_pos b = int p" "p \<le> length s"
    "c_strlen (buf_str b) 0 = Some (length s)" "c_strlen (buf_str b) p = Some (length s - p)"
  using assms c_strlen_holds [of "buf_str b" s] by (auto simp: edit_rel_def)

text \<open>Moving the tail from the cursor down to \<open>i\<close>, as backspace and \<open>^W\<close> do.\<close>

lemma cut_rel:
  assumes rel: "edit_rel b (s, p)" and "i \<le> p"
  shows "\<exists>t. memmove (buf_str b) i p (Suc (length s - p)) = Some t \<and>
     edit_rel (b\<lparr>buf_str := t, buf_pos := int i\<rparr>) (take i s @ drop p s, i)"
proof -
  note r = edit_relD [OF rel]
  obtain t where "memmove (buf_str b) i p (length s - p + 1) = Some t" "holds t (take i s @ drop p s)"
    "length t = length (buf_str b)" by (rule memmove_down [OF r(1) assms(2) r(4)])
  with r(2,4) assms(2) show ?thesis by (auto simp: edit_rel_def)
qed

lemma delete_rel:
  assumes rel: "edit_rel b (s, p)" and "p \<noteq> length s"
  shows "\<exists>t. c_strlen (buf_str b) (Suc p) = Some (length s - Suc p) \<and>
     memmove (buf_str b) p (Suc p) (Suc (length s - Suc p)) = Some t \<and>
     edit_rel (b\<lparr>buf_str := t\<rparr>) (take p s @ drop (Suc p) s, p)"
proof -
  note r = edit_relD [OF rel]
  have p: "Suc p \<le> length s" using r(4) assms(2) by simp
  obtain t where "memmove (buf_str b) p (Suc p) (length s - Suc p + 1) = Some t" "holds t (take p s @ drop (Suc p) s)"
    "length t = length (buf_str b)" using memmove_down [OF r(1) _ p, of p] by auto
  with r(2,3) p c_strlen_holds [OF r(1) p] show ?thesis by (auto simp: edit_rel_def)
qed

lemma insert_rel:
  assumes rel: "edit_rel b (s, p)" and room: "length s + 2 \<le> length (buf_str b)" and c: "x \<noteq> NUL"
  shows "\<exists>t. memmove (buf_str b) (Suc p) p (Suc (length s - p)) = Some t \<and> wri t (int p) x = Some (t[p := x]) \<and>
     edit_rel (b\<lparr>buf_str := t[p := x], buf_pos := int p + 1\<rparr>) (take p s @ x # drop p s, Suc p)"
proof -
  note r = edit_relD [OF rel]
  obtain t where "memmove (buf_str b) (p + 1) p (length s - p + 1) = Some t" "p < length t"
    "holds (t[p := x]) (take p s @ x # drop p s)" "length t = length (buf_str b)"
    by (rule memmove_up [OF r(1,4) room c])
  with r(2,4) show ?thesis by (auto simp: edit_rel_def wri_def)
qed

lemma grow_rel:
  assumes rel: "edit_rel b (s, p)"
  defines "b' \<equiv> if int (length s) = buf_len b - 1
     then b\<lparr>buf_str := realloc (buf_str b) (nat (buf_len b * 2)), buf_len := buf_len b * 2\<rparr> else b"
  shows "edit_rel b' (s, p)" "length s + 2 \<le> length (buf_str b')"
proof -
  note r = edit_relD [OF rel]
  have "length s < length (buf_str b)" using holds_length [OF r(1)] .
  with r holds_realloc [OF r(1), of "nat (buf_len b * 2)"]
  show "edit_rel b' (s, p)" "length s + 2 \<le> length (buf_str b')" by (auto simp: b'_def edit_rel_def)
qed

text \<open>The keys that move text, one at a time.\<close>

lemma clear_key_rel:
  assumes rel: "edit_rel b (s, p)" and c: "c = KEY_DL \<or> c = 21"
  shows "\<exists>b'. edline_key prints c b = Some b' \<and> edit_rel b' (edit prints c (s, p))"
proof -
  note r = edit_relD [OF rel]
  have "edline_key prints c b = Some (b\<lparr>buf_str := (buf_str b)[0 := NUL], buf_pos := 0\<rparr>)"
    using c holds_length [OF r(1)] by (auto simp: edline_key_def wr_def)
  moreover have "holds ((buf_str b)[0 := NUL]) []"
    using holds_length [OF r(1)] by (cases "buf_str b") (auto simp: holds_def)
  ultimately show ?thesis using c r(2) by (auto simp: edit_def edit_rel_def)
qed

lemma backspace_key_rel:
  assumes rel: "edit_rel b (s, p)"
  shows "\<exists>b'. edline_key prints KEY_BACKSPACE b = Some b' \<and> edit_rel b' (edit prints KEY_BACKSPACE (s, p))"
proof (cases "p = 0")
  case True
  with rel edit_relD(3) [OF rel] show ?thesis by (simp add: edline_key_def edit_def key_codes)
next
  case False
  with cut_rel [OF rel, of "p - 1"] obtain t where
    "memmove (buf_str b) (p - 1) p (Suc (length s - p)) = Some t"
    "edit_rel (b\<lparr>buf_str := t, buf_pos := int p - 1\<rparr>) (take (p - 1) s @ drop p s, p - 1)"
    by (auto simp: of_nat_diff)
  with False edit_relD(3,6) [OF rel] show ?thesis by (auto simp: edline_key_def edit_def key_codes)
qed

lemma word_key_rel:
  assumes rel: "edit_rel b (s, p)"
  shows "\<exists>b'. edline_key prints 23 b = Some b' \<and> edit_rel b' (edit prints 23 (s, p))"
proof -
  note r = edit_relD [OF rel]
  have "back_while isspace (buf_str b) p = Some (word_back isspace (s @ [NUL]) p)"
    "back_while (\<lambda>x. \<not> isspace x) (buf_str b) (word_back isspace (s @ [NUL]) p) = Some (word_start s p)"
    using back_while_eq [OF r(1)] r(4) word_back_le [of isspace "s @ [NUL]" p] by (auto simp: word_start_def Let_def)
  then show ?thesis using cut_rel [OF rel word_start_le [of s p]] rel r
    by (cases "word_start s p = p") (auto simp: edline_key_def edit_def key_codes)
qed

lemma char_key_rel:
  assumes rel: "edit_rel b (s, p)" and np: "\<not> prints 0"
    and c: "- 1 < c" "c \<le> 255" "c \<noteq> 21" "c \<noteq> 1" "c \<noteq> 5" "c \<noteq> 23"
  shows "\<exists>b'. edline_key prints c b = Some b' \<and> edit_rel b' (edit prints c (s, p))"
proof (cases "prints c \<and> c \<noteq> 9")
  case True
  with np have "c \<noteq> 0" by blast
  with c have x: "char_of (nat c) \<noteq> NUL" by (intro char_not_nul) auto
  let ?b = "if int (length s) = buf_len b - 1
     then b\<lparr>buf_str := realloc (buf_str b) (nat (buf_len b * 2)), buf_len := buf_len b * 2\<rparr> else b"
  note g = grow_rel [OF rel] and g' = edit_relD [OF grow_rel(1) [OF rel]]
  obtain t where "memmove (buf_str ?b) (Suc p) p (Suc (length s - p)) = Some t"
    "wri t (int p) (char_of (nat c)) = Some (t[p := char_of (nat c)])"
    "edit_rel (?b\<lparr>buf_str := t[p := char_of (nat c)], buf_pos := int p + 1\<rparr>) (take p s @ char_of (nat c) # drop p s, Suc p)"
    using insert_rel [OF g x] by blast
  moreover have "edit prints c (s, p) = (take p s @ char_of (nat c) # drop p s, Suc p)"
    using c True by (simp add: edit_def key_codes)
  ultimately show ?thesis
    using c True edit_relD(5) [OF rel] g'(3,6) by (auto simp: edline_key_def isprint_def key_codes Let_def)
next
  case False
  with c rel show ?thesis by (auto simp: edline_key_def edit_def isprint_def key_codes)
qed

lemma edline_key_rel:
  assumes rel: "edit_rel b (s, p)" and k: "key_ok c" and np: "\<not> prints 0"
  shows "\<exists>b'. edline_key prints c b = Some b' \<and> edit_rel b' (edit prints c (s, p))"
proof -
  note r = edit_relD [OF rel]
  consider "c = KEY_DL \<or> c = 21" | "c = KEY_LEFT" | "c = KEY_RIGHT" | "c = KEY_HOME \<or> c = 1" | "c = KEY_END \<or> c = 5"
    | "c = KEY_DC" | "c = KEY_BACKSPACE" | "c = 23" | "c = ERR"
    | "- 1 < c" "c \<le> 255" "c \<noteq> 21" "c \<noteq> 1" "c \<noteq> 5" "c \<noteq> 23"
    using k by (fastforce simp: key_ok_def ERR_def)
  then show ?thesis
  proof cases
    case 1
    with clear_key_rel [OF rel] show ?thesis by blast
  next
    case 2
    with rel r(3) show ?thesis by (cases "p = 0") (auto simp: edline_key_def edit_def edit_rel_def key_codes of_nat_diff)
  next
    case 3
    with rel r(3-5) show ?thesis
      by (cases "p = length s") (auto simp: edline_key_def edit_def edit_rel_def key_codes)
  next
    case 6
    then show ?thesis using delete_rel [OF rel] rel r by (cases "p = length s") (auto simp: edline_key_def edit_def key_codes)
  next
    case 7
    with backspace_key_rel [OF rel] show ?thesis by simp
  next
    case 8
    with word_key_rel [OF rel] show ?thesis by simp
  next
    case 9
    with rel show ?thesis by (simp add: edline_key_def edit_def key_codes)
  next
    case 10
    with char_key_rel [where prints = prints, OF rel np] show ?thesis by blast
  qed (use rel r(5) in \<open>auto simp: edline_key_def edit_def edit_rel_def key_codes\<close>)
qed

lemma edline_show_ok:
  assumes "edit_rel b l" "xstart < cols"
  shows "\<exists>off. edline_show cols xstart b = Some off \<and> 0 \<le> off \<and> off \<le> buf_pos b"
proof -
  obtain s p where l: "l = (s, p)" by (cases l)
  note r = edit_relD [OF assms(1) [unfolded l]]
  let ?off = "if buf_pos b > cols - xstart - 1 then buf_pos b - (cols - xstart - 1) else 0"
  have "0 \<le> ?off" "?off \<le> int p" using assms(2) r(3) by auto
  then have "nat ?off \<le> length s" using r(4) by linarith
  from c_strlen_holds [OF r(1) this] have "edline_show cols xstart b = Some ?off" by (simp add: edline_show_def Let_def)
  with \<open>0 \<le> ?off\<close> \<open>?off \<le> int p\<close> r(3) show ?thesis by auto
qed

lemma edline_loop_rel:
  assumes "edit_rel b l" "\<forall>c\<in>set keys. key_ok c" "xstart < cols" "\<not> prints 0"
  shows "\<exists>r. edline_loop prints cols xstart keys b = Some r \<and>
     (case edit_line prints keys l of
        None \<Rightarrow> \<exists>b' l'. r = Waiting b' \<and> edit_rel b' l'
      | Some None \<Rightarrow> r = Cancelled
      | Some (Some s) \<Rightarrow> r = Returned s)"
  using assms(1,2)
proof (induction keys arbitrary: b l)
  case (Cons c cs)
  obtain b' where k: "edline_key prints c b = Some b'" "edit_rel b' (edit prints c l)"
    using edline_key_rel [of b "fst l" "snd l" c prints] Cons.prems assms(4) by auto
  obtain off where o: "edline_show cols xstart b' = Some off" using edline_show_ok [OF k(2) assms(3)] by blast
  have "c \<noteq> KEY_ENTER" using Cons.prems(2) by (auto simp: key_ok_def key_codes)
  moreover have "c_string (buf_str b') 0 = fst (edit prints c l)"
    using k(2) by (intro c_string_holds) (simp add: edit_rel_def)
  ultimately show ?case using k o Cons.IH [OF k(2)] Cons.prems(2) by (auto simp: Let_def)
qed auto

section \<open>Properties\<close>


definition ascii_prints :: "int \<Rightarrow> bool" where
  "ascii_prints c \<longleftrightarrow> 32 \<le> c \<and> c \<le> 126"


text \<open>The editor is undefined on keys the terminal library really sends. Any key code
  above 255 that the switch does not name, among them the keypad's Enter that the loop
  waits for, is passed to \<open>isprint\<close>, whose argument has to be a character.\<close>

theorem edline_function_key_undefined:
  assumes "c > 255" and "c \<notin> {KEY_DL, KEY_LEFT, KEY_RIGHT, KEY_HOME, KEY_END, KEY_DC, KEY_BACKSPACE}"
  shows "edline prints cols prompt initial (c # keys) = None"
  using assms by (auto simp: edline_def edline_key_def isprint_def key_codes)

theorem edline_function_key_undefined_witness:
  "edline ascii_prints 80 ''Command'' (Some []) [KEY_ENTER] = None"
  by (rule edline_function_key_undefined) (simp_all add: key_codes)

end
