(* ===== verification/Keys.thy ===== *)
theory Keys
  imports Options Edline
begin

text \<open>
  The interactive commands: \<open>ui_loop\<close>, \<open>showhelp\<close> and \<open>ui_tick\<close> of \<open>src/ui/ui.c\<close>, the screen
  filter of \<open>src/util/screenfilter.c\<close> and \<open>set_filter_code\<close> of \<open>src/entry/iftop.c\<close>.

  A key event is the key code, the time, and what the line editor returned if the key opens
  it (theory \<open>Edline\<close>). The packet filter compiler and the regular expression compiler are
  parameters. Calls that redraw or run a tick are recorded in \<open>acts\<close>; what they do to the
  display is the subject of other theories. Subshells are disabled in this build.
\<close>

section \<open>State\<close>

definition HELP_MSG_SIZE :: nat where "HELP_MSG_SIZE = 80"

definition HELP_TIME :: int where "HELP_TIME = 2"

text \<open>A call, with the value \<open>dontshowdisplay\<close> has at the time.\<close>

datatype ui_action = Do_Tick int int | Do_Print int | Do_Refresh

record ui_state =
  ui_opts :: options_t
  helpmsg :: string
  showhelphint :: int
  persistenthelp :: int
  helptimer :: int
  dontshowdisplay :: int
  foad :: int
  preg :: "string option"
  pcap_filter :: "string option"
  installed :: "string option"
  acts :: "ui_action list"

record ui_lib =
  pcap_compile :: "string \<Rightarrow> string option"
  pcap_setfilter :: "string \<Rightarrow> string option"
  regcomp :: "string \<Rightarrow> bool"
  regexec :: "string \<Rightarrow> string \<Rightarrow> bool"

record key_event =
  keycode :: int
  key_line :: "string option"
  key_time :: int

section \<open>Messages\<close>

text \<open>\<open>strncpy(dst, src, n)\<close> on a string: cut or padded with null bytes to exactly \<open>n\<close> bytes.\<close>

definition strncpy :: "string \<Rightarrow> nat \<Rightarrow> string" where
  "strncpy s n = take n s @ replicate (n - length s) NUL"

definition do_tick :: "int \<Rightarrow> ui_state \<Rightarrow> ui_state" where
  "do_tick n st = st\<lparr>acts := acts st @ [Do_Tick (dontshowdisplay st) n]\<rparr>"

definition do_print :: "ui_state \<Rightarrow> ui_state" where
  "do_print st = st\<lparr>acts := acts st @ [Do_Print (dontshowdisplay st)]\<rparr>"

definition show_help :: "int \<Rightarrow> string \<Rightarrow> ui_state \<Rightarrow> ui_state" where
  "show_help now message st =
     do_tick 1 (st\<lparr>helpmsg := strncpy message HELP_MSG_SIZE, showhelphint := 1, helptimer := now, persistenthelp := 0\<rparr>)"

definition ui_tick :: "int \<Rightarrow> int \<Rightarrow> ui_state \<Rightarrow> ui_state" where
  "ui_tick now print st =
     (if print \<noteq> 0 then do_print st
      else if showhelphint st \<noteq> 0 \<and> now - helptimer st > HELP_TIME \<and> persistenthelp st = 0
        then do_print (st\<lparr>showhelphint := 0\<rparr>)
      else st)"

definition showportstatus :: "int \<Rightarrow> ui_state \<Rightarrow> ui_state" where
  "showportstatus now st =
     (case showports (ui_opts st) of
        OPTION_PORTS_ON \<Rightarrow> show_help now ''Port display ON'' st
      | OPTION_PORTS_OFF \<Rightarrow> show_help now ''Port display OFF'' st
      | OPTION_PORTS_DEST \<Rightarrow> show_help now ''Port display DEST'' st
      | OPTION_PORTS_SRC \<Rightarrow> show_help now ''Port display SOURCE'' st)"

section \<open>Filters\<close>

definition filter_expression :: "string option \<Rightarrow> string" where
  "filter_expression code =
     (case code of Some f \<Rightarrow> ''('' @ f @ '') and (ip or ip6)'' | None \<Rightarrow> ''ip or ip6'')"

definition set_filter_code :: "ui_lib \<Rightarrow> string option \<Rightarrow> ui_state \<Rightarrow> string option \<times> ui_state" where
  "set_filter_code lib code st =
     (let x = filter_expression code; st = st\<lparr>pcap_filter := None\<rparr> in
      case pcap_compile lib x of
        Some err \<Rightarrow> (Some err, st)
      | None \<Rightarrow>
          (let st = st\<lparr>pcap_filter := Some x\<rparr> in
           case pcap_setfilter lib x of
             Some err \<Rightarrow> (Some err, st)
           | None \<Rightarrow> (None, st\<lparr>installed := Some x\<rparr>)))"

definition screen_filter_set :: "ui_lib \<Rightarrow> string \<Rightarrow> ui_state \<Rightarrow> bool \<times> ui_state" where
  "screen_filter_set lib pattern st =
     (let st = (if screenfilter (ui_opts st) \<noteq> None
                then st\<lparr>ui_opts := (ui_opts st)\<lparr>screenfilter := None\<rparr>, preg := None\<rparr> else st) in
      if regcomp lib pattern
      then (True, st\<lparr>preg := Some pattern, ui_opts := (ui_opts st)\<lparr>screenfilter := Some pattern\<rparr>\<rparr>)
      else (False, st\<lparr>preg := None\<rparr>))"

text \<open>Matching against an expression that has not been compiled is undefined behaviour.\<close>

definition screen_filter_match :: "ui_lib \<Rightarrow> ui_state \<Rightarrow> string \<Rightarrow> bool option" where
  "screen_filter_match lib st t =
     (if screenfilter (ui_opts st) = None then Some True
      else do { p \<leftarrow> preg st; Some (regexec lib p t) })"

section \<open>Keys\<close>

definition key :: "char \<Rightarrow> int" where "key c = int (of_char c)"

definition with_opts :: "(options_t \<Rightarrow> options_t) \<Rightarrow> ui_state \<Rightarrow> ui_state" where
  "with_opts f st = st\<lparr>ui_opts := f (ui_opts st)\<rparr>"

text \<open>The keys that switch the source and destination port.\<close>

definition key_S :: "option_port_t \<Rightarrow> option_port_t" where
  "key_S p =
     (if p = OPTION_PORTS_OFF then OPTION_PORTS_SRC
      else if p = OPTION_PORTS_DEST then OPTION_PORTS_ON
      else if p = OPTION_PORTS_ON then OPTION_PORTS_DEST
      else OPTION_PORTS_OFF)"

definition key_D :: "option_port_t \<Rightarrow> option_port_t" where
  "key_D p =
     (if p = OPTION_PORTS_OFF then OPTION_PORTS_DEST
      else if p = OPTION_PORTS_SRC then OPTION_PORTS_ON
      else if p = OPTION_PORTS_ON then OPTION_PORTS_SRC
      else OPTION_PORTS_OFF)"

definition key_p :: "option_port_t \<Rightarrow> option_port_t" where
  "key_p p = (if p = OPTION_PORTS_OFF then OPTION_PORTS_ON else OPTION_PORTS_OFF)"

text \<open>\<open>(options.linedisplay + 1) % 4\<close> in the order of the enumeration, and the message.\<close>

fun next_linedisplay :: "option_linedisplay_t \<Rightarrow> option_linedisplay_t" where
  "next_linedisplay OPTION_LINEDISPLAY_TWO_LINE = OPTION_LINEDISPLAY_ONE_LINE_BOTH"
| "next_linedisplay OPTION_LINEDISPLAY_ONE_LINE_BOTH = OPTION_LINEDISPLAY_ONE_LINE_RECV"
| "next_linedisplay OPTION_LINEDISPLAY_ONE_LINE_RECV = OPTION_LINEDISPLAY_ONE_LINE_SENT"
| "next_linedisplay OPTION_LINEDISPLAY_ONE_LINE_SENT = OPTION_LINEDISPLAY_TWO_LINE"

fun linedisplay_message :: "option_linedisplay_t \<Rightarrow> string" where
  "linedisplay_message OPTION_LINEDISPLAY_TWO_LINE = ''Two lines per host''"
| "linedisplay_message OPTION_LINEDISPLAY_ONE_LINE_SENT = ''Sent traffic only''"
| "linedisplay_message OPTION_LINEDISPLAY_ONE_LINE_RECV = ''Received traffic only''"
| "linedisplay_message OPTION_LINEDISPLAY_ONE_LINE_BOTH = ''One line per host''"

definition blank :: "string \<Rightarrow> bool" where
  "blank s = list_all (\<lambda>c. c = CHR '' '' \<or> c = CHR 0x09) s"

definition key_f :: "ui_lib \<Rightarrow> int \<Rightarrow> string option \<Rightarrow> ui_state \<Rightarrow> ui_state" where
  "key_f lib now line st =
     (let st = st\<lparr>dontshowdisplay := 1\<rparr>;
          st = (case line of
                  None \<Rightarrow> st
                | Some s \<Rightarrow>
                    (let code = (if blank s then None else Some s) in
                     case set_filter_code lib code st of
                       (None, st) \<Rightarrow> show_help now ''Installed new filter''
                                       (st\<lparr>ui_opts := (ui_opts st)\<lparr>filtercode := code\<rparr>, acts := acts st @ [Do_Refresh]\<rparr>)
                     | (Some m, st) \<Rightarrow> show_help now m st))
      in do_print (st\<lparr>dontshowdisplay := 0\<rparr>))"

definition key_l :: "ui_lib \<Rightarrow> int \<Rightarrow> string option \<Rightarrow> ui_state \<Rightarrow> ui_state" where
  "key_l lib now line st =
     (let st = st\<lparr>dontshowdisplay := 1\<rparr>;
          st = (case line of
                  None \<Rightarrow> st
                | Some s \<Rightarrow> (case screen_filter_set lib s st of
                               (True, st) \<Rightarrow> st
                             | (False, st) \<Rightarrow> show_help now ''Invalid regexp'' st))
      in do_print (st\<lparr>dontshowdisplay := 0\<rparr>))"

text \<open>The switch over the key code.\<close>

definition ui_switch :: "ui_lib \<Rightarrow> key_event \<Rightarrow> ui_state \<Rightarrow> ui_state" where
  "ui_switch lib e st =
     (let c = keycode e; now = key_time e; op = ui_opts st in
      if c = key (CHR ''q'') then st\<lparr>foad := 1\<rparr>
      else if c = key (CHR ''n'') then do_tick 1
        (if dnsresolution op \<noteq> 0
         then show_help now ''DNS resolution off'' (with_opts (\<lambda>op. op\<lparr>dnsresolution := 0\<rparr>) st)
         else show_help now ''DNS resolution on'' (with_opts (\<lambda>op. op\<lparr>dnsresolution := 1\<rparr>) st))
      else if c = key (CHR ''N'') then do_tick 1
        (if portresolution op \<noteq> 0
         then show_help now ''Port resolution off'' (with_opts (\<lambda>op. op\<lparr>portresolution := 0\<rparr>) st)
         else show_help now ''Port resolution on'' (with_opts (\<lambda>op. op\<lparr>portresolution := 1\<rparr>) st))
      else if c = key (CHR ''h'') \<or> c = key (CHR ''?'') then
        do_tick 1 (with_opts (\<lambda>op. op\<lparr>showhelp := (if showhelp op \<noteq> 0 then 0 else 1)\<rparr>) st)
      else if c = key (CHR ''b'') then do_tick 1
        (if showbars op \<noteq> 0 then show_help now ''Bars off'' (with_opts (\<lambda>op. op\<lparr>showbars := 0\<rparr>) st)
         else show_help now ''Bars on'' (with_opts (\<lambda>op. op\<lparr>showbars := 1\<rparr>) st))
      else if c = key (CHR ''B'') then
        (let st = with_opts (\<lambda>op. op\<lparr>bar_interval := (bar_interval op + 1) mod 3\<rparr>) st in
         do_print
           (if bar_interval (ui_opts st) = 0 then show_help now ''Bars show 2s average'' st
            else if bar_interval (ui_opts st) = 1 then show_help now ''Bars show 10s average'' st
            else show_help now ''Bars show 40s average'' st))
      else if c = key (CHR ''s'') then
        (if aggregate_src op \<noteq> 0 then show_help now ''Show source host'' (with_opts (\<lambda>op. op\<lparr>aggregate_src := 0\<rparr>) st)
         else show_help now ''Hide source host'' (with_opts (\<lambda>op. op\<lparr>aggregate_src := 1\<rparr>) st))
      else if c = key (CHR ''d'') then
        (if aggregate_dest op \<noteq> 0 then show_help now ''Show dest host'' (with_opts (\<lambda>op. op\<lparr>aggregate_dest := 0\<rparr>) st)
         else show_help now ''Hide dest host'' (with_opts (\<lambda>op. op\<lparr>aggregate_dest := 1\<rparr>) st))
      else if c = key (CHR ''S'') then showportstatus now (with_opts (\<lambda>op. op\<lparr>showports := key_S (showports op)\<rparr>) st)
      else if c = key (CHR ''D'') then showportstatus now (with_opts (\<lambda>op. op\<lparr>showports := key_D (showports op)\<rparr>) st)
      else if c = key (CHR ''p'') then showportstatus now (with_opts (\<lambda>op. op\<lparr>showports := key_p (showports op)\<rparr>) st)
      else if c = key (CHR ''P'') then
        (if paused op \<noteq> 0 then show_help now ''Display unpaused'' (with_opts (\<lambda>op. op\<lparr>paused := 0\<rparr>) st)
         else (show_help now ''Display paused'' (with_opts (\<lambda>op. op\<lparr>paused := 1\<rparr>) st))\<lparr>persistenthelp := 1\<rparr>)
      else if c = key (CHR ''o'') then
        (if freezeorder op \<noteq> 0 then show_help now ''Order unfrozen'' (with_opts (\<lambda>op. op\<lparr>freezeorder := 0\<rparr>) st)
         else (show_help now ''Order frozen'' (with_opts (\<lambda>op. op\<lparr>freezeorder := 1\<rparr>) st))\<lparr>persistenthelp := 1\<rparr>)
      else if c = key (CHR ''1'') then show_help now ''Sort by col 1'' (with_opts (\<lambda>op. op\<lparr>sort_by := OPTION_SORT_DIV1\<rparr>) st)
      else if c = key (CHR ''2'') then show_help now ''Sort by col 2'' (with_opts (\<lambda>op. op\<lparr>sort_by := OPTION_SORT_DIV2\<rparr>) st)
      else if c = key (CHR ''3'') then show_help now ''Sort by col 3'' (with_opts (\<lambda>op. op\<lparr>sort_by := OPTION_SORT_DIV3\<rparr>) st)
      else if c = key (CHR ''<'') then show_help now ''Sort by source'' (with_opts (\<lambda>op. op\<lparr>sort_by := OPTION_SORT_SRC\<rparr>) st)
      else if c = key (CHR ''>'') then show_help now ''Sort by dest'' (with_opts (\<lambda>op. op\<lparr>sort_by := OPTION_SORT_DEST\<rparr>) st)
      else if c = key (CHR ''j'') then do_print (with_opts (\<lambda>op. op\<lparr>screen_offset := screen_offset op + 1\<rparr>) st)
      else if c = key (CHR ''k'') then
        (if screen_offset op > 0 then do_print (with_opts (\<lambda>op. op\<lparr>screen_offset := screen_offset op - 1\<rparr>) st) else st)
      else if c = key (CHR ''t'') then
        (let st = with_opts (\<lambda>op. op\<lparr>linedisplay := next_linedisplay (linedisplay op)\<rparr>) st in
         do_print (show_help now (linedisplay_message (linedisplay (ui_opts st))) st))
      else if c = key (CHR ''f'') then key_f lib now (key_line e) st
      else if c = key (CHR ''l'') then key_l lib now (key_line e) st
      else if c = key (CHR ''!'') then show_help now ''Sorry, subshells have been disabled.'' st
      else if c = key (CHR ''T'') then
        (let st = with_opts (\<lambda>op. op\<lparr>show_totals := (if show_totals op \<noteq> 0 then 0 else 1)\<rparr>) st in
         do_print (show_help now (if show_totals (ui_opts st) \<noteq> 0 then ''Show cumulative totals'' else ''Hide cumulative totals'') st))
      else if c = key (CHR ''L'') then
        (let st = with_opts (\<lambda>op. op\<lparr>log_scale := (if log_scale op \<noteq> 0 then 0 else 1)\<rparr>) st in
         do_print (show_help now (if log_scale (ui_opts st) \<noteq> 0 then ''Logarithmic scale'' else ''Linear scale'') st))
      else if c = key (CHR ''Z'') then
        (let st = with_opts (\<lambda>op. op\<lparr>show_processes := (if show_processes op \<noteq> 0 then 0 else 1)\<rparr>) st in
         do_tick 1 (show_help now (if show_processes (ui_opts st) \<noteq> 0 then ''Process display on'' else ''Process display off'') st))
      else if c = KEY_CLEAR \<or> c = 12 then st\<lparr>acts := acts st @ [Do_Refresh]\<rparr>
      else if c = ERR then st
      else show_help now ''Press H or ? for help'' st)"

text \<open>The loop, on the events that arrive.\<close>

fun ui_loop :: "ui_lib \<Rightarrow> key_event list \<Rightarrow> ui_state \<Rightarrow> ui_state" where
  "ui_loop lib [] st = st"
| "ui_loop lib (e # es) st = (if foad st \<noteq> 0 then st else ui_loop lib es (do_tick 0 (ui_switch lib e st)))"

section \<open>Invariant\<close>

definition flag :: "int \<Rightarrow> bool" where "flag x \<longleftrightarrow> x = 0 \<or> x = 1"

text \<open>Every switch is zero or one, the bar interval selects one of the three columns, the display is not scrolled up past its start.\<close>

definition opts_ok :: "options_t \<Rightarrow> bool" where
  "opts_ok op \<longleftrightarrow>
     list_all flag [dnsresolution op, portresolution op, showbars op, showhelp op, aggregate_src op, aggregate_dest op,
       paused op, freezeorder op, show_totals op, log_scale op, show_processes op] \<and>
     bar_interval op \<in> {0, 1, 2} \<and> 0 \<le> screen_offset op"

text \<open>The filters the options show are the filters in force.\<close>

definition filters_ok :: "ui_state \<Rightarrow> bool" where
  "filters_ok st \<longleftrightarrow> installed st = Some (filter_expression (filtercode (ui_opts st))) \<and> preg st = screenfilter (ui_opts st)"

lemma ui_helpers [simp]:
  "ui_opts (do_tick n st) = ui_opts st" "preg (do_tick n st) = preg st" "installed (do_tick n st) = installed st"
  "helpmsg (do_tick n st) = helpmsg st" "dontshowdisplay (do_tick n st) = dontshowdisplay st"
  "ui_opts (do_print st) = ui_opts st" "preg (do_print st) = preg st" "installed (do_print st) = installed st"
  "helpmsg (do_print st) = helpmsg st" "dontshowdisplay (do_print st) = dontshowdisplay st"
  "ui_opts (show_help now m st) = ui_opts st" "preg (show_help now m st) = preg st"
  "installed (show_help now m st) = installed st" "dontshowdisplay (show_help now m st) = dontshowdisplay st"
  "helpmsg (show_help now m st) = strncpy m HELP_MSG_SIZE"
  "ui_opts (with_opts f st) = f (ui_opts st)" "preg (with_opts f st) = preg st" "installed (with_opts f st) = installed st"
  "dontshowdisplay (with_opts f st) = dontshowdisplay st" "helpmsg (with_opts f st) = helpmsg st"
  by (simp_all add: do_tick_def do_print_def show_help_def with_opts_def)

lemma showportstatus_simps [simp]:
  "ui_opts (showportstatus now st) = ui_opts st" "preg (showportstatus now st) = preg st"
  "installed (showportstatus now st) = installed st" "dontshowdisplay (showportstatus now st) = dontshowdisplay st"
  by (simp_all add: showportstatus_def split: option_port_t.split)

lemma key_f_opts:
  "\<exists>code. ui_opts (key_f lib now line st) = (ui_opts st)\<lparr>filtercode := code\<rparr> \<and>
     (installed st = Some (filter_expression (filtercode (ui_opts st))) \<longrightarrow>
      installed (key_f lib now line st) = Some (filter_expression code)) \<and>
     preg (key_f lib now line st) = preg st"
proof (cases line)
  case None
  then show ?thesis by (auto simp: key_f_def Let_def intro!: exI [of _ "filtercode (ui_opts st)"])
next
  case (Some s)
  let ?code = "if blank s then None else Some s"
  show ?thesis
  proof (cases "pcap_compile lib (filter_expression ?code) = None \<and> pcap_setfilter lib (filter_expression ?code) = None")
    case True
    then show ?thesis using Some
      by (auto simp: key_f_def set_filter_code_def Let_def intro!: exI [of _ ?code])
  next
    case False
    then show ?thesis using Some
      by (auto simp: key_f_def set_filter_code_def Let_def split: option.split intro!: exI [of _ "filtercode (ui_opts st)"])
  qed
qed

lemma key_l_opts:
  "\<exists>p. ui_opts (key_l lib now line st) = (ui_opts st)\<lparr>screenfilter := p\<rparr> \<and>
     (preg st = screenfilter (ui_opts st) \<longrightarrow> preg (key_l lib now line st) = p) \<and>
     installed (key_l lib now line st) = installed st"
proof (cases line)
  case None
  then show ?thesis by (auto simp: key_l_def Let_def intro!: exI [of _ "screenfilter (ui_opts st)"])
next
  case (Some s)
  let ?p = "if regcomp lib s then Some s else None"
  have "ui_opts (key_l lib now line st) = (ui_opts st)\<lparr>screenfilter := ?p\<rparr>"
    using Some by (simp add: key_l_def screen_filter_set_def Let_def)
  then show ?thesis using Some by (intro exI [of _ ?p]) (simp add: key_l_def screen_filter_set_def Let_def)
qed

lemma flag_simps [simp]: "flag 0" "flag 1" "flag (if b then 0 else 1)"
  by (simp_all add: flag_def)

text \<open>What a key can do to the options and the filters.\<close>

inductive opts_step :: "options_t \<Rightarrow> options_t \<Rightarrow> bool" where
  k_same: "opts_step op op"
| k_dns: "flag x \<Longrightarrow> opts_step op (op\<lparr>dnsresolution := x\<rparr>)"
| k_port: "flag x \<Longrightarrow> opts_step op (op\<lparr>portresolution := x\<rparr>)"
| k_help: "flag x \<Longrightarrow> opts_step op (op\<lparr>showhelp := x\<rparr>)"
| k_bars: "flag x \<Longrightarrow> opts_step op (op\<lparr>showbars := x\<rparr>)"
| k_interval: "x = 0 \<or> x = 1 \<or> x = 2 \<Longrightarrow> opts_step op (op\<lparr>bar_interval := x\<rparr>)"
| k_src: "flag x \<Longrightarrow> opts_step op (op\<lparr>aggregate_src := x\<rparr>)"
| k_dest: "flag x \<Longrightarrow> opts_step op (op\<lparr>aggregate_dest := x\<rparr>)"
| k_ports: "opts_step op (op\<lparr>showports := p\<rparr>)"
| k_pause: "flag x \<Longrightarrow> opts_step op (op\<lparr>paused := x\<rparr>)"
| k_freeze: "flag x \<Longrightarrow> opts_step op (op\<lparr>freezeorder := x\<rparr>)"
| k_sort: "opts_step op (op\<lparr>sort_by := srt\<rparr>)"
| k_down: "opts_step op (op\<lparr>screen_offset := screen_offset op + 1\<rparr>)"
| k_up: "screen_offset op > 0 \<Longrightarrow> opts_step op (op\<lparr>screen_offset := screen_offset op - 1\<rparr>)"
| k_display: "opts_step op (op\<lparr>linedisplay := ld\<rparr>)"
| k_total: "flag x \<Longrightarrow> opts_step op (op\<lparr>show_totals := x\<rparr>)"
| k_scale: "flag x \<Longrightarrow> opts_step op (op\<lparr>log_scale := x\<rparr>)"
| k_process: "flag x \<Longrightarrow> opts_step op (op\<lparr>show_processes := x\<rparr>)"
| k_code: "opts_step op (op\<lparr>filtercode := fc\<rparr>)"
| k_screen: "opts_step op (op\<lparr>screenfilter := sf\<rparr>)"

lemma opts_step_ok: "opts_step op op' \<Longrightarrow> opts_ok op \<Longrightarrow> opts_ok op'"
  by (induction rule: opts_step.induct) (auto simp: opts_ok_def)

lemma key_eq [simp]: "key c = key d \<longleftrightarrow> c = d"
  by (simp add: key_def)

lemma step_if:
  "(c \<Longrightarrow> opts_step op (ui_opts a)) \<Longrightarrow> (\<not> c \<Longrightarrow> opts_step op (ui_opts b)) \<Longrightarrow> opts_step op (ui_opts (if c then a else b))"
  by simp

lemma step_key_f: "opts_step (ui_opts st) (ui_opts (key_f lib now line st))"
  using key_f_opts [of lib now line st] by (auto intro: k_code)

lemma step_key_l: "opts_step (ui_opts st) (ui_opts (key_l lib now line st))"
  using key_l_opts [of lib now line st] by (auto intro: k_screen)

lemma mod3_cases: "x mod 3 = 0 \<or> x mod 3 = 1 \<or> x mod 3 = (2 :: int)"
  by presburger

lemma ui_switch_step: "opts_step (ui_opts st) (ui_opts (ui_switch lib e st))"
  unfolding ui_switch_def Let_def
  by (intro step_if; simp add: step_key_f step_key_l opts_step.intros k_interval [OF mod3_cases])

lemma filters_if:
  "(c \<Longrightarrow> filters_ok a) \<Longrightarrow> (\<not> c \<Longrightarrow> filters_ok b) \<Longrightarrow> filters_ok (if c then a else b)"
  by simp

lemma filters_key_f: "filters_ok st \<Longrightarrow> filters_ok (key_f lib now line st)"
  using key_f_opts [of lib now line st] by (auto simp: filters_ok_def)

lemma filters_key_l: "filters_ok st \<Longrightarrow> filters_ok (key_l lib now line st)"
  using key_l_opts [of lib now line st] by (auto simp: filters_ok_def)

lemma filters_helpers [simp]:
  "filters_ok (do_tick n st) = filters_ok st" "filters_ok (do_print st) = filters_ok st"
  "filters_ok (show_help now m st) = filters_ok st" "filters_ok (showportstatus now st) = filters_ok st"
  by (simp_all add: filters_ok_def)

lemma filters_switch: "filters_ok st \<Longrightarrow> filters_ok (ui_switch lib e st)"
  unfolding ui_switch_def Let_def
  by (intro filters_if; (simp add: filters_key_f filters_key_l)?; (simp add: filters_ok_def)?)

lemma ui_loop_keeps:
  assumes "opts_ok (ui_opts st)" "filters_ok st"
  shows "opts_ok (ui_opts (ui_loop lib es st)) \<and> filters_ok (ui_loop lib es st)"
  using assms
proof (induction es arbitrary: st)
  case (Cons e es)
  then show ?case using opts_step_ok [OF ui_switch_step [of st lib e]] filters_switch by simp
qed simp

section \<open>Properties\<close>

text \<open>A packet filter compiler and a regular expression compiler for the examples: text with a backslash is rejected.\<close>

definition example_lib :: ui_lib where
  "example_lib = \<lparr>pcap_compile = (\<lambda>s. if CHR 0x5C \<in> set s then Some ''syntax error'' else None), pcap_setfilter = (\<lambda>s. None),
     regcomp = (\<lambda>s. CHR 0x5C \<notin> set s), regexec = (\<lambda>p t. p = t)\<rparr>"

definition start_ui :: ui_state where
  "start_ui = \<lparr>ui_opts = options_set_defaults None None, helpmsg = replicate 80 NUL, showhelphint = 0, persistenthelp = 0,
     helptimer = 0, dontshowdisplay = 0, foad = 0, preg = None, pcap_filter = Some ''ip or ip6'',
     installed = Some ''ip or ip6'', acts = []\<rparr>"

definition press :: "char \<Rightarrow> string option \<Rightarrow> key_event" where
  "press c line = \<lparr>keycode = key c, key_line = line, key_time = 0\<rparr>"

lemma start_ui_ok: "opts_ok (ui_opts start_ui)" "filters_ok start_ui"
  by (simp_all add: start_ui_def opts_ok_def filters_ok_def options_set_defaults_def filter_expression_def flag_def)



text \<open>What the editor offers as the current filter is the filter in force. If at start
  the packet filter installed is the one of the options and the regular expression compiled is
  the screen filter, then after any keys, with failed attempts to change either in between,
  this is still so; in particular matching a host name never uses an expression that was not
  compiled or has been freed.\<close>

theorem filters_in_force:
  assumes "opts_ok (ui_opts st)" and "filters_ok st"
  shows "installed (ui_loop lib es st) = Some (filter_expression (filtercode (ui_opts (ui_loop lib es st)))) \<and>
     screen_filter_match lib (ui_loop lib es st) t =
       Some (case screenfilter (ui_opts (ui_loop lib es st)) of None \<Rightarrow> True | Some p \<Rightarrow> regexec lib p t)"
  using ui_loop_keeps [OF assms, of lib es] by (auto simp: filters_ok_def screen_filter_match_def split: option.split)

theorem filters_in_force_witness:
  "installed (ui_loop example_lib [press (CHR ''f'') (Some ''tcp''), press (CHR ''f'') (Some [CHR 0x5C])] start_ui) =
     Some ''(tcp) and (ip or ip6)''"
proof -
  have "filtercode (ui_opts (ui_loop example_lib [press (CHR ''f'') (Some ''tcp''), press (CHR ''f'') (Some [CHR 0x5C])] start_ui)) =
      Some ''tcp''" by code_simp
  with filters_in_force [OF start_ui_ok, of example_lib "[press (CHR ''f'') (Some ''tcp''), press (CHR ''f'') (Some [CHR 0x5C])]"]
  show ?thesis by (simp add: filter_expression_def)
qed

definition port_bits :: "option_port_t \<Rightarrow> bool \<times> bool" where
  "port_bits p = (p = OPTION_PORTS_SRC \<or> p = OPTION_PORTS_ON, p = OPTION_PORTS_DEST \<or> p = OPTION_PORTS_ON)"

definition ports_of :: "ui_state \<Rightarrow> bool \<times> bool" where
  "ports_of st = port_bits (showports (ui_opts st))"

text \<open>The port display is two independent switches. Key \<open>S\<close> flips whether source ports
  are shown and leaves destination ports alone, \<open>D\<close> the other way round, and \<open>p\<close> shows both
  if neither was shown and hides both otherwise.\<close>

theorem port_keys_refine_bits:
  fixes e :: key_event
  shows "inj port_bits \<and>
     (keycode e = key (CHR ''S'') \<longrightarrow> ports_of (ui_switch lib e st) = (\<not> fst (ports_of st), snd (ports_of st))) \<and>
     (keycode e = key (CHR ''D'') \<longrightarrow> ports_of (ui_switch lib e st) = (fst (ports_of st), \<not> snd (ports_of st))) \<and>
     (keycode e = key (CHR ''p'') \<longrightarrow> ports_of (ui_switch lib e st) =
        (\<not> fst (ports_of st) \<and> \<not> snd (ports_of st), \<not> fst (ports_of st) \<and> \<not> snd (ports_of st)))"
proof (intro conjI impI)
  show "inj port_bits"
  proof (rule injI)
    fix p q assume "port_bits p = port_bits q"
    then show "p = q" by (cases p; cases q) (simp_all add: port_bits_def)
  qed
qed (cases "showports (ui_opts st)"; simp add: ui_switch_def ports_of_def port_bits_def key_S_def key_D_def key_p_def Let_def)+

theorem port_keys_refine_bits_witness:
  "ports_of (ui_switch example_lib (press (CHR ''S'') None) start_ui) = (\<not> fst (ports_of start_ui), snd (ports_of start_ui))"
  using port_keys_refine_bits [of "press (CHR ''S'') None" example_lib start_ui] by (simp add: press_def)

lemma toggle_opts:
  "keycode e = key (CHR ''n'') \<Longrightarrow> ui_opts (ui_switch lib e st) = (ui_opts st)\<lparr>dnsresolution := (if dnsresolution (ui_opts st) \<noteq> 0 then 0 else 1)\<rparr>"
  "keycode e = key (CHR ''N'') \<Longrightarrow> ui_opts (ui_switch lib e st) = (ui_opts st)\<lparr>portresolution := (if portresolution (ui_opts st) \<noteq> 0 then 0 else 1)\<rparr>"
  "keycode e = key (CHR ''h'') \<Longrightarrow> ui_opts (ui_switch lib e st) = (ui_opts st)\<lparr>showhelp := (if showhelp (ui_opts st) \<noteq> 0 then 0 else 1)\<rparr>"
  "keycode e = key (CHR ''b'') \<Longrightarrow> ui_opts (ui_switch lib e st) = (ui_opts st)\<lparr>showbars := (if showbars (ui_opts st) \<noteq> 0 then 0 else 1)\<rparr>"
  "keycode e = key (CHR ''s'') \<Longrightarrow> ui_opts (ui_switch lib e st) = (ui_opts st)\<lparr>aggregate_src := (if aggregate_src (ui_opts st) \<noteq> 0 then 0 else 1)\<rparr>"
  "keycode e = key (CHR ''d'') \<Longrightarrow> ui_opts (ui_switch lib e st) = (ui_opts st)\<lparr>aggregate_dest := (if aggregate_dest (ui_opts st) \<noteq> 0 then 0 else 1)\<rparr>"
  "keycode e = key (CHR ''S'') \<Longrightarrow> ui_opts (ui_switch lib e st) = (ui_opts st)\<lparr>showports := key_S (showports (ui_opts st))\<rparr>"
  "keycode e = key (CHR ''D'') \<Longrightarrow> ui_opts (ui_switch lib e st) = (ui_opts st)\<lparr>showports := key_D (showports (ui_opts st))\<rparr>"
  "keycode e = key (CHR ''P'') \<Longrightarrow> ui_opts (ui_switch lib e st) = (ui_opts st)\<lparr>paused := (if paused (ui_opts st) \<noteq> 0 then 0 else 1)\<rparr>"
  "keycode e = key (CHR ''o'') \<Longrightarrow> ui_opts (ui_switch lib e st) = (ui_opts st)\<lparr>freezeorder := (if freezeorder (ui_opts st) \<noteq> 0 then 0 else 1)\<rparr>"
  "keycode e = key (CHR ''T'') \<Longrightarrow> ui_opts (ui_switch lib e st) = (ui_opts st)\<lparr>show_totals := (if show_totals (ui_opts st) \<noteq> 0 then 0 else 1)\<rparr>"
  "keycode e = key (CHR ''L'') \<Longrightarrow> ui_opts (ui_switch lib e st) = (ui_opts st)\<lparr>log_scale := (if log_scale (ui_opts st) \<noteq> 0 then 0 else 1)\<rparr>"
  "keycode e = key (CHR ''Z'') \<Longrightarrow> ui_opts (ui_switch lib e st) = (ui_opts st)\<lparr>show_processes := (if show_processes (ui_opts st) \<noteq> 0 then 0 else 1)\<rparr>"
  unfolding ui_switch_def Let_def by simp_all

text \<open>Pressing a switch twice undoes it: for each of the keys that toggle something, two
  presses leave all options as they were.\<close>

lemma flag_twice: "flag v \<Longrightarrow> (if (if v \<noteq> 0 then 0 else 1) \<noteq> (0 :: int) then 0 else 1) = v"
  by (auto simp: flag_def)

lemma port_key_twice: "key_S (key_S q) = q" "key_D (key_D q) = q"
  by (cases q; simp add: key_S_def key_D_def)+

lemmas toggle_twice = flag_twice port_key_twice

theorem toggles_undo:
  assumes "opts_ok (ui_opts st)" and "keycode e \<in> key ` set ''nNhbsdSDPoTLZ''"
  shows "ui_opts (ui_switch lib e (ui_switch lib e st)) = ui_opts st"
proof -
  note flags = assms(1) [unfolded opts_ok_def list.pred_inject]
  have "keycode e = key (CHR ''n'') \<or> keycode e = key (CHR ''N'') \<or> keycode e = key (CHR ''h'') \<or>
      keycode e = key (CHR ''b'') \<or> keycode e = key (CHR ''s'') \<or> keycode e = key (CHR ''d'') \<or>
      keycode e = key (CHR ''S'') \<or> keycode e = key (CHR ''D'') \<or> keycode e = key (CHR ''P'') \<or>
      keycode e = key (CHR ''o'') \<or> keycode e = key (CHR ''T'') \<or> keycode e = key (CHR ''L'') \<or>
      keycode e = key (CHR ''Z'')"
    using assms(2) by (simp only: list.set image_insert insert_iff empty_iff image_empty) blast
  then show ?thesis using flags
    by (elim disjE) (simp only: toggle_opts; simp add: toggle_twice del: if_not_P if_P)+
qed

theorem toggles_undo_witness:
  "ui_opts (ui_switch example_lib (press (CHR ''P'') None) (ui_switch example_lib (press (CHR ''P'') None) start_ui)) =
     ui_opts start_ui"
  by (rule toggles_undo [OF start_ui_ok(1)]) (simp add: press_def)

text \<open>A long message breaks the help line. \<open>showhelp\<close> copies at most eighty bytes and
  adds no null byte, so a message of eighty characters or more, such as an error of the packet
  filter compiler quoting its input, leaves an unterminated string, and the \<open>strlen\<close> that draws
  it reads past the end of the array.\<close>

theorem showhelp_unterminated:
  assumes "NUL \<notin> set m"
  shows "c_strlen (helpmsg (show_help now m st)) 0 = (if length m < 80 then Some (length m) else None)"
proof (cases "length m < 80")
  case True
  then have "80 - length m = Suc (79 - length m)" by simp
  with True have "strncpy m 80 = m @ NUL # replicate (79 - length m) NUL" by (simp add: strncpy_def)
  with True c_strlen_holds [of "strncpy m 80" m 0] holdsI [OF assms] show ?thesis by (simp add: HELP_MSG_SIZE_def)
next
  case False
  then have t: "strncpy m 80 = take 80 m" by (simp add: strncpy_def)
  have "takeWhile (\<lambda>c. c \<noteq> NUL) (take 80 m) = take 80 m"
    using assms by (auto simp: takeWhile_eq_all_conv dest: in_set_takeD)
  from arg_cong [OF this, of length] False have "length (takeWhile (\<lambda>c. c \<noteq> NUL) (take 80 m)) = 80" by simp
  with False show ?thesis by (simp add: HELP_MSG_SIZE_def c_strlen_def t)
qed

theorem showhelp_unterminated_witness:
  "c_strlen (helpmsg (show_help 0 (replicate 100 (CHR ''x'')) start_ui)) 0 = None \<and>
   c_strlen (helpmsg (show_help 0 ''Bars on'' start_ui)) 0 = Some 7"
  using showhelp_unterminated [of "replicate 100 (CHR ''x'')" 0 start_ui] showhelp_unterminated [of "''Bars on''" 0 start_ui]
  by (simp add: NUL_def)

end
