(* ===== verification/Startup.thy ===== *)
theory Startup
  imports Keys Config
begin

text \<open>
  Start-up of \<open>main\<close> (\<open>src/entry/iftop.c\<close>) up to the options: defaults, command line, configuration
  file. Every setting comes from the first of them that has it, and the options the program starts with
  are within the ranges the key handlers keep.
\<close>

section \<open>Operation\<close>

text \<open>
  The first part of \<open>main\<close>: defaults, command line, configuration file, options. The
  file system is a parameter, \<open>first\<close> and \<open>first'\<close> are what \<open>get_first_interface\<close>
  returns at its two calls. A left value is an exit status.
\<close>

definition startup ::
  "(string \<Rightarrow> u32 option) \<Rightarrow> (string \<Rightarrow> bytes option) \<Rightarrow> string option \<Rightarrow> string option \<Rightarrow> string option
     \<Rightarrow> (string \<Rightarrow> string option) \<Rightarrow> string list \<Rightarrow> (int + options_t) option" where
  "startup inet_aton inet_pton6 first first' home fopen args = do {
     r \<leftarrow> options_read_args (options_set_defaults first home) config_init args;
     (case r of
        Inl status \<Rightarrow> Some (Inl status)
      | Inr (op, cfg) \<Rightarrow> do {
          (_, cfg) \<leftarrow> read_config_file cfg (fopen (config_file op));
          (op, _) \<leftarrow> options_make inet_aton inet_pton6 first' op cfg;
          Some (Inr op) })
   }"

text \<open>The value of a directive: command line first, then the file.\<close>

definition effective :: "config \<Rightarrow> (string \<times> string) list \<Rightarrow> string \<Rightarrow> string option" where
  "effective cfg kvs k = (case sm_map cfg k of Some v \<Rightarrow> Some v | None \<Rightarrow> map_of kvs k)"

definition switch_value :: "string option \<Rightarrow> int \<Rightarrow> int" where
  "switch_value v dflt = (case v of None \<Rightarrow> dflt | Some s \<Rightarrow> if s = ''yes'' \<or> s = ''true'' then 1 else 0)"

lemma config_get_bool_ok:
  assumes "sm_inv cfg"
  shows "options_config_get_bool cfg k d = Some (if sm_map cfg k = None then 0 else 1, switch_value (sm_map cfg k) d)"
  using assms by (auto simp: options_config_get_bool_def config_get_bool_def config_get_string_ok switch_value_def
      split: option.split)

lemma options_config_get_string_ok:
  assumes "sm_inv cfg"
  shows "options_config_get_string cfg k d =
     Some (if sm_map cfg k = None then 0 else 1, if sm_map cfg k = None then d else sm_map cfg k)"
  using assms by (cases "sm_map cfg k") (simp_all add: options_config_get_string_def config_get_string_ok)

lemma enum_total:
  assumes "sm_inv cfg"
  shows "\<exists>r e. options_config_get_enum cfg k en = Some (r, e)"
  using assms by (auto simp: options_config_get_enum_def config_get_enum_def config_get_string_ok Let_def
      split: option.split)

text \<open>One option keeps the configuration well formed.\<close>

lemma handle_opt_inv:
  assumes "sm_inv cfg" "handle_opt op cfg e = Some (Inr (op', cfg'))"
  shows "sm_inv cfg'"
proof -
  have set: "\<exists>c. config_set_string cfg k v = Some c \<and> sm_inv c" for k v
    using config_set_string_ok [OF assms(1)] by blast
  have bind: "Option.bind (config_set_string cfg k v) (\<lambda>c. Some (Inr (op, c))) = Some (Inr (op', cfg')) \<Longrightarrow> sm_inv cfg'"
    for k v using set [of k v] by auto
  show ?thesis
    using assms bind by (cases e) (auto simp: handle_opt_def Let_def split: if_splits)
qed

lemma handle_opts_inv:
  "sm_inv cfg \<Longrightarrow> handle_opts op cfg es = Some (Inr (op', cfg')) \<Longrightarrow> sm_inv cfg'"
proof (induction es arbitrary: op cfg)
  case (Cons e es)
  from Cons.prems(2) obtain op1 cfg1 where "handle_opt op cfg e = Some (Inr (op1, cfg1))"
    "handle_opts op1 cfg1 es = Some (Inr (op', cfg'))"
    by (auto split: sum.splits bind_splits)
  with handle_opt_inv [OF Cons.prems(1)] Cons.IH show ?case by blast
qed simp

lemma promiscuous_ok:
  assumes "sm_inv cfg"
  shows "\<exists>r choosy. options_config_get_promiscuous op cfg =
     Some (r, op\<lparr>promiscuous := switch_value (sm_map cfg ''promiscuous'') (promiscuous op),
                 promiscuous_but_choosy := choosy\<rparr>)"
proof (cases "sm_map cfg ''promiscuous''")
  case None
  with assms show ?thesis
    by (intro exI [of _ 0] exI [of _ "promiscuous_but_choosy op"])
      (simp add: options_config_get_promiscuous_def config_get_string_ok switch_value_def)
next
  case (Some v)
  with assms show ?thesis
    by (intro exI [of _ 1] exI [of _ "if v = ''yes'' \<or> v = ''true'' then 0 else promiscuous_but_choosy op"])
      (simp add: options_config_get_promiscuous_def config_get_bool_def config_get_string_ok switch_value_def Let_def)
qed

lemma unset_ok:
  assumes "sm_inv cfg"
  shows "sm_map cfg k = None \<Longrightarrow> options_config_get_bw_rate op cfg k = Some (0, op, cfg)"
    "sm_map cfg ''net-filter'' = None \<Longrightarrow> options_config_get_net_filter inet_aton op cfg = Some (0, op, cfg)"
    "sm_map cfg ''net-filter6'' = None \<Longrightarrow> options_config_get_net_filter6 inet_pton6 op cfg = Some (0, op, cfg)"
  using assms
  by (simp_all add: options_config_get_bw_rate_def options_config_get_net_filter_def
      options_config_get_net_filter6_def config_get_string_ok)

lemma options_make_ok:
  assumes inv: "sm_inv cfg" and unset: "sm_map cfg ''max-bandwidth'' = None" "sm_map cfg ''net-filter'' = None"
    "sm_map cfg ''net-filter6'' = None"
  shows "\<exists>op' cfg'. options_make inet_aton inet_pton6 first op cfg = Some (op', cfg') \<and>
     interface op' = Some (case sm_map cfg ''interface'' of Some i \<Rightarrow> i
                           | None \<Rightarrow> (case first of Some i \<Rightarrow> i | None \<Rightarrow> ''eth0'')) \<and>
     filtercode op' = sm_map cfg ''filter-code'' \<and>
     dnsresolution op' = switch_value (sm_map cfg ''dns-resolution'') (dnsresolution op) \<and>
     portresolution op' = switch_value (sm_map cfg ''port-resolution'') (portresolution op) \<and>
     showbars op' = switch_value (sm_map cfg ''show-bars'') (showbars op) \<and>
     promiscuous op' = switch_value (sm_map cfg ''promiscuous'') (promiscuous op) \<and>
     aggregate_src op' = switch_value (sm_map cfg ''hide-source'') (aggregate_src op) \<and>
     aggregate_dest op' = switch_value (sm_map cfg ''hide-destination'') (aggregate_dest op) \<and>
     bandwidth_in_bytes op' = switch_value (sm_map cfg ''use-bytes'') (bandwidth_in_bytes op) \<and>
     show_totals op' = switch_value (sm_map cfg ''show-totals'') (show_totals op) \<and>
     log_scale op' = switch_value (sm_map cfg ''log-scale'') (log_scale op) \<and>
     link_local op' = switch_value (sm_map cfg ''link-local'') (link_local op) \<and>
     show_processes op' = switch_value (sm_map cfg ''show-processes'') (show_processes op) \<and>
     netfilter op' = netfilter op \<and> netfilter6 op' = netfilter6 op \<and> max_bandwidth op' = max_bandwidth op \<and>
     export_mode op' = export_mode op"
proof -
  obtain r1 e1 where e1: "options_config_get_enum cfg ''sort'' sort_enumeration = Some (r1, e1)"
    using enum_total [OF inv] by blast
  obtain r2 e2 where e2: "options_config_get_enum cfg ''line-display'' linedisplay_enumeration = Some (r2, e2)"
    using enum_total [OF inv] by blast
  obtain r3 e3 where e3: "options_config_get_enum cfg ''port-display'' showports_enumeration = Some (r3, e3)"
    using enum_total [OF inv] by blast
  define upd where "upd op = op\<lparr>interface := Some (case sm_map cfg ''interface'' of Some i \<Rightarrow> i
         | None \<Rightarrow> (case first of Some i \<Rightarrow> i | None \<Rightarrow> ''eth0'')),
      dnsresolution := switch_value (sm_map cfg ''dns-resolution'') (dnsresolution op),
      portresolution := switch_value (sm_map cfg ''port-resolution'') (portresolution op),
      filtercode := sm_map cfg ''filter-code'',
      showbars := switch_value (sm_map cfg ''show-bars'') (showbars op)\<rparr>" for op :: options_t
  obtain r4 ch where p: "options_config_get_promiscuous (upd op) cfg =
     Some (r4, (upd op)\<lparr>promiscuous := switch_value (sm_map cfg ''promiscuous'') (promiscuous (upd op)),
                 promiscuous_but_choosy := ch\<rparr>)" using promiscuous_ok [OF inv] by blast
  note steps = options_make_def options_config_get_string_ok [OF inv] config_get_bool_ok [OF inv] e1 e2 e3
    unset_ok [OF inv] unset
  show ?thesis
    using p by (cases e1; cases e2; cases e3; cases "sm_map cfg ''interface''") (simp_all add: steps upd_def)
qed

section \<open>Ranges\<close>

lemma get_bool_flag: "options_config_get_bool cfg k d = Some (r, v) \<Longrightarrow> flag d \<Longrightarrow> flag v"
  by (auto simp: options_config_get_bool_def config_get_bool_def flag_def bind_eq_Some_conv split: option.splits if_splits)

text \<open>The fields the ranges do not speak of.\<close>

lemma opts_ok_other [simp]:
  "opts_ok (op\<lparr>config_file := c\<rparr>) = opts_ok op" "opts_ok (op\<lparr>config_file_specified := i\<rparr>) = opts_ok op"
  "opts_ok (op\<lparr>export_mode := i\<rparr>) = opts_ok op" "opts_ok (op\<lparr>export_duration := i\<rparr>) = opts_ok op"
  "opts_ok (op\<lparr>interface := s\<rparr>) = opts_ok op" "opts_ok (op\<lparr>filtercode := s\<rparr>) = opts_ok op"
  "opts_ok (op\<lparr>promiscuous := i\<rparr>) = opts_ok op" "opts_ok (op\<lparr>promiscuous_but_choosy := i\<rparr>) = opts_ok op"
  "opts_ok (op\<lparr>bandwidth_in_bytes := i\<rparr>) = opts_ok op" "opts_ok (op\<lparr>sort_by := srt\<rparr>) = opts_ok op"
  "opts_ok (op\<lparr>linedisplay := ld\<rparr>) = opts_ok op" "opts_ok (op\<lparr>max_bandwidth := l\<rparr>) = opts_ok op"
  "opts_ok (op\<lparr>showports := prt\<rparr>) = opts_ok op" "opts_ok (op\<lparr>screenfilter := s\<rparr>) = opts_ok op"
  "opts_ok (op\<lparr>link_local := i\<rparr>) = opts_ok op" "opts_ok (op\<lparr>netfilter := i\<rparr>) = opts_ok op"
  "opts_ok (op\<lparr>netfilternet := w\<rparr>) = opts_ok op" "opts_ok (op\<lparr>netfiltermask := w\<rparr>) = opts_ok op"
  "opts_ok (op\<lparr>netfilter6 := i\<rparr>) = opts_ok op" "opts_ok (op\<lparr>netfilter6net := bs\<rparr>) = opts_ok op"
  "opts_ok (op\<lparr>netfilter6mask := bs\<rparr>) = opts_ok op"
  by (simp_all add: opts_ok_def)

lemma opts_ok_flags [simp]:
  "opts_ok op \<Longrightarrow> flag v \<Longrightarrow> opts_ok (op\<lparr>dnsresolution := v\<rparr>)" "opts_ok op \<Longrightarrow> flag v \<Longrightarrow> opts_ok (op\<lparr>portresolution := v\<rparr>)"
  "opts_ok op \<Longrightarrow> flag v \<Longrightarrow> opts_ok (op\<lparr>showbars := v\<rparr>)" "opts_ok op \<Longrightarrow> flag v \<Longrightarrow> opts_ok (op\<lparr>aggregate_src := v\<rparr>)"
  "opts_ok op \<Longrightarrow> flag v \<Longrightarrow> opts_ok (op\<lparr>aggregate_dest := v\<rparr>)" "opts_ok op \<Longrightarrow> flag v \<Longrightarrow> opts_ok (op\<lparr>show_totals := v\<rparr>)"
  "opts_ok op \<Longrightarrow> flag v \<Longrightarrow> opts_ok (op\<lparr>log_scale := v\<rparr>)" "opts_ok op \<Longrightarrow> flag v \<Longrightarrow> opts_ok (op\<lparr>show_processes := v\<rparr>)"
  by (simp_all add: opts_ok_def)

lemma opts_okD:
  "opts_ok op \<Longrightarrow> flag (dnsresolution op)" "opts_ok op \<Longrightarrow> flag (portresolution op)" "opts_ok op \<Longrightarrow> flag (showbars op)"
  "opts_ok op \<Longrightarrow> flag (aggregate_src op)" "opts_ok op \<Longrightarrow> flag (aggregate_dest op)" "opts_ok op \<Longrightarrow> flag (show_totals op)"
  "opts_ok op \<Longrightarrow> flag (log_scale op)" "opts_ok op \<Longrightarrow> flag (show_processes op)"
  by (simp_all add: opts_ok_def)

lemma handle_opt_opts:
  assumes "handle_opt op cfg e = Some (Inr (op', cfg'))"
  shows "opts_ok op' = opts_ok op"
  using assms by (cases e) (auto simp: handle_opt_def Let_def bind_eq_Some_conv split: if_splits)

text \<open>A configuration without a screen filter, and what every step of reading options keeps.\<close>

definition cfg_ok :: "config \<Rightarrow> bool" where
  "cfg_ok cfg \<longleftrightarrow> sm_inv cfg \<and> sm_map cfg ''screen-filter'' = None"

lemma cfg_set:
  assumes "cfg_ok cfg" "config_set_string cfg k v = Some cfg'" "k \<noteq> ''screen-filter''"
  shows "cfg_ok cfg'"
  using config_set_string_ok [of cfg k v] assms by (auto simp: cfg_ok_def)

lemma cfg_assign: "cfg_ok cfg \<Longrightarrow> sm_map cfg k \<noteq> None \<Longrightarrow> cfg_ok (assign_data cfg k v)"
  using stringmap_assign_ok [of cfg k v] by (auto simp: cfg_ok_def)

lemma handle_opt_cfg:
  assumes "cfg_ok cfg" "handle_opt op cfg e = Some (Inr (op', cfg'))"
  shows "cfg_ok cfg'"
proof -
  have bind: "Option.bind (config_set_string cfg k v) (\<lambda>c. Some (Inr (op, c))) = Some (Inr (op', cfg')) \<Longrightarrow>
      k \<noteq> ''screen-filter'' \<Longrightarrow> cfg_ok cfg'" for k v
    using cfg_set [OF assms(1)] by (auto simp: bind_eq_Some_conv)
  show ?thesis using assms bind by (cases e) (auto simp: handle_opt_def Let_def split: if_splits)
qed

lemma handle_opts_start:
  "cfg_ok cfg \<Longrightarrow> opts_ok op \<Longrightarrow> handle_opts op cfg es = Some (Inr (op', cfg')) \<Longrightarrow> cfg_ok cfg' \<and> opts_ok op'"
proof (induction es arbitrary: op cfg)
  case (Cons e es)
  from Cons.prems(3) obtain op1 cfg1 where "handle_opt op cfg e = Some (Inr (op1, cfg1))"
    "handle_opts op1 cfg1 es = Some (Inr (op', cfg'))"
    by (auto split: sum.splits bind_splits)
  with handle_opt_cfg [OF Cons.prems(1)] handle_opt_opts Cons.IH Cons.prems(2) show ?case by blast
qed simp

text \<open>Reading a file adds known directives only.\<close>

lemma read_config_cfg:
  assumes "cfg_ok cfg" "read_config_file cfg inp = Some (r, cfg')"
  shows "cfg_ok cfg'"
proof (cases inp)
  case (Some ftext)
  have "\<not> is_cfgdirective_valid ''screen-filter''" by (simp add: is_cfgdirective_valid_def config_directives_def)
  with config_lines_ok [of cfg ftext] assms Some show ?thesis by (auto simp: cfg_ok_def read_config_file_def)
qed (use assms in \<open>simp add: read_config_file_def\<close>)

lemma bw_rate_start:
  assumes "cfg_ok cfg" "options_config_get_bw_rate op cfg k = Some (r, op', cfg')"
  shows "cfg_ok cfg' \<and> opts_ok op' = opts_ok op \<and> screenfilter op' = screenfilter op"
proof (cases "sm_map cfg k")
  case None
  with assms show ?thesis by (auto simp: options_config_get_bw_rate_def config_get_string_ok cfg_ok_def)
next
  case (Some v)
  then have "cfg_ok (assign_data cfg k d)" for d using cfg_assign [OF assms(1)] by simp
  with Some assms show ?thesis
    by (auto simp: options_config_get_bw_rate_def config_get_string_ok cfg_ok_def Let_def bind_eq_Some_conv split: if_splits)
qed

lemma net_filter_start:
  assumes "cfg_ok cfg" "options_config_get_net_filter inet_aton op cfg = Some (r, op', cfg')"
  shows "cfg_ok cfg' \<and> opts_ok op' = opts_ok op \<and> screenfilter op' = screenfilter op"
proof (cases "sm_map cfg ''net-filter''")
  case None
  with assms show ?thesis by (auto simp: options_config_get_net_filter_def config_get_string_ok cfg_ok_def)
next
  case (Some v)
  then have "cfg_ok (assign_data cfg ''net-filter'' d)" for d using cfg_assign [OF assms(1)] by simp
  with Some assms show ?thesis
    by (auto simp: options_config_get_net_filter_def config_get_string_ok cfg_ok_def Let_def bind_eq_Some_conv
        split: if_splits option.splits prod.splits)
qed

lemma net_filter6_start:
  assumes "cfg_ok cfg" "options_config_get_net_filter6 inet_pton6 op cfg = Some (r, op', cfg')"
  shows "opts_ok op' = opts_ok op \<and> screenfilter op' = screenfilter op"
proof (cases "sm_map cfg ''net-filter6''")
  case None
  with assms show ?thesis by (auto simp: options_config_get_net_filter6_def config_get_string_ok cfg_ok_def)
next
  case (Some v)
  with assms show ?thesis
    by (auto simp: options_config_get_net_filter6_def config_get_string_ok cfg_ok_def Let_def bind_eq_Some_conv
        split: if_splits option.splits prod.splits)
qed

lemma switch_value_flag: "flag d \<Longrightarrow> flag (switch_value v d)"
  by (auto simp: switch_value_def flag_def split: option.split)

text \<open>What a sequence of steps that may fail yields, step by step.\<close>

definition yields :: "'a option \<Rightarrow> ('a \<Rightarrow> bool) \<Rightarrow> bool" where
  "yields r Q \<longleftrightarrow> (\<forall>x. r = Some x \<longrightarrow> Q x)"

lemma yields_Some [simp]: "yields (Some x) Q = Q x"
  by (simp add: yields_def)

lemma yields_any: "(\<And>v. yields (f v) Q) \<Longrightarrow> yields (Option.bind x f) Q"
  by (auto simp: yields_def bind_eq_Some_conv)

lemma yields_bool:
  "flag d \<Longrightarrow> (\<And>r v. flag v \<Longrightarrow> yields (f (r, v)) Q) \<Longrightarrow> yields (Option.bind (options_config_get_bool cfg k d) f) Q"
  by (auto simp: yields_def bind_eq_Some_conv dest: get_bool_flag)

lemma yields_promiscuous:
  assumes "cfg_ok cfg" "opts_ok op" "\<And>r op'. opts_ok op' \<Longrightarrow> yields (f (r, op')) Q"
  shows "yields (Option.bind (options_config_get_promiscuous op cfg) f) Q"
proof -
  from promiscuous_ok [of cfg op] assms(1) obtain r ch where
    "options_config_get_promiscuous op cfg =
       Some (r, op\<lparr>promiscuous := switch_value (sm_map cfg ''promiscuous'') (promiscuous op), promiscuous_but_choosy := ch\<rparr>)"
    by (auto simp: cfg_ok_def)
  with assms(2,3) show ?thesis by simp
qed

lemma yields_bw_rate:
  assumes "cfg_ok cfg" "opts_ok op" "\<And>r op' cfg'. opts_ok op' \<Longrightarrow> cfg_ok cfg' \<Longrightarrow> yields (f (r, op', cfg')) Q"
  shows "yields (Option.bind (options_config_get_bw_rate op cfg k) f) Q"
  using bw_rate_start [OF assms(1)] assms(2,3) by (fastforce simp: yields_def bind_eq_Some_conv)

lemma yields_screen_filter:
  assumes "cfg_ok cfg" "\<And>r. yields (f (r, None)) Q"
  shows "yields (Option.bind (options_config_get_string cfg ''screen-filter'' None) f) Q"
  using assms by (simp add: cfg_ok_def options_config_get_string_ok)

lemma yields_net_filter:
  assumes "cfg_ok cfg" "opts_ok op \<and> screenfilter op = None"
    "\<And>r op' cfg'. opts_ok op' \<and> screenfilter op' = None \<Longrightarrow> cfg_ok cfg' \<Longrightarrow> yields (f (r, op', cfg')) Q"
  shows "yields (Option.bind (options_config_get_net_filter inet_aton op cfg) f) Q"
  using net_filter_start [OF assms(1)] assms(2,3) by (fastforce simp: yields_def bind_eq_Some_conv)

lemma yields_net_filter6:
  assumes "cfg_ok cfg" "opts_ok op \<and> screenfilter op = None"
    "\<And>r op' cfg'. opts_ok op' \<and> screenfilter op' = None \<Longrightarrow> yields (f (r, op', cfg')) Q"
  shows "yields (Option.bind (options_config_get_net_filter6 inet_pton6 op cfg) f) Q"
  using net_filter6_start [OF assms(1)] assms(2,3) by (fastforce simp: yields_def bind_eq_Some_conv)

lemma opts_ok_enum [simp]:
  "opts_ok op \<Longrightarrow> opts_ok (case e of None \<Rightarrow> op | Some n \<Rightarrow> op\<lparr>sort_by := f n\<rparr>)"
  "opts_ok op \<Longrightarrow> opts_ok (case e of None \<Rightarrow> op | Some n \<Rightarrow> op\<lparr>linedisplay := g n\<rparr>)"
  "opts_ok op \<Longrightarrow> opts_ok (case e of None \<Rightarrow> op | Some n \<Rightarrow> op\<lparr>showports := h n\<rparr>)"
  by (simp_all split: option.split)

lemma options_make_yields:
  assumes "cfg_ok cfg" "opts_ok op"
  shows "yields (options_make inet_aton inet_pton6 first op cfg) (\<lambda>(op', cfg'). opts_ok op' \<and> screenfilter op' = None)"
  using assms unfolding options_make_def Let_def
  by - (((rule yields_net_filter6 yields_net_filter yields_bw_rate yields_promiscuous yields_screen_filter, assumption,
        (simp add: opts_okD; fail)?)
      | (rule yields_bool, (simp add: opts_okD; fail)) | (rule yields_any, clarify) | (simp only: prod.case))+, simp)

lemma startup_ranges:
  assumes "startup inet_aton inet_pton6 first first' home fopen args = Some (Inr op)"
  shows "opts_ok op \<and> screenfilter op = None"
proof -
  obtain op1 cfg1 where r: "options_read_args (options_set_defaults first home) config_init args = Some (Inr (op1, cfg1))"
    using assms by (cases "options_read_args (options_set_defaults first home) config_init args")
      (auto simp: startup_def split: sum.splits prod.splits)
  then obtain es where es: "handle_opts (options_set_defaults first home) config_init es = Some (Inr (op1, cfg1))"
    by (auto simp: options_read_args_def split: prod.splits sum.splits bind_splits if_splits)
  have "cfg_ok config_init" by (simp add: cfg_ok_def config_init_def stringmap_new_ok)
  moreover have "opts_ok (options_set_defaults first home)" by (simp add: opts_ok_def options_set_defaults_def)
  ultimately have 1: "cfg_ok cfg1" "opts_ok op1" using handle_opts_start [OF _ _ es] by auto
  from assms r obtain n cfg2 cfg3 where "read_config_file cfg1 (fopen (config_file op1)) = Some (n, cfg2)"
    "options_make inet_aton inet_pton6 first' op1 cfg2 = Some (op, cfg3)"
    by (auto simp: startup_def bind_eq_Some_conv)
  with options_make_yields [OF read_config_cfg [OF 1(1)] 1(2)] show ?thesis by (fastforce simp: yields_def)
qed

end
