(* ===== verification/Screen.thy ===== *)
theory Screen
  imports Screen_Line Packet
begin

text \<open>
  The analysis of \<open>src/ui/ui.c\<close> that turns the connection histories into the lines of the
  display: \<open>analyse_data\<close> with \<open>screen_hash_clear\<close>, \<open>screen_list_clear\<close>,
  \<open>make_screen_list\<close>, \<open>calculate_totals\<close> and \<open>history_length\<close>.

  Lines live in a heap of their own (\<open>lines\<close>), the display table maps an aggregated
  connection to the address of its line, and the sorted list holds addresses. The nodes of
  the display table come from the same pool as those of the connection table, so
  \<open>analyse_data\<close> changes both states. Using a line that has been freed is undefined
  behaviour. \<open>slot_elapsed\<close>, a \<open>double\<close>, is a rational.
\<close>

section \<open>Walking a table\<close>

text \<open>\<open>while (hash_next_item(table, &node) == HASH_STATUS_OK) ...\<close> with a body that leaves the table alone.\<close>

partial_function (option) hash_walk ::
  "('a, 'k, 'r) hash_type \<Rightarrow> (('a, 'k, 'r) hash_node_type \<Rightarrow> 's \<Rightarrow> 's option) \<Rightarrow> 'a option \<Rightarrow> 's \<Rightarrow> 's option" where
  "hash_walk ht body node s =
     Option.bind (hash_next_item ht node) (\<lambda>(status, next).
     if status \<noteq> HASH_STATUS_OK then Some s
     else Option.bind next (\<lambda>a.
          Option.bind (deref (table ht) a) (\<lambda>(nd, _).
          Option.bind (body nd s) (\<lambda>s. hash_walk ht body (Some a) s))))"

section \<open>State\<close>

record screen_state =
  screen_hash :: "nat addr_table"
  lines :: "nat \<rightharpoonup> host_pair_line"
  screen_list :: "nat sorted_list_type"
  totals :: host_pair_line
  peaksent :: int
  peakrecv :: int
  peaktotal :: int

text \<open>The environment of an analysis: the C library, the options and the fraction of the current slot.\<close>

record analysis_env =
  ntop :: "int \<Rightarrow> bytes \<Rightarrow> string"
  qsort :: "(nat \<Rightarrow> nat \<Rightarrow> int) \<Rightarrow> nat list \<Rightarrow> nat list"
  opts :: options_t
  slot_elapsed :: rat

text \<open>An address for a new line: one no line of the table has.\<close>

definition line_malloc :: "nat addr_table \<Rightarrow> nat" where
  "line_malloc ht = Suc (fold max (map nd_record (nodes ht)) 0)"

definition history_divs :: "nat list" where "history_divs = [2, 10, 40]"

text \<open>\<open>RESOLUTION\<close> is one second.\<close>

definition RESOLUTION :: rat where "RESOLUTION = 1"

definition history_length :: "int \<Rightarrow> rat \<Rightarrow> nat \<Rightarrow> rat" where
  "history_length hist_len elapsed division =
     (let full_slots = (if hist_len < int (history_divs ! division) then hist_len
                        else int (history_divs ! division)) in
      if full_slots \<le> 1 then (if elapsed > 0 then elapsed else RESOLUTION)
      else of_int (full_slots - 1) * RESOLUTION + elapsed)"

section \<open>Initial state\<close>

text \<open>The list compares by dereferencing the lines, so its comparison is set whenever the lines are.\<close>

definition screen_list_init :: "options_t \<Rightarrow> nat sorted_list_type" where
  "screen_list_init op =
     sorted_list_initialise \<lparr>chain = [], batch_allocated = 0,
       sorted_list_type.compare = (\<lambda>_ _. screen_line_compare op line_zero line_zero), live = []\<rparr>"

text \<open>The tables that \<open>ui_init\<close> creates; the totals and peaks are zero as static data.\<close>

definition ui_init_tables :: "options_t \<Rightarrow> screen_state" where
  "ui_init_tables op = \<lparr>screen_hash = addr_hash_create, lines = Map.empty, screen_list = screen_list_init op,
     totals = line_zero, peaksent = 0, peakrecv = 0, peaktotal = 0\<rparr>"

section \<open>Clearing\<close>

definition screen_list_clear :: "screen_state \<Rightarrow> screen_state option" where
  "screen_list_clear sc = do {
     l \<leftarrow> sorted_list_destroy (screen_list sc);
     Some (sc\<lparr>peaksent := 0, peakrecv := 0, peaktotal := 0, screen_list := l\<rparr>)
   }"

text \<open>Zeroes the line of a node.\<close>

definition clear_line :: "(pool_addr, addr_pair, nat) hash_node_type \<Rightarrow> (nat \<rightharpoonup> host_pair_line) \<Rightarrow> (nat \<rightharpoonup> host_pair_line) option" where
  "clear_line nd ls = do {
     hpl \<leftarrow> ls (nd_record nd);
     Some (ls(nd_record nd \<mapsto> hpl\<lparr>line_total_recv := 0, line_total_sent := 0,
       line_recv := replicate HISTORY_DIVISIONS 0, line_sent := replicate HISTORY_DIVISIONS 0\<rparr>))
   }"

definition screen_hash_clear :: "screen_state \<Rightarrow> screen_state option" where
  "screen_hash_clear sc = do {
     ls \<leftarrow> hash_walk (screen_hash sc) clear_line None (lines sc);
     Some (sc\<lparr>lines := ls\<rparr>)
   }"

section \<open>Collecting\<close>

text \<open>Slot \<open>i\<close> of the past, zero being the current one.\<close>

definition hist_index :: "int \<Rightarrow> nat \<Rightarrow> int" where
  "hist_index pos i = (HISTORY_LENGTH + pos - int i) mod HISTORY_LENGTH"

text \<open>Adds a count to the given divisions.\<close>

definition add_divs :: "nat list \<Rightarrow> int \<Rightarrow> rat list \<Rightarrow> rat list" where
  "add_divs js b arr = fold (\<lambda>j a. a[j := a ! j + of_int b]) js arr"

text \<open>One of the three loops: every slot of \<open>idx\<close> goes to the divisions \<open>js\<close>.\<close>

fun add_slots :: "nat list \<Rightarrow> history_type \<Rightarrow> int list \<Rightarrow> rat list \<times> rat list \<Rightarrow> (rat list \<times> rat list) option" where
  "add_slots js h [] acc = Some acc"
| "add_slots js h (ix # idx) acc = do {
     recv_bytes \<leftarrow> rdi (recv h) ix;
     sent_bytes \<leftarrow> rdi (sent h) ix;
     add_slots js h idx (add_divs js recv_bytes (fst acc), add_divs js sent_bytes (snd acc))
   }"

definition accumulate :: "history_type \<Rightarrow> int list \<Rightarrow> rat list \<times> rat list \<Rightarrow> (rat list \<times> rat list) option" where
  "accumulate h hist_idx acc = do {
     acc \<leftarrow> add_slots [0, 1, 2] h (take (history_divs ! 0) hist_idx) acc;
     acc \<leftarrow> add_slots [1, 2] h (take (history_divs ! 1 - history_divs ! 0) (drop (history_divs ! 0) hist_idx)) acc;
     add_slots [2] h (drop (history_divs ! 1) hist_idx) acc
   }"

text \<open>The key of a connection's line.\<close>

definition screen_key :: "options_t \<Rightarrow> addr_pair \<Rightarrow> addr_pair" where
  "screen_key op ap =
     (let ap = (if aggregate_src op \<noteq> 0 then ap\<lparr>src6 := replicate 16 0\<rparr> else ap);
          ap = (if aggregate_dest op \<noteq> 0 then ap\<lparr>dst6 := replicate 16 0\<rparr> else ap);
          ap = (if showports op = OPTION_PORTS_DEST \<or> showports op = OPTION_PORTS_OFF then ap\<lparr>src_port := 0\<rparr> else ap);
          ap = (if showports op = OPTION_PORTS_SRC \<or> showports op = OPTION_PORTS_OFF then ap\<lparr>dst_port := 0\<rparr> else ap)
      in if showports op = OPTION_PORTS_OFF then ap\<lparr>protocol := 0\<rparr> else ap)"

text \<open>The process of a connection: source endpoint first, then destination.\<close>

definition flow_process :: "procinfo_state \<Rightarrow> addr_pair \<Rightarrow> proc_entry option option" where
  "flow_process ps orig =
     (if address_family orig = AF_INET \<or> address_family orig = AF_INET6 then do {
        f1 \<leftarrow> procinfo_lookup ps (address_family orig) (src6 orig) (src_port orig) (protocol orig);
        (case f1 of Some e \<Rightarrow> Some (Some e)
         | None \<Rightarrow> procinfo_lookup ps (address_family orig) (dst6 orig) (dst_port orig) (protocol orig)) }
      else Some None)"

definition attribute_line ::
  "options_t \<Rightarrow> procinfo_state \<Rightarrow> addr_pair \<Rightarrow> history_type \<Rightarrow> host_pair_line \<Rightarrow> (history_type \<times> host_pair_line) option" where
  "attribute_line op ps orig hist line =
     (if show_processes op \<noteq> 0 \<and> process_name line = [] then
        (if proc_resolved hist \<noteq> 0 then
           Some (hist, line\<lparr>line_pid := proc_pid hist, process_name := copy_bounded PROCNAME_LENGTH (proc_name hist)\<rparr>)
         else do {
           found \<leftarrow> flow_process ps orig;
           Some (case found of
               None \<Rightarrow> (hist, line)
             | Some pe \<Rightarrow>
                 (hist\<lparr>proc_resolved := 1, proc_pid := pe_pid pe,
                       proc_name := copy_bounded PROCINFO_NAME_MAX (pe_name pe)\<rparr>,
                  line\<lparr>line_pid := pe_pid pe, process_name := copy_bounded PROCNAME_LENGTH (pe_name pe)\<rparr>)) })
      else Some (hist, line))"

text \<open>The line of a key, created if the display table does not have it.\<close>

definition find_line :: "node_pool \<Rightarrow> screen_state \<Rightarrow> addr_pair \<Rightarrow> (nat \<times> node_pool \<times> screen_state) option" where
  "find_line pool sc ap = do {
     (status, found) \<leftarrow> addr_hash_find (screen_hash sc) ap;
     if status = HASH_STATUS_KEY_NOT_FOUND then do {
       let la = line_malloc (screen_hash sc);
       (_, ht, pool) \<leftarrow> addr_hash_insert (screen_hash sc) pool ap la;
       Some (la, pool, sc\<lparr>screen_hash := ht, lines := (lines sc)(la \<mapsto> line_zero\<lparr>line_ap := ap\<rparr>)\<rparr>) }
     else do { la \<leftarrow> found; Some (la, pool, sc) }
   }"

text \<open>The body of the loop over the connections.\<close>

definition analyse_node ::
  "options_t \<Rightarrow> procinfo_state \<Rightarrow> int list \<Rightarrow> (pool_addr, addr_pair, pool_addr) hash_node_type
     \<Rightarrow> iftop_state \<times> screen_state \<Rightarrow> (iftop_state \<times> screen_state) option" where
  "analyse_node op ps hist_idx nd s = do {
     let (st, sc) = s;
     hist_data \<leftarrow> hist_items (store st) (nd_record nd);
     (la, pool, sc) \<leftarrow> find_line (nodes_pool st) sc (screen_key op (nd_key nd));
     line \<leftarrow> lines sc la;
     (hist_data, line) \<leftarrow> attribute_line op ps (nd_key nd) hist_data line;
     (r, s) \<leftarrow> accumulate hist_data hist_idx (line_recv line, line_sent line);
     let line = line\<lparr>line_total_sent := line_total_sent line + total_sent hist_data,
                     line_total_recv := line_total_recv line + total_recv hist_data,
                     line_recv := r, line_sent := s\<rparr>;
     Some (st\<lparr>nodes_pool := pool,
              store := (store st)\<lparr>hist_items := (hist_items (store st))(nd_record nd \<mapsto> hist_data)\<rparr>\<rparr>,
           sc\<lparr>lines := (lines sc)(la \<mapsto> line)\<rparr>)
   }"

section \<open>Sorting and totals\<close>

text \<open>Scales one line to rates; the addresses are collected in order.\<close>

definition scale_line ::
  "(nat \<Rightarrow> rat) \<Rightarrow> (pool_addr, addr_pair, nat) hash_node_type \<Rightarrow> (nat \<rightharpoonup> host_pair_line) \<times> nat list
     \<Rightarrow> ((nat \<rightharpoonup> host_pair_line) \<times> nat list) option" where
  "scale_line inv_hist_len nd acc = do {
     line \<leftarrow> fst acc (nd_record nd);
     let line = line\<lparr>line_recv := map (\<lambda>i. line_recv line ! i * inv_hist_len i) [0..<HISTORY_DIVISIONS],
                     line_sent := map (\<lambda>i. line_sent line ! i * inv_hist_len i) [0..<HISTORY_DIVISIONS]\<rparr>;
     Some ((fst acc)(nd_record nd \<mapsto> line), snd acc @ [nd_record nd])
   }"

text \<open>The name of a line for sorting by host; \<open>inet_ntop\<close> leaves the buffer alone for an unknown family.\<close>

definition name_line ::
  "analysis_env \<Rightarrow> resolver_state \<times> (nat \<rightharpoonup> host_pair_line) \<Rightarrow> nat \<Rightarrow> (resolver_state \<times> (nat \<rightharpoonup> host_pair_line)) option" where
  "name_line env s la = do {
     let (r, ls) = s;
     hpl \<leftarrow> ls la;
     let af = address_family (line_ap hpl);
     let address = (if sort_by (opts env) = OPTION_SORT_SRC then src6 (line_ap hpl) else dst6 (line_ap hpl));
     if dnsresolution (opts env) \<noteq> 0 then do {
       (out, _, r) \<leftarrow> resolve (ntop env) (dnsresolution (opts env)) (ns_malloc (ns_hash r)) r af address
                       (Some (int HOSTNAME_LENGTH));
       Some (r, ls(la \<mapsto> (case out of Some name \<Rightarrow> hpl\<lparr>cached_hostname := name\<rparr> | None \<Rightarrow> hpl))) }
     else if af = AF_INET \<or> af = AF_INET6 then
       Some (r, ls(la \<mapsto> hpl\<lparr>cached_hostname := ntop env af address\<rparr>))
     else Some (r, ls)
   }"

fun name_lines ::
  "analysis_env \<Rightarrow> nat list \<Rightarrow> resolver_state \<times> (nat \<rightharpoonup> host_pair_line) \<Rightarrow> (resolver_state \<times> (nat \<rightharpoonup> host_pair_line)) option" where
  "name_lines env [] s = Some s"
| "name_lines env (la # las) s = Option.bind (name_line env s la) (name_lines env las)"

text \<open>
  The comparison of two entries of the list dereferences them in the heap at that moment;
  a dangling entry would compare like an empty line.
\<close>

definition compare_at :: "options_t \<Rightarrow> (nat \<rightharpoonup> host_pair_line) \<Rightarrow> nat \<Rightarrow> nat \<Rightarrow> int" where
  "compare_at op ls a b =
     screen_line_compare op (case ls a of Some l \<Rightarrow> l | None \<Rightarrow> line_zero) (case ls b of Some l \<Rightarrow> l | None \<Rightarrow> line_zero)"

definition make_screen_list ::
  "analysis_env \<Rightarrow> int \<Rightarrow> resolver_state \<Rightarrow> screen_state \<Rightarrow> (resolver_state \<times> screen_state) option" where
  "make_screen_list env hist_len r sc = do {
     let inv_hist_len = (\<lambda>i. let hl = history_length hist_len (slot_elapsed env) i in if hl > 0 then 1 / hl else 0);
     (ls, items) \<leftarrow> hash_walk (screen_hash sc) (scale_line inv_hist_len) None (lines sc, []);
     if freezeorder (opts env) \<noteq> 0 then Some (r, sc\<lparr>lines := ls\<rparr>)
     else do {
       (r, ls) \<leftarrow> (if sort_by (opts env) = OPTION_SORT_SRC \<or> sort_by (opts env) = OPTION_SORT_DEST
                   then name_lines env items (r, ls) else Some (r, ls));
       let l = (screen_list sc)\<lparr>sorted_list_type.compare := compare_at (opts env) ls\<rparr>;
       Some (r, sc\<lparr>lines := ls, screen_list := sorted_list_insert_batch (qsort env) l items\<rparr>) }
   }"

text \<open>The scan for peaks. The peaks are \<open>int\<close>, the byte counts \<open>long\<close>.\<close>

fun scan_peaks :: "(int \<times> int) list \<Rightarrow> int \<times> int \<times> int \<Rightarrow> int \<times> int \<times> int" where
  "scan_peaks [] ps = ps"
| "scan_peaks ((recv_bytes, sent_bytes) # xs) (pr, ps, pt) =
     scan_peaks xs
       (if recv_bytes > pr then to_int32 recv_bytes else pr,
        if sent_bytes > ps then to_int32 sent_bytes else ps,
        if recv_bytes + sent_bytes > pt then to_int32 (recv_bytes + sent_bytes) else pt)"

definition calculate_totals ::
  "rat \<Rightarrow> int list \<Rightarrow> iftop_state \<Rightarrow> screen_state \<Rightarrow> screen_state option" where
  "calculate_totals elapsed hist_idx st sc = do {
     let h = history_totals st;
     let (pr, ps, pt) = scan_peaks (zip (recv h) (sent h)) (peakrecv sc, peaksent sc, peaktotal sc);
     (r, s) \<leftarrow> accumulate h hist_idx (line_recv (totals sc), line_sent (totals sc));
     let rate = (\<lambda>arr. map (\<lambda>i. let hl = history_length (history_len st) elapsed i in
                               if hl > 0 then arr ! i / hl else arr ! i) [0..<HISTORY_DIVISIONS]);
     Some (sc\<lparr>peakrecv := pr, peaksent := ps, peaktotal := pt,
              totals := (totals sc)\<lparr>line_recv := rate r, line_sent := rate s\<rparr>\<rparr>)
   }"

section \<open>The analysis\<close>

text \<open>With a frozen order the lines are zeroed and kept, otherwise the list and the table are emptied.\<close>

definition clear_display :: "options_t \<Rightarrow> iftop_state \<times> screen_state \<Rightarrow> (iftop_state \<times> screen_state) option" where
  "clear_display op s =
     (let (st, sc) = s in
      if freezeorder op \<noteq> 0 then do {
        sc \<leftarrow> screen_hash_clear sc;
        Some (st, sc) }
      else do {
        sc \<leftarrow> screen_list_clear sc;
        (freed, ht, pool) \<leftarrow> addr_hash_delete_all_free (screen_hash sc) (nodes_pool st);
        Some (st\<lparr>nodes_pool := pool\<rparr>, sc\<lparr>screen_hash := ht, lines := (lines sc) |` (- set freed)\<rparr>) })"

definition analyse_data :: "analysis_env \<Rightarrow> capture_state \<times> screen_state \<Rightarrow> (capture_state \<times> screen_state) option" where
  "analyse_data env s =
     (let (cs, sc) = s in
      if paused (opts env) = 1 then Some s
      else do {
        let hist_idx = map (hist_index (history_pos (acct cs))) [0..<nat HISTORY_LENGTH];
        let sc = sc\<lparr>totals := line_zero\<rparr>;
        (st, sc) \<leftarrow> clear_display (opts env) (acct cs, sc);
        (st, sc) \<leftarrow> hash_walk (history st) (analyse_node (opts env) (procs cs) hist_idx) None (st, sc);
        (r, sc) \<leftarrow> make_screen_list env (history_len st) (names cs) sc;
        sc \<leftarrow> calculate_totals (slot_elapsed env) hist_idx st sc;
        Some (cs\<lparr>acct := st, names := r\<rparr>, sc) })"

end
