(* ===== verification/Screen_Proofs.thy ===== *)
theory Screen_Proofs
  imports Screen Accounting
begin

text \<open>
  Correctness of the analysis: it is total and keeps the memory of the display sound, every
  line shows the traffic of exactly the connections that aggregate to it, and the lines add
  up to the totals.
\<close>

section \<open>Walking a table is a fold over its nodes\<close>

fun fold_opt :: "('x \<Rightarrow> 's \<Rightarrow> 's option) \<Rightarrow> 'x list \<Rightarrow> 's \<Rightarrow> 's option" where
  "fold_opt f [] s = Some s"
| "fold_opt f (x # xs) s = Option.bind (f x s) (fold_opt f xs)"

lemma deref_node:
  assumes shape: "hash_shape ht" and n: "n \<in> set (nodes ht)"
  shows "\<exists>x. deref (table ht) (nd_addr n) = Some (n, x)"
proof -
  from hash_shape_bucket [OF shape n] obtain i pre q where
    "i < length (table ht)" "table ht ! i = pre @ n # q" by metis
  with shape show ?thesis using deref_mid [of "table ht" i pre n q] by (auto simp: hash_shape_def nodes_def)
qed

lemma hash_walk_from:
  assumes shape: "hash_shape ht"
    and "nodes ht = pre @ post" "node = (if pre = [] then None else Some (nd_addr (last pre)))"
  shows "hash_walk ht body node s = fold_opt body post s"
  using assms(2,3)
proof (induction post arbitrary: pre node s)
  case (Nil pre node s)
  have "hash_next_item ht node = Some (HASH_STATUS_KEY_NOT_FOUND, None)"
  proof (cases "pre = []")
    case True
    with Nil hash_next_item_start [OF shape] show ?thesis by (simp add: iter_result_def)
  next
    case False
    with Nil have "nodes ht = butlast pre @ last pre # []" by simp
    with hash_next_item_mid [OF shape this] False Nil show ?thesis by (simp add: iter_result_def)
  qed
  then show ?case by (simp add: hash_walk.simps [of ht body node s])
next
  case (Cons n post)
  obtain x where d: "deref (table ht) (nd_addr n) = Some (n, x)"
    using deref_node [OF shape, of n] Cons.prems(1) by auto
  have "hash_next_item ht node = Some (iter_result (n # post))"
  proof (cases "pre = []")
    case True
    with Cons.prems hash_next_item_start [OF shape] show ?thesis by simp
  next
    case False
    with Cons.prems have "nodes ht = butlast pre @ last pre # n # post" by simp
    with hash_next_item_mid [OF shape this] False Cons.prems show ?thesis by simp
  qed
  moreover have "hash_walk ht body (Some (nd_addr n)) = fold_opt body post"
    using Cons.IH [of "pre @ [n]" "Some (nd_addr n)"] Cons.prems(1) by (intro ext) simp
  ultimately show ?case by (simp add: hash_walk.simps [of ht body node s] iter_result_def d)
qed

lemma hash_walk_nodes: "hash_shape ht \<Longrightarrow> hash_walk ht body None s = fold_opt body (nodes ht) s"
  by (rule hash_walk_from [of ht "[]"]) simp_all

section \<open>The display table and its lines\<close>

definition line_ok :: "host_pair_line \<Rightarrow> bool" where
  "line_ok l \<longleftrightarrow> length (line_recv l) = 3 \<and> length (line_sent l) = 3"

text \<open>Every node owns one line and every line has a node.\<close>

definition line_inv :: "nat addr_table \<Rightarrow> node_pool \<Rightarrow> pool_addr set \<Rightarrow> (nat \<rightharpoonup> host_pair_line) \<Rightarrow> bool" where
  "line_inv ht pool rest ls \<longleftrightarrow> addr_inv ht pool rest \<and> distinct (map nd_record (nodes ht)) \<and>
     dom ls = nd_record ` set (nodes ht) \<and> (\<forall>l\<in>ran ls. line_ok l)"

definition view :: "nat addr_table \<Rightarrow> (nat \<rightharpoonup> host_pair_line) \<Rightarrow> addr_pair \<Rightarrow> host_pair_line option" where
  "view ht ls k = Option.bind (hash_map ht k) ls"

lemma line_invD:
  assumes "line_inv ht pool rest ls"
  shows "addr_inv ht pool rest" "distinct (map nd_record (nodes ht))" "dom ls = nd_record ` set (nodes ht)"
    "\<And>a l. ls a = Some l \<Longrightarrow> line_ok l" "hash_shape ht"
  using assms addr_invD(4) [of ht pool rest] by (auto simp: line_inv_def ran_def)

lemma line_hash_map:
  assumes "line_inv ht pool rest ls"
  shows "hash_map ht k = Some r \<longleftrightarrow> (\<exists>n\<in>set (nodes ht). nd_key n = k \<and> nd_record n = r)"
  by (rule hash_map_iff [OF addr_invD(2,3) [OF line_invD(1) [OF assms]]])

lemma view_iff:
  assumes "line_inv ht pool rest ls"
  shows "view ht ls k = Some l \<longleftrightarrow> (\<exists>n\<in>set (nodes ht). nd_key n = k \<and> ls (nd_record n) = Some l)"
  unfolding view_def bind_eq_Some_conv line_hash_map [OF assms] by blast

lemma view_Some:
  assumes inv: "line_inv ht pool rest ls" and a: "hash_map ht k = Some a"
  shows "\<exists>l. ls a = Some l \<and> view ht ls k = Some l \<and> line_ok l"
proof -
  from a line_hash_map [OF inv] have "a \<in> dom ls" using line_invD(3) [OF inv] by auto
  then obtain l where "ls a = Some l" by blast
  with a line_invD(4) [OF inv] show ?thesis by (auto simp: view_def)
qed

lemma line_update:
  assumes inv: "line_inv ht pool rest ls" and a: "hash_map ht k = Some a" and l: "line_ok l"
  shows "line_inv ht pool rest (ls(a \<mapsto> l))" "view ht (ls(a \<mapsto> l)) = (view ht ls)(k \<mapsto> l)"
proof -
  obtain n where n: "n \<in> set (nodes ht)" "nd_key n = k" "nd_record n = a"
    using a line_hash_map [OF inv] by blast
  then show "line_inv ht pool rest (ls(a \<mapsto> l))"
    using inv l by (auto simp: line_inv_def ran_def split: if_splits)
  show "view ht (ls(a \<mapsto> l)) = (view ht ls)(k \<mapsto> l)"
  proof
    fix k'
    have "k' = k" if "hash_map ht k' = Some a"
    proof -
      from that line_hash_map [OF inv] obtain m where m: "m \<in> set (nodes ht)" "nd_key m = k'" "nd_record m = a" by blast
      with n line_invD(2) [OF inv] have "m = n" by (auto simp: distinct_map dest: inj_onD)
      with m n show ?thesis by simp
    qed
    then show "view ht (ls(a \<mapsto> l)) k' = ((view ht ls)(k \<mapsto> l)) k'"
      using a by (cases "hash_map ht k'") (auto simp: view_def)
  qed
qed

lemma line_malloc_fresh: "line_malloc ht \<notin> nd_record ` set (nodes ht)"
  using fold_max_ge [of _ "map nd_record (nodes ht)" 0] by (fastforce simp: line_malloc_def)

definition fresh_line :: "addr_pair \<Rightarrow> host_pair_line" where
  "fresh_line ap = line_zero\<lparr>line_ap := ap\<rparr>"

lemma fresh_line_ok: "line_ok (fresh_line ap)"
  by (simp add: fresh_line_def line_ok_def line_zero_def HISTORY_DIVISIONS_def)

lemma find_line_ok:
  assumes inv: "line_inv (screen_hash sc) pool rest (lines sc)" and ap: "addr_pair_ok ap"
  obtains la pool' sc' where
    "find_line pool sc ap = Some (la, pool', sc')" "line_inv (screen_hash sc') pool' rest (lines sc')"
    "hash_map (screen_hash sc') ap = Some la"
    "view (screen_hash sc') (lines sc') = (view (screen_hash sc) (lines sc))
       (ap \<mapsto> (case view (screen_hash sc) (lines sc) ap of Some l \<Rightarrow> l | None \<Rightarrow> fresh_line ap))"
    "sc' = sc\<lparr>screen_hash := screen_hash sc', lines := lines sc'\<rparr>"
    "nd_record ` set (nodes (screen_hash sc)) \<subseteq> nd_record ` set (nodes (screen_hash sc'))"
proof (cases "hash_map (screen_hash sc) ap")
  case (Some la)
  with addr_hash_find_ok [OF line_invD(1) [OF inv] ap] have "find_line pool sc ap = Some (la, pool, sc)"
    by (simp add: find_line_def)
  moreover obtain l where "view (screen_hash sc) (lines sc) ap = Some l" using view_Some [OF inv Some] by blast
  ultimately show thesis using inv Some by (intro that [of la pool sc]) (auto simp: fun_upd_idem)
next
  case None
  let ?ht = "screen_hash sc" and ?la = "line_malloc (screen_hash sc)"
  obtain a ht' pool' where h:
    "addr_hash_insert ?ht pool ap ?la = Some (HASH_STATUS_OK, ht', pool')" "addr_inv ht' pool' rest"
    "mset (nodes ht') = mset (nodes ?ht) +
       {# \<lparr>nd_addr = a, nd_key = ap, nd_record = ?la, nd_bucket = addr_hash_bucket ap\<rparr> #}"
    by (rule addr_hash_insert_ok [OF line_invD(1) [OF inv] ap None])
  define n where "n = \<lparr>nd_addr = a, nd_key = ap, nd_record = ?la, nd_bucket = addr_hash_bucket ap\<rparr>"
  have nodes: "set (nodes ht') = insert n (set (nodes ?ht))"
    using arg_cong [OF h(3), of set_mset] by (simp add: n_def)
  let ?ls = "(lines sc)(?la \<mapsto> fresh_line ap)"
  have "mset (map nd_record (nodes ht')) = add_mset ?la (mset (map nd_record (nodes ?ht)))"
    using arg_cong [OF h(3), of "image_mset nd_record"] by simp
  then have "distinct (map nd_record (nodes ht'))"
    using line_invD(2) [OF inv] line_malloc_fresh [of ?ht]
    by (metis distinct.simps(2) list.set_map mset.simps(2) mset_eq_imp_distinct_iff)
  then have inv': "line_inv ht' pool' rest ?ls"
    using h(2) line_invD(3,4) [OF inv] fresh_line_ok
    by (auto simp: line_inv_def nodes n_def ran_def split: if_splits)
  have "hash_map ht' ap = Some ?la" unfolding line_hash_map [OF inv'] using nodes by (auto simp: n_def)
  moreover have "view ht' ?ls = (view ?ht (lines sc))(ap \<mapsto> fresh_line ap)"
  proof -
    have rec: "nd_record m \<noteq> ?la" if "m \<in> set (nodes ?ht)" for m using that line_malloc_fresh [of ?ht] by force
    have key: "nd_key m \<noteq> ap" if "m \<in> set (nodes ?ht)" for m
      using None that line_hash_map [OF inv, of ap] by force
    have "view ht' ?ls k = Some x \<longleftrightarrow> ((view ?ht (lines sc))(ap \<mapsto> fresh_line ap)) k = Some x" for k x
      unfolding view_iff [OF inv'] using view_iff [OF inv, of k x] rec key by (auto simp: nodes n_def)
    then have "view ht' ?ls k = ((view ?ht (lines sc))(ap \<mapsto> fresh_line ap)) k" for k by (metis not_None_eq)
    then show ?thesis by blast
  qed
  moreover have "view ?ht (lines sc) ap = None" using None by (simp add: view_def)
  moreover have "find_line pool sc ap = Some (?la, pool', sc\<lparr>screen_hash := ht', lines := ?ls\<rparr>)"
    using addr_hash_find_ok [OF line_invD(1) [OF inv] ap] None h(1)
    by (simp add: find_line_def Let_def fresh_line_def)
  ultimately show thesis
    using inv' nodes by (intro that [of ?la pool' "sc\<lparr>screen_hash := ht', lines := ?ls\<rparr>"]) auto
qed

section \<open>Windows\<close>

text \<open>The bytes of the last \<open>history_divs ! j\<close> slots of a ring.\<close>

definition window :: "int list \<Rightarrow> int list \<Rightarrow> nat \<Rightarrow> int" where
  "window hist_idx arr j = (\<Sum>ix\<leftarrow>take (history_divs ! j) hist_idx. arr ! nat ix)"

definition idx_ok :: "int list \<Rightarrow> bool" where
  "idx_ok idx \<longleftrightarrow> length idx = 40 \<and> (\<forall>ix\<in>set idx. 0 \<le> ix \<and> ix < 40)"

lemma length_add_divs [simp]: "length (add_divs js b arr) = length arr"
  unfolding add_divs_def by (induction js arbitrary: arr) simp_all

lemma nth_add_divs:
  assumes "distinct js" "j < length arr"
  shows "add_divs js b arr ! j = arr ! j + (if j \<in> set js then of_int b else 0)"
  using assms
proof (induction js arbitrary: arr)
  case (Cons i js)
  have "add_divs (i # js) b arr = add_divs js b (arr[i := arr ! i + of_int b])" by (simp add: add_divs_def)
  with Cons show ?case by (cases "i = j") auto
qed (simp add: add_divs_def)

lemma add_slots_ok:
  assumes "hist_ok h" "\<forall>ix\<in>set idx. 0 \<le> ix \<and> ix < 40" "distinct js"
  shows "\<exists>r' s'. add_slots js h idx (r, s) = Some (r', s') \<and> length r' = length r \<and> length s' = length s \<and>
     (\<forall>j<length r. r' ! j = r ! j + (if j \<in> set js then of_int (\<Sum>ix\<leftarrow>idx. recv h ! nat ix) else 0)) \<and>
     (\<forall>j<length s. s' ! j = s ! j + (if j \<in> set js then of_int (\<Sum>ix\<leftarrow>idx. sent h ! nat ix) else 0))"
  using assms(2)
proof (induction idx arbitrary: r s)
  case (Cons ix idx)
  have "rdi (recv h) ix = Some (recv h ! nat ix)" "rdi (sent h) ix = Some (sent h ! nat ix)"
    using assms(1) Cons.prems by (auto simp: rdi_def hist_ok_def)
  moreover obtain r' s' where
    "add_slots js h idx (add_divs js (recv h ! nat ix) r, add_divs js (sent h ! nat ix) s) = Some (r', s')"
    "length r' = length r" "length s' = length s"
    "\<forall>j<length r. r' ! j = add_divs js (recv h ! nat ix) r ! j +
       (if j \<in> set js then of_int (\<Sum>ix\<leftarrow>idx. recv h ! nat ix) else 0)"
    "\<forall>j<length s. s' ! j = add_divs js (sent h ! nat ix) s ! j +
       (if j \<in> set js then of_int (\<Sum>ix\<leftarrow>idx. sent h ! nat ix) else 0)"
    using Cons.IH [of "add_divs js (recv h ! nat ix) r" "add_divs js (sent h ! nat ix) s"] Cons.prems by auto
  ultimately show ?case by (simp add: nth_add_divs [OF assms(3)])
qed simp

lemma take_split: "n \<le> m \<Longrightarrow> take m xs = take n xs @ take (m - n) (drop n xs)"
  by (metis append_take_drop_id le_add_diff_inverse take_add)

lemma accumulate_ok:
  assumes h: "hist_ok h" and idx: "idx_ok idx" and len: "length r = 3" "length s = 3"
  shows "\<exists>r' s'. accumulate h idx (r, s) = Some (r', s') \<and> length r' = 3 \<and> length s' = 3 \<and>
     (\<forall>j<3. r' ! j = r ! j + of_int (window idx (recv h) j)) \<and>
     (\<forall>j<3. s' ! j = s ! j + of_int (window idx (sent h) j))"
proof -
  let ?a = "take 2 idx" and ?b = "take 8 (drop 2 idx)" and ?c = "drop 10 idx"
  have in_range: "\<forall>ix\<in>set ?a. 0 \<le> ix \<and> ix < 40" "\<forall>ix\<in>set ?b. 0 \<le> ix \<and> ix < 40" "\<forall>ix\<in>set ?c. 0 \<le> ix \<and> ix < 40"
    using idx by (auto simp: idx_ok_def dest: in_set_takeD in_set_dropD)
  obtain r1 s1 where 1: "add_slots [0, 1, 2] h ?a (r, s) = Some (r1, s1)" "length r1 = 3" "length s1 = 3"
    "\<forall>j<3. r1 ! j = r ! j + of_int (\<Sum>ix\<leftarrow>?a. recv h ! nat ix)"
    "\<forall>j<3. s1 ! j = s ! j + of_int (\<Sum>ix\<leftarrow>?a. sent h ! nat ix)"
    using add_slots_ok [OF h in_range(1), of "[0, 1, 2]" r s] len by (auto simp: less_Suc_eq numeral_3_eq_3)
  obtain r2 s2 where 2: "add_slots [1, 2] h ?b (r1, s1) = Some (r2, s2)" "length r2 = 3" "length s2 = 3"
    "\<forall>j<3. r2 ! j = r1 ! j + (if j \<in> {1, 2} then of_int (\<Sum>ix\<leftarrow>?b. recv h ! nat ix) else 0)"
    "\<forall>j<3. s2 ! j = s1 ! j + (if j \<in> {1, 2} then of_int (\<Sum>ix\<leftarrow>?b. sent h ! nat ix) else 0)"
    using add_slots_ok [OF h in_range(2), of "[1, 2]" r1 s1] 1(2,3) by auto
  obtain r3 s3 where 3: "add_slots [2] h ?c (r2, s2) = Some (r3, s3)" "length r3 = 3" "length s3 = 3"
    "\<forall>j<3. r3 ! j = r2 ! j + (if j = 2 then of_int (\<Sum>ix\<leftarrow>?c. recv h ! nat ix) else 0)"
    "\<forall>j<3. s3 ! j = s2 ! j + (if j = 2 then of_int (\<Sum>ix\<leftarrow>?c. sent h ! nat ix) else 0)"
    using add_slots_ok [OF h in_range(3), of "[2]" r2 s2] 2(2,3) by auto
  have t10: "take 10 idx = ?a @ ?b" using take_split [of 2 10 idx] by simp
  have t40: "take 40 idx = ?a @ ?b @ ?c"
    using idx append_take_drop_id [of 10 idx] by (simp add: idx_ok_def t10)
  have w: "window idx arr 0 = (\<Sum>ix\<leftarrow>?a. arr ! nat ix)"
    "window idx arr 1 = (\<Sum>ix\<leftarrow>?a. arr ! nat ix) + (\<Sum>ix\<leftarrow>?b. arr ! nat ix)"
    "window idx arr 2 = (\<Sum>ix\<leftarrow>?a. arr ! nat ix) + (\<Sum>ix\<leftarrow>?b. arr ! nat ix) + (\<Sum>ix\<leftarrow>?c. arr ! nat ix)" for arr
    by (simp_all add: window_def history_divs_def t10 t40 del: take_append)
  have "accumulate h idx (r, s) = Some (r3, s3)"
    using 1(1) 2(1) 3(1) by (simp add: accumulate_def history_divs_def)
  moreover have "r3 ! j = r ! j + of_int (window idx (recv h) j)" "s3 ! j = s ! j + of_int (window idx (sent h) j)"
    if "j < 3" for j
  proof -
    from that consider "j = 0" | "j = 1" | "j = 2" by linarith
    then show "r3 ! j = r ! j + of_int (window idx (recv h) j)" "s3 ! j = s ! j + of_int (window idx (sent h) j)"
      using 1(4,5) 2(4,5) 3(4,5) by (cases; simp add: w [simplified])+
  qed
  ultimately show ?thesis using 3(2,3) by blast
qed

lemma attribute_line_ok:
  assumes "pinv ps"
  shows "\<exists>h' l'. attribute_line op ps ap h l = Some (h', l') \<and> same_counts h h' \<and>
     line_recv l' = line_recv l \<and> line_sent l' = line_sent l \<and> line_ap l' = line_ap l \<and>
     line_total_recv l' = line_total_recv l \<and> line_total_sent l' = line_total_sent l"
proof -
  obtain e1 where e1: "procinfo_lookup ps (address_family ap) (src6 ap) (src_port ap) (protocol ap) = Some e1"
    using lookup_total [OF assms] by blast
  obtain e2 where e2: "procinfo_lookup ps (address_family ap) (dst6 ap) (dst_port ap) (protocol ap) = Some e2"
    using lookup_total [OF assms] by blast
  have "\<exists>f. flow_process ps ap = Some f" using e1 e2 by (cases e1) (simp_all add: flow_process_def)
  then obtain f where "flow_process ps ap = Some f" by blast
  then show ?thesis by (cases f) (simp_all add: attribute_line_def same_counts_def)
qed

section \<open>One connection\<close>

text \<open>The two tables share the pool, and each keeps clear of the other's nodes.\<close>

definition tables_inv :: "iftop_state \<Rightarrow> screen_state \<Rightarrow> bool" where
  "tables_inv st sc \<longleftrightarrow> flow_inv st (node_addrs (screen_hash sc)) \<and>
     line_inv (screen_hash sc) (nodes_pool st) (node_addrs (history st)) (lines sc)"

lemma addr_inv_swap:
  assumes "addr_inv ht p rest" "addr_inv ht' p' (node_addrs ht)"
  shows "addr_inv ht p' (node_addrs ht')"
  using assms by (auto simp: addr_inv_def Un_commute Int_commute)

lemma flow_inv_pool:
  assumes "flow_inv st rest" "addr_inv ht' p' (node_addrs (history st))"
  shows "flow_inv (st\<lparr>nodes_pool := p'\<rparr>) (node_addrs ht')"
  using assms addr_inv_swap [of "history st" "nodes_pool st" rest ht' p']
  by (simp add: flow_inv_def flow_recs_def)

lemma screen_key_ok: "addr_pair_ok ap \<Longrightarrow> addr_pair_ok (screen_key op ap)"
  by (simp add: addr_pair_ok_def screen_key_def Let_def)

lemma node_key_ok: "flow_inv st rest \<Longrightarrow> n \<in> set (nodes (history st)) \<Longrightarrow> addr_pair_ok (nd_key n)"
  using addr_invD(1) [OF flow_invD(1)] by (auto simp: hash_wf_def)

text \<open>What a line had before, zero if there was none.\<close>

definition base :: "(addr_pair \<Rightarrow> host_pair_line option) \<Rightarrow> addr_pair \<Rightarrow> host_pair_line" where
  "base v k = (case v k of Some l \<Rightarrow> l | None \<Rightarrow> fresh_line k)"

abbreviation sview :: "screen_state \<Rightarrow> addr_pair \<Rightarrow> host_pair_line option" where
  "sview sc \<equiv> view (screen_hash sc) (lines sc)"

text \<open>\<open>l'\<close> is \<open>l\<close> with the counts of \<open>h\<close> added.\<close>

definition adds :: "int list \<Rightarrow> history_type \<Rightarrow> host_pair_line \<Rightarrow> host_pair_line \<Rightarrow> bool" where
  "adds idx h l l' \<longleftrightarrow> line_ok l' \<and> line_ap l' = line_ap l \<and>
     (\<forall>j<3. line_recv l' ! j = line_recv l ! j + of_int (window idx (recv h) j)) \<and>
     (\<forall>j<3. line_sent l' ! j = line_sent l ! j + of_int (window idx (sent h) j)) \<and>
     line_total_recv l' = line_total_recv l + total_recv h \<and>
     line_total_sent l' = line_total_sent l + total_sent h"

lemma analyse_node_ok:
  assumes inv: "tables_inv st sc" and n: "n \<in> set (nodes (history st))" and ps: "pinv ps" and idx: "idx_ok idx"
    and h: "hist_items (store st) (nd_record n) = Some h"
  obtains st' sc' h' l' where
    "analyse_node op ps idx n (st, sc) = Some (st', sc')" "tables_inv st' sc'"
    "st' = st\<lparr>nodes_pool := nodes_pool st',
        store := (store st)\<lparr>hist_items := (hist_items (store st))(nd_record n \<mapsto> h')\<rparr>\<rparr>"
    "same_counts h h'"
    "sview sc' = (sview sc)(screen_key op (nd_key n) \<mapsto> l')"
    "adds idx h (base (sview sc) (screen_key op (nd_key n))) l'"
    "sc' = sc\<lparr>screen_hash := screen_hash sc', lines := lines sc'\<rparr>"
    "nd_record ` set (nodes (screen_hash sc)) \<subseteq> nd_record ` set (nodes (screen_hash sc'))"
proof -
  let ?k = "screen_key op (nd_key n)"
  from inv have fi: "flow_inv st (node_addrs (screen_hash sc))"
    and li: "line_inv (screen_hash sc) (nodes_pool st) (node_addrs (history st)) (lines sc)"
    by (auto simp: tables_inv_def)
  obtain la pool sc1 where f:
    "find_line (nodes_pool st) sc ?k = Some (la, pool, sc1)"
    "line_inv (screen_hash sc1) pool (node_addrs (history st)) (lines sc1)"
    "hash_map (screen_hash sc1) ?k = Some la"
    "sview sc1 = (sview sc)(?k \<mapsto> (case sview sc ?k of Some l \<Rightarrow> l | None \<Rightarrow> fresh_line ?k))"
    "sc1 = sc\<lparr>screen_hash := screen_hash sc1, lines := lines sc1\<rparr>"
    "nd_record ` set (nodes (screen_hash sc)) \<subseteq> nd_record ` set (nodes (screen_hash sc1))"
    by (rule find_line_ok [OF li screen_key_ok [OF node_key_ok [OF fi n]]])
  obtain l where l: "lines sc1 la = Some l" "sview sc1 ?k = Some l" "line_ok l"
    using view_Some [OF f(2,3)] by blast
  have base: "base (sview sc) ?k = l" using l(2) by (simp add: f(4) base_def)
  obtain h' l1 where a: "attribute_line op ps (nd_key n) h l = Some (h', l1)" "same_counts h h'"
    "line_recv l1 = line_recv l" "line_sent l1 = line_sent l" "line_ap l1 = line_ap l"
    "line_total_recv l1 = line_total_recv l" "line_total_sent l1 = line_total_sent l"
    using attribute_line_ok [OF ps] by blast
  have hok: "hist_ok h'" using flow_invD(4) [OF fi] h a(2) by (blast intro: ranI same_counts_ok)
  obtain r s where acc: "accumulate h' idx (line_recv l, line_sent l) = Some (r, s)" "length r = 3" "length s = 3"
    "\<forall>j<3. r ! j = line_recv l ! j + of_int (window idx (recv h') j)"
    "\<forall>j<3. s ! j = line_sent l ! j + of_int (window idx (sent h') j)"
    using accumulate_ok [OF hok idx, of "line_recv l" "line_sent l"] l(3) by (auto simp: line_ok_def)
  define l' where "l' = l1\<lparr>line_total_sent := line_total_sent l1 + total_sent h',
      line_total_recv := line_total_recv l1 + total_recv h', line_recv := r, line_sent := s\<rparr>"
  let ?st' = "st\<lparr>nodes_pool := pool, store := (store st)\<lparr>hist_items := (hist_items (store st))(nd_record n \<mapsto> h')\<rparr>\<rparr>"
  let ?sc' = "sc1\<lparr>lines := (lines sc1)(la \<mapsto> l')\<rparr>"
  have lok: "line_ok l'" using acc(2,3) by (simp add: line_ok_def l'_def)
  note u = line_update [OF f(2,3) lok]
  have "flow_inv ?st' (node_addrs (screen_hash sc1))"
    using flow_update [OF flow_inv_pool [OF fi line_invD(1) [OF f(2)]], of n h'] n hok by simp
  then have "tables_inv ?st' ?sc'" using u(1) by (simp add: tables_inv_def)
  moreover have "analyse_node op ps idx n (st, sc) = Some (?st', ?sc')"
    using f(1) h l(1) a(1) acc(1) a(3,4) by (simp add: analyse_node_def Let_def l'_def)
  moreover have "sview ?sc' = (sview sc)(?k \<mapsto> l')" using u(2) by (simp add: f(4))
  moreover have "adds idx h (base (sview sc) ?k) l'"
    using acc a lok unfolding base by (simp add: adds_def l'_def same_counts_def)
  moreover have "?sc' = sc\<lparr>screen_hash := screen_hash ?sc', lines := lines ?sc'\<rparr>" by (subst f(5)) simp
  ultimately show thesis using a(2) f(6) by (intro that [of ?st' ?sc' h' l']) simp_all
qed

section \<open>All connections\<close>

type_synonym flow_node = "(pool_addr, addr_pair, pool_addr) hash_node_type"

text \<open>The nodes whose connections aggregate to a key, and the record of a node.\<close>

definition group :: "options_t \<Rightarrow> flow_node list \<Rightarrow> addr_pair \<Rightarrow> flow_node list" where
  "group op ns k = filter (\<lambda>n. screen_key op (nd_key n) = k) ns"

definition rec_of :: "iftop_state \<Rightarrow> flow_node \<Rightarrow> history_type" where
  "rec_of st n = the (hist_items (store st) (nd_record n))"

text \<open>Lines \<open>v'\<close> are lines \<open>v\<close> with the counts of the nodes \<open>ns\<close> added to their groups.\<close>

definition collected ::
  "options_t \<Rightarrow> int list \<Rightarrow> iftop_state \<Rightarrow> flow_node list \<Rightarrow> (addr_pair \<Rightarrow> host_pair_line option)
     \<Rightarrow> (addr_pair \<Rightarrow> host_pair_line option) \<Rightarrow> bool" where
  "collected op idx st ns v v' \<longleftrightarrow>
     (\<forall>k. (v' k \<noteq> None \<longleftrightarrow> v k \<noteq> None \<or> group op ns k \<noteq> []) \<and> line_ap (base v' k) = line_ap (base v k) \<and>
       (\<forall>j<3. line_recv (base v' k) ! j =
          line_recv (base v k) ! j + of_int (\<Sum>n\<leftarrow>group op ns k. window idx (recv (rec_of st n)) j)) \<and>
       (\<forall>j<3. line_sent (base v' k) ! j =
          line_sent (base v k) ! j + of_int (\<Sum>n\<leftarrow>group op ns k. window idx (sent (rec_of st n)) j)) \<and>
       line_total_recv (base v' k) = line_total_recv (base v k) + (\<Sum>n\<leftarrow>group op ns k. total_recv (rec_of st n)) \<and>
       line_total_sent (base v' k) = line_total_sent (base v k) + (\<Sum>n\<leftarrow>group op ns k. total_sent (rec_of st n)))"

lemma collected_Cons:
  assumes v1: "v1 = v(screen_key op (nd_key n) \<mapsto> l')" and a: "adds idx (rec_of st n) (base v (screen_key op (nd_key n))) l'"
    and c: "collected op idx st1 ns v1 v'" and same: "\<And>m. m \<in> set ns \<Longrightarrow> rec_of st1 m = rec_of st m"
  shows "collected op idx st (n # ns) v v'"
  unfolding collected_def
proof (intro allI)
  fix k
  let ?k = "screen_key op (nd_key n)"
  have g: "group op (n # ns) k = (if k = ?k then n # group op ns k else group op ns k)" by (auto simp: group_def)
  have s: "(\<Sum>m\<leftarrow>group op ns k. f (rec_of st1 m)) = (\<Sum>m\<leftarrow>group op ns k. f (rec_of st m))"
    for f :: "history_type \<Rightarrow> 'b::monoid_add"
    using same by (intro arg_cong [of _ _ sum_list] map_cong) (auto simp: group_def)
  from c have c1: "(v' k \<noteq> None) = (v1 k \<noteq> None \<or> group op ns k \<noteq> [])" "line_ap (base v' k) = line_ap (base v1 k)"
    "\<forall>j<3. line_recv (base v' k) ! j =
       line_recv (base v1 k) ! j + of_int (\<Sum>n\<leftarrow>group op ns k. window idx (recv (rec_of st1 n)) j)"
    "\<forall>j<3. line_sent (base v' k) ! j =
       line_sent (base v1 k) ! j + of_int (\<Sum>n\<leftarrow>group op ns k. window idx (sent (rec_of st1 n)) j)"
    "line_total_recv (base v' k) = line_total_recv (base v1 k) + (\<Sum>n\<leftarrow>group op ns k. total_recv (rec_of st1 n))"
    "line_total_sent (base v' k) = line_total_sent (base v1 k) + (\<Sum>n\<leftarrow>group op ns k. total_sent (rec_of st1 n))"
    unfolding collected_def by blast+
  have b: "base v1 k = (if k = ?k then l' else base v k)" by (simp add: base_def v1)
  show "(v' k \<noteq> None \<longleftrightarrow> v k \<noteq> None \<or> group op (n # ns) k \<noteq> []) \<and> line_ap (base v' k) = line_ap (base v k) \<and>
       (\<forall>j<3. line_recv (base v' k) ! j =
          line_recv (base v k) ! j + of_int (\<Sum>n\<leftarrow>group op (n # ns) k. window idx (recv (rec_of st n)) j)) \<and>
       (\<forall>j<3. line_sent (base v' k) ! j =
          line_sent (base v k) ! j + of_int (\<Sum>n\<leftarrow>group op (n # ns) k. window idx (sent (rec_of st n)) j)) \<and>
       line_total_recv (base v' k) = line_total_recv (base v k) + (\<Sum>n\<leftarrow>group op (n # ns) k. total_recv (rec_of st n)) \<and>
       line_total_sent (base v' k) = line_total_sent (base v k) + (\<Sum>n\<leftarrow>group op (n # ns) k. total_sent (rec_of st n))"
    using c1 a unfolding b g s [of "\<lambda>h. window idx (recv h) _"] s [of "\<lambda>h. window idx (sent h) _"] s [of total_recv]
      s [of total_sent]
    by (cases "k = ?k") (simp_all add: adds_def v1)
qed

lemma analyse_nodes_ok:
  assumes "tables_inv st sc" "set ns \<subseteq> set (nodes (history st))" "distinct (map nd_record ns)"
    and ps: "pinv ps" and idx: "idx_ok idx"
  shows "\<exists>st' sc'. fold_opt (analyse_node op ps idx) ns (st, sc) = Some (st', sc') \<and> tables_inv st' sc' \<and>
     history st' = history st \<and> history_totals st' = history_totals st \<and> history_pos st' = history_pos st \<and>
     history_len st' = history_len st \<and>
     (\<forall>r h. hist_items (store st) r = Some h \<longrightarrow> (\<exists>h'. hist_items (store st') r = Some h' \<and> same_counts h h')) \<and>
     sc' = sc\<lparr>screen_hash := screen_hash sc', lines := lines sc'\<rparr> \<and>
     nd_record ` set (nodes (screen_hash sc)) \<subseteq> nd_record ` set (nodes (screen_hash sc')) \<and>
     collected op idx st ns (sview sc) (sview sc')"
  using assms(1-3)
proof (induction ns arbitrary: st sc)
  case Nil
  then show ?case by (intro exI [of _ st] exI [of _ sc]) (simp add: collected_def group_def same_counts_def)
next
  case (Cons n ns)
  have n: "n \<in> set (nodes (history st))" using Cons.prems(2) by simp
  have fi: "flow_inv st (node_addrs (screen_hash sc))" using Cons.prems(1) by (simp add: tables_inv_def)
  have "nd_record n \<in> dom (hist_items (store st))"
    using flow_invD(3) [OF fi] n by (simp add: hist_inv_def flow_recs_def)
  then obtain h where h: "hist_items (store st) (nd_record n) = Some h" by blast
  obtain st1 sc1 h' l' where s:
    "analyse_node op ps idx n (st, sc) = Some (st1, sc1)" "tables_inv st1 sc1"
    "st1 = st\<lparr>nodes_pool := nodes_pool st1,
        store := (store st)\<lparr>hist_items := (hist_items (store st))(nd_record n \<mapsto> h')\<rparr>\<rparr>"
    "same_counts h h'" "sview sc1 = (sview sc)(screen_key op (nd_key n) \<mapsto> l')"
    "adds idx h (base (sview sc) (screen_key op (nd_key n))) l'"
    "sc1 = sc\<lparr>screen_hash := screen_hash sc1, lines := lines sc1\<rparr>"
    "nd_record ` set (nodes (screen_hash sc)) \<subseteq> nd_record ` set (nodes (screen_hash sc1))"
    by (rule analyse_node_ok [OF Cons.prems(1) n ps idx h])
  have hist: "history st1 = history st" "history_totals st1 = history_totals st" "history_pos st1 = history_pos st"
    "history_len st1 = history_len st" "hist_items (store st1) = (hist_items (store st))(nd_record n \<mapsto> h')"
    by (subst s(3); simp)+
  obtain st' sc' where i: "fold_opt (analyse_node op ps idx) ns (st1, sc1) = Some (st', sc')" "tables_inv st' sc'"
    "history st' = history st1" "history_totals st' = history_totals st1" "history_pos st' = history_pos st1"
    "history_len st' = history_len st1"
    "\<forall>r h. hist_items (store st1) r = Some h \<longrightarrow> (\<exists>h'. hist_items (store st') r = Some h' \<and> same_counts h h')"
    "sc' = sc1\<lparr>screen_hash := screen_hash sc', lines := lines sc'\<rparr>"
    "nd_record ` set (nodes (screen_hash sc1)) \<subseteq> nd_record ` set (nodes (screen_hash sc'))"
    "collected op idx st1 ns (sview sc1) (sview sc')"
    using Cons.IH [OF s(2)] Cons.prems(2,3) hist(1) by auto
  have "rec_of st1 m = rec_of st m" if "m \<in> set ns" for m
  proof -
    from that Cons.prems(3) have "nd_record m \<noteq> nd_record n" by (auto simp: image_iff)
    then show ?thesis by (simp add: rec_of_def hist(5))
  qed
  with collected_Cons [OF s(5) _ i(10)] s(6) h have "collected op idx st (n # ns) (sview sc) (sview sc')"
    by (simp add: rec_of_def)
  moreover have "\<exists>h'. hist_items (store st') r = Some h' \<and> same_counts x h'"
    if "hist_items (store st) r = Some x" for r x
  proof (cases "r = nd_record n")
    case True
    with hist(5) have "hist_items (store st1) r = Some h'" by simp
    with i(7) obtain y where "hist_items (store st') r = Some y" "same_counts h' y" by blast
    moreover have "x = h" using True that h by simp
    ultimately show ?thesis using s(4) by (auto simp: same_counts_def)
  next
    case False
    with hist(5) that have "hist_items (store st1) r = Some x" by simp
    with i(7) show ?thesis by blast
  qed
  moreover have "sc' = sc\<lparr>screen_hash := screen_hash sc', lines := lines sc'\<rparr>" by (subst i(8), subst s(7)) simp
  ultimately show ?case
    using s(1,8) i(1-6,9) hist(1-4) by (intro exI [of _ st'] exI [of _ sc']) (simp add: subset_trans [OF s(8) i(9)])
qed

end
