(* ===== verification/Screen_Analysis.thy ===== *)
theory Screen_Analysis
  imports Screen_Proofs
begin

text \<open>
  The whole analysis: clearing, collecting, scaling, naming, sorting and the totals. The
  display keeps its memory sound, every line is the sum of the connections that aggregate to
  it, and the lines add up to the totals.
\<close>

section \<open>Walks that rewrite lines in place\<close>

definition rewrite_lines ::
  "(host_pair_line \<Rightarrow> host_pair_line) \<Rightarrow> nat set \<Rightarrow> (nat \<rightharpoonup> host_pair_line) \<Rightarrow> (nat \<rightharpoonup> host_pair_line)" where
  "rewrite_lines f A ls = (\<lambda>a. if a \<in> A then map_option f (ls a) else ls a)"

lemma rewrite_lines_Cons:
  assumes "ls a = Some l" "a \<notin> A"
  shows "rewrite_lines f A (ls(a \<mapsto> f l)) = rewrite_lines f (insert a A) ls"
  using assms by (auto simp: rewrite_lines_def)

definition zero_line :: "host_pair_line \<Rightarrow> host_pair_line" where
  "zero_line l = l\<lparr>line_total_recv := 0, line_total_sent := 0,
     line_recv := replicate HISTORY_DIVISIONS 0, line_sent := replicate HISTORY_DIVISIONS 0\<rparr>"

definition scaled :: "(nat \<Rightarrow> rat) \<Rightarrow> host_pair_line \<Rightarrow> host_pair_line" where
  "scaled f l = l\<lparr>line_recv := map (\<lambda>i. line_recv l ! i * f i) [0..<HISTORY_DIVISIONS],
     line_sent := map (\<lambda>i. line_sent l ! i * f i) [0..<HISTORY_DIVISIONS]\<rparr>"

lemma clear_walk:
  assumes "distinct (map nd_record ns)" "nd_record ` set ns \<subseteq> dom ls"
  shows "fold_opt clear_line ns ls = Some (rewrite_lines zero_line (nd_record ` set ns) ls)"
  using assms
proof (induction ns arbitrary: ls)
  case (Cons n ns)
  from Cons.prems obtain l where l: "ls (nd_record n) = Some l" by auto
  then have "clear_line n ls = Some (ls(nd_record n \<mapsto> zero_line l))"
    by (simp add: clear_line_def zero_line_def)
  moreover have "nd_record ` set ns \<subseteq> dom (ls(nd_record n \<mapsto> zero_line l))" using Cons.prems by auto
  moreover have "rewrite_lines zero_line (nd_record ` set ns) (ls(nd_record n \<mapsto> zero_line l)) =
      rewrite_lines zero_line (nd_record ` set (n # ns)) ls"
    using rewrite_lines_Cons [where ls = ls, OF l, of "nd_record ` set ns" zero_line] Cons.prems(1) by simp
  ultimately show ?case using Cons.IH Cons.prems(1) by simp
qed (simp add: rewrite_lines_def)

lemma scale_walk:
  assumes "distinct (map nd_record ns)" "nd_record ` set ns \<subseteq> dom ls"
  shows "fold_opt (scale_line f) ns (ls, acc) =
     Some (rewrite_lines (scaled f) (nd_record ` set ns) ls, acc @ map nd_record ns)"
  using assms
proof (induction ns arbitrary: ls acc)
  case (Cons n ns)
  from Cons.prems obtain l where l: "ls (nd_record n) = Some l" by auto
  then have "scale_line f n (ls, acc) = Some (ls(nd_record n \<mapsto> scaled f l), acc @ [nd_record n])"
    by (simp add: scale_line_def scaled_def Let_def)
  moreover have "nd_record ` set ns \<subseteq> dom (ls(nd_record n \<mapsto> scaled f l))" using Cons.prems by auto
  moreover have "rewrite_lines (scaled f) (nd_record ` set ns) (ls(nd_record n \<mapsto> scaled f l)) =
      rewrite_lines (scaled f) (nd_record ` set (n # ns)) ls"
    using rewrite_lines_Cons [where ls = ls, OF l, of "nd_record ` set ns" "scaled f"] Cons.prems(1) by simp
  ultimately show ?case using Cons.IH Cons.prems(1) by simp
qed (simp add: rewrite_lines_def)

text \<open>Replacing lines by related ones keeps the table sound and relates what it shows.\<close>

lemma line_rel:
  assumes inv: "line_inv ht pool rest ls" and rel: "\<And>a. rel_option R (ls a) (ls' a)"
    and ok: "\<And>l l'. R l l' \<Longrightarrow> line_ok l \<Longrightarrow> line_ok l'"
  shows "line_inv ht pool rest ls'" "rel_option R (view ht ls k) (view ht ls' k)"
proof -
  have "dom ls' = dom ls" using rel by (auto simp: dom_def option_rel_Some1 option_rel_Some2) (metis rel option.rel_distinct(1) option.rel_distinct(2) not_None_eq)+
  moreover have "line_ok l'" if "ls' a = Some l'" for a l'
    using rel [of a] that ok line_invD(4) [OF inv] by (auto simp: option_rel_Some2)
  ultimately show "line_inv ht pool rest ls'" using inv by (auto simp: line_inv_def ran_def)
  show "rel_option R (view ht ls k) (view ht ls' k)"
    using rel by (cases "hash_map ht k") (simp_all add: view_def)
qed

lemma rewrite_rel:
  assumes "dom ls = A"
  shows "rel_option (\<lambda>l l'. l' = f l) (ls a) (rewrite_lines f A ls a)"
  using assms by (cases "ls a") (auto simp: rewrite_lines_def)

lemma zero_line_ok: "line_ok (zero_line l)"
  by (simp add: zero_line_def line_ok_def HISTORY_DIVISIONS_def)

lemma scaled_ok: "line_ok (scaled f l)"
  by (simp add: scaled_def line_ok_def HISTORY_DIVISIONS_def)

lemma screen_hash_clear_ok:
  assumes inv: "line_inv (screen_hash sc) pool rest (lines sc)"
  obtains ls where "screen_hash_clear sc = Some (sc\<lparr>lines := ls\<rparr>)" "line_inv (screen_hash sc) pool rest ls"
    "\<And>k. view (screen_hash sc) ls k = map_option zero_line (sview sc k)" "dom ls = dom (lines sc)"
proof -
  let ?ls = "rewrite_lines zero_line (nd_record ` set (nodes (screen_hash sc))) (lines sc)"
  note i = line_invD [OF inv]
  note r = line_rel [OF inv rewrite_rel [OF i(3), of zero_line]] zero_line_ok
  have "screen_hash_clear sc = Some (sc\<lparr>lines := ?ls\<rparr>)"
    using clear_walk [OF i(2)] i(3) by (simp add: screen_hash_clear_def hash_walk_nodes [OF i(5)])
  moreover have "view (screen_hash sc) ?ls k = map_option zero_line (sview sc k)" for k
    using r(2) [of k] zero_line_ok by (cases "sview sc k") (auto simp: option_rel_Some1)
  moreover have "dom ?ls = dom (lines sc)" by (auto simp: rewrite_lines_def split: if_splits)
  ultimately show thesis using r(1) zero_line_ok that by blast
qed

section \<open>Names and the list\<close>

definition named :: "host_pair_line \<Rightarrow> host_pair_line \<Rightarrow> bool" where
  "named l l' \<longleftrightarrow> (\<exists>nm. l' = l\<lparr>cached_hostname := nm\<rparr>)"

lemma named_refl [simp]: "named l l"
  by (auto simp: named_def intro: exI [of _ "cached_hostname l"])

lemma named_trans: "named l l' \<Longrightarrow> named l' l'' \<Longrightarrow> named l l''"
  by (auto simp: named_def)

lemma name_line_ok:
  assumes inv: "rs_inv r" and l: "ls la = Some l" and ap: "addr_pair_ok (line_ap l)"
  shows "\<exists>r' l'. name_line env (r, ls) la = Some (r', ls(la \<mapsto> l')) \<and> rs_inv r' \<and> named l l'"
proof -
  let ?af = "address_family (line_ap l)"
  let ?a = "if sort_by (opts env) = OPTION_SORT_SRC then src6 (line_ap l) else dst6 (line_ap l)"
  have len: "length ?a = 16" using ap by (simp add: addr_pair_ok_def)
  obtain out added r' where res: "resolve (ntop env) (dnsresolution (opts env)) (ns_malloc (ns_hash r)) r ?af ?a
      (Some (int HOSTNAME_LENGTH)) = Some (out, added, r')" "rs_inv r'"
    using resolve_total [OF inv len] by blast
  have idem: "ls(la \<mapsto> l) = ls" using l by (simp add: fun_upd_idem)
  show ?thesis
  proof (cases "dnsresolution (opts env) = 0")
    case False
    let ?l' = "case out of Some name \<Rightarrow> l\<lparr>cached_hostname := name\<rparr> | None \<Rightarrow> l"
    have "named l ?l'" by (auto simp: named_def split: option.split intro: exI [of _ "cached_hostname l"])
    moreover have "name_line env (r, ls) la = Some (r', ls(la \<mapsto> ?l'))"
      using False res(1) l by (simp add: name_line_def Let_def)
    ultimately show ?thesis using res(2) by blast
  next
    case True
    show ?thesis
    proof (cases "?af = AF_INET \<or> ?af = AF_INET6")
      case af: True
      have "name_line env (r, ls) la = Some (r, ls(la \<mapsto> l\<lparr>cached_hostname := ntop env ?af ?a\<rparr>))"
        using af True l by (simp add: name_line_def Let_def)
      with inv show ?thesis by (auto simp: named_def)
    next
      case False
      then have "name_line env (r, ls) la = Some (r, ls(la \<mapsto> l))"
        using True l by (simp add: name_line_def Let_def idem)
      with inv show ?thesis by (metis named_refl)
    qed
  qed
qed

lemma name_lines_ok:
  assumes "rs_inv r" "set las \<subseteq> dom ls" "\<forall>l\<in>ran ls. addr_pair_ok (line_ap l)"
  shows "\<exists>r' ls'. name_lines env las (r, ls) = Some (r', ls') \<and> rs_inv r' \<and> (\<forall>a. rel_option named (ls a) (ls' a))"
  using assms
proof (induction las arbitrary: r ls)
  case Nil
  have "rel_option named (ls a) (ls a)" for a by (cases "ls a") simp_all
  with Nil show ?case by simp
next
  case (Cons la las)
  then obtain l where l: "ls la = Some l" by auto
  obtain r1 l1 where n: "name_line env (r, ls) la = Some (r1, ls(la \<mapsto> l1))" "rs_inv r1" "named l l1"
    using name_line_ok [where ls = ls, OF Cons.prems(1) l] Cons.prems(3) l by (meson ranI)
  have ap: "line_ap l1 = line_ap l" using n(3) by (auto simp: named_def)
  have "\<forall>x\<in>ran (ls(la \<mapsto> l1)). addr_pair_ok (line_ap x)" "set las \<subseteq> dom (ls(la \<mapsto> l1))"
    using Cons.prems(2,3) l ap by (auto simp: ran_def split: if_splits)
  from Cons.IH [OF n(2) this(2,1)] obtain r' ls' where
    i: "name_lines env las (r1, ls(la \<mapsto> l1)) = Some (r', ls')" "rs_inv r'"
      "\<forall>a. rel_option named ((ls(la \<mapsto> l1)) a) (ls' a)" by blast
  have "rel_option named (ls a) (ls' a)" for a
    using i(3) [rule_format, of a] l n(3) by (cases "a = la") (auto simp: option_rel_Some1 intro: named_trans)
  with n(1) i(1,2) show ?case by auto
qed

text \<open>Every implementation of \<open>qsort\<close> leaves a permutation of the array, whatever the comparison says.\<close>

definition qsort_permutes :: "(('d \<Rightarrow> 'd \<Rightarrow> int) \<Rightarrow> 'd list \<Rightarrow> 'd list) \<Rightarrow> bool" where
  "qsort_permutes q \<longleftrightarrow> (\<forall>c xs. mset (q c xs) = mset xs)"

text \<open>The factor that turns the bytes of a window into a rate.\<close>

definition inv_len :: "analysis_env \<Rightarrow> int \<Rightarrow> nat \<Rightarrow> rat" where
  "inv_len env hist_len i =
     (let hl = history_length hist_len (slot_elapsed env) i in if hl > 0 then 1 / hl else 0)"

definition shown :: "(nat \<Rightarrow> rat) \<Rightarrow> host_pair_line \<Rightarrow> host_pair_line \<Rightarrow> bool" where
  "shown f l l' \<longleftrightarrow> named (scaled f l) l'"

lemma shown_ok: "shown f l l' \<Longrightarrow> line_ok l'"
  using scaled_ok [of f l] by (auto simp: shown_def named_def line_ok_def)

definition ap_inv :: "screen_state \<Rightarrow> bool" where
  "ap_inv sc \<longleftrightarrow> (\<forall>k l. sview sc k = Some l \<longrightarrow> line_ap l = k)"

lemma ap_lines:
  assumes inv: "line_inv (screen_hash sc) pool rest (lines sc)" and ap: "ap_inv sc" and l: "lines sc a = Some l"
  shows "addr_pair_ok (line_ap l)"
proof -
  have "a \<in> nd_record ` set (nodes (screen_hash sc))" using l domI [of "lines sc"] line_invD(3) [OF inv] by simp
  then obtain n where n: "n \<in> set (nodes (screen_hash sc))" "nd_record n = a" by blast
  with l have "sview sc (nd_key n) = Some l" unfolding view_iff [OF inv] by blast
  with ap have "line_ap l = nd_key n" by (simp add: ap_inv_def)
  moreover have "addr_pair_ok (nd_key n)"
    using addr_invD(1) [OF line_invD(1) [OF inv]] n(1) unfolding hash_wf_def by blast
  ultimately show ?thesis by simp
qed

text \<open>Building the list from an empty one.\<close>

lemma batch_list_ok:
  fixes cmp :: "'d \<Rightarrow> 'd \<Rightarrow> int" and xs :: "'d list"
  assumes "list_mem l" "chain l = []" and q: "qsort_permutes q"
  defines "l' \<equiv> sorted_list_insert_batch q (l\<lparr>sorted_list_type.compare := cmp\<rparr>) xs"
  shows "list_mem l'" "items l' = q (qsort_compare_wrapper cmp) xs" "mset (items l') = mset xs"
proof -
  let ?l = "l\<lparr>sorted_list_type.compare := cmp\<rparr>"
  have perm: "mset (q c ys) = mset ys" for c ys using q by (simp add: qsort_permutes_def)
  have mem: "list_mem ?l"
    using assms(1) unfolding list_mem_def by (cases "batch_allocated l = 0") simp_all
  have "chain ?l = []" using assms(2) by simp
  with mem show "list_mem l'" unfolding l'_def using perm by (intro sorted_list_insert_batch_mem) (auto intro: mset_eq_length)
  show i: "items l' = q (qsort_compare_wrapper cmp) xs"
    using perm [of _ "[]"] assms(2)
    by (cases "xs = []") (simp_all add: l'_def sorted_list_insert_batch_def items_def Let_def)
  show "mset (items l') = mset xs" unfolding i by (rule perm)
qed

text \<open>Naming the lines, if the order asks for it.\<close>

lemma name_step_ok:
  assumes r: "rs_inv r" and "set las \<subseteq> dom ls" "\<forall>l\<in>ran ls. addr_pair_ok (line_ap l)"
  obtains r' ls' where "(if b then name_lines env las (r, ls) else Some (r, ls)) = Some (r', ls')" "rs_inv r'"
    "\<And>a. rel_option named (ls a) (ls' a)"
proof (cases b)
  case True
  with that name_lines_ok [OF assms, of env] show thesis by auto
next
  case False
  have "rel_option named (ls a) (ls a)" for a by (cases "ls a") simp_all
  with False r that show thesis by simp
qed

lemma make_screen_list_ok:
  fixes env :: analysis_env and hl :: int
  defines "f \<equiv> inv_len env hl"
  assumes inv: "line_inv (screen_hash sc) pool rest (lines sc)" and ap: "ap_inv sc" and r: "rs_inv r"
    and q: "qsort_permutes (qsort env)" and mem: "list_mem (screen_list sc)"
    and items: "set (items (screen_list sc)) \<subseteq> dom (lines sc)"
    and empty: "freezeorder (opts env) = 0 \<longrightarrow> chain (screen_list sc) = []"
  obtains r' ls l where
    "make_screen_list env hl r sc = Some (r', sc\<lparr>lines := ls, screen_list := l\<rparr>)" "rs_inv r'"
    "line_inv (screen_hash sc) pool rest ls" "\<And>k. rel_option (shown f) (sview sc k) (view (screen_hash sc) ls k)"
    "list_mem l" "set (items l) \<subseteq> dom ls"
    "freezeorder (opts env) = 0 \<Longrightarrow> mset (items l) = mset (map nd_record (nodes (screen_hash sc)))"
    "freezeorder (opts env) = 0 \<Longrightarrow> items l = qsort env (qsort_compare_wrapper (compare_at (opts env) ls))
       (map nd_record (nodes (screen_hash sc)))"
proof -
  note i = line_invD [OF inv]
  let ?as = "map nd_record (nodes (screen_hash sc))"
  let ?ls = "rewrite_lines (scaled f) (nd_record ` set (nodes (screen_hash sc))) (lines sc)"
  have f: "(\<lambda>i. if 0 < history_length hl (slot_elapsed env) i then 1 / history_length hl (slot_elapsed env) i else 0) = f"
    by (rule ext) (simp add: f_def inv_len_def Let_def)
  have walk: "hash_walk (screen_hash sc) (scale_line f) None (lines sc, []) = Some (?ls, ?as)"
    using scale_walk [OF i(2)] i(3) by (simp add: hash_walk_nodes [OF i(5)])
  note rr = rewrite_rel [OF i(3), of "scaled f"]
  have dom: "dom ?ls = dom (lines sc)" by (auto simp: rewrite_lines_def split: if_splits)
  have s0: "rel_option (shown f) (lines sc a) (?ls a)" for a
    by (rule option.rel_mono_strong [OF rr]) (simp add: shown_def)
  show thesis
  proof (cases "freezeorder (opts env) = 0")
    case False
    note rel = line_rel [OF inv s0 shown_ok]
    have "make_screen_list env hl r sc = Some (r, sc\<lparr>lines := ?ls, screen_list := screen_list sc\<rparr>)"
      using False walk by (simp add: make_screen_list_def f Let_def)
    with False rel r mem items dom show thesis by (intro that [where r' = r and ls = ?ls and l = "screen_list sc"]) auto
  next
    case True
    have "\<forall>x\<in>ran ?ls. addr_pair_ok (line_ap x)"
      using ap_lines [OF inv ap] by (auto simp: ran_def rewrite_lines_def scaled_def split: if_splits)
    moreover have "set ?as \<subseteq> dom ?ls" using dom i(3) by simp
    ultimately obtain r' ls where n:
      "(if sort_by (opts env) = OPTION_SORT_SRC \<or> sort_by (opts env) = OPTION_SORT_DEST
        then name_lines env ?as (r, ?ls) else Some (r, ?ls)) = Some (r', ls)" "rs_inv r'"
      "\<And>a. rel_option named (?ls a) (ls a)" using name_step_ok [OF r] by blast
    have "rel_option (shown f) (lines sc a) (ls a)" for a
      using rr [of a] n(3) [of a] by (cases "lines sc a") (auto simp: option_rel_Some1 shown_def)
    note rel = line_rel [OF inv this shown_ok]
    have "chain (screen_list sc) = []" using empty True by simp
    note l = batch_list_ok [OF mem this q, of "compare_at (opts env) ls" ?as]
    let ?l = "sorted_list_insert_batch (qsort env) ((screen_list sc)\<lparr>sorted_list_type.compare := compare_at (opts env) ls\<rparr>) ?as"
    have "make_screen_list env hl r sc = Some (r', sc\<lparr>lines := ls, screen_list := ?l\<rparr>)"
      using True walk n(1) by (simp add: make_screen_list_def f Let_def)
    moreover have "set (items ?l) \<subseteq> dom ls"
      using line_invD(3) [OF rel(1)] mset_eq_setD [OF l(3)] by simp
    ultimately show thesis using n(2) rel l by (intro that [where r' = r' and ls = ls and l = ?l]) auto
  qed
qed

section \<open>Windows and totals\<close>

text \<open>The bytes of the last \<open>n\<close> slots of a ring, the current one included.\<close>

definition recent :: "int \<Rightarrow> int list \<Rightarrow> nat \<Rightarrow> int" where
  "recent pos arr n = (\<Sum>i<n. arr ! nat ((pos - int i) mod 40))"

abbreviation slot_order :: "int \<Rightarrow> int list" where
  "slot_order pos \<equiv> map (hist_index pos) [0..<nat HISTORY_LENGTH]"

lemma hist_index_mod: "hist_index pos i = (pos - int i) mod 40"
proof -
  have "(40 + pos - int i) mod 40 = (pos - int i + 40) mod 40" by (simp add: algebra_simps)
  then show ?thesis by (simp add: hist_index_def HISTORY_LENGTH_def)
qed

lemma slot_order_ok: "idx_ok (slot_order pos)"
  by (auto simp: idx_ok_def hist_index_mod HISTORY_LENGTH_def)

lemma window_recent:
  assumes "j < 3"
  shows "window (slot_order pos) arr j = recent pos arr (history_divs ! j)"
proof -
  have "history_divs ! j \<le> 40" using assms by (auto simp: history_divs_def less_Suc_eq numeral_3_eq_3)
  then have "take (history_divs ! j) [0..<40] = [0..<history_divs ! j]" by simp
  then show ?thesis
    by (simp add: window_def recent_def take_map HISTORY_LENGTH_def comp_def hist_index_mod
        interv_sum_list_conv_sum_set_nat atLeast0LessThan)
qed

lemma history_length_pos: "0 \<le> el \<Longrightarrow> 0 < history_length hl el j"
  by (auto simp: history_length_def Let_def RESOLUTION_def add_pos_nonneg)

lemma inv_len_eq: "0 \<le> slot_elapsed env \<Longrightarrow> inv_len env hl j = 1 / history_length hl (slot_elapsed env) j"
  by (simp add: inv_len_def history_length_pos Let_def)

lemma calculate_totals_ok:
  assumes ok: "hist_ok (history_totals st)" and idx: "idx_ok idx" and zero: "totals sc = line_zero"
  shows "\<exists>sc' t. calculate_totals el idx st sc = Some sc' \<and> screen_hash sc' = screen_hash sc \<and> lines sc' = lines sc \<and>
     screen_list sc' = screen_list sc \<and> totals sc' = t \<and>
     (0 \<le> el \<longrightarrow> (\<forall>j<3. line_recv t ! j = of_int (window idx (recv (history_totals st)) j) / history_length (history_len st) el j \<and>
        line_sent t ! j = of_int (window idx (sent (history_totals st)) j) / history_length (history_len st) el j))"
proof -
  obtain r s where a: "accumulate (history_totals st) idx (line_recv (totals sc), line_sent (totals sc)) = Some (r, s)"
    "\<forall>j<3. r ! j = line_recv (totals sc) ! j + of_int (window idx (recv (history_totals st)) j)"
    "\<forall>j<3. s ! j = line_sent (totals sc) ! j + of_int (window idx (sent (history_totals st)) j)"
    using accumulate_ok [OF ok idx, of "line_recv (totals sc)" "line_sent (totals sc)"]
    by (auto simp: zero line_zero_def HISTORY_DIVISIONS_def)
  obtain pr ps pt where p: "scan_peaks (zip (recv (history_totals st)) (sent (history_totals st)))
      (peakrecv sc, peaksent sc, peaktotal sc) = (pr, ps, pt)" by (metis prod_cases3)
  show ?thesis
    using a by (auto simp: calculate_totals_def p Let_def zero line_zero_def HISTORY_DIVISIONS_def history_length_pos)
qed

section \<open>The analysis\<close>

definition screen_inv :: "capture_state \<Rightarrow> screen_state \<Rightarrow> bool" where
  "screen_inv cs sc \<longleftrightarrow> tables_inv (acct cs) sc \<and> rs_inv (names cs) \<and> pinv (procs cs) \<and>
     list_mem (screen_list sc) \<and> set (items (screen_list sc)) \<subseteq> dom (lines sc) \<and> ap_inv sc"

text \<open>The first part: zero the lines when the order is frozen, else drop them.\<close>

definition cleared :: "options_t \<Rightarrow> (addr_pair \<Rightarrow> host_pair_line option) \<Rightarrow> addr_pair \<Rightarrow> host_pair_line option" where
  "cleared op v k = (if freezeorder op \<noteq> 0 then map_option zero_line (v k) else None)"

lemma clear_ok:
  assumes inv: "screen_inv cs sc"
  obtains st1 sc1 where
    "clear_display op (acct cs, sc\<lparr>totals := line_zero\<rparr>) = Some (st1, sc1)"
    "tables_inv st1 sc1" "st1 = (acct cs)\<lparr>nodes_pool := nodes_pool st1\<rparr>" "totals sc1 = line_zero"
    "sview sc1 = cleared op (sview sc)" "list_mem (screen_list sc1)" "set (items (screen_list sc1)) \<subseteq> dom (lines sc1)"
    "freezeorder op = 0 \<longrightarrow> chain (screen_list sc1) = []"
proof -
  let ?sc = "sc\<lparr>totals := line_zero\<rparr>"
  from inv have ti: "flow_inv (acct cs) (node_addrs (screen_hash sc))"
    and li: "line_inv (screen_hash sc) (nodes_pool (acct cs)) (node_addrs (history (acct cs))) (lines sc)"
    and mem: "list_mem (screen_list sc)" and it: "set (items (screen_list sc)) \<subseteq> dom (lines sc)"
    by (auto simp: screen_inv_def tables_inv_def)
  show thesis
  proof (cases "freezeorder op = 0")
    case False
    obtain ls where c: "screen_hash_clear ?sc = Some (?sc\<lparr>lines := ls\<rparr>)"
      "line_inv (screen_hash ?sc) (nodes_pool (acct cs)) (node_addrs (history (acct cs))) ls"
      "\<And>k. view (screen_hash ?sc) ls k = map_option zero_line (sview ?sc k)" "dom ls = dom (lines ?sc)"
      using screen_hash_clear_ok [of ?sc] li by auto
    from False c ti mem it show thesis
      by (intro that [of "acct cs" "?sc\<lparr>lines := ls\<rparr>"]) (auto simp: clear_display_def tables_inv_def cleared_def)
  next
    case True
    obtain p' where d:
      "addr_hash_delete_all_free (screen_hash sc) (nodes_pool (acct cs)) =
         Some (map nd_record (nodes (screen_hash sc)), hash_initialise (screen_hash sc), p')"
      "addr_inv (hash_initialise (screen_hash sc)) p' (node_addrs (history (acct cs)))"
      by (rule addr_hash_delete_all_free_ok [OF line_invD(1) [OF li]])
    have none: "(lines sc) |` (- nd_record ` set (nodes (screen_hash sc))) = Map.empty"
      using line_invD(3) [OF li] by (auto simp: restrict_map_def fun_eq_iff)
    let ?sc1 = "?sc\<lparr>peaksent := 0, peakrecv := 0, peaktotal := 0,
        screen_list := (screen_list sc)\<lparr>chain := [], batch_allocated := 0, live := []\<rparr>,
        screen_hash := hash_initialise (screen_hash sc), lines := Map.empty\<rparr>"
    have "line_inv (hash_initialise (screen_hash sc)) p' (node_addrs (history (acct cs))) Map.empty"
      using d(2) by (simp add: line_inv_def hash_initialise_nodes)
    then have "tables_inv ((acct cs)\<lparr>nodes_pool := p'\<rparr>) ?sc1"
      using flow_inv_pool [OF ti d(2)] by (simp add: tables_inv_def)
    moreover have "view (hash_initialise (screen_hash sc)) Map.empty k = None" for k
      by (simp add: view_def bind_eq_None_conv split: bind_splits)
    ultimately show thesis
      using True d(1) sorted_list_destroy_ok [OF mem]
      by (intro that [of "(acct cs)\<lparr>nodes_pool := p'\<rparr>" ?sc1])
        (auto simp: clear_display_def screen_list_clear_def none cleared_def list_mem_def items_def fun_eq_iff)
  qed
qed

section \<open>Sums over connections\<close>

lemma flow_keys_distinct:
  assumes "flow_inv st rest"
  shows "distinct (map nd_key (nodes (history st)))"
proof -
  have "distinct (map nd_key ns)" if "sorted_wrt (\<lambda>m n. nd_key m \<noteq> nd_key n) ns" for ns :: "flow_node list"
    using that by (induction ns) auto
  moreover have "sorted_wrt (\<lambda>m n. nd_key m \<noteq> nd_key n) (nodes (history st))"
    using addr_invD(2,3) [OF flow_invD(1) [OF assms]] by (simp add: hash_uniq_def hash_uses_def addr_compare_def)
  ultimately show ?thesis by blast
qed

lemma node_flow:
  assumes "flow_inv st rest" "n \<in> set (nodes (history st))"
  shows "flows st (nd_key n) = Some (rec_of st n)"
proof -
  have "nd_record n \<in> dom (hist_items (store st))"
    using flow_invD(3) [OF assms(1)] assms(2) by (simp add: hist_inv_def flow_recs_def)
  then show ?thesis using assms by (auto simp: flows_iff [OF assms(1)] rec_of_def)
qed

lemma flows_dom: "flow_inv st rest \<Longrightarrow> dom (flows st) = nd_key ` set (nodes (history st))"
  using node_flow by (fastforce simp: dom_def flows_iff)

text \<open>The connections that aggregate to a key.\<close>

definition members :: "options_t \<Rightarrow> iftop_state \<Rightarrow> addr_pair \<Rightarrow> addr_pair set" where
  "members op st k = {c \<in> dom (flows st). screen_key op c = k}"

lemma group_members:
  assumes "flow_inv st rest"
  shows "nd_key ` set (group op (nodes (history st)) k) = members op st k"
  by (auto simp: group_def members_def flows_dom [OF assms])

lemma group_sum:
  assumes inv: "flow_inv st rest"
  shows "(\<Sum>n\<leftarrow>group op (nodes (history st)) k. g (rec_of st n)) = (\<Sum>c\<in>members op st k. g (the (flows st c)))"
proof -
  let ?ns = "group op (nodes (history st)) k"
  have d: "distinct (map nd_key ?ns)" using flow_keys_distinct [OF inv] by (simp add: group_def distinct_map_filter)
  have "(\<Sum>n\<leftarrow>?ns. g (rec_of st n)) = (\<Sum>n\<leftarrow>?ns. g (the (flows st (nd_key n))))"
    by (intro arg_cong [of _ _ sum_list] map_cong) (auto simp: group_def node_flow [OF inv])
  also have "\<dots> = (\<Sum>c\<leftarrow>map nd_key ?ns. g (the (flows st c)))" by (simp add: comp_def)
  also have "\<dots> = (\<Sum>c\<in>nd_key ` set ?ns. g (the (flows st c)))"
    using sum_list_distinct_conv_sum_set [OF d] by simp
  finally show ?thesis by (simp add: group_members [OF inv])
qed

section \<open>What the analysis shows\<close>

text \<open>The rates and totals of a line, as sums over the connections of its key.\<close>

definition line_spec :: "analysis_env \<Rightarrow> iftop_state \<Rightarrow> addr_pair \<Rightarrow> host_pair_line \<Rightarrow> bool" where
  "line_spec env st k l \<longleftrightarrow> line_ap l = k \<and>
     line_total_recv l = (\<Sum>c\<in>members (opts env) st k. total_recv (the (flows st c))) \<and>
     line_total_sent l = (\<Sum>c\<in>members (opts env) st k. total_sent (the (flows st c))) \<and>
     (\<forall>j<3. line_recv l ! j =
        of_int (\<Sum>c\<in>members (opts env) st k. recent (history_pos st) (recv (the (flows st c))) (history_divs ! j)) *
        inv_len env (history_len st) j) \<and>
     (\<forall>j<3. line_sent l ! j =
        of_int (\<Sum>c\<in>members (opts env) st k. recent (history_pos st) (sent (the (flows st c))) (history_divs ! j)) *
        inv_len env (history_len st) j)"

definition same_flows :: "iftop_state \<Rightarrow> iftop_state \<Rightarrow> bool" where
  "same_flows st st' \<longleftrightarrow> (\<forall>k. rel_option same_counts (flows st k) (flows st' k)) \<and>
     history_totals st' = history_totals st \<and> history_pos st' = history_pos st \<and> history_len st' = history_len st"

lemma collected_spec:
  assumes c: "collected (opts env) (slot_order (history_pos st)) st (nodes (history st)) (cleared (opts env) v) v'"
    and inv: "flow_inv st rest" and ap: "\<forall>k l. v k = Some l \<longrightarrow> line_ap l = k"
    and l: "v' k = Some l" and s: "shown (inv_len env (history_len st)) l l'"
  shows "line_spec env st k l'"
proof -
  let ?b = "base (cleared (opts env) v) k"
  have b: "line_ap ?b = k" "line_total_recv ?b = 0" "line_total_sent ?b = 0"
    "\<And>j. j < 3 \<Longrightarrow> line_recv ?b ! j = 0 \<and> line_sent ?b ! j = 0"
    using ap by (auto simp: base_def cleared_def fresh_line_def line_zero_def zero_line_def HISTORY_DIVISIONS_def
        split: option.split)
  have v': "base v' k = l" using l by (simp add: base_def)
  have l': "line_ap l' = line_ap l" "line_total_recv l' = line_total_recv l" "line_total_sent l' = line_total_sent l"
    "\<And>j. j < 3 \<Longrightarrow> line_recv l' ! j = line_recv l ! j * inv_len env (history_len st) j \<and>
       line_sent l' ! j = line_sent l ! j * inv_len env (history_len st) j"
    using s by (auto simp: shown_def named_def scaled_def HISTORY_DIVISIONS_def)
  have w: "(\<Sum>n\<leftarrow>group (opts env) (nodes (history st)) k. window (slot_order (history_pos st)) (g (rec_of st n)) j) =
      (\<Sum>c\<in>members (opts env) st k. recent (history_pos st) (g (the (flows st c))) (history_divs ! j))"
    if "j < 3" for g and j
    using group_sum [OF inv, of "\<lambda>h. window (slot_order (history_pos st)) (g h) j"] that by (simp add: window_recent)
  from c [unfolded collected_def, rule_format, of k] show ?thesis
    unfolding v' line_spec_def
    using b l' by (simp add: w group_sum [OF inv] del: of_int_sum)
qed

lemma same_flows_hist:
  assumes inv: "flow_inv st rest" "flow_inv st' rest'" and h: "history st' = history st"
    and items: "\<forall>r h. hist_items (store st) r = Some h \<longrightarrow> (\<exists>h'. hist_items (store st') r = Some h' \<and> same_counts h h')"
  shows "rel_option same_counts (flows st k) (flows st' k)"
proof (cases "flows st k")
  case None
  then have "k \<notin> dom (flows st')" using flows_dom [OF inv(1)] flows_dom [OF inv(2)] h by auto
  with None show ?thesis by auto
next
  case (Some x)
  with flows_iff [OF inv(1)] obtain n where
    n: "n \<in> set (nodes (history st))" "nd_key n = k" "hist_items (store st) (nd_record n) = Some x" by blast
  with items obtain y where y: "hist_items (store st') (nd_record n) = Some y" "same_counts x y" by blast
  with n h have "flows st' k = Some y" by (auto simp: flows_iff [OF inv(2)])
  with Some y show ?thesis by simp
qed

text \<open>The first half: the lines are cleared and the connections collected into them.\<close>

lemma gather_ok:
  fixes cs :: capture_state
  defines "st \<equiv> acct cs"
  assumes inv: "screen_inv cs sc"
  obtains st1 sc1 st2 sc2 where
    "clear_display (opts env) (st, sc\<lparr>totals := line_zero\<rparr>) = Some (st1, sc1)"
    "hash_walk (history st1) (analyse_node (opts env) (procs cs) (slot_order (history_pos st))) None (st1, sc1) = Some (st2, sc2)"
    "tables_inv st2 sc2" "same_flows st st2" "ap_inv sc2" "totals sc2 = line_zero"
    "list_mem (screen_list sc2)" "set (items (screen_list sc2)) \<subseteq> dom (lines sc2)"
    "freezeorder (opts env) = 0 \<longrightarrow> chain (screen_list sc2) = []"
    "\<forall>k. sview sc2 k \<noteq> None \<longleftrightarrow> members (opts env) st k \<noteq> {} \<or> freezeorder (opts env) \<noteq> 0 \<and> sview sc k \<noteq> None"
    "\<forall>k l l'. sview sc2 k = Some l \<longrightarrow> shown (inv_len env (history_len st)) l l' \<longrightarrow> line_spec env st k l'"
proof -
  let ?op = "opts env" and ?idx = "slot_order (history_pos st)"
  obtain st1 sc1 where c: "clear_display ?op (st, sc\<lparr>totals := line_zero\<rparr>) = Some (st1, sc1)"
    "tables_inv st1 sc1" "st1 = st\<lparr>nodes_pool := nodes_pool st1\<rparr>" "totals sc1 = line_zero"
    "sview sc1 = cleared ?op (sview sc)" "list_mem (screen_list sc1)" "set (items (screen_list sc1)) \<subseteq> dom (lines sc1)"
    "freezeorder ?op = 0 \<longrightarrow> chain (screen_list sc1) = []"
    using clear_ok [OF inv, of ?op] unfolding st_def by blast
  have st1: "history st1 = history st" "history_pos st1 = history_pos st" "history_len st1 = history_len st"
    "history_totals st1 = history_totals st" "store st1 = store st" by (subst c(3); simp)+
  have fl: "flows st1 = flows st" by (intro ext) (simp add: flows_def st1)
  have spec: "line_spec env st1 = line_spec env st" "members ?op st1 = members ?op st"
    by (intro ext; simp add: line_spec_def members_def fl st1)+
  have fi1: "flow_inv st1 (node_addrs (screen_hash sc1))" using c(2) by (simp add: tables_inv_def)
  have ps: "pinv (procs cs)" and ap: "\<forall>k l. sview sc k = Some l \<longrightarrow> line_ap l = k"
    using inv by (auto simp: screen_inv_def ap_inv_def)
  obtain st2 sc2 where w: "fold_opt (analyse_node ?op (procs cs) ?idx) (nodes (history st1)) (st1, sc1) = Some (st2, sc2)"
    "tables_inv st2 sc2" "history st2 = history st1" "history_totals st2 = history_totals st1"
    "history_pos st2 = history_pos st1" "history_len st2 = history_len st1"
    "\<forall>r h. hist_items (store st1) r = Some h \<longrightarrow> (\<exists>h'. hist_items (store st2) r = Some h' \<and> same_counts h h')"
    "sc2 = sc1\<lparr>screen_hash := screen_hash sc2, lines := lines sc2\<rparr>"
    "nd_record ` set (nodes (screen_hash sc1)) \<subseteq> nd_record ` set (nodes (screen_hash sc2))"
    "collected ?op ?idx st1 (nodes (history st1)) (sview sc1) (sview sc2)"
    using analyse_nodes_ok [OF c(2) _ _ ps slot_order_ok, of "nodes (history st1)" ?op "history_pos st"]
      flow_invD(2) [OF fi1] by (auto simp: flow_recs_def)
  have fi2: "flow_inv st2 (node_addrs (screen_hash sc2))" and
    li: "line_inv (screen_hash sc1) (nodes_pool st1) (node_addrs (history st1)) (lines sc1)"
      "line_inv (screen_hash sc2) (nodes_pool st2) (node_addrs (history st2)) (lines sc2)"
    using w(2) c(2) by (auto simp: tables_inv_def)
  have sc2: "screen_list sc2 = screen_list sc1" "totals sc2 = totals sc1" by (subst w(8); simp)+
  have dom: "dom (lines sc1) \<subseteq> dom (lines sc2)" using w(9) by (simp add: line_invD(3) [OF li(1)] line_invD(3) [OF li(2)])
  have coll: "collected ?op (slot_order (history_pos st1)) st1 (nodes (history st1)) (cleared ?op (sview sc)) (sview sc2)"
    using w(10) by (simp add: c(5) st1)
  have sp: "line_spec env st k l'" if "sview sc2 k = Some l" "shown (inv_len env (history_len st)) l l'" for k l l'
    using collected_spec [OF coll fi1 ap that(1)] that(2) by (simp add: spec st1)
  have "shown f l (scaled f l)" for f l by (simp add: shown_def)
  with sp have "ap_inv sc2" by (fastforce simp: ap_inv_def line_spec_def scaled_def)
  moreover have "hash_walk (history st1) (analyse_node ?op (procs cs) ?idx) None (st1, sc1) = Some (st2, sc2)"
    using w(1) by (simp add: hash_walk_nodes [OF addr_invD(4) [OF flow_invD(1) [OF fi1]]])
  moreover have "same_flows st st2"
    using same_flows_hist [OF fi1 fi2 w(3,7)] w(4-6) st1 fl by (simp add: same_flows_def)
  moreover have "sview sc2 k \<noteq> None \<longleftrightarrow> members ?op st k \<noteq> {} \<or> freezeorder ?op \<noteq> 0 \<and> sview sc k \<noteq> None" for k
    using coll group_members [OF fi1, of ?op k] unfolding collected_def by (auto simp: spec cleared_def)
  ultimately show thesis using c sc2 dom w(2) sp by (intro that [of st1 sc1 st2 sc2]) auto
qed

lemma analyse_data_ok:
  fixes cs :: capture_state
  defines "st \<equiv> acct cs"
  assumes inv: "screen_inv cs sc" and q: "qsort_permutes (qsort env)" and np: "paused (opts env) \<noteq> 1"
  obtains cs' sc' where
    "analyse_data env (cs, sc) = Some (cs', sc')" "screen_inv cs' sc'" "same_flows st (acct cs')"
    "\<And>k. sview sc' k \<noteq> None \<longleftrightarrow> members (opts env) st k \<noteq> {} \<or> freezeorder (opts env) \<noteq> 0 \<and> sview sc k \<noteq> None"
    "\<And>k l. sview sc' k = Some l \<Longrightarrow> line_spec env st k l"
    "\<And>j. 0 \<le> slot_elapsed env \<Longrightarrow> j < 3 \<Longrightarrow> line_recv (totals sc') ! j =
       of_int (recent (history_pos st) (recv (history_totals st)) (history_divs ! j)) * inv_len env (history_len st) j"
    "\<And>j. 0 \<le> slot_elapsed env \<Longrightarrow> j < 3 \<Longrightarrow> line_sent (totals sc') ! j =
       of_int (recent (history_pos st) (sent (history_totals st)) (history_divs ! j)) * inv_len env (history_len st) j"
    "freezeorder (opts env) = 0 \<Longrightarrow> mset (items (screen_list sc')) = mset (map nd_record (nodes (screen_hash sc')))"
    "freezeorder (opts env) = 0 \<Longrightarrow> items (screen_list sc') =
       qsort env (qsort_compare_wrapper (compare_at (opts env) (lines sc'))) (map nd_record (nodes (screen_hash sc')))"
proof -
  let ?op = "opts env" and ?idx = "slot_order (history_pos st)"
  obtain st1 sc1 st2 sc2 where g: "clear_display ?op (st, sc\<lparr>totals := line_zero\<rparr>) = Some (st1, sc1)"
    "hash_walk (history st1) (analyse_node ?op (procs cs) ?idx) None (st1, sc1) = Some (st2, sc2)"
    "tables_inv st2 sc2" "same_flows st st2" "ap_inv sc2" "totals sc2 = line_zero"
    "list_mem (screen_list sc2)" "set (items (screen_list sc2)) \<subseteq> dom (lines sc2)"
    "freezeorder ?op = 0 \<longrightarrow> chain (screen_list sc2) = []"
    "\<forall>k. sview sc2 k \<noteq> None \<longleftrightarrow> members ?op st k \<noteq> {} \<or> freezeorder ?op \<noteq> 0 \<and> sview sc k \<noteq> None"
    "\<forall>k l l'. sview sc2 k = Some l \<longrightarrow> shown (inv_len env (history_len st)) l l' \<longrightarrow> line_spec env st k l'"
    by (rule gather_ok [OF inv, where env = env, folded st_def])
  have s2: "history_totals st2 = history_totals st" "history_len st2 = history_len st" using g(4) by (auto simp: same_flows_def)
  have fi: "flow_inv st2 (node_addrs (screen_hash sc2))"
    and li: "line_inv (screen_hash sc2) (nodes_pool st2) (node_addrs (history st2)) (lines sc2)"
    using g(3) by (auto simp: tables_inv_def)
  have ps: "pinv (procs cs)" and rs: "rs_inv (names cs)" using inv by (auto simp: screen_inv_def)
  obtain r' ls l where m: "make_screen_list env (history_len st2) (names cs) sc2 = Some (r', sc2\<lparr>lines := ls, screen_list := l\<rparr>)"
    "rs_inv r'" "line_inv (screen_hash sc2) (nodes_pool st2) (node_addrs (history st2)) ls"
    "\<And>k. rel_option (shown (inv_len env (history_len st2))) (sview sc2 k) (view (screen_hash sc2) ls k)"
    "list_mem l" "set (items l) \<subseteq> dom ls"
    "freezeorder ?op = 0 \<Longrightarrow> mset (items l) = mset (map nd_record (nodes (screen_hash sc2)))"
    "freezeorder ?op = 0 \<Longrightarrow> items l = qsort env (qsort_compare_wrapper (compare_at ?op ls))
       (map nd_record (nodes (screen_hash sc2)))"
    by (rule make_screen_list_ok [OF li g(5) rs q g(7-9), where hl = "history_len st2"]) auto
  let ?sc3 = "sc2\<lparr>lines := ls, screen_list := l\<rparr>"
  obtain sc' where t: "calculate_totals (slot_elapsed env) ?idx st2 ?sc3 = Some sc'"
    "screen_hash sc' = screen_hash sc2" "lines sc' = ls" "screen_list sc' = l"
    "0 \<le> slot_elapsed env \<longrightarrow> (\<forall>j<3. line_recv (totals sc') ! j = of_int (window ?idx (recv (history_totals st2)) j) /
         history_length (history_len st2) (slot_elapsed env) j \<and>
       line_sent (totals sc') ! j = of_int (window ?idx (sent (history_totals st2)) j) /
         history_length (history_len st2) (slot_elapsed env) j)"
    using calculate_totals_ok [OF flow_invD(5) [OF fi] slot_order_ok, of ?sc3 "slot_elapsed env" "history_pos st"] g(6) by auto
  have rel: "rel_option (shown (inv_len env (history_len st))) (sview sc2 k) (sview sc' k)" for k
    using m(4) [of k] t(2,3) s2(2) by simp
  have sp: "line_spec env st k x" if "sview sc' k = Some x" for k x
    using rel [of k] g(11) that by (auto simp: option_rel_Some2)
  have "analyse_data env (cs, sc) = Some (cs\<lparr>acct := st2, names := r'\<rparr>, sc')"
    using np g(1,2) m(1) t(1) unfolding st_def by (simp add: analyse_data_def Let_def)
  moreover have "screen_inv (cs\<lparr>acct := st2, names := r'\<rparr>) sc'"
    using m fi ps sp by (simp add: screen_inv_def tables_inv_def t ap_inv_def line_spec_def)
  moreover have "sview sc' k \<noteq> None \<longleftrightarrow> sview sc2 k \<noteq> None" for k
    using rel [of k] by (cases "sview sc2 k"; cases "sview sc' k") auto
  ultimately show thesis using g(4,10) t(5) sp m(7,8)
    by (intro that [of "cs\<lparr>acct := st2, names := r'\<rparr>" sc']) (simp_all add: t window_recent s2 inv_len_eq)
qed

end
