(* ===== verification/Analysis_Properties.thy ===== *)
theory Analysis_Properties
  imports Screen_Analysis
begin

text \<open>
  What the display promises about the captured traffic: capture, rotation and analysis in any
  order keep both tables sound, each line is the traffic of its connections, the lines add up
  to the totals, and the list holds every line once in the order of the comparison.
\<close>

section \<open>Capture and display interleaved\<close>

text \<open>Each packet, rotation and analysis is one step here, and options may change in between. The program
  does not enforce this: \<open>tick\<close> holds a lock and packet accounting does not (theory \<open>Race\<close>).\<close>

datatype display_event = Capture options_t capture_event | Analyse analysis_env

fun display_run ::
  "(int \<Rightarrow> bytes \<Rightarrow> string) \<Rightarrow> if_addrs \<Rightarrow> capture_state \<times> screen_state \<Rightarrow> display_event list
     \<Rightarrow> (capture_state \<times> screen_state) option" where
  "display_run ntp env s [] = Some s"
| "display_run ntp env s (Capture op e # es) = do {
     cs \<leftarrow> capture_run ntp op env (fst s) [e];
     display_run ntp env (cs, snd s) es }"
| "display_run ntp env s (Analyse ae # es) = do { s \<leftarrow> analyse_data ae s; display_run ntp env s es }"

fun display_event_ok :: "display_event \<Rightarrow> bool" where
  "display_event_ok (Capture op e) = event_ok e"
| "display_event_ok (Analyse ae) = qsort_permutes (qsort ae)"

lemma screen_inv_cap: "screen_inv cs sc \<Longrightarrow> cap_inv cs (node_addrs (screen_hash sc))"
  by (simp add: screen_inv_def cap_inv_def tables_inv_def)

lemma screen_inv_capture:
  assumes "screen_inv cs sc" "cap_inv cs' (node_addrs (screen_hash sc))"
  shows "screen_inv cs' sc"
proof -
  have "addr_inv (screen_hash sc) (nodes_pool (acct cs)) (node_addrs (history (acct cs)))"
    using assms(1) by (simp add: screen_inv_def tables_inv_def line_inv_def)
  moreover have "addr_inv (history (acct cs')) (nodes_pool (acct cs')) (node_addrs (screen_hash sc))"
    using assms(2) by (simp add: cap_inv_def flow_inv_def)
  ultimately have "addr_inv (screen_hash sc) (nodes_pool (acct cs')) (node_addrs (history (acct cs')))"
    by (rule addr_inv_swap)
  with assms show ?thesis unfolding screen_inv_def cap_inv_def tables_inv_def line_inv_def by blast
qed

lemma same_counts_slot: "same_counts h h' \<Longrightarrow> slot_bytes i h' = slot_bytes i h \<and> clean pos h' = clean pos h \<and> hist_ok h' = hist_ok h"
  by (simp add: slot_bytes_def same_counts_def clean_def hist_ok_def)

lemma conserved_same_flows:
  assumes s: "same_flows st st'" and c: "conserved st"
  shows "conserved st'"
proof -
  from s have rel: "\<And>k. rel_option same_counts (flows st k) (flows st' k)"
    and eq: "history_totals st' = history_totals st" "history_pos st' = history_pos st" by (auto simp: same_flows_def)
  have dom: "dom (flows st') = dom (flows st)"
  proof (intro set_eqI)
    fix k show "k \<in> dom (flows st') \<longleftrightarrow> k \<in> dom (flows st)"
      using rel [of k] by (cases "flows st k"; cases "flows st' k") auto
  qed
  have "flow_sum (flows st') i = flow_sum (flows st) i" for i
    unfolding flow_sum_def dom
  proof (rule sum.cong)
    fix k assume "k \<in> dom (flows st)"
    with rel [of k] show "slot_bytes i (the (flows st' k)) = slot_bytes i (the (flows st k))"
      by (auto simp: option_rel_Some1 same_counts_slot)
  qed simp
  moreover have "clean (history_pos st') h' \<and> hist_ok h'" if ran: "h' \<in> ran (flows st')" for h'
  proof -
    from ran obtain k where k: "flows st' k = Some h'" by (auto simp: ran_def)
    with rel [of k] obtain h where h: "flows st k = Some h" "same_counts h h'" by (auto simp: option_rel_Some2)
    with c have "clean (history_pos st) h" "hist_ok h" by (auto simp: conserved_def ran_def)
    with h(2) eq(2) show ?thesis by (simp add: same_counts_slot)
  qed
  ultimately show ?thesis using c dom eq by (simp add: conserved_def)
qed

lemma analyse_data_keeps:
  assumes "screen_inv cs sc" "conserved (acct cs)" "qsort_permutes (qsort ae)"
  shows "\<exists>cs' sc'. analyse_data ae (cs, sc) = Some (cs', sc') \<and> screen_inv cs' sc' \<and> conserved (acct cs')"
proof (cases "paused (opts ae) = 1")
  case True
  with assms show ?thesis by (simp add: analyse_data_def)
next
  case False
  show ?thesis
    by (rule analyse_data_ok [OF assms(1,3) False]) (use assms(2) in \<open>auto intro: conserved_same_flows\<close>)
qed

lemma display_event_keeps:
  assumes "screen_inv (fst s) (snd s) \<and> conserved (acct (fst s))" "display_event_ok e"
  shows "\<exists>s'. display_run ntp env s [e] = Some s' \<and> screen_inv (fst s') (snd s') \<and> conserved (acct (fst s'))"
proof (cases e)
  case (Capture op ce)
  with assms conserved_run [OF screen_inv_cap, of "fst s" "snd s" "[ce]" ntp op env] obtain cs1 where
    c: "capture_run ntp op env (fst s) [ce] = Some cs1" "cap_inv cs1 (node_addrs (screen_hash (snd s)))" "conserved (acct cs1)"
    by auto
  with screen_inv_capture [of "fst s" "snd s" cs1] assms(1) Capture show ?thesis by auto
next
  case (Analyse ae)
  with assms analyse_data_keeps [of "fst s" "snd s" ae] show ?thesis by auto
qed

lemma display_run_Cons: "display_run ntp env s (e # es) = Option.bind (display_run ntp env s [e]) (\<lambda>s. display_run ntp env s es)"
  by (cases e) simp_all

interpretation display_machine: safe_run "\<lambda>e s. display_run ntp env s [e]" "\<lambda>es s. display_run ntp env s es" "\<lambda>e _. display_event_ok e"
    "\<lambda>s. screen_inv (fst s) (snd s) \<and> conserved (acct (fst s))"
  for ntp env
  by unfold_locales (simp, rule display_run_Cons, rule display_event_keeps)

lemma display_run_keeps:
  assumes "screen_inv cs sc" "conserved (acct cs)" "\<forall>e\<in>set es. display_event_ok e"
  shows "\<exists>cs' sc'. display_run ntp env (cs, sc) es = Some (cs', sc') \<and> screen_inv cs' sc' \<and> conserved (acct cs')"
  using display_machine.run_safe [of "(cs, sc)" ntp env es] display_machine.run_ready_always assms by fastforce

lemma ui_init_ok:
  assumes "pinv ps"
  shows "screen_inv (capture_start ps) (ui_init_tables op)"
proof -
  note c = addr_hash_create_ok [where 'r = nat, OF pool_empty_inv]
  note s = capture_start_ok(1) [OF assms]
  have n: "node_addrs (addr_hash_create :: nat addr_table) = {}" "nodes (addr_hash_create :: nat addr_table) = []"
    using c by (simp_all add: node_addrs_def)
  have "node_addrs (history (acct (capture_start ps))) = {}"
    by (simp add: capture_start_def init_history_def node_addrs_def addr_hash_create_ok [OF pool_empty_inv])
  moreover have "nodes_pool (acct (capture_start ps)) = pool_empty" by (simp add: capture_start_def init_history_def)
  ultimately show ?thesis
    using s c(1) n
    by (simp add: screen_inv_def tables_inv_def cap_inv_def ui_init_tables_def line_inv_def screen_list_init_def
        sorted_list_initialise_def list_mem_def items_def ap_inv_def view_def split: bind_splits)
qed

section \<open>Lines against totals\<close>

text \<open>What a state shows in division \<open>j\<close>: both directions of a line, and of all lines.\<close>

definition shown_bytes :: "screen_state \<Rightarrow> nat \<Rightarrow> rat" where
  "shown_bytes sc j = (\<Sum>k\<in>dom (sview sc). line_both (the (sview sc k)) j)"

lemma recent_sum:
  assumes c: "conserved st" and pos: "0 \<le> history_pos st"
  shows "(\<Sum>k\<in>dom (flows st). recent (history_pos st) (recv (the (flows st k))) n + recent (history_pos st) (sent (the (flows st k))) n) =
     recent (history_pos st) (recv (history_totals st)) n + recent (history_pos st) (sent (history_totals st)) n"
proof -
  let ?i = "\<lambda>i. nat ((history_pos st - int i) mod 40)"
  have slot: "recent (history_pos st) (recv h) n + recent (history_pos st) (sent h) n = (\<Sum>i<n. slot_bytes (?i i) h)" for h
    by (simp add: recent_def slot_bytes_def sum.distrib)
  have "(\<Sum>k\<in>dom (flows st). \<Sum>i<n. slot_bytes (?i i) (the (flows st k))) =
      (\<Sum>i<n. \<Sum>k\<in>dom (flows st). slot_bytes (?i i) (the (flows st k)))" by (rule sum.swap)
  also have "\<dots> = (\<Sum>i<n. slot_bytes (?i i) (history_totals st))"
  proof (rule sum.cong)
    fix i
    have "?i i < 40" by (simp add: nat_less_iff)
    with c show "(\<Sum>k\<in>dom (flows st). slot_bytes (?i i) (the (flows st k))) = slot_bytes (?i i) (history_totals st)"
      by (simp add: conserved_def flow_sum_def)
  qed simp
  finally show ?thesis by (simp add: slot)
qed

lemma line_spec_both:
  assumes "line_spec env st k l" "j < 3"
  shows "line_both l j = of_int (\<Sum>c\<in>members (opts env) st k.
     recent (history_pos st) (recv (the (flows st c))) (history_divs ! j) +
     recent (history_pos st) (sent (the (flows st c))) (history_divs ! j)) * inv_len env (history_len st) j"
  using assms by (simp add: line_spec_def line_both_def sum.distrib algebra_simps)

lemma shown_eq_totals:
  assumes inv: "screen_inv cs sc" and c: "conserved (acct cs)" and q: "qsort_permutes (qsort env)"
    and np: "paused (opts env) \<noteq> 1" and el: "0 \<le> slot_elapsed env" and j: "j < 3"
    and run: "analyse_data env (cs, sc) = Some (cs', sc')"
  shows "shown_bytes sc' j = line_both (totals sc') j"
proof (rule analyse_data_ok [OF inv q np])
  fix cs'' sc''
  let ?st = "acct cs"
  let ?g = "\<lambda>k. recent (history_pos ?st) (recv (the (flows ?st k))) (history_divs ! j) +
      recent (history_pos ?st) (sent (the (flows ?st k))) (history_divs ! j)"
  assume r: "analyse_data env (cs, sc) = Some (cs'', sc'')" and inv': "screen_inv cs'' sc''"
    and shown: "\<And>k. sview sc'' k \<noteq> None \<longleftrightarrow> members (opts env) ?st k \<noteq> {} \<or> freezeorder (opts env) \<noteq> 0 \<and> sview sc k \<noteq> None"
    and spec: "\<And>k l. sview sc'' k = Some l \<Longrightarrow> line_spec env ?st k l"
    and tot: "\<And>j. 0 \<le> slot_elapsed env \<Longrightarrow> j < 3 \<Longrightarrow> line_recv (totals sc'') ! j =
       of_int (recent (history_pos ?st) (recv (history_totals ?st)) (history_divs ! j)) * inv_len env (history_len ?st) j"
     "\<And>j. 0 \<le> slot_elapsed env \<Longrightarrow> j < 3 \<Longrightarrow> line_sent (totals sc'') ! j =
       of_int (recent (history_pos ?st) (sent (history_totals ?st)) (history_divs ! j)) * inv_len env (history_len ?st) j"
  have eq: "sc'' = sc'" using r run by simp
  have li: "line_inv (screen_hash sc') (nodes_pool (acct cs'')) (node_addrs (history (acct cs''))) (lines sc')"
    using inv' by (simp add: screen_inv_def tables_inv_def eq)
  have "dom (sview sc') \<subseteq> nd_key ` set (nodes (screen_hash sc'))" by (auto simp: view_iff [OF li])
  then have fin: "finite (dom (sview sc'))" by (rule finite_subset) simp
  have finf: "finite (dom (flows ?st))" and pos: "0 \<le> history_pos ?st"
    using c flow_invD(6) screen_inv_cap [OF inv] by (auto simp: conserved_def cap_inv_def)
  have sub: "screen_key (opts env) ` dom (flows ?st) \<subseteq> dom (sview sc')"
    using shown by (fastforce simp: eq members_def)
  have "shown_bytes sc' j =
      (\<Sum>k\<in>dom (sview sc'). of_int (\<Sum>c\<in>members (opts env) ?st k. ?g c) * inv_len env (history_len ?st) j)"
    unfolding shown_bytes_def
  proof (rule sum.cong)
    fix k assume "k \<in> dom (sview sc')"
    then obtain l where "sview sc' k = Some l" by blast
    with spec [of k l] line_spec_both [OF _ j, of env ?st k l]
    show "line_both (the (sview sc' k)) j = of_int (\<Sum>c\<in>members (opts env) ?st k. ?g c) * inv_len env (history_len ?st) j"
      by (simp add: eq)
  qed simp
  also have "\<dots> = of_int (\<Sum>k\<in>dom (sview sc'). \<Sum>c\<in>members (opts env) ?st k. ?g c) * inv_len env (history_len ?st) j"
    by (simp add: sum_distrib_right)
  also have "(\<Sum>k\<in>dom (sview sc'). \<Sum>c\<in>members (opts env) ?st k. ?g c) = (\<Sum>c\<in>dom (flows ?st). ?g c)"
    unfolding members_def by (rule sum.group [OF finf fin sub])
  also have "\<dots> = recent (history_pos ?st) (recv (history_totals ?st)) (history_divs ! j) +
      recent (history_pos ?st) (sent (history_totals ?st)) (history_divs ! j)"
    by (rule recent_sum [OF c pos])
  finally show ?thesis using tot [OF el j] by (simp add: eq line_both_def algebra_simps)
qed

section \<open>The order of the list\<close>

lemma list_order_vimage: "list_order cmp \<Longrightarrow> list_order (\<lambda>a b. cmp (f a) (f b))"
  unfolding list_order_def by blast

interpretation line_order: list_order "compare_at op ls" for op ls
  unfolding compare_at_def by (rule list_order_vimage [OF screen_order.list_order_axioms])

lemma compare_at_nonneg: "\<forall>a b. compare_at op ls a b \<ge> 0"
  by (simp add: compare_at_def screen_line_compare_nonneg)

text \<open>Two lines tie if neither is strictly before the other.\<close>

definition tied :: "options_t \<Rightarrow> host_pair_line \<Rightarrow> host_pair_line \<Rightarrow> bool" where
  "tied op l l' \<longleftrightarrow> screen_line_compare op l l' > 0 \<and> screen_line_compare op l' l > 0"

definition line_at :: "screen_state \<Rightarrow> nat \<Rightarrow> host_pair_line" where
  "line_at sc a = (case lines sc a of Some l \<Rightarrow> l | None \<Rightarrow> line_zero)"

lemma compare_at_line: "compare_at op (lines sc) a b = screen_line_compare op (line_at sc a) (line_at sc b)"
  by (simp add: compare_at_def line_at_def)

text \<open>An implementation of \<open>qsort\<close>: insertion sort.\<close>

fun isort_insert :: "('d \<Rightarrow> 'd \<Rightarrow> int) \<Rightarrow> 'd \<Rightarrow> 'd list \<Rightarrow> 'd list" where
  "isort_insert c x [] = [x]"
| "isort_insert c x (y # ys) = (if c x y \<le> 0 then x # y # ys else y # isort_insert c x ys)"

definition isort :: "('d \<Rightarrow> 'd \<Rightarrow> int) \<Rightarrow> 'd list \<Rightarrow> 'd list" where
  "isort c xs = foldr (isort_insert c) xs []"

lemma mset_isort_insert: "mset (isort_insert c x ys) = add_mset x (mset ys)"
  by (induction ys) auto

lemma mset_isort: "mset (isort c xs) = mset xs"
  unfolding isort_def by (induction xs) (simp_all add: mset_isort_insert)

lemma consistentD:
  assumes "consistent c S" "x \<in> S" "y \<in> S" "x \<noteq> y"
  shows "c x y > 0 \<longleftrightarrow> c y x < 0" "c x y = 0 \<longleftrightarrow> c y x = 0"
    "z \<in> S \<Longrightarrow> z \<noteq> x \<Longrightarrow> z \<noteq> y \<Longrightarrow> c x y \<le> 0 \<Longrightarrow> c y z \<le> 0 \<Longrightarrow> c x z \<le> 0"
  using conjunct1 [OF assms(1) [unfolded consistent_def], THEN bspec, OF assms(2), THEN bspec, OF assms(3)] assms(4)
    conjunct2 [OF assms(1) [unfolded consistent_def], THEN bspec, OF assms(2), THEN bspec, OF assms(3), THEN bspec, of z]
  by auto

lemma consistent_subset:
  assumes c: "consistent c T" and sub: "S \<subseteq> T"
  shows "consistent c S"
  unfolding consistent_def
proof (intro conjI ballI impI)
  fix x y assume "x \<in> S" "y \<in> S" "x \<noteq> y"
  with sub have "x \<in> T" "y \<in> T" "x \<noteq> y" by auto
  from consistentD(1,2) [OF c this] show "c x y > 0 \<longleftrightarrow> c y x < 0" "c x y = 0 \<longleftrightarrow> c y x = 0" .
next
  fix x y z assume "x \<in> S" "y \<in> S" "z \<in> S" "x \<noteq> y \<and> y \<noteq> z \<and> x \<noteq> z" "c x y \<le> 0" "c y z \<le> 0"
  with sub show "c x z \<le> 0" by (intro consistentD(3) [OF c, of x y z]) auto
qed

lemma isort_insert_sorted:
  assumes "consistent c (insert x (set ys))" "distinct (x # ys)" "sorted_wrt (\<lambda>x y. c x y \<le> 0) ys"
  shows "sorted_wrt (\<lambda>x y. c x y \<le> 0) (isort_insert c x ys)"
  using assms
proof (induction ys)
  case (Cons y ys)
  have con: "consistent c (insert x (set ys))" by (rule consistent_subset [OF Cons.prems(1)]) auto
  have s: "set (isort_insert c x ys) = insert x (set ys)"
    using arg_cong [OF mset_isort_insert, of set_mset c x ys] by simp
  have ne: "x \<noteq> y" "\<forall>z\<in>set ys. z \<noteq> x \<and> z \<noteq> y" using Cons.prems(2) by auto
  show ?case
  proof (cases "c x y \<le> 0")
    case True
    have "c x z \<le> 0" if "z \<in> set ys" for z
    proof -
      have "c y z \<le> 0" using Cons.prems(3) that by simp
      with ne that True show ?thesis by (intro consistentD(3) [OF Cons.prems(1), of x y z]) auto
    qed
    with True Cons.prems(3) show ?thesis by simp
  next
    case False
    with consistentD(1) [OF Cons.prems(1), of x y] ne(1) have "c y x \<le> 0" by auto
    with False Cons con s show ?thesis by auto
  qed
qed simp

lemma isort_sorted:
  assumes "distinct xs" "consistent c (set xs)"
  shows "sorted_wrt (\<lambda>x y. c x y \<le> 0) (isort c xs)"
  using assms
proof (induction xs)
  case (Cons x xs)
  have set: "set (isort c xs) = set xs" using mset_eq_setD [OF mset_isort] .
  have "distinct (isort c xs)" using Cons.prems(1) mset_isort by (metis distinct.simps(2) mset_eq_imp_distinct_iff)
  moreover have "consistent c (set xs)" by (rule consistent_subset [OF Cons.prems(2)]) auto
  ultimately have "sorted_wrt (\<lambda>x y. c x y \<le> 0) (isort_insert c x (isort c xs))"
    using Cons set by (intro isort_insert_sorted) auto
  then show ?case by (simp add: isort_def)
qed (simp add: isort_def)

lemma isort_qsort: "qsort_permutes isort" "qsort_spec isort"
  by (auto simp: qsort_permutes_def qsort_spec_def mset_isort isort_sorted)

section \<open>Properties\<close>

definition example_env :: analysis_env where
  "example_env = \<lparr>ntop = no_names, qsort = isort, opts = plain_options, slot_elapsed = 1\<rparr>"

definition example_events :: "display_event list" where
  "example_events = [Capture plain_options (Packet_In query 1), Analyse example_env,
     Capture plain_options Rotate, Capture plain_options (Packet_In answer 0)]"

lemma example_facts:
  "\<forall>e\<in>set example_events. display_event_ok e" "paused plain_options \<noteq> 1" "freezeorder plain_options = 0"
  "qsort example_env = isort" "opts example_env = plain_options" "slot_elapsed example_env = 1"
  by (simp_all add: example_events_def example_env_def query_facts isort_qsort plain_options_def options_set_defaults_def)

text \<open>Capture and display share the pool of table nodes. From start-up on, whatever
  packets, rotations and analyses happen in whatever order and whatever options hold at each
  of them, no step touches memory it does not own (the run returns a state), the nodes of the
  connection table and of the display table stay disjoint, every block of the sorted list is
  accounted for, and every entry of the sorted list points to a line that has not been freed.\<close>

theorem display_run_safe:
  assumes "pinv ps" and "\<forall>e\<in>set es. display_event_ok e"
  shows "\<exists>cs sc. display_run ntp env (capture_start ps, ui_init_tables op) es = Some (cs, sc) \<and> screen_inv cs sc \<and>
     node_addrs (history (acct cs)) \<inter> node_addrs (screen_hash sc) = {} \<and>
     list_mem (screen_list sc) \<and> set (items (screen_list sc)) \<subseteq> dom (lines sc)"
proof -
  obtain cs sc where r: "display_run ntp env (capture_start ps, ui_init_tables op) es = Some (cs, sc)" "screen_inv cs sc"
    using display_run_keeps [OF ui_init_ok [OF assms(1)] capture_start_ok(2) [OF assms(1)] assms(2)] by blast
  then have "addr_inv (history (acct cs)) (nodes_pool (acct cs)) (node_addrs (screen_hash sc))"
    by (simp add: screen_inv_def tables_inv_def flow_inv_def)
  from addr_invD(5) [OF this] r show ?thesis by (auto simp: screen_inv_def)
qed

theorem display_run_safe_witness:
  "\<exists>cs sc. display_run no_names no_addrs (capture_start procinfo_init, ui_init_tables plain_options) example_events =
       Some (cs, sc) \<and> screen_inv cs sc \<and>
     node_addrs (history (acct cs)) \<inter> node_addrs (screen_hash sc) = {} \<and>
     list_mem (screen_list sc) \<and> set (items (screen_list sc)) \<subseteq> dom (lines sc)"
  by (rule display_run_safe [OF procinfo_init_pinv example_facts(1)])







text \<open>C35: the comparison is not one that \<open>qsort\<close> may be given. It answers \<open>1\<close> for lines
  that tie, so two lines at different addresses with the same rates are each reported greater
  than the other, whenever the display is sorted by rate; only a display without ties is
  sorted by a consistent comparison.\<close>

theorem tied_lines_inconsistent:
  assumes "a \<noteq> b" and "ls a = Some l" and "ls b = Some l'"
    and "line_recv l = line_recv l'" and "line_sent l = line_sent l'"
    and "sort_by op \<noteq> OPTION_SORT_SRC" and "sort_by op \<noteq> OPTION_SORT_DEST"
  shows "qsort_compare_wrapper (compare_at op ls) a b > 0 \<and> qsort_compare_wrapper (compare_at op ls) b a > 0 \<and>
    \<not> consistent (qsort_compare_wrapper (compare_at op ls)) {a, b}"
proof -
  have k: "bandwidth_key op n l = bandwidth_key op n l'" for n
    using assms(4,5) by (simp add: bandwidth_key_def line_both_def [abs_def] cong: option_linedisplay_t.case_cong)
  have "screen_line_compare op l l' > 0 \<and> screen_line_compare op l' l > 0"
    using assms(6,7) by (cases "sort_by op") (simp_all add: screen_line_compare_def bandwidth_compare_key k)
  then have t: "compare_at op ls a b > 0" "compare_at op ls b a > 0" using assms(2,3) by (simp_all add: compare_at_def)
  moreover have "\<not> consistent (qsort_compare_wrapper (compare_at op ls)) {a, b}"
    using t assms(1) by (simp add: line_order.wrapper_consistent_iff [OF compare_at_nonneg])
  ultimately show ?thesis by (simp add: qsort_compare_wrapper_def)
qed

theorem tied_lines_inconsistent_witness:
  "\<not> consistent (qsort_compare_wrapper (compare_at plain_options [1 \<mapsto> line_zero, 2 \<mapsto> line_zero])) {1 :: nat, 2}"
  using tied_lines_inconsistent [of "1 :: nat" 2 "[1 \<mapsto> line_zero, 2 \<mapsto> line_zero]" line_zero line_zero plain_options]
  by (simp add: plain_options_def options_set_defaults_def)

end
