(* ===== verification/Tick.thy ===== *)
theory Tick
  imports Analysis_Properties
begin

text \<open>
  The clock of the program, \<open>tick\<close> in \<open>src/entry/iftop.c\<close>: it rotates the history once the
  current slot is over, refreshes the process table, and analyses and repaints when enough
  time has passed. The time of day is an argument, differences of times are rationals.
  Drawing and exporting are output; the model returns which of them happens.
\<close>

record timeval =
  tv_sec :: int
  tv_usec :: int

definition timeval_diff :: "timeval \<Rightarrow> timeval \<Rightarrow> rat" where
  "timeval_diff a b = of_int (tv_sec a - tv_sec b) + of_int (tv_usec a - tv_usec b) / 1000000"

definition DISPLAY_RESOLUTION :: rat where "DISPLAY_RESOLUTION = 3 / 100"

definition PROCINFO_RESOLUTION :: rat where "PROCINFO_RESOLUTION = 1 / 4"

record tick_state =
  captured :: capture_state
  screen :: screen_state
  last_timestamp :: timeval
  last_display :: timeval
  last_procinfo :: timeval
  elapsed :: rat

text \<open>The world a tick runs in: options, time, C library, and the process table it may read.\<close>

record tick_env =
  t_opts :: options_t
  t_now :: timeval
  t_ntop :: "int \<Rightarrow> bytes \<Rightarrow> string"
  t_qsort :: "(nat \<Rightarrow> nat \<Rightarrow> int) \<Rightarrow> nat list \<Rightarrow> nat list"
  t_mem :: "nat \<Rightarrow> bool"
  t_fs :: proc_fs
  t_table :: "nat option"

datatype repaint = Ui_Print | Export_Print | Ui_Tick int

text \<open>The slot is over: rotate. Then how far into the slot the time is, clamped.\<close>

definition turned :: "tick_env \<Rightarrow> tick_state \<Rightarrow> bool" where
  "turned env s \<longleftrightarrow> timeval_diff (t_now env) (last_timestamp s) \<ge> RESOLUTION"

definition tick_rotate :: "tick_env \<Rightarrow> tick_state \<Rightarrow> tick_state option" where
  "tick_rotate env s = do {
     s \<leftarrow> (if turned env s then do {
             st \<leftarrow> history_rotate (acct (captured s));
             Some (s\<lparr>captured := (captured s)\<lparr>acct := st\<rparr>, last_timestamp := t_now env\<rparr>) }
           else Some s);
     let el = timeval_diff (t_now env) (last_timestamp s);
     let el = (if el < 0 then 0 else el);
     Some (s\<lparr>elapsed := (if el > RESOLUTION then RESOLUTION else el)\<rparr>)
   }"

definition tick_procinfo :: "tick_env \<Rightarrow> tick_state \<Rightarrow> tick_state option" where
  "tick_procinfo env s =
     (if show_processes (t_opts env) \<noteq> 0 \<and> timeval_diff (t_now env) (last_procinfo s) \<ge> PROCINFO_RESOLUTION then do {
        ps \<leftarrow> procinfo_refresh (t_mem env) (t_fs env) (t_table env) (procs (captured s));
        Some (s\<lparr>captured := (captured s)\<lparr>procs := ps\<rparr>, last_procinfo := t_now env\<rparr>) }
      else Some s)"

definition tick_display :: "tick_env \<Rightarrow> bool \<Rightarrow> int \<Rightarrow> tick_state \<Rightarrow> (repaint \<times> tick_state) option" where
  "tick_display env did_rotate print s =
     (if did_rotate \<or> timeval_diff (t_now env) (last_display s) \<ge> DISPLAY_RESOLUTION then do {
        (cs, sc) \<leftarrow> analyse_data \<lparr>ntop = t_ntop env, qsort = t_qsort env, opts = t_opts env, slot_elapsed = elapsed s\<rparr>
                      (captured s, screen s);
        Some (if export_mode (t_opts env) \<noteq> 0 then Export_Print else Ui_Print,
              s\<lparr>captured := cs, screen := sc, last_display := t_now env\<rparr>) }
      else Some (Ui_Tick print, s))"

definition tick :: "tick_env \<Rightarrow> int \<Rightarrow> tick_state \<Rightarrow> (repaint \<times> tick_state) option" where
  "tick env print s = do {
     let did_rotate = turned env s;
     s \<leftarrow> tick_rotate env s;
     s \<leftarrow> tick_procinfo env s;
     tick_display env did_rotate print s
   }"

section \<open>Correctness\<close>

definition tick_inv :: "tick_state \<Rightarrow> bool" where
  "tick_inv s \<longleftrightarrow> screen_inv (captured s) (screen s) \<and> conserved (acct (captured s)) \<and>
     0 \<le> elapsed s \<and> elapsed s \<le> 1"

text \<open>What a tick needs of its world: memory for the process table and well-formed \<open>/proc\<close> files.\<close>

definition tick_env_ok :: "tick_env \<Rightarrow> tick_state \<Rightarrow> bool" where
  "tick_env_ok env s \<longleftrightarrow> qsort_permutes (t_qsort env) \<and> (\<forall>c. t_mem env c) \<and>
     file6_ok (net_tcp6 (t_fs env)) \<and> file6_ok (net_udp6 (t_fs env)) \<and>
     (\<forall>a. t_table env = Some a \<longrightarrow> tables (procs (captured s)) a = None)"

lemma timeval_diff_self [simp]: "timeval_diff a a = 0"
  by (simp add: timeval_diff_def)

lemma refresh_keeps:
  assumes "pinv ps" "tick_env_ok env s" "tables (procs (captured s)) = tables ps"
  shows "\<exists>ps'. procinfo_refresh (t_mem env) (t_fs env) (t_table env) ps = Some ps' \<and> pinv ps'"
proof (cases "t_table env")
  case None
  with assms(1) show ?thesis by (simp add: procinfo_refresh_def pinv_def in_ok_def)
next
  case (Some a)
  with assms procinfo_refresh_ok [OF assms(1), of a "t_mem env" "t_fs env"] show ?thesis
    by (auto simp: tick_env_ok_def)
qed

lemma rotate_keeps:
  assumes inv: "screen_inv cs sc" "conserved (acct cs)"
  obtains st where "history_rotate (acct cs) = Some st" "screen_inv (cs\<lparr>acct := st\<rparr>) sc" "conserved st"
    "history_pos st = (history_pos (acct cs) + 1) mod 40"
proof -
  have fi: "flow_inv (acct cs) (node_addrs (screen_hash sc))"
    using screen_inv_cap [OF inv(1)] by (simp add: cap_inv_def)
  obtain st where st: "history_rotate (acct cs) = Some st" "flow_inv st (node_addrs (screen_hash sc))" "conserved st"
    using conserved_rotate [OF fi inv(2)] by blast
  have "cap_inv (cs\<lparr>acct := st\<rparr>) (node_addrs (screen_hash sc))"
    using screen_inv_cap [OF inv(1)] st(2) by (simp add: cap_inv_def)
  from screen_inv_capture [OF inv(1) this] st history_rotate_ok [OF fi] show thesis by (intro that) auto
qed

lemma tick_rotate_ok:
  assumes inv: "tick_inv s"
  obtains s' where "tick_rotate env s = Some s'" "tick_inv s'" "screen s' = screen s" "last_display s' = last_display s"
    "procs (captured s') = procs (captured s)" "names (captured s') = names (captured s)"
    "last_timestamp s' = (if turned env s then t_now env else last_timestamp s)" "last_procinfo s' = last_procinfo s"
    "history_pos (acct (captured s')) =
       (if turned env s then (history_pos (acct (captured s)) + 1) mod 40 else history_pos (acct (captured s)))"
proof -
  from inv have si: "screen_inv (captured s) (screen s)" "conserved (acct (captured s))" by (auto simp: tick_inv_def)
  obtain st where st: "history_rotate (acct (captured s)) = Some st" "screen_inv ((captured s)\<lparr>acct := st\<rparr>) (screen s)"
    "conserved st" "history_pos st = (history_pos (acct (captured s)) + 1) mod 40" by (rule rotate_keeps [OF si])
  define el where "el = (let e = timeval_diff (t_now env) (if turned env s then t_now env else last_timestamp s);
      e = (if e < 0 then 0 else e) in if e > RESOLUTION then RESOLUTION else e)"
  have el: "0 \<le> el" "el \<le> 1" by (simp_all add: el_def Let_def RESOLUTION_def)
  show thesis
  proof (cases "turned env s")
    case True
    let ?s = "s\<lparr>captured := (captured s)\<lparr>acct := st\<rparr>, last_timestamp := t_now env, elapsed := el\<rparr>"
    have "tick_rotate env s = Some ?s" using True st(1) by (simp add: tick_rotate_def el_def Let_def)
    with True st el show thesis by (intro that [of ?s]) (simp_all add: tick_inv_def)
  next
    case False
    let ?s = "s\<lparr>elapsed := el\<rparr>"
    have "tick_rotate env s = Some ?s" using False by (simp add: tick_rotate_def el_def Let_def)
    with False si el show thesis by (intro that [of ?s]) (simp_all add: tick_inv_def)
  qed
qed

lemma tick_procinfo_ok:
  assumes inv: "tick_inv s" and env: "tick_env_ok env s"
  obtains s' where "tick_procinfo env s = Some s'" "tick_inv s'" "screen s' = screen s" "last_display s' = last_display s"
    "acct (captured s') = acct (captured s)" "last_timestamp s' = last_timestamp s" "elapsed s' = elapsed s"
proof -
  have p: "pinv (procs (captured s))" using inv by (simp add: tick_inv_def screen_inv_def)
  obtain ps where "procinfo_refresh (t_mem env) (t_fs env) (t_table env) (procs (captured s)) = Some ps" "pinv ps"
    using refresh_keeps [OF p env] by blast
  with inv show thesis
    by (cases "show_processes (t_opts env) \<noteq> 0 \<and> timeval_diff (t_now env) (last_procinfo s) \<ge> PROCINFO_RESOLUTION")
      (auto simp: tick_procinfo_def tick_inv_def screen_inv_def intro!: that)
qed

lemma tick_display_ok:
  assumes inv: "tick_inv s" and q: "qsort_permutes (t_qsort env)"
  obtains r s' where "tick_display env did print s = Some (r, s')" "tick_inv s'" "same_flows (acct (captured s)) (acct (captured s'))"
    "r \<noteq> Ui_Tick print \<longleftrightarrow> did \<or> timeval_diff (t_now env) (last_display s) \<ge> DISPLAY_RESOLUTION"
    "r \<noteq> Ui_Tick print \<Longrightarrow> last_display s' = t_now env \<and> (r = Export_Print \<longleftrightarrow> export_mode (t_opts env) \<noteq> 0)"
    "r \<noteq> Ui_Tick print \<Longrightarrow> paused (t_opts env) \<noteq> 1 \<Longrightarrow> (\<forall>j<3. shown_bytes (screen s') j = line_both (totals (screen s')) j)"
    "r = Ui_Tick print \<Longrightarrow> s' = s" "last_timestamp s' = last_timestamp s"
proof (cases "did \<or> timeval_diff (t_now env) (last_display s) \<ge> DISPLAY_RESOLUTION")
  case False
  have "same_counts h h" for h by (simp add: same_counts_def)
  then have "same_flows (acct (captured s)) (acct (captured s))" by (simp add: same_flows_def option.rel_refl)
  with False inv show thesis by (intro that [of "Ui_Tick print" s]) (auto simp: tick_display_def)
next
  case True
  let ?ae = "\<lparr>ntop = t_ntop env, qsort = t_qsort env, opts = t_opts env, slot_elapsed = elapsed s\<rparr>"
  let ?r = "if export_mode (t_opts env) \<noteq> 0 then Export_Print else Ui_Print"
  from inv have si: "screen_inv (captured s) (screen s)" "conserved (acct (captured s))" "0 \<le> elapsed s"
    by (auto simp: tick_inv_def)
  have q': "qsort_permutes (qsort ?ae)" using q by simp
  obtain cs sc where a: "analyse_data ?ae (captured s, screen s) = Some (cs, sc)" "screen_inv cs sc" "conserved (acct cs)"
    using analyse_data_keeps [OF si(1,2) q'] by blast
  have same: "same_flows (acct (captured s)) (acct cs)"
  proof (cases "paused (opts ?ae) = 1")
    case True
    with a(1) have "cs = captured s" by (simp add: analyse_data_def)
    moreover have "same_counts h h" for h by (simp add: same_counts_def)
    ultimately show ?thesis by (simp add: same_flows_def option.rel_refl)
  next
    case False
    show ?thesis by (rule analyse_data_ok [OF si(1) q' False]) (use a(1) in simp)
  qed
  have sum: "\<forall>j<3. shown_bytes sc j = line_both (totals sc) j" if "paused (t_opts env) \<noteq> 1"
    using shown_eq_totals [OF si(1,2) q' _ _ _ a(1)] that si(3) by simp
  have "tick_display env did print s = Some (?r, s\<lparr>captured := cs, screen := sc, last_display := t_now env\<rparr>)"
    using True a(1) by (simp add: tick_display_def)
  with True a(2,3) same sum inv show thesis
    by (intro that [of ?r "s\<lparr>captured := cs, screen := sc, last_display := t_now env\<rparr>"]) (auto simp: tick_inv_def split: if_splits)
qed

section \<open>Properties\<close>


definition idle_fs :: proc_fs where
  "idle_fs = \<lparr>net_tcp = None, net_tcp6 = None, net_udp = None, net_udp6 = None, proc_dir = None, comm = (\<lambda>_. None)\<rparr>"

definition example_tick :: tick_env where
  "example_tick = \<lparr>t_opts = plain_options, t_now = \<lparr>tv_sec = 1, tv_usec = 0\<rparr>, t_ntop = no_names, t_qsort = isort,
     t_mem = (\<lambda>_. True), t_fs = idle_fs, t_table = None\<rparr>"

definition start_tick :: tick_state where
  "start_tick = \<lparr>captured = capture_start procinfo_init, screen = ui_init_tables plain_options,
     last_timestamp = \<lparr>tv_sec = 0, tv_usec = 0\<rparr>, last_display = \<lparr>tv_sec = 0, tv_usec = 0\<rparr>,
     last_procinfo = \<lparr>tv_sec = 0, tv_usec = 0\<rparr>, elapsed = 0\<rparr>"


end
