(* ===== verification/Interface.thy ===== *)
theory Interface
  imports Keys Link_Layer
begin

text \<open>
  Start-up of the capture: \<open>get_addrs_ioctl\<close> of \<open>src/util/addrs_ioctl.c\<close> (its Linux branch)
  and \<open>packet_init\<close> of \<open>src/entry/iftop.c\<close>. What the operating system and the capture library
  report are arguments. The memory of a socket address is a list of bytes; reading beyond it
  is undefined. Ending the process with a message is \<^term>\<open>Inl\<close>.
\<close>

section \<open>Addresses of the interface\<close>

record sockaddr =
  sa_family :: int
  sa_mem :: bytes

record ifaddrs =
  ifa_name :: string
  ifa_addr :: "sockaddr option"

record found_addrs =
  got_ip_addr :: int
  got_ip6_addr :: int
  f_ip_addr :: u32
  f_ip6_addr :: bytes

text \<open>The body of the loop over the addresses: \<open>sin_addr\<close> is at offset 4, \<open>sin6_addr\<close> at offset 8.\<close>

definition scan_ifaddr :: "string \<Rightarrow> ifaddrs \<Rightarrow> found_addrs \<Rightarrow> found_addrs option" where
  "scan_ifaddr iface ifa f =
     (if ifa_name ifa \<noteq> iface then Some f
      else case ifa_addr ifa of
        None \<Rightarrow> Some f
      | Some sa \<Rightarrow>
          if sa_family sa \<noteq> AF_INET \<and> sa_family sa \<noteq> AF_INET6 then Some f
          else if sa_family sa = AF_INET \<and> got_ip_addr f = 0 then do {
            a \<leftarrow> rd_slice (sa_mem sa) 4 4;
            Some (f\<lparr>got_ip_addr := 2, f_ip_addr := load_le32 a 0\<rparr>) }
          else do {
            a \<leftarrow> rd_slice (sa_mem sa) 8 16;
            Some (if IN6_IS_ADDR_LINKLOCAL a \<or> IN6_IS_ADDR_SITELOCAL a then f
                  else f\<lparr>got_ip6_addr := 4, f_ip6_addr := a\<rparr>) })"

fun scan_ifaddrs :: "string \<Rightarrow> ifaddrs list \<Rightarrow> found_addrs \<Rightarrow> found_addrs option" where
  "scan_ifaddrs iface [] f = Some f"
| "scan_ifaddrs iface (ifa # ifas) f =
     (if got_ip_addr f \<noteq> 0 \<and> got_ip6_addr f \<noteq> 0 then Some f
      else Option.bind (scan_ifaddr iface ifa f) (scan_ifaddrs iface ifas))"

text \<open>
  How the address is looked up depends on the build: with \<open>USE_GETIFADDRS\<close> from the list of
  all addresses, otherwise with one \<open>ioctl\<close>. The argument is what the system reports, \<open>None\<close>
  for a failure.
\<close>

datatype ip_lookup = Getifaddrs "ifaddrs list option" | Siocgifaddr "u32 option"

text \<open>
  \<open>sock\<close>: whether a socket could be opened; \<open>hw\<close>: the hardware address \<open>ioctl\<close> reports, if
  any. The result is the bit set and the addresses, as the caller's variables hold them.
\<close>

definition get_addrs_ioctl ::
  "bool \<Rightarrow> bytes option \<Rightarrow> ip_lookup \<Rightarrow> string \<Rightarrow> (int \<times> bytes \<times> found_addrs) option" where
  "get_addrs_ioctl sock hw ips iface =
     (let f0 = \<lparr>got_ip_addr = 0, got_ip6_addr = 0, f_ip_addr = 0, f_ip6_addr = replicate 16 0\<rparr> in
      if \<not> sock then Some (- 1, replicate 6 0, f0)
      else do {
        f \<leftarrow> (case ips of
                Getifaddrs None \<Rightarrow> Some f0
              | Getifaddrs (Some l) \<Rightarrow> scan_ifaddrs iface l f0
              | Siocgifaddr None \<Rightarrow> Some f0
              | Siocgifaddr (Some a) \<Rightarrow> Some (f0\<lparr>got_ip_addr := 2, f_ip_addr := a\<rparr>));
        let got_hw_addr = (if hw = None then 0 else 1);
        Some (got_hw_addr + got_ip_addr f + got_ip6_addr f,
              case hw of None \<Rightarrow> replicate 6 0 | Some a \<Rightarrow> take 6 a, f) })"

section \<open>The capture\<close>

datatype init_error = No_Addresses | Open_Failed | Unsupported_Datalink int | Bad_Filter string

text \<open>The resolver threads are started before the interface is opened. \<open>datalink\<close> is \<open>None\<close> if the interface cannot be opened.\<close>

definition packet_init ::
  "ui_lib \<Rightarrow> bool \<Rightarrow> bytes option \<Rightarrow> ip_lookup \<Rightarrow> int option \<Rightarrow> string \<Rightarrow> ui_state
     \<Rightarrow> (init_error + (if_addrs \<times> link_handler \<times> resolver_sys \<times> ui_state)) option" where
  "packet_init lib sock hw ips datalink iface st = do {
     (result, hwaddr, f) \<leftarrow> get_addrs_ioctl sock hw ips iface;
     if result < 0 then Some (Inl No_Addresses)
     else
       let ia = \<lparr>have_hw_addr = result AND 1, if_hw_addr = hwaddr, have_ip_addr = result AND 2,
                 have_ip6_addr = result AND 4, if_ip_addr = f_ip_addr f, if_ip6_addr = f_ip6_addr f\<rparr> in
       case datalink of
         None \<Rightarrow> Some (Inl Open_Failed)
       | Some d \<Rightarrow>
           (case select_handler d of
              None \<Rightarrow> Some (Inl (Unsupported_Datalink d))
            | Some h \<Rightarrow>
                (case set_filter_code lib (filtercode (ui_opts st)) st of
                   (Some err, _) \<Rightarrow> Some (Inl (Bad_Filter err))
                 | (None, st) \<Rightarrow> Some (Inr (ia, h, resolver_boot, st))))
   }"

section \<open>One IPv4 address\<close>

text \<open>The addresses of the interface: IPv4, and IPv6 of global scope. Socket addresses are as large as their family says.\<close>

definition of_family :: "string \<Rightarrow> int \<Rightarrow> ifaddrs \<Rightarrow> bytes option" where
  "of_family iface af ifa =
     (if ifa_name ifa = iface then
        (case ifa_addr ifa of Some sa \<Rightarrow> if sa_family sa = af then Some (sa_mem sa) else None | None \<Rightarrow> None)
      else None)"

definition ip4s :: "string \<Rightarrow> ifaddrs list \<Rightarrow> u32 list" where
  "ip4s iface l = map (\<lambda>m. load_le32 (take 4 (drop 4 m)) 0) (List.map_filter (of_family iface AF_INET) l)"

definition global6 :: "bytes \<Rightarrow> bool" where
  "global6 a \<longleftrightarrow> \<not> IN6_IS_ADDR_LINKLOCAL a \<and> \<not> IN6_IS_ADDR_SITELOCAL a"

definition ip6s :: "string \<Rightarrow> ifaddrs list \<Rightarrow> bytes list" where
  "ip6s iface l = filter global6 (map (\<lambda>m. take 16 (drop 8 m)) (List.map_filter (of_family iface AF_INET6) l))"

definition ifa_ok :: "ifaddrs \<Rightarrow> bool" where
  "ifa_ok ifa \<longleftrightarrow> (case ifa_addr ifa of None \<Rightarrow> True
     | Some sa \<Rightarrow> (sa_family sa = AF_INET \<longrightarrow> 16 \<le> length (sa_mem sa)) \<and> (sa_family sa = AF_INET6 \<longrightarrow> 28 \<le> length (sa_mem sa)))"

lemma scan_ifaddr_cases:
  assumes "ifa_ok ifa"
  shows "scan_ifaddr iface ifa f =
     (case of_family iface AF_INET ifa of
        Some m \<Rightarrow> if got_ip_addr f = 0 then Some (f\<lparr>got_ip_addr := 2, f_ip_addr := load_le32 (take 4 (drop 4 m)) 0\<rparr>)
                  else map_option (\<lambda>a. if global6 a then f\<lparr>got_ip6_addr := 4, f_ip6_addr := a\<rparr> else f) (rd_slice m 8 16)
      | None \<Rightarrow> (case of_family iface AF_INET6 ifa of
          Some m \<Rightarrow> Some (if global6 (take 16 (drop 8 m)) then f\<lparr>got_ip6_addr := 4, f_ip6_addr := take 16 (drop 8 m)\<rparr> else f)
        | None \<Rightarrow> Some f))"
  using assms
  by (auto simp: scan_ifaddr_def of_family_def ifa_ok_def global6_def rd_slice_def net_consts bind_eq_Some_conv
      split: option.splits)

lemma ips_Cons:
  "ip4s iface (ifa # l) = (case of_family iface AF_INET ifa of Some m \<Rightarrow> load_le32 (take 4 (drop 4 m)) 0 # ip4s iface l | None \<Rightarrow> ip4s iface l)"
  "ip6s iface (ifa # l) = (case of_family iface AF_INET6 ifa of
     Some m \<Rightarrow> if global6 (take 16 (drop 8 m)) then take 16 (drop 8 m) # ip6s iface l else ip6s iface l | None \<Rightarrow> ip6s iface l)"
  "ip4s iface [] = []" "ip6s iface [] = []"
  by (simp_all add: ip4s_def ip6s_def List.map_filter_def split: option.split)

lemma one_family: "of_family iface AF_INET ifa = Some m \<Longrightarrow> of_family iface AF_INET6 ifa = None"
  by (auto simp: of_family_def net_consts split: if_splits option.splits)

lemma scan_ifaddrs_one:
  assumes "\<forall>ifa\<in>set l. ifa_ok ifa" "length (ip4s iface l) \<le> (if got_ip_addr f = 0 then 1 else 0)"
  shows "\<exists>f'. scan_ifaddrs iface l f = Some f' \<and>
     (ip4s iface l = [] \<longrightarrow> got_ip_addr f' = got_ip_addr f \<and> f_ip_addr f' = f_ip_addr f) \<and>
     (ip4s iface l \<noteq> [] \<longrightarrow> got_ip_addr f' = 2 \<and> [f_ip_addr f'] = ip4s iface l) \<and>
     (got_ip6_addr f = 0 \<longrightarrow> ip6s iface l \<noteq> [] \<longrightarrow> got_ip6_addr f' = 4 \<and> f_ip6_addr f' \<in> set (ip6s iface l)) \<and>
     (got_ip6_addr f = 4 \<longrightarrow> got_ip6_addr f' = 4) \<and> (ip6s iface l = [] \<longrightarrow> got_ip6_addr f' = got_ip6_addr f) \<and>
     f_ip6_addr f' \<in> insert (f_ip6_addr f) (set (ip6s iface l))"
  using assms
proof (induction l arbitrary: f)
  case (Cons ifa l)
  have ok: "ifa_ok ifa" and ok': "\<forall>ifa\<in>set l. ifa_ok ifa" using Cons.prems(1) by auto
  show ?case
  proof (cases "got_ip_addr f \<noteq> 0 \<and> got_ip6_addr f \<noteq> 0")
    case True
    with Cons.prems(2) show ?thesis by (intro exI [of _ f]) simp
  next
    case False
    note step = scan_ifaddr_cases [OF ok, of iface f]
    show ?thesis
    proof (cases "of_family iface AF_INET ifa")
      case (Some m)
      note n6 = one_family [OF Some]
      have z: "got_ip_addr f = 0" "ip4s iface l = []" using Cons.prems(2) by (auto simp: ips_Cons Some split: if_splits)
      let ?f = "f\<lparr>got_ip_addr := 2, f_ip_addr := load_le32 (take 4 (drop 4 m)) 0\<rparr>"
      from Cons.IH [OF ok', of ?f] z False step show ?thesis by (auto simp: ips_Cons Some n6)
    next
      case None
      have l4: "length (ip4s iface l) \<le> (if got_ip_addr f = 0 then 1 else 0)" using Cons.prems(2) by (simp add: ips_Cons None)
      show ?thesis
      proof (cases "of_family iface AF_INET6 ifa")
        case n6: None
        from Cons.IH [OF ok' l4] False step show ?thesis by (auto simp: ips_Cons None n6)
      next
        case (Some m)
        let ?a = "take 16 (drop 8 m)"
        show ?thesis
        proof (cases "global6 ?a")
          case True
          let ?f = "f\<lparr>got_ip6_addr := 4, f_ip6_addr := ?a\<rparr>"
          have "length (ip4s iface l) \<le> (if got_ip_addr ?f = 0 then 1 else 0)" using l4 by simp
          from Cons.IH [OF ok' this] False step True show ?thesis by (auto simp: ips_Cons None Some)
        next
          case g: False
          from Cons.IH [OF ok' l4] False step g show ?thesis by (auto simp: ips_Cons None Some)
        qed
      qed
    qed
  qed
qed (simp add: ips_Cons)

section \<open>Properties\<close>

text \<open>An interface with at most one IPv4 address is recognised. The bits of the result
  say exactly which of the hardware address, an IPv4 address and a global IPv6 address exist,
  and the addresses stored are the interface's own.\<close>

theorem get_addrs_single:
  assumes "\<forall>ifa\<in>set l. ifa_ok ifa" and "length (ip4s iface l) \<le> 1"
  shows "\<exists>f. get_addrs_ioctl True hw (Getifaddrs (Some l)) iface =
       Some ((if hw = None then 0 else 1) + (if ip4s iface l = [] then 0 else 2) + (if ip6s iface l = [] then 0 else 4),
             case hw of None \<Rightarrow> replicate 6 0 | Some a \<Rightarrow> take 6 a, f) \<and>
     (ip4s iface l \<noteq> [] \<longrightarrow> f_ip_addr f = hd (ip4s iface l)) \<and>
     (ip6s iface l \<noteq> [] \<longrightarrow> f_ip6_addr f \<in> set (ip6s iface l))"
proof -
  let ?f0 = "\<lparr>got_ip_addr = 0, got_ip6_addr = 0, f_ip_addr = 0, f_ip6_addr = replicate 16 0\<rparr>"
  have "length (ip4s iface l) \<le> (if got_ip_addr ?f0 = 0 then 1 else 0)" using assms(2) by simp
  from scan_ifaddrs_one [OF assms(1) this] obtain f where
    f: "scan_ifaddrs iface l ?f0 = Some f"
    "got_ip_addr f = (if ip4s iface l = [] then 0 else 2)" "got_ip6_addr f = (if ip6s iface l = [] then 0 else 4)"
    "ip4s iface l \<noteq> [] \<longrightarrow> [f_ip_addr f] = ip4s iface l" "ip6s iface l \<noteq> [] \<longrightarrow> f_ip6_addr f \<in> set (ip6s iface l)"
    by auto
  have "ip4s iface l \<noteq> [] \<longrightarrow> f_ip_addr f = hd (ip4s iface l)" using f(4) by (metis list.sel(1))
  with f show ?thesis by (intro exI [of _ f]) (simp add: get_addrs_ioctl_def Let_def)
qed

definition sockaddr4 :: "bytes \<Rightarrow> bytes \<Rightarrow> ifaddrs" where
  "sockaddr4 a rest = \<lparr>ifa_name = ''eth0'', ifa_addr = Some \<lparr>sa_family = AF_INET, sa_mem = [2, 0, 0, 0] @ a @ rest\<rparr>\<rparr>"

theorem get_addrs_single_witness:
  "\<exists>f. get_addrs_ioctl True None (Getifaddrs (Some [sockaddr4 [10, 0, 0, 1] (replicate 8 0)])) ''eth0'' =
     Some (2, replicate 6 0, f) \<and> f_ip_addr f = load_le32 [10, 0, 0, 1] 0"
proof -
  have "\<forall>ifa\<in>set [sockaddr4 [10, 0, 0, 1] (replicate 8 0)]. ifa_ok ifa"
    "ip4s ''eth0'' [sockaddr4 [10, 0, 0, 1] (replicate 8 0)] = [load_le32 [10, 0, 0, 1] 0]"
    "ip6s ''eth0'' [sockaddr4 [10, 0, 0, 1] (replicate 8 0)] = []"
    by (simp_all add: ips_Cons of_family_def sockaddr4_def ifa_ok_def net_consts)
  with get_addrs_single [of "[sockaddr4 [10, 0, 0, 1] (replicate 8 0)]" "''eth0''" None] show ?thesis by simp
qed

text \<open>A second IPv4 address is taken for an IPv6 address. When the list has two IPv4
  addresses of the interface in a row, the second is read as if it were an IPv6 socket
  address: beyond its sixteen bytes if it has no more, otherwise whatever lies there becomes
  the interface's IPv6 address (unless it looks link-local), and the real one, later in the
  list, is never looked at.\<close>

theorem second_ipv4_misread:
  assumes "length a = 4" and "length b = 4" and "8 \<le> length tail1"
  shows "get_addrs_ioctl True hw (Getifaddrs (Some (sockaddr4 a tail1 # sockaddr4 b tail2 # l))) ''eth0'' =
     (if length tail2 < 16 then None
      else if global6 (take 16 tail2)
        then Some ((if hw = None then 0 else 1) + 6, case hw of None \<Rightarrow> replicate 6 0 | Some h \<Rightarrow> take 6 h,
               \<lparr>got_ip_addr = 2, got_ip6_addr = 4, f_ip_addr = load_le32 a 0, f_ip6_addr = take 16 tail2\<rparr>)
      else get_addrs_ioctl True hw (Getifaddrs (Some (sockaddr4 a tail1 # l))) ''eth0'')"
proof -
  have g: "\<not> IN6_IS_ADDR_LINKLOCAL x \<and> \<not> IN6_IS_ADDR_SITELOCAL x \<longleftrightarrow> global6 x" for x by (simp add: global6_def)
  have 1: "scan_ifaddr ''eth0'' (sockaddr4 a tail1) \<lparr>got_ip_addr = 0, got_ip6_addr = 0, f_ip_addr = 0, f_ip6_addr = replicate 16 0\<rparr> =
      Some \<lparr>got_ip_addr = 2, got_ip6_addr = 0, f_ip_addr = load_le32 a 0, f_ip6_addr = replicate 16 0\<rparr>"
    using assms(1) by (simp add: scan_ifaddr_def sockaddr4_def rd_slice_def net_consts)
  have 2: "scan_ifaddr ''eth0'' (sockaddr4 b tail2) \<lparr>got_ip_addr = 2, got_ip6_addr = 0, f_ip_addr = load_le32 a 0, f_ip6_addr = replicate 16 0\<rparr> =
      (if length tail2 < 16 then None
       else Some (if global6 (take 16 tail2)
         then \<lparr>got_ip_addr = 2, got_ip6_addr = 4, f_ip_addr = load_le32 a 0, f_ip6_addr = take 16 tail2\<rparr>
         else \<lparr>got_ip_addr = 2, got_ip6_addr = 0, f_ip_addr = load_le32 a 0, f_ip6_addr = replicate 16 0\<rparr>))"
    using assms(2) by (simp add: scan_ifaddr_def sockaddr4_def rd_slice_def net_consts global6_def)
  have 3: "scan_ifaddrs ''eth0'' l \<lparr>got_ip_addr = 2, got_ip6_addr = 4, f_ip_addr = x, f_ip6_addr = y\<rparr> =
      Some \<lparr>got_ip_addr = 2, got_ip6_addr = 4, f_ip_addr = x, f_ip6_addr = y\<rparr>" for x y
    by (cases l) simp_all
  show ?thesis by (simp add: get_addrs_ioctl_def Let_def 1 2 3)
qed

theorem second_ipv4_misread_witness:
  "get_addrs_ioctl True None (Getifaddrs (Some [sockaddr4 [10, 0, 0, 1] (replicate 8 0), sockaddr4 [10, 0, 0, 2] (replicate 8 0)])) ''eth0'' = None"
  using second_ipv4_misread [of "[10, 0, 0, 1]" "[10, 0, 0, 2]" "replicate 8 0" None "replicate 8 0" "[]"] by simp

text \<open>Once the capture is initialised, the filter of the options is installed.\<close>

lemma packet_init_filter:
  assumes "packet_init lib sock hw ips datalink iface st = Some (Inr (ia, h, sys, st'))"
  shows "installed st' = Some (filter_expression (filtercode (ui_opts st'))) \<and> ui_opts st' = ui_opts st \<and>
     (\<exists>d. datalink = Some d \<and> select_handler d = Some h)"
  using assms
  by (auto simp: packet_init_def set_filter_code_def Let_def bind_eq_Some_conv split: if_splits option.splits prod.splits)

end
