(* ===== verification/Display.thy ===== *)
theory Display
  imports Serv_Hash Accounting Screen_Line "HOL-Library.Sublist"
begin

text \<open>
  What \<open>ui_print\<close> of \<open>src/ui/ui.c\<close> puts where: the choice of unit and precision for a rate,
  the scale of the bars, the text of a host and its port, and the rows of the lines. The calls
  to the terminal library are not modelled. Rates, \<open>float\<close> in the code, are rationals; for
  a factor of 1024 all products and quotients by powers of two are exact in \<open>float\<close> as well.
\<close>

section \<open>Sizes\<close>

definition UNIT_DIVISIONS :: nat where "UNIT_DIVISIONS = 4"

definition unit_bits :: "string list" where "unit_bits = [''b'', ''kb'', ''Mb'', ''Gb'']"

definition unit_bytes :: "string list" where "unit_bytes = [''B'', ''kB'', ''MB'', ''GB'']"

text \<open>What is printed: digits after the point, the number, and the index of the unit.\<close>

function readable_loop :: "rat \<Rightarrow> rat \<Rightarrow> nat \<Rightarrow> rat \<Rightarrow> nat \<times> rat \<times> nat" where
  "readable_loop bandwidth ksize i sz =
     (if bandwidth < sz * 1000 \<or> i \<ge> UNIT_DIVISIONS - 1 then (0, bandwidth / sz, i)
      else let i = i + 1; sz = sz * ksize in
        if bandwidth < sz * 10 then (2, bandwidth / sz, i)
        else if bandwidth < sz * 100 then (1, bandwidth / sz, i)
        else readable_loop bandwidth ksize i sz)"
  by pat_completeness auto
termination by (relation "measure (\<lambda>(_, _, i, _). UNIT_DIVISIONS - i)") (auto simp: UNIT_DIVISIONS_def)

declare readable_loop.simps [simp del]

definition readable_size :: "rat \<Rightarrow> rat \<Rightarrow> int \<Rightarrow> (nat \<times> rat \<times> string) option" where
  "readable_size bandwidth ksize bytes = do {
     let bandwidth = (if bytes = 0 then bandwidth * 8 else bandwidth);
     let (prec, v, i) = readable_loop bandwidth ksize 0 1;
     u \<leftarrow> rd (if bytes \<noteq> 0 then unit_bytes else unit_bits) i;
     Some (prec, v, u)
   }"

section \<open>Bar scale\<close>

definition scale :: "int list" where
  "scale = [64000, 128000, 256000, 1000000, 10000000, 100000000, 1000000000]"

record bar_state =
  rateidx :: int
  wantbiggerrate :: int
  rateidx_init :: int

definition get_max_bandwidth :: "int \<Rightarrow> bar_state \<Rightarrow> int option" where
  "get_max_bandwidth max_bw b = (if max_bw > 0 then Some max_bw else rdi scale (rateidx b))"

text \<open>\<open>while (rate > scale[rateidx_init++].max) {}\<close>\<close>

function scale_search :: "int \<Rightarrow> int \<Rightarrow> int option" where
  "scale_search rate idx = do {
     m \<leftarrow> rdi scale idx;
     if rate > m then scale_search rate (idx + 1) else Some (idx + 1)
   }"
  by pat_completeness auto
termination by (relation "measure (\<lambda>(_, idx). nat (7 - idx))") (auto simp: rdi_def scale_def split: if_splits)

declare scale_search.simps [simp del]

text \<open>The part of \<open>get_bar_length_eighths\<close> that changes the scale, and the maximum it then divides by.\<close>

definition bar_rescale :: "int \<Rightarrow> int \<Rightarrow> bar_state \<Rightarrow> (int \<times> bar_state) option" where
  "bar_rescale max_bw rate b =
     (if rate \<le> 0 then Some (0, b)
      else do {
        m \<leftarrow> rdi scale (rateidx b);
        b \<leftarrow> (if rate > m then
                (if rateidx_init b = 0 then do {
                   i \<leftarrow> scale_search rate (rateidx_init b);
                   Some (b\<lparr>wantbiggerrate := 1, rateidx_init := i, rateidx := i\<rparr>) }
                 else Some (b\<lparr>wantbiggerrate := 1\<rparr>))
              else Some b);
        mx \<leftarrow> get_max_bandwidth max_bw b;
        Some (mx, b) })"

text \<open>The end of \<open>ui_print\<close>.\<close>

definition bar_autoscale :: "int \<Rightarrow> bar_state \<Rightarrow> bar_state" where
  "bar_autoscale max_bw b =
     (if wantbiggerrate b \<noteq> 0 \<and> max_bw = 0 then b\<lparr>rateidx := rateidx b + 1, wantbiggerrate := 0\<rparr> else b)"

section \<open>Hosts\<close>

definition pad_to :: "nat \<Rightarrow> string \<Rightarrow> string" where
  "pad_to n s = take n (s @ replicate (n - length s) (CHR '' ''))"

record names_env =
  n_ntop :: "int \<Rightarrow> bytes \<Rightarrow> string"
  n_opts :: options_t
  n_services :: serv_table

text \<open>The host name array; \<^term>\<open>None\<close> if nothing was written to it.\<close>

definition host_name :: "names_env \<Rightarrow> resolver_state \<Rightarrow> int \<Rightarrow> bytes \<Rightarrow> int \<Rightarrow> (string option \<times> resolver_state) option" where
  "host_name env r af address maxlen =
     (if list_all (\<lambda>b. b = 0) address then Some (Some '' * '', r)
      else if dnsresolution (n_opts env) \<noteq> 0 then do {
        (out, _, r) \<leftarrow> resolve (n_ntop env) (dnsresolution (n_opts env)) (ns_malloc (ns_hash r)) r af address (Some maxlen);
        Some (out, r) }
      else Some (if af = AF_INET \<or> af = AF_INET6 then Some (n_ntop env af address) else None, r))"

definition service_name :: "names_env \<Rightarrow> int \<Rightarrow> int \<Rightarrow> string option" where
  "service_name env prt proto =
     (if prt \<noteq> 0 then do {
        s_name \<leftarrow> (if portresolution (n_opts env) \<noteq> 0 then serv_table_lookup (n_services env) prt proto else Some None);
        Some (take (HOSTNAME_LENGTH - 1) ('':'' @ (case s_name of Some s \<Rightarrow> s | None \<Rightarrow> print_int prt))) }
      else Some [])"

text \<open>The text goes to an array of \<open>HOSTNAME_LENGTH\<close> bytes.\<close>

definition sprint_host ::
  "names_env \<Rightarrow> resolver_state \<Rightarrow> int \<Rightarrow> bytes \<Rightarrow> int \<Rightarrow> int \<Rightarrow> int \<Rightarrow> (string \<times> resolver_state) option" where
  "sprint_host env r af address prt proto maxlen = do {
     (h, r) \<leftarrow> host_name env r af address maxlen;
     hostname \<leftarrow> h;
     service \<leftarrow> service_name env prt proto;
     if maxlen + 1 > int HOSTNAME_LENGTH then None
     else do {
       let left = int (length hostname);
       let left = (if left > maxlen - int (length service) then max 0 (maxlen - int (length service)) else left);
       Some (take (nat left) (pad_to (nat maxlen) hostname) @ pad_to (nat (maxlen - left)) service, r) }
   }"

section \<open>Rows\<close>

text \<open>Division of \<open>int\<close>s, towards zero.\<close>

definition tdiv :: "int \<Rightarrow> int \<Rightarrow> int" where
  "tdiv a b = (if a \<ge> 0 then a div b else - ((- a) div b))"

definition host_width :: "options_t \<Rightarrow> int \<Rightarrow> int" where
  "host_width op cols =
     (let L = tdiv (cols - 8 * int HISTORY_DIVISIONS - 4) 2;
          L = (if show_totals op \<noteq> 0 then L - 4 else L);
          L = (if show_processes op \<noteq> 0 then L - 8 else L);
          L = (if L > int HOSTNAME_LENGTH then int HOSTNAME_LENGTH else L)
      in if L < 1 then 1 else L)"

record row =
  row_y :: int
  row_host1 :: string
  row_host2 :: string
  row_line :: host_pair_line

definition row_step :: "options_t \<Rightarrow> int" where
  "row_step op = (if linedisplay op = OPTION_LINEDISPLAY_TWO_LINE then 2 else 1)"

text \<open>The loop over the sorted lines; \<open>matches\<close> is the screen filter.\<close>

fun ui_rows ::
  "names_env \<Rightarrow> (string \<Rightarrow> bool) \<Rightarrow> int \<Rightarrow> int \<Rightarrow> int \<Rightarrow> resolver_state \<Rightarrow> host_pair_line list
     \<Rightarrow> (row list \<times> resolver_state) option" where
  "ui_rows env matches nlines L y r [] = Some ([], r)"
| "ui_rows env matches nlines L y r (l # ls) =
     (if y < nlines - 5 then do {
        let ap = line_ap l;
        (host1, r) \<leftarrow> sprint_host env r (address_family ap) (src6 ap) (uint (src_port ap)) (uint (addr_pair.protocol ap)) L;
        (host2, r) \<leftarrow> sprint_host env r (address_family ap) (dst6 ap) (uint (dst_port ap)) (uint (addr_pair.protocol ap)) L;
        if \<not> matches host1 \<and> \<not> matches host2 then ui_rows env matches nlines L y r ls
        else do {
          (rows, r) \<leftarrow> ui_rows env matches nlines L (y + row_step (n_opts env)) r ls;
          Some (\<lparr>row_y = y, row_host1 = host1, row_host2 = host2, row_line = l\<rparr> # rows, r) } }
      else Some ([], r))"

definition ui_print_lines ::
  "names_env \<Rightarrow> (string \<Rightarrow> bool) \<Rightarrow> int \<Rightarrow> int \<Rightarrow> int \<Rightarrow> resolver_state \<Rightarrow> host_pair_line list
     \<Rightarrow> (row list \<times> resolver_state) option" where
  "ui_print_lines env matches nlines cols y r ls =
     (if showhelp (n_opts env) \<noteq> 0 then Some ([], r)
      else ui_rows env matches nlines (host_width (n_opts env) cols) y r (drop (nat (screen_offset (n_opts env))) ls))"

section \<open>Sizes are readable\<close>

lemma scaled_bounds:
  fixes b k sz :: rat
  assumes "1000 \<le> k" "0 < sz" "sz * 1000 \<le> b"
  shows "1000 / k \<le> b / (sz * k)"
  using assms by (simp add: field_simps)

lemma readable_loop_ok:
  assumes "1000 \<le> ksize" "0 \<le> b" "i \<le> 3" "sz = ksize ^ i" "i = 0 \<or> sz * 100 \<le> b"
    and "readable_loop b ksize i sz = (p, v, j)"
  shows "j \<le> 3 \<and> v * ksize ^ j = b \<and> 0 \<le> v \<and>
     (p = 0 \<and> (v < 1000 \<or> j = 3) \<or> p = 1 \<and> 10 \<le> v \<and> v < 100 \<or> p = 2 \<and> v < 10) \<and> (0 < j \<longrightarrow> 1000 / ksize \<le> v)"
  using assms
proof (induction b ksize i sz rule: readable_loop.induct)
  case (1 b ksize i sz)
  note prems = "1.prems"
  have sz: "0 < sz" using prems(1,4) by simp
  show ?case
  proof (cases "b < sz * 1000 \<or> i \<ge> UNIT_DIVISIONS - 1")
    case True
    with prems(6) have e: "p = 0" "v = b / sz" "j = i" by (simp_all add: readable_loop.simps [of b ksize i sz])
    have "1000 / ksize \<le> v" if "0 < i"
    proof -
      have "1000 / ksize \<le> 1" using prems(1) by simp
      also have "1 \<le> v" using prems(5) that sz by (simp add: e(2) field_simps)
      finally show ?thesis .
    qed
    moreover have "v < 1000 \<or> i = 3" using True prems(3) sz by (auto simp: e(2) field_simps UNIT_DIVISIONS_def)
    moreover have "v * ksize ^ i = b" using prems(1,4) by (simp add: e(2))
    ultimately show ?thesis using prems(2,3) sz e by (auto simp: e(2))
  next
    case False
    let ?sz = "sz * ksize"
    have i: "Suc i \<le> 3" and big: "sz * 1000 \<le> b" using False by (auto simp: UNIT_DIVISIONS_def)
    have sz': "0 < ?sz" "?sz = ksize ^ Suc i" using sz prems(1,4) by simp_all
    note low = scaled_bounds [OF prems(1) sz big]
    show ?thesis
    proof (cases "b < ?sz * 100")
      case True
      with prems(6) False have e: "v = b / ?sz" "j = Suc i" "p = (if b < ?sz * 10 then 2 else 1)"
        by (auto simp: readable_loop.simps [of b ksize i sz] Let_def split: if_splits)
      have "ksize ^ j = ?sz" by (simp only: e(2) sz'(2))
      moreover have "?sz \<noteq> 0" using sz'(1) by (metis less_irrefl)
      ultimately have "v * ksize ^ j = b" unfolding e(1) by (metis nonzero_eq_divide_eq)
      moreover have "p = 1 \<and> 10 \<le> v \<and> v < 100 \<or> p = 2 \<and> v < 10"
        using True sz'(1) by (auto simp: e(1,3) field_simps)
      ultimately show ?thesis using i low prems(2) sz'(1) e(1,2) by auto
    next
      case large: False
      then have "\<not> b < ?sz * 10" using sz'(1) by linarith
      with prems(6) False large have r: "readable_loop b ksize (i + 1) ?sz = (p, v, j)"
        by (simp add: readable_loop.simps [of b ksize i sz] Let_def)
      have h: "i + 1 \<le> 3" "?sz = ksize ^ (i + 1)" "i + 1 = 0 \<or> ?sz * 100 \<le> b" using i sz'(2) large by simp_all
      show ?thesis by (rule "1.IH" [OF False refl refl \<open>\<not> b < ?sz * 10\<close> large prems(1,2) h r])
    qed
  qed
qed

section \<open>The scale of the bars\<close>

lemma scale_search_eq:
  "scale_search r 0 = (if r \<le> 64000 then Some 1 else if r \<le> 128000 then Some 2 else if r \<le> 256000 then Some 3
     else if r \<le> 1000000 then Some 4 else if r \<le> 10000000 then Some 5 else if r \<le> 100000000 then Some 6
     else if r \<le> 1000000000 then Some 7 else None)"
proof -
  have 7: "scale_search r 7 = None" by (subst scale_search.simps) (simp add: rdi_def scale_def)
  have 6: "scale_search r 6 = (if r \<le> 1000000000 then Some 7 else None)"
    using 7 by (subst scale_search.simps) (simp add: rdi_def scale_def)
  have 5: "scale_search r 5 = (if r \<le> 100000000 then Some 6 else scale_search r 6)"
    by (subst scale_search.simps) (simp add: rdi_def scale_def)
  have 4: "scale_search r 4 = (if r \<le> 10000000 then Some 5 else scale_search r 5)"
    by (subst scale_search.simps) (simp add: rdi_def scale_def)
  have 3: "scale_search r 3 = (if r \<le> 1000000 then Some 4 else scale_search r 4)"
    by (subst scale_search.simps) (simp add: rdi_def scale_def)
  have 2: "scale_search r 2 = (if r \<le> 256000 then Some 3 else scale_search r 3)"
    by (subst scale_search.simps) (simp add: rdi_def scale_def)
  have 1: "scale_search r 1 = (if r \<le> 128000 then Some 2 else scale_search r 2)"
    by (subst scale_search.simps) (simp add: rdi_def scale_def)
  have "scale_search r 0 = (if r \<le> 64000 then Some 1 else scale_search r 1)"
    by (subst scale_search.simps) (simp add: rdi_def scale_def)
  then show ?thesis by (simp add: 1 2 3 4 5 6)
qed

definition bar_start :: bar_state where
  "bar_start = \<lparr>rateidx = 0, wantbiggerrate = 0, rateidx_init = 0\<rparr>"

section \<open>Hosts fit\<close>

definition host_ready :: "names_env \<Rightarrow> int \<Rightarrow> bytes \<Rightarrow> int \<Rightarrow> bool" where
  "host_ready env af address maxlen \<longleftrightarrow> list_all (\<lambda>b. b = 0) address \<or> dnsresolution (n_opts env) = 1 \<and> 1 < maxlen \<or>
     dnsresolution (n_opts env) = 0 \<and> (af = AF_INET \<or> af = AF_INET6)"

lemma host_name_ok:
  assumes inv: "rs_inv r" and len: "length address = 16" and ready: "host_ready env af address maxlen"
  shows "\<exists>host r'. host_name env r af address maxlen = Some (Some host, r') \<and> rs_inv r'"
proof (cases "list_all (\<lambda>b. b = 0) address \<or> dnsresolution (n_opts env) = 0")
  case True
  with inv ready show ?thesis by (auto simp: host_name_def host_ready_def)
next
  case False
  with ready have d: "dnsresolution (n_opts env) = 1" "1 < maxlen" by (auto simp: host_ready_def)
  obtain k where k: "make_raddr af address = Some k" "ns_key_ok k" using make_raddr_ok [OF len] by blast
  show ?thesis
  proof (cases "cached r k")
    case (Some name)
    from resolve_hit [OF inv k Some] False d inv show ?thesis by (auto simp: host_name_def)
  next
    case None
    from resolve_miss [OF inv k None ns_malloc_fresh, of "n_ntop env" "Some maxlen"] False d show ?thesis
      by (auto simp: host_name_def)
  qed
qed

lemma service_name_ok: "serv_inv (n_services env) \<Longrightarrow> \<exists>svc. service_name env prt proto = Some svc"
  by (simp add: service_name_def serv_table_lookup_ok)

lemma length_pad_to [simp]: "length (pad_to n s) = n"
  by (simp add: pad_to_def)

text \<open>Name and service side by side in \<open>n\<close> columns: the service is never cut before the name is.\<close>

definition label :: "nat \<Rightarrow> string \<Rightarrow> string \<Rightarrow> string" where
  "label n host svc =
     (if length svc \<ge> n then take n svc
      else take (n - length svc) host @ svc @ replicate (n - length svc - length host) (CHR '' ''))"

lemma label_eq:
  fixes n :: nat and host svc :: string
  defines "left \<equiv> (if int (length host) > int n - int (length svc) then max 0 (int n - int (length svc)) else int (length host))"
  shows "take (nat left) (pad_to n host) @ pad_to (nat (int n - left)) svc = label n host svc"
proof (cases "n < length svc")
  case True
  then have "left = 0" by (auto simp: left_def)
  with True show ?thesis by (simp add: label_def pad_to_def)
next
  case False
  show ?thesis
  proof (cases "length host > n - length svc")
    case True
    with False have l: "nat left = n - length svc" "nat (int n - left) = length svc" by (auto simp: left_def)
    have "n - length svc - length host = 0" using True by simp
    with True False show ?thesis unfolding l by (auto simp: label_def pad_to_def take_append)
  next
    case host: False
    with False have l: "nat left = length host" "nat (int n - left) = n - length host" by (auto simp: left_def)
    have fits: "length host + length svc \<le> n" using host False by linarith
    show ?thesis
    proof (cases "n = length svc")
      case True
      with fits show ?thesis unfolding l by (simp add: label_def pad_to_def)
    next
      case ne: False
      with fits show ?thesis unfolding l by (auto simp: label_def pad_to_def take_append diff_right_commute)
    qed
  qed
qed

lemma label_length: "length (label n host svc) = n"
proof (cases "length svc \<ge> n")
  case False
  then show ?thesis by (cases "length host \<le> n - length svc") (simp_all add: label_def)
qed (simp add: label_def)

lemma sprint_host_ok:
  assumes inv: "rs_inv r" and serv: "serv_inv (n_services env)" and len: "length address = 16"
    and m: "1 \<le> maxlen" "maxlen \<le> 255" and ready: "host_ready env af address maxlen"
  shows "\<exists>host svc r'. host_name env r af address maxlen = Some (Some host, r') \<and> service_name env prt proto = Some svc \<and>
     sprint_host env r af address prt proto maxlen = Some (label (nat maxlen) host svc, r') \<and> rs_inv r'"
proof -
  obtain host r' where h: "host_name env r af address maxlen = Some (Some host, r')" "rs_inv r'"
    using host_name_ok [OF inv len ready] by blast
  obtain svc where s: "service_name env prt proto = Some svc" using service_name_ok [OF serv] by blast
  have n: "int (nat maxlen) = maxlen" using m by simp
  note l = label_eq [where n = "nat maxlen" and host = host and svc = svc, unfolded n]
  show ?thesis
    using h s m l by (cases "maxlen - int (length svc) < int (length host)") (simp_all add: sprint_host_def HOSTNAME_LENGTH_def Let_def)
qed

section \<open>Rows stay on the screen\<close>

definition line_ready :: "names_env \<Rightarrow> int \<Rightarrow> host_pair_line \<Rightarrow> bool" where
  "line_ready env L l \<longleftrightarrow> addr_pair_ok (line_ap l) \<and>
     host_ready env (address_family (line_ap l)) (src6 (line_ap l)) L \<and> host_ready env (address_family (line_ap l)) (dst6 (line_ap l)) L"

lemma row_step_pos: "0 < row_step op" "row_step op \<le> 2"
  by (simp_all add: row_step_def)

lemma ui_rows_ok:
  assumes "rs_inv r" and serv: "serv_inv (n_services env)" and L: "1 \<le> L" "L \<le> 255" and "\<forall>l\<in>set ls. line_ready env L l"
  shows "\<exists>rows r'. ui_rows env matches nlines L y r ls = Some (rows, r') \<and> rs_inv r' \<and>
     subseq (map row_line rows) ls \<and>
     (\<forall>w\<in>set rows. y \<le> row_y w \<and> row_y w < nlines - 5 \<and> int (length (row_host1 w)) = L \<and> int (length (row_host2 w)) = L \<and>
        (matches (row_host1 w) \<or> matches (row_host2 w))) \<and>
     sorted_wrt (\<lambda>w w'. row_y w + row_step (n_opts env) \<le> row_y w') rows"
  using assms(1,5)
proof (induction ls arbitrary: y r)
  case (Cons l ls)
  have ready: "line_ready env L l" using Cons.prems(2) by simp
  then have len: "length (src6 (line_ap l)) = 16" "length (dst6 (line_ap l)) = 16" by (auto simp: line_ready_def addr_pair_ok_def)
  obtain h1 r1 where 1: "sprint_host env r (address_family (line_ap l)) (src6 (line_ap l)) (uint (src_port (line_ap l)))
      (uint (addr_pair.protocol (line_ap l))) L = Some (h1, r1)" "rs_inv r1" "int (length h1) = L"
    using sprint_host_ok [OF Cons.prems(1) serv len(1) L] ready L(1) label_length by (fastforce simp: line_ready_def)
  obtain h2 r2 where 2: "sprint_host env r1 (address_family (line_ap l)) (dst6 (line_ap l)) (uint (dst_port (line_ap l)))
      (uint (addr_pair.protocol (line_ap l))) L = Some (h2, r2)" "rs_inv r2" "int (length h2) = L"
    using sprint_host_ok [OF 1(2) serv len(2) L] ready L(1) label_length by (fastforce simp: line_ready_def)
  have later: "\<forall>l\<in>set ls. line_ready env L l" using Cons.prems(2) by simp
  show ?case
  proof (cases "y < nlines - 5")
    case y: True
    show ?thesis
    proof (cases "matches h1 \<or> matches h2")
      case False
      obtain rows r' where "ui_rows env matches nlines L y r2 ls = Some (rows, r')" "rs_inv r'" "subseq (map row_line rows) ls"
        "\<forall>w\<in>set rows. y \<le> row_y w \<and> row_y w < nlines - 5 \<and> int (length (row_host1 w)) = L \<and> int (length (row_host2 w)) = L \<and>
          (matches (row_host1 w) \<or> matches (row_host2 w))"
        "sorted_wrt (\<lambda>w w'. row_y w + row_step (n_opts env) \<le> row_y w') rows"
        using Cons.IH [OF 2(2) later, of y] by blast
      with False y 1(1) 2(1) show ?thesis
        by (intro exI [of _ rows] exI [of _ r']) (auto simp: Let_def intro: list_emb_Cons)
    next
      case m: True
      let ?y = "y + row_step (n_opts env)"
      obtain rows r' where i: "ui_rows env matches nlines L ?y r2 ls = Some (rows, r')" "rs_inv r'" "subseq (map row_line rows) ls"
        "\<forall>w\<in>set rows. ?y \<le> row_y w \<and> row_y w < nlines - 5 \<and> int (length (row_host1 w)) = L \<and> int (length (row_host2 w)) = L \<and>
          (matches (row_host1 w) \<or> matches (row_host2 w))"
        "sorted_wrt (\<lambda>w w'. row_y w + row_step (n_opts env) \<le> row_y w') rows"
        using Cons.IH [OF 2(2) later, of ?y] by blast
      let ?w = "\<lparr>row_y = y, row_host1 = h1, row_host2 = h2, row_line = l\<rparr>"
      have "ui_rows env matches nlines L y r (l # ls) = Some (?w # rows, r')" using y m 1(1) 2(1) i(1) by (auto simp: Let_def)
      moreover have "\<forall>w\<in>set rows. y \<le> row_y w" using i(4) row_step_pos(1) [of "n_opts env"] by force
      ultimately show ?thesis using i(2-5) y m 1(3) 2(3) by (intro exI [of _ "?w # rows"] exI [of _ r']) auto
    qed
  next
    case False
    then show ?thesis using Cons.prems(1) by simp
  qed
qed simp

section \<open>Properties\<close>

text \<open>C27: a size is printed in a readable unit. For any rate that is not negative and a
  factor between units of at least 1000, the loop ends, the unit exists, and the number
  printed times the unit is the rate (in bits, unless bytes are asked for). It is printed with
  two digits below ten, with one digit below a hundred and with none otherwise, and except in
  the largest unit it is below a thousand.\<close>

theorem readable_size_correct:
  assumes "0 \<le> bandwidth" and "1000 \<le> ksize"
  shows "\<exists>prec v u i. readable_size bandwidth ksize bytes = Some (prec, v, u) \<and> i < 4 \<and>
     u = (if bytes \<noteq> 0 then unit_bytes else unit_bits) ! i \<and>
     v * ksize ^ i = (if bytes = 0 then bandwidth * 8 else bandwidth) \<and>
     (prec = 0 \<and> (v < 1000 \<or> i = 3) \<or> prec = 1 \<and> 10 \<le> v \<and> v < 100 \<or> prec = 2 \<and> v < 10) \<and>
     (0 < i \<longrightarrow> 1000 / ksize \<le> v)"
proof -
  let ?b = "if bytes = 0 then bandwidth * 8 else bandwidth"
  obtain prec v i where r: "readable_loop ?b ksize 0 1 = (prec, v, i)" by (metis prod_cases3)
  have "0 \<le> ?b" using assms(1) by simp
  note ok = readable_loop_ok [OF assms(2) this _ _ _ r, simplified]
  have i: "i < 4" using ok by linarith
  then have "rd (if bytes \<noteq> 0 then unit_bytes else unit_bits) i = Some ((if bytes \<noteq> 0 then unit_bytes else unit_bits) ! i)"
    by (simp add: rd_def unit_bytes_def unit_bits_def)
  then have "readable_size bandwidth ksize bytes = Some (prec, v, (if bytes \<noteq> 0 then unit_bytes else unit_bits) ! i)"
    using r by (simp add: readable_size_def Let_def)
  with ok i show ?thesis by (intro exI [of _ prec] exI [of _ v] exI [of _ _] exI [of _ i]) auto
qed

theorem readable_size_correct_witness:
  "\<exists>prec v u i. readable_size 1000000 1024 1 = Some (prec, v, u) \<and> i < 4 \<and> u = unit_bytes ! i \<and> v * 1024 ^ i = 1000000"
  using readable_size_correct [of 1000000 1024 1] by auto

text \<open>C37: automatic scaling of the bars leaves its table. On the first rate above 64 kbit/s
  the search for a scale skips one entry, and the repaint that follows skips another; if that
  rate is above 10 Mbit/s, the scale that the next repaint reads lies behind the end of the
  table. Up to 10 Mbit/s all accesses are inside.\<close>

theorem bar_scale_overrun:
  assumes "64000 < rate"
  shows "(case bar_rescale 0 rate bar_start of
            None \<Rightarrow> True
          | Some (mx, b) \<Rightarrow> get_max_bandwidth 0 (bar_autoscale 0 b) = None) \<longleftrightarrow> 10000000 < rate"
  using assms
  by (auto simp: bar_rescale_def bar_start_def scale_search_eq get_max_bandwidth_def bar_autoscale_def rdi_def scale_def)

theorem bar_scale_overrun_witness:
  "(case bar_rescale 0 50000000 bar_start of
      None \<Rightarrow> True | Some (mx, b) \<Rightarrow> get_max_bandwidth 0 (bar_autoscale 0 b) = None)"
  using bar_scale_overrun [of 50000000] by simp

text \<open>The text of a host and its port fills its columns exactly. For a width of 1 to 255
  columns and a name that is known (see \<open>host_ready\<close>), the text has exactly that many
  characters, inside the array it is written to: the service is shown whole if there is room
  for it at all, in front of it as much of the name as fits, and blanks after it.\<close>

theorem sprint_host_fits:
  assumes "rs_inv r" and "serv_inv (n_services env)" and "length address = 16"
    and "1 \<le> maxlen" and "maxlen \<le> 255" and "host_ready env af address maxlen"
  shows "\<exists>host svc r'. host_name env r af address maxlen = Some (Some host, r') \<and> service_name env prt proto = Some svc \<and>
     sprint_host env r af address prt proto maxlen = Some (label (nat maxlen) host svc, r') \<and> rs_inv r' \<and>
     int (length (label (nat maxlen) host svc)) = maxlen"
  using sprint_host_ok [OF assms, of prt proto] assms(4) by (auto simp: label_length)

definition example_names :: names_env where
  "example_names = \<lparr>n_ntop = no_names, n_opts = plain_options, n_services = serv_table_create\<rparr>"

theorem sprint_host_fits_witness:
  "\<exists>r'. sprint_host example_names resolver_initialise 2 (replicate 16 0) 80 6 8 = Some ('' * :80  '', r')"
proof -
  have "rs_inv resolver_initialise" "serv_inv (n_services example_names)"
    "host_ready example_names 2 (replicate 16 0) 8"
    by (simp_all add: resolver_initialise_inv example_names_def serv_table_create_inv host_ready_def list_all_iff)
  from sprint_host_fits [OF this(1,2) _ _ _ this(3), of 80 6] obtain host svc r' where
    h: "host_name example_names resolver_initialise 2 (replicate 16 0) 8 = Some (Some host, r')"
    "service_name example_names 80 6 = Some svc"
    "sprint_host example_names resolver_initialise 2 (replicate 16 0) 80 6 8 = Some (label 8 host svc, r')" by auto
  have "host = '' * ''" using h(1) by (simp add: host_name_def list_all_iff)
  moreover have "service_name example_names 80 6 = Some (take 255 ('':'' @ print_int 80))"
    using serv_table_lookup_ok [OF serv_table_create_inv(1), of 80 6]
    by (simp add: service_name_def example_names_def serv_table_create_inv HOSTNAME_LENGTH_def)
  moreover have "print_int 80 = ''80''" by code_simp
  ultimately show ?thesis using h(2,3) by (auto simp: label_def numeral_2_eq_2)
qed

text \<open>C28: the lines stay in their part of the screen. When every name is known and the
  terminal is between 48 and 555 columns wide (with process names shown and totals hidden, as by default), the
  display shows a subsequence of the sorted lines after the ones scrolled past, in their
  order: every row lies between the scale and the totals, consecutive lines are one row apart
  or two if a line has two rows, both hosts fill the same number of columns, and one of them
  matches the filter.\<close>

theorem ui_print_layout:
  assumes "rs_inv r" and "serv_inv (n_services env)" and "48 \<le> cols" and "cols \<le> 555"
    and "show_totals (n_opts env) = 0" and "show_processes (n_opts env) \<noteq> 0"
    and "\<forall>l\<in>set ls. line_ready env (host_width (n_opts env) cols) l"
  shows "\<exists>rows r'. ui_print_lines env matches nlines cols y r ls = Some (rows, r') \<and> rs_inv r' \<and>
     subseq (map row_line rows) (drop (nat (screen_offset (n_opts env))) ls) \<and>
     (\<forall>w\<in>set rows. y \<le> row_y w \<and> row_y w < nlines - 5 \<and>
        length (row_host1 w) = nat ((cols - 28) div 2 - 8) \<and> length (row_host2 w) = nat ((cols - 28) div 2 - 8) \<and>
        (matches (row_host1 w) \<or> matches (row_host2 w))) \<and>
     sorted_wrt (\<lambda>w w'. row_y w + row_step (n_opts env) \<le> row_y w') rows"
proof (cases "showhelp (n_opts env) = 0")
  case False
  with assms(1) show ?thesis by (intro exI [of _ "[]"] exI [of _ r]) (simp add: ui_print_lines_def)
next
  case True
  have d: "1 \<le> (cols - 28) div 2 - 8" "(cols - 28) div 2 - 8 \<le> 255" using assms(3,4) by auto
  then have L: "host_width (n_opts env) cols = (cols - 28) div 2 - 8"
    using assms(3-6) by (simp add: host_width_def tdiv_def HISTORY_DIVISIONS_def HOSTNAME_LENGTH_def Let_def)
  have "\<forall>l\<in>set (drop (nat (screen_offset (n_opts env))) ls). line_ready env ((cols - 28) div 2 - 8) l"
    using assms(7) by (auto simp: L dest: in_set_dropD)
  with d obtain rows r' where
    "ui_rows env matches nlines ((cols - 28) div 2 - 8) y r (drop (nat (screen_offset (n_opts env))) ls) = Some (rows, r')"
    "rs_inv r'" "subseq (map row_line rows) (drop (nat (screen_offset (n_opts env))) ls)"
    "\<forall>w\<in>set rows. y \<le> row_y w \<and> row_y w < nlines - 5 \<and> int (length (row_host1 w)) = (cols - 28) div 2 - 8 \<and>
       int (length (row_host2 w)) = (cols - 28) div 2 - 8 \<and> (matches (row_host1 w) \<or> matches (row_host2 w))"
    "sorted_wrt (\<lambda>w w'. row_y w + row_step (n_opts env) \<le> row_y w') rows"
    using ui_rows_ok [OF assms(1,2)] by metis
  then show ?thesis using True by (intro exI [of _ rows] exI [of _ r']) (auto simp: ui_print_lines_def L)
qed

theorem ui_print_layout_witness:
  "\<exists>rows r'. ui_print_lines example_names (\<lambda>_. True) 24 80 2 resolver_initialise [line_zero] = Some (rows, r') \<and>
     subseq (map row_line rows) [line_zero] \<and> (\<forall>w\<in>set rows. 2 \<le> row_y w \<and> row_y w < 19 \<and> length (row_host1 w) = 18)"
proof -
  have o: "show_totals (n_opts example_names) = 0" "show_processes (n_opts example_names) \<noteq> 0" "screen_offset (n_opts example_names) = 0"
    by (simp_all add: example_names_def plain_options_def options_set_defaults_def)
  have r: "\<forall>l\<in>set [line_zero]. line_ready example_names (host_width (n_opts example_names) 80) l"
    by (simp add: line_ready_def host_ready_def line_zero_def addr_pair_zero_def addr_pair_ok_def list_all_iff)
  have s: "serv_inv (n_services example_names)" by (simp add: example_names_def serv_table_create_inv)
  from ui_print_layout [OF resolver_initialise_inv(1) s _ _ o(1,2) r, of "\<lambda>_. True" 24 2] show ?thesis by (auto simp: o)
qed

text \<open>Very narrow and very wide terminals break the host names. With name resolution
  and process names on, as by default, a
  terminal of at most 47 columns leaves the host name unset before its length is taken, and
  one of 556 columns or more writes one byte past the end of the array for the text, as soon
  as there is a line to show whose source is a real address.\<close>

theorem ui_print_narrow_wide:
  assumes "rs_inv r" and "length (src6 (line_ap l)) = 16" and "\<not> list_all (\<lambda>b. b = 0) (src6 (line_ap l))"
    and "dnsresolution (n_opts env) = 1" and "show_totals (n_opts env) = 0" and "show_processes (n_opts env) \<noteq> 0"
    and "showhelp (n_opts env) = 0" and "screen_offset (n_opts env) = 0" and "y < nlines - 5" and "cols < 48 \<or> 556 \<le> cols"
  shows "ui_print_lines env matches nlines cols y r (l # ls) = None"
proof -
  let ?L = "host_width (n_opts env) cols"
  obtain k where k: "make_raddr (address_family (line_ap l)) (src6 (line_ap l)) = Some k" "ns_key_ok k"
    using make_raddr_ok [OF assms(2)] by blast
  have "sprint_host env r (address_family (line_ap l)) (src6 (line_ap l)) (uint (src_port (line_ap l)))
      (uint (addr_pair.protocol (line_ap l))) ?L = None"
  proof (cases "cols < 48")
    case True
    then have "(cols - 28) div 2 - 8 \<le> 1" "- ((28 - cols) div 2) - 8 < 1 \<or> 28 \<le> cols" by auto
    then have L: "?L = 1"
      using assms(5,6) by (auto simp: host_width_def tdiv_def HISTORY_DIVISIONS_def HOSTNAME_LENGTH_def Let_def)
    have "\<exists>r'. host_name env r (address_family (line_ap l)) (src6 (line_ap l)) 1 = Some (None, r')"
    proof (cases "cached r k")
      case (Some name)
      from resolve_hit [OF assms(1) k Some] assms(3,4) show ?thesis by (auto simp: host_name_def)
    next
      case None
      from resolve_miss [OF assms(1) k None ns_malloc_fresh, of "n_ntop env" "Some 1"] assms(3,4) show ?thesis
        by (auto simp: host_name_def)
    qed
    then show ?thesis by (auto simp: L sprint_host_def)
  next
    case False
    then have "256 \<le> (cols - 28) div 2 - 8" using assms(10) by simp
    then have "?L = 256"
      using assms(5,6) False by (simp add: host_width_def tdiv_def HISTORY_DIVISIONS_def HOSTNAME_LENGTH_def Let_def)
    then show ?thesis by (auto simp: sprint_host_def HOSTNAME_LENGTH_def bind_eq_None_conv)
  qed
  then show ?thesis using assms(7-9) by (simp add: ui_print_lines_def Let_def)
qed

definition example_line :: host_pair_line where
  "example_line = line_zero\<lparr>line_ap := addr_pair_zero\<lparr>address_family := 2, src6 := replicate 16 1\<rparr>\<rparr>"

theorem ui_print_narrow_wide_witness:
  "ui_print_lines (example_names\<lparr>n_opts := plain_options\<lparr>dnsresolution := 1\<rparr>\<rparr>) (\<lambda>_. True) 24 600 2 resolver_initialise [example_line] = None"
  by (rule ui_print_narrow_wide)
    (simp_all add: resolver_initialise_inv example_line_def list_all_iff plain_options_def options_set_defaults_def)

end
