(* ===== verification/Colors.thy ===== *)
theory Colors
  imports Cstring
begin

text \<open>
  The colour file \<open>~/.iftopcolors\<close>, read by \<open>getColors\<close> of \<open>src/ui/ui.c\<close>: as many entries as
  the file has newlines, each a name, a colour and an attribute separated by white space, or
  a comment. The file is a string. A character array that was never written is \<^term>\<open>None\<close>;
  reading it is undefined behaviour. The tests on the nineteen names are one table, in the
  order of the code; the array a colour word is read into keeps its text between entries.
\<close>

section \<open>Words\<close>

definition tolower :: "char \<Rightarrow> char" where
  "tolower c = (if 65 \<le> char_code c \<and> char_code c \<le> 90 then char_of (char_code c + 32) else c)"

definition convertColorToInt :: "string \<Rightarrow> int" where
  "convertColorToInt color =
     (let color = map tolower color in
      if color = ''green'' then 4
      else if color = ''red'' then 5
      else if color = ''blue'' then 6
      else if color = ''yellow'' then 7
      else if color = ''magenta'' then 8
      else if color = ''cyan'' then 9
      else if color = ''black'' then 10
      else if color = ''white'' then 11
      else - 1)"

definition convertBoldToInt :: "string \<Rightarrow> int" where
  "convertBoldToInt bold =
     (let bold = map tolower bold in
      if bold = ''bold'' then 1 else if bold = ''nonbold'' then 0 else 0)"

text \<open>\<open>fscanf(fp, "%<n>s", buf)\<close>: white space, then up to \<open>n\<close> other characters; \<^term>\<open>None\<close> at the end of the file.\<close>

definition scan_word :: "nat \<Rightarrow> string \<Rightarrow> string option \<times> string" where
  "scan_word n s =
     (let s = skip_ws s; w = take n (takeWhile (\<lambda>c. \<not> isspace c) s) in
      if w = [] then (None, s) else (Some w, drop (length w) s))"

text \<open>\<open>fgets(buf, n, fp)\<close>, of which only the position in the file matters.\<close>

definition fgets_rest :: "nat \<Rightarrow> string \<Rightarrow> string" where
  "fgets_rest n s =
     (let l = takeWhile (\<lambda>c. c \<noteq> CHR 0x0A) s in
      if length l < n - 1 then drop (Suc (length l)) s else drop (n - 1) s)"

section \<open>The table\<close>

text \<open>Names, and the initial text of the array for the colour word.\<close>

definition color_table :: "(string \<times> string) list" where
  "color_table =
     [(''RECEIVE_BAR_COLOR'', ''green''), (''SENT_BAR_COLOR'', ''blue''), (''BOTH_BAR_COLOR'', ''magenta''),
      (''SCALE_BAR_COLOR'', ''magenta''), (''SCALE_MARKERS_COLOR'', ''blue''), (''DL_UL_INDICATOR_COLOR'', ''blue''),
      (''HOST1_COLOR'', ''cyan''), (''HOST2_COLOR'', ''magenta''),
      (''TWO_SECOND_TRANSFER_COLUMN_COLOR'', ''blue''), (''TEN_SECOND_TRANSFER_COLUMN_COLOR'', ''yellow''),
      (''FOURTY_SECOND_TRANSFER_COLUMN_COLOR'', ''yellow''), (''BOTTOM_BAR_COLOR'', ''blue''),
      (''CUM_LABEL_COLOR'', ''yellow''), (''PEAK_LABEL_COLOR'', ''yellow''), (''RATES_LABEL_COLOR'', ''yellow''),
      (''TOTAL_LABEL_COLOR'', ''blue''), (''CUM_TRANSFER_COLUMN_COLOR'', ''yellow''),
      (''PEAK_TRANSFER_COLUMN_COLOR'', ''yellow''), (''PROC_NAME_COLOR'', ''green'')]"

text \<open>The colour and attribute arrays of the program, by name, as they are at start.\<close>

definition default_colors :: "string \<Rightarrow> int \<times> int" where
  "default_colors name =
     (case map_of
        [(''RECEIVE_BAR_COLOR'', (4, 1)), (''SENT_BAR_COLOR'', (6, 1)), (''BOTH_BAR_COLOR'', (5, 1)),
         (''SCALE_BAR_COLOR'', (6, 1)), (''SCALE_MARKERS_COLOR'', (6, 1)), (''DL_UL_INDICATOR_COLOR'', (6, 1)),
         (''HOST1_COLOR'', (9, 1)), (''HOST2_COLOR'', (8, 1)),
         (''TWO_SECOND_TRANSFER_COLUMN_COLOR'', (6, 0)), (''TEN_SECOND_TRANSFER_COLUMN_COLOR'', (9, 1)),
         (''FOURTY_SECOND_TRANSFER_COLUMN_COLOR'', (6, 1)), (''BOTTOM_BAR_COLOR'', (6, 1)),
         (''CUM_LABEL_COLOR'', (7, 0)), (''PEAK_LABEL_COLOR'', (8, 1)), (''RATES_LABEL_COLOR'', (8, 1)),
         (''TOTAL_LABEL_COLOR'', (6, 1)), (''CUM_TRANSFER_COLUMN_COLOR'', (7, 1)),
         (''PEAK_TRANSFER_COLUMN_COLOR'', (7, 1)), (''PROC_NAME_COLOR'', (4, 1))] name of
        Some c \<Rightarrow> c | None \<Rightarrow> (0, 0))"

record color_state =
  color_of :: "string \<Rightarrow> int \<times> int"
  word_of :: "string \<Rightarrow> string"
  in_file :: string

text \<open>One of the nineteen tests: the name matches, so the colour and the attribute follow.\<close>

definition color_entry :: "string \<Rightarrow> string \<Rightarrow> color_state \<Rightarrow> color_state option" where
  "color_entry buffer name st =
     (if name = buffer then do {
        let (w, rest) = scan_word 99 (in_file st);
        let word = (case w of Some w \<Rightarrow> w | None \<Rightarrow> word_of st name);
        let colorInt = convertColorToInt word;
        let old = color_of st name;
        let fg = (if colorInt \<noteq> - 1 then colorInt else fst old);
        let (b, rest) = scan_word 49 rest;
        boldBuffer \<leftarrow> b;
        Some (st\<lparr>word_of := (word_of st)(name := map tolower word),
                 color_of := (color_of st)(name := (fg, convertBoldToInt boldBuffer)), in_file := rest\<rparr>) }
      else Some st)"

fun color_tests :: "string \<Rightarrow> string list \<Rightarrow> color_state \<Rightarrow> color_state option" where
  "color_tests buffer [] st = Some st"
| "color_tests buffer (name # names) st = Option.bind (color_entry buffer name st) (color_tests buffer names)"

definition color_line :: "color_state \<Rightarrow> color_state option" where
  "color_line st = do {
     let (w, rest) = scan_word 254 (in_file st);
     buffer \<leftarrow> w;
     if hd buffer = CHR ''#'' then Some (st\<lparr>in_file := fgets_rest 255 rest\<rparr>)
     else color_tests buffer (map fst color_table) (st\<lparr>in_file := rest\<rparr>)
   }"

fun color_lines :: "nat \<Rightarrow> color_state \<Rightarrow> color_state option" where
  "color_lines 0 st = Some st"
| "color_lines (Suc n) st = Option.bind (color_line st) (color_lines n)"

text \<open>\<open>None\<close> for a home directory or a file that is not there.\<close>

definition getColors :: "string option \<Rightarrow> (string \<Rightarrow> int \<times> int) \<Rightarrow> (string \<Rightarrow> int \<times> int) option" where
  "getColors contents colors =
     (case contents of
        None \<Rightarrow> Some colors
      | Some f \<Rightarrow>
          (let lineCount = length (filter (\<lambda>c. c = CHR 0x0A) f) in
           if lineCount > 0 then do {
             st \<leftarrow> color_lines lineCount
                     \<lparr>color_of = colors, word_of = (\<lambda>name. case map_of color_table name of Some w \<Rightarrow> w | None \<Rightarrow> []), in_file = f\<rparr>;
             Some (color_of st) }
           else Some colors))"

text \<open>
  \<open>ui_curses_init\<close>: the colour pairs the terminal gets (number and foreground in the numbering of the
  library), and the colours, only if the terminal has any.
\<close>

definition init_pairs :: "(int \<times> int) list" where
  "init_pairs = [(5, 1), (6, 4), (4, 2), (7, 3), (8, 5), (9, 6), (11, 7), (10, 0)]"

definition ui_curses_init ::
  "bool \<Rightarrow> string option \<Rightarrow> (string \<Rightarrow> int \<times> int) \<Rightarrow> ((int \<times> int) list \<times> (string \<Rightarrow> int \<times> int)) option" where
  "ui_curses_init has_colors contents colors =
     (if has_colors then do { colors \<leftarrow> getColors contents colors; Some (init_pairs, colors) } else Some ([], colors))"

section \<open>Words and entries\<close>

definition is_word :: "nat \<Rightarrow> string \<Rightarrow> bool" where
  "is_word n w \<longleftrightarrow> w \<noteq> [] \<and> length w \<le> n \<and> (\<forall>c\<in>set w. \<not> isspace c)"

lemma scan_word_ok:
  assumes "is_word n w" "\<forall>c\<in>set ws. isspace c" "isspace d"
  shows "scan_word n (ws @ w @ d # rest) = (Some w, d # rest)"
proof -
  have "dropWhile isspace (ws @ w @ d # rest) = w @ d # rest"
    using assms by (cases w) (auto simp: is_word_def dropWhile_append)
  moreover have "takeWhile (\<lambda>c. \<not> isspace c) (w @ d # rest) = w" using assms(1,3) by (auto simp: is_word_def)
  ultimately show ?thesis
    using assms(1) unfolding scan_word_def skip_ws_def is_word_def Let_def by auto
qed

lemma scan_word_blank:
  assumes "\<forall>c\<in>set ws. isspace c"
  shows "scan_word n ws = (None, [])"
proof -
  have "dropWhile isspace ws = []" using assms by simp
  then show ?thesis by (simp only: scan_word_def skip_ws_def Let_def) simp
qed

text \<open>An entry: name, colour word and attribute.\<close>

type_synonym color_setting = "string \<times> string \<times> bool"

definition print_entry :: "color_setting \<Rightarrow> string" where
  "print_entry e =
     (let (name, color, bold) = e in
      name @ '' '' @ color @ '' '' @ (if bold then ''bold'' else ''nonbold'') @ [CHR 0x0A])"

definition entry_ok :: "color_setting \<Rightarrow> bool" where
  "entry_ok e \<longleftrightarrow> fst e \<in> set (map fst color_table) \<and> is_word 99 (fst (snd e))"

definition apply_entry :: "color_setting \<Rightarrow> (string \<Rightarrow> int \<times> int) \<Rightarrow> string \<Rightarrow> int \<times> int" where
  "apply_entry e colors =
     (let (name, color, bold) = e; c = convertColorToInt color in
      colors(name := (if c \<noteq> - 1 then c else fst (colors name), if bold then 1 else 0)))"

lemma table_names:
  "\<forall>name\<in>set (map fst color_table). is_word 254 name \<and> hd name \<noteq> CHR ''#''" "distinct (map fst color_table)"
  by code_simp+

lemma bold_words: "is_word 49 ''bold''" "is_word 49 ''nonbold''" "convertBoldToInt ''bold'' = 1" "convertBoldToInt ''nonbold'' = 0"
  by code_simp+

lemma spaces: "isspace (CHR '' '')" "isspace (CHR 0x0A)"
  by code_simp+

lemma color_tests_other: "buffer \<notin> set names \<Longrightarrow> color_tests buffer names st = Some st"
  by (induction names) (auto simp: color_entry_def)

lemma color_tests_hit:
  assumes "buffer \<in> set names" "distinct names"
  shows "color_tests buffer names st = color_entry buffer buffer st"
  using assms
proof (induction names)
  case (Cons name names)
  show ?case
  proof (cases "name = buffer")
    case True
    with Cons.prems have "color_tests buffer names = Some" by (intro ext color_tests_other) auto
    with True show ?thesis by simp
  next
    case False
    with Cons show ?thesis by (simp add: color_entry_def)
  qed
qed simp

lemma color_line_entry:
  assumes ok: "entry_ok e" and ws: "\<forall>c\<in>set ws. isspace c" and inf: "in_file st = ws @ print_entry e @ rest"
  obtains st' where "color_line st = Some st'" "color_of st' = apply_entry e (color_of st)" "in_file st' = CHR 0x0A # rest"
proof -
  obtain name color bold where e: "e = (name, color, bold)" by (cases e) auto
  let ?b = "if bold then ''bold'' else ''nonbold''"
  have n: "name \<in> set (map fst color_table)" and c: "is_word 99 color" using ok by (auto simp: entry_ok_def e)
  have w: "is_word 254 name" "hd name \<noteq> CHR ''#''" using table_names(1) n by auto
  have 1: "scan_word 254 (in_file st) = (Some name, CHR '' '' # color @ CHR '' '' # ?b @ CHR 0x0A # rest)"
    using scan_word_ok [OF w(1) ws spaces(1)] by (simp add: inf e print_entry_def)
  have 2: "scan_word 99 (CHR '' '' # color @ CHR '' '' # ?b @ CHR 0x0A # rest) = (Some color, CHR '' '' # ?b @ CHR 0x0A # rest)"
    using scan_word_ok [OF c _ spaces(1), of "'' ''"] spaces(1) by simp
  have 3: "scan_word 49 (CHR '' '' # ?b @ CHR 0x0A # rest) = (Some ?b, CHR 0x0A # rest)"
    using scan_word_ok [OF _ _ spaces(2), of 49 ?b "'' ''"] bold_words spaces(1) by simp
  have "color_line st = color_entry name name (st\<lparr>in_file := CHR '' '' # color @ CHR '' '' # ?b @ CHR 0x0A # rest\<rparr>)"
    using w(2) color_tests_hit [OF n table_names(2)] by (simp add: color_line_def 1)
  then show thesis
    by (intro that) (auto simp: color_entry_def 2 3 apply_entry_def e bold_words Let_def)
qed

lemma color_lines_entries:
  assumes "\<forall>e\<in>set es. entry_ok e" "\<forall>c\<in>set ws. isspace c" "in_file st = ws @ concat (map print_entry es) @ rest"
  shows "\<exists>st' ws'. color_lines (length es + n) st = color_lines n st' \<and> color_of st' = fold apply_entry es (color_of st) \<and>
     in_file st' = ws' @ rest \<and> (\<forall>c\<in>set ws'. isspace c)"
  using assms
proof (induction es arbitrary: st ws)
  case Nil
  then show ?case by (intro exI [of _ st] exI [of _ ws]) simp
next
  case (Cons e es)
  have i: "in_file st = ws @ print_entry e @ (concat (map print_entry es) @ rest)" using Cons.prems(3) by simp
  obtain st1 where s: "color_line st = Some st1" "color_of st1 = apply_entry e (color_of st)"
    "in_file st1 = CHR 0x0A # concat (map print_entry es) @ rest"
    using color_line_entry [OF _ Cons.prems(2) i] Cons.prems(1) by auto
  have "in_file st1 = [CHR 0x0A] @ concat (map print_entry es) @ rest" using s(3) by simp
  from Cons.IH [OF _ _ this] Cons.prems(1) spaces(2) s(1,2) show ?case by auto
qed

lemma newlines_entry: "entry_ok e \<Longrightarrow> length (filter (\<lambda>c. c = CHR 0x0A) (print_entry e)) = 1"
proof -
  assume ok: "entry_ok e"
  obtain name color bold where e: "e = (name, color, bold)" by (cases e) auto
  have none: "filter (\<lambda>c. c = CHR 0x0A) w = []" if "\<forall>c\<in>set w. \<not> isspace c" for w
    using that spaces(2) by (auto simp: filter_empty_conv)
  have "\<forall>c\<in>set name. \<not> isspace c" "\<forall>c\<in>set color. \<not> isspace c"
    using ok table_names(1) by (auto simp: entry_ok_def e is_word_def)
  then show ?thesis by (simp add: e print_entry_def none)
qed

lemma newlines_file:
  "\<forall>e\<in>set es. entry_ok e \<Longrightarrow> length (filter (\<lambda>c. c = CHR 0x0A) (concat (map print_entry es))) = length es"
  by (induction es) (simp_all add: newlines_entry)

section \<open>Range\<close>

definition color_ok :: "int \<times> int \<Rightarrow> bool" where
  "color_ok c \<longleftrightarrow> 4 \<le> fst c \<and> fst c \<le> 11 \<and> (snd c = 0 \<or> snd c = 1)"

definition colors_ok :: "(string \<Rightarrow> int \<times> int) \<Rightarrow> bool" where
  "colors_ok colors \<longleftrightarrow> (\<forall>name\<in>set (map fst color_table). color_ok (colors name))"

lemma convert_range: "convertColorToInt w \<noteq> - 1 \<Longrightarrow> 4 \<le> convertColorToInt w \<and> convertColorToInt w \<le> 11"
  by (simp add: convertColorToInt_def Let_def split: if_splits)

lemma color_entry_ok: "color_entry buffer name st = Some st' \<Longrightarrow> colors_ok (color_of st) \<Longrightarrow> colors_ok (color_of st')"
  using convert_range
  by (auto simp: color_entry_def colors_ok_def color_ok_def convertBoldToInt_def Let_def bind_eq_Some_conv
      split: if_splits prod.splits option.splits)

lemma color_tests_ok: "color_tests buffer names st = Some st' \<Longrightarrow> colors_ok (color_of st) \<Longrightarrow> colors_ok (color_of st')"
  by (induction names arbitrary: st) (auto simp: bind_eq_Some_conv dest: color_entry_ok)

lemma color_line_ok: "color_line st = Some st' \<Longrightarrow> colors_ok (color_of st) \<Longrightarrow> colors_ok (color_of st')"
  by (auto simp: color_line_def bind_eq_Some_conv split: prod.splits if_splits dest: color_tests_ok)

lemma color_lines_ok: "color_lines n st = Some st' \<Longrightarrow> colors_ok (color_of st) \<Longrightarrow> colors_ok (color_of st')"
  by (induction n arbitrary: st) (auto simp: bind_eq_Some_conv dest: color_line_ok)

section \<open>Properties\<close>

text \<open>Whatever the colour file contains, if reading it returns, every colour is one of
  the eight pairs that were initialised and every attribute is zero or one; the built-in
  colours are such.\<close>

theorem colors_in_range:
  assumes "colors_ok colors" and "getColors contents colors = Some colors'"
  shows "colors_ok colors' \<and> colors_ok default_colors"
proof
  show "colors_ok colors'"
    using assms by (auto simp: getColors_def bind_eq_Some_conv Let_def split: option.splits if_splits dest!: color_lines_ok)
  show "colors_ok default_colors" unfolding colors_ok_def by code_simp
qed

theorem colors_in_range_witness:
  "\<exists>colors'. getColors (Some (''HOST1_COLOR Red bold'' @ [CHR 0x0A])) default_colors = Some colors' \<and>
     colors_ok colors' \<and> colors' ''HOST1_COLOR'' = (5, 1)"
proof -
  have ok: "colors_ok default_colors" unfolding colors_ok_def by code_simp
  have e: "map_option (\<lambda>c. c ''HOST1_COLOR'') (getColors (Some (''HOST1_COLOR Red bold'' @ [CHR 0x0A])) default_colors) = Some (5, 1)"
    by code_simp
  then obtain colors' where c: "getColors (Some (''HOST1_COLOR Red bold'' @ [CHR 0x0A])) default_colors = Some colors'"
    "colors' ''HOST1_COLOR'' = (5, 1)" by auto
  from colors_in_range [OF ok c(1)] c show ?thesis by blast
qed

text \<open>C29: what is written is what is read. A file of entries, one per line, each a known
  name, a colour word of at most ninety-nine characters and an attribute, sets exactly those
  colours in that order; an unknown colour word leaves the colour and sets the attribute. The
  same file followed by one blank line is read into an array that was never written.\<close>

theorem color_file_roundtrip:
  assumes "\<forall>e\<in>set es. entry_ok e"
  shows "getColors (Some (concat (map print_entry es))) colors = Some (fold apply_entry es colors) \<and>
     getColors (Some (concat (map print_entry es) @ [CHR 0x0A])) colors = None"
proof -
  let ?st = "\<lambda>f. \<lparr>color_of = colors, word_of = (\<lambda>name. case map_of color_table name of Some w \<Rightarrow> w | None \<Rightarrow> []), in_file = f\<rparr>"
  obtain st' where 1: "color_lines (length es) (?st (concat (map print_entry es))) = Some st'"
    "color_of st' = fold apply_entry es colors"
    using color_lines_entries [OF assms, of "[]" "?st (concat (map print_entry es))" "[]" 0] by auto
  obtain st2 ws where 2: "color_lines (length es + 1) (?st (concat (map print_entry es) @ [CHR 0x0A])) = color_lines 1 st2"
    "in_file st2 = ws @ [CHR 0x0A]" "\<forall>c\<in>set ws. isspace c"
    using color_lines_entries [OF assms, of "[]" "?st (concat (map print_entry es) @ [CHR 0x0A])" "[CHR 0x0A]" 1] by auto
  have "scan_word 254 (in_file st2) = (None, [])" using 2(2,3) spaces(2) by (intro scan_word_blank) auto
  then have "color_lines 1 st2 = None" by (simp add: color_line_def)
  with 2(1) have "color_lines (Suc (length es)) (?st (concat (map print_entry es) @ [CHR 0x0A])) = None" by simp
  moreover have "getColors (Some (concat (map print_entry es))) colors = Some (fold apply_entry es colors)"
  proof (cases "es = []")
    case False
    with 1 newlines_file [OF assms] show ?thesis by (simp add: getColors_def Let_def)
  qed (simp add: getColors_def)
  ultimately show ?thesis using newlines_file [OF assms] by (simp add: getColors_def Let_def)
qed

theorem color_file_roundtrip_witness:
  "getColors (Some (print_entry (''HOST1_COLOR'', ''Red'', True) @ print_entry (''HOST2_COLOR'', ''pink'', False))) default_colors =
     Some (default_colors(''HOST1_COLOR'' := (5, 1), ''HOST2_COLOR'' := (8, 0))) \<and>
   getColors (Some (print_entry (''HOST1_COLOR'', ''Red'', True) @ [CHR 0x0A])) default_colors = None"
proof -
  have ok: "\<forall>e\<in>set [(''HOST1_COLOR'', ''Red'', True), (''HOST2_COLOR'', ''pink'', False)]. entry_ok e"
    "\<forall>e\<in>set [(''HOST1_COLOR'', ''Red'', True)]. entry_ok e" by code_simp+
  have v: "convertColorToInt ''Red'' = 5" "convertColorToInt ''pink'' = - 1" "default_colors ''HOST2_COLOR'' = (8, 1)" by code_simp+
  show ?thesis
    using color_file_roundtrip [OF ok(1), of default_colors] color_file_roundtrip [OF ok(2), of default_colors]
    by (simp add: apply_entry_def v)
qed

section \<open>Colour pairs\<close>

text \<open>Every colour in use is a pair the terminal was told about.\<close>

definition pairs_ok :: "(string \<Rightarrow> int \<times> int) \<Rightarrow> bool" where
  "pairs_ok f \<longleftrightarrow> (\<forall>name\<in>set (map fst color_table). fst (f name) \<in> set (map fst init_pairs))"

lemma convertColorToInt_pair: "convertColorToInt w \<noteq> - 1 \<Longrightarrow> convertColorToInt w \<in> set (map fst init_pairs)"
  by (auto simp: convertColorToInt_def init_pairs_def Let_def split: if_splits)

lemma color_entry_pairs:
  "pairs_ok (color_of st) \<Longrightarrow> color_entry buffer name st = Some st' \<Longrightarrow> pairs_ok (color_of st')"
  using convertColorToInt_pair
  by (auto simp: color_entry_def pairs_ok_def bind_eq_Some_conv Let_def simp del: set_map split: if_splits prod.splits)

lemma color_tests_pairs:
  "pairs_ok (color_of st) \<Longrightarrow> color_tests buffer names st = Some st' \<Longrightarrow> pairs_ok (color_of st')"
  by (induction names arbitrary: st) (auto simp: bind_eq_Some_conv dest: color_entry_pairs)

lemma color_line_pairs: "pairs_ok (color_of st) \<Longrightarrow> color_line st = Some st' \<Longrightarrow> pairs_ok (color_of st')"
  by (auto simp: color_line_def bind_eq_Some_conv Let_def dest: color_tests_pairs [rotated] split: if_splits prod.splits)

lemma color_lines_pairs: "pairs_ok (color_of st) \<Longrightarrow> color_lines n st = Some st' \<Longrightarrow> pairs_ok (color_of st')"
  by (induction n arbitrary: st) (auto simp: bind_eq_Some_conv dest: color_line_pairs)

lemma ui_curses_init_pairs:
  assumes "ui_curses_init has_colors contents default_colors = Some (pairs, colors)" "name \<in> set (map fst color_table)"
  shows "fst (colors name) \<in> set (map fst init_pairs)"
proof -
  have "pairs_ok default_colors" by (simp add: pairs_ok_def color_table_def default_colors_def init_pairs_def)
  then have "pairs_ok colors" using assms(1)
    by (auto simp: ui_curses_init_def getColors_def bind_eq_Some_conv Let_def dest: color_lines_pairs [rotated] split: if_splits option.splits)
  with assms(2) show ?thesis unfolding pairs_ok_def by blast
qed

end
