(* ===== verification/Draw.thy ===== *)
theory Draw
  imports Display Colors Keys Screen
begin

text \<open>
  What \<open>ui_print\<close> of \<open>src/ui/ui.c\<close> puts on the terminal. The terminal library is a list of
  cells, in the order in which they are written, with the attributes in force (\<open>Help\<close> is the
  fixed text \<open>HELP_MESSAGE\<close>); the program's
  own state is the scale of the bars and the smoothed lengths of the bars (\<open>bar_smooth\<close>).
  \<open>float\<close> is rational; a conversion of a \<open>float\<close> that does not fit an \<open>int\<close> is undefined
  behaviour. The \<open>log\<close> of the C library is an argument.
\<close>

section \<open>Terminal\<close>

datatype cell =
    Text int int string int bool
  | Rule int int int
  | Symbol int int string
  | Reverse int int int int
  | Help int

record draw_state =
  bars :: bar_state
  bar_smooth :: "rat list"
  tty_pair :: int
  tty_bold :: bool
  cells :: "cell list"

record draw_env =
  d_names :: names_env
  d_colors :: "string \<Rightarrow> int \<times> int"
  d_cols :: int
  d_lines :: int
  d_log :: "rat \<Rightarrow> rat"
  d_has_colors :: bool
  d_matches :: "string \<Rightarrow> bool"

abbreviation d_opts :: "draw_env \<Rightarrow> options_t" where
  "d_opts env \<equiv> n_opts (d_names env)"

definition emit :: "cell \<Rightarrow> draw_state \<Rightarrow> draw_state" where
  "emit c ds = ds\<lparr>cells := cells ds @ [c]\<rparr>"

definition mvaddstr :: "int \<Rightarrow> int \<Rightarrow> string \<Rightarrow> draw_state \<Rightarrow> draw_state" where
  "mvaddstr y x s ds = emit (Text y x s (tty_pair ds) (tty_bold ds)) ds"

definition turnOnColor :: "int \<times> int \<Rightarrow> draw_state \<Rightarrow> draw_state" where
  "turnOnColor c ds =
     (let ds = ds\<lparr>tty_pair := fst c\<rparr> in if snd c = 1 then ds\<lparr>tty_bold := True\<rparr> else ds)"

definition turnOffColor :: "int \<times> int \<Rightarrow> draw_state \<Rightarrow> draw_state" where
  "turnOffColor c ds =
     (let ds = ds\<lparr>tty_pair := 0\<rparr> in if snd c = 1 then ds\<lparr>tty_bold := False\<rparr> else ds)"

text \<open>Text between a \<open>turnOnColor\<close> and its \<open>turnOffColor\<close>.\<close>

definition colored :: "draw_env \<Rightarrow> string \<Rightarrow> int \<Rightarrow> int \<Rightarrow> string \<Rightarrow> draw_state \<Rightarrow> draw_state" where
  "colored env name y x s ds =
     turnOffColor (d_colors env name) (mvaddstr y x s (turnOnColor (d_colors env name) ds))"

section \<open>Numbers\<close>

text \<open>Conversion of a \<open>float\<close> to an \<open>int\<close>, towards zero.\<close>

definition to_int :: "rat \<Rightarrow> int option" where
  "to_int x = (let n = (if 0 \<le> x then \<lfloor>x\<rfloor> else \<lceil>x\<rceil>) in if - (2 ^ 31) \<le> n \<and> n < 2 ^ 31 then Some n else None)"

text \<open>\<open>printf("%.<prec>f")\<close>, rounding to the nearest digit, ties to even.\<close>

definition round_even :: "rat \<Rightarrow> int" where
  "round_even x =
     (let f = \<lfloor>x\<rfloor>; r = x - of_int f in
      if r < 1 / 2 then f else if r > 1 / 2 then f + 1 else if even f then f else f + 1)"

definition print_fixed :: "nat \<Rightarrow> rat \<Rightarrow> string" where
  "print_fixed prec v =
     (let n = nat (round_even (\<bar>v\<bar> * 10 ^ prec)); digits = print_nat (n mod 10 ^ prec) in
      (if v < 0 then ''-'' else []) @ print_nat (n div 10 ^ prec) @
      (if prec = 0 then [] else ''.'' @ replicate (prec - length digits) (CHR ''0'') @ digits))"

definition size_text :: "rat \<Rightarrow> nat \<Rightarrow> rat \<Rightarrow> int \<Rightarrow> string option" where
  "size_text bandwidth bsize ksize bytes = do {
     (prec, v, u) \<leftarrow> readable_size bandwidth ksize bytes;
     let t = print_fixed prec v;
     Some (take (bsize - 1) ('' '' @ replicate (4 - length t) (CHR '' '') @ t @ u))
   }"

section \<open>Bars\<close>

definition get_bar_interval :: "int \<Rightarrow> int" where
  "get_bar_interval bandwidth = (if bandwidth > 100000000 then 100 else 10)"

definition get_bar_length_eighths :: "draw_env \<Rightarrow> int \<Rightarrow> bar_state \<Rightarrow> (int \<times> bar_state) option" where
  "get_bar_length_eighths env rate b =
     (if rate \<le> 0 then Some (0, b)
      else do {
        (mx, b) \<leftarrow> bar_rescale (max_bandwidth (d_opts env)) rate b;
        bar_length \<leftarrow>
          (if log_scale (d_opts env) \<noteq> 0
           then if d_log env (of_int mx) = 0 then None else Some (d_log env (of_int rate) / d_log env (of_int mx))
           else Some (of_int rate / of_int mx));
        n \<leftarrow> to_int (bar_length * of_int (d_cols env) * 8);
        Some (n, b) })"

definition get_bar_length :: "draw_env \<Rightarrow> int \<Rightarrow> bar_state \<Rightarrow> (int \<times> bar_state) option" where
  "get_bar_length env rate b = map_option (\<lambda>(n, b). (tdiv n 8, b)) (get_bar_length_eighths env rate b)"

definition BAR_SMOOTH_MAX_ROWS :: nat where "BAR_SMOOTH_MAX_ROWS = 256"

definition BAR_SMOOTH_FACTOR :: rat where "BAR_SMOOTH_FACTOR = 15 / 100"

definition glide :: "rat \<Rightarrow> rat \<Rightarrow> rat" where
  "glide target prev = (if prev < 1 / 2 \<and> target < 1 / 2 then 0 else prev + (target - prev) * BAR_SMOOTH_FACTOR)"

definition draw_bar :: "draw_env \<Rightarrow> rat \<Rightarrow> int \<Rightarrow> int \<Rightarrow> draw_state \<Rightarrow> draw_state option" where
  "draw_bar env bandwidth row colorpair ds = do {
     let colorpair = (if d_has_colors env then colorpair else 0);
     rate \<leftarrow> to_int (8 * bandwidth);
     (n, b) \<leftarrow> get_bar_length_eighths env rate (bars ds);
     let ds = ds\<lparr>bars := b\<rparr>;
     let target = of_int n / 8;
     (len, ds) \<leftarrow>
       (if 0 \<le> row \<and> row < int BAR_SMOOTH_MAX_ROWS then do {
          prev \<leftarrow> rdi (bar_smooth ds) row;
          smooth \<leftarrow> wri (bar_smooth ds) row (glide target prev);
          len \<leftarrow> to_int (glide target prev + 1 / 2);
          Some (len, ds\<lparr>bar_smooth := smooth\<rparr>) }
        else do { len \<leftarrow> to_int (target + 1 / 2); Some (len, ds) });
     Some (if len > 0 then emit (Reverse row 0 (if len > d_cols env then d_cols env else len) colorpair) ds else ds)
   }"

text \<open>A bar in the bold attribute of its colour, if it has it.\<close>

definition draw_color_bar :: "draw_env \<Rightarrow> string \<Rightarrow> rat \<Rightarrow> int \<Rightarrow> draw_state \<Rightarrow> draw_state option" where
  "draw_color_bar env name bandwidth row ds = do {
     let (pair, attr) = d_colors env name;
     let ds = (if attr = 1 then ds\<lparr>tty_bold := True\<rparr> else ds);
     ds \<leftarrow> draw_bar env bandwidth row pair ds;
     Some (if attr = 1 then ds\<lparr>tty_bold := False\<rparr> else ds)
   }"

section \<open>The scale\<close>

text \<open>One marker of the scale: the mark, and its label moved left if it would leave the screen.\<close>

definition draw_marker :: "draw_env \<Rightarrow> int \<Rightarrow> rat \<Rightarrow> draw_state \<Rightarrow> draw_state option" where
  "draw_marker env row marker ds = do {
     size_buf \<leftarrow> size_text marker 40 (if log_scale (d_opts env) \<noteq> 0 then 1000 else 1024) (bandwidth_in_bytes (d_opts env));
     let lab = dropWhile (\<lambda>c. c = CHR '' '') size_buf;
     rate \<leftarrow> to_int (marker * 8);
     (xpos, b) \<leftarrow> get_bar_length env rate (bars ds);
     let ds = emit (Symbol (row + 1) xpos ''BTEE'') (ds\<lparr>bars := b\<rparr>);
     let xpos = (if xpos + int (length lab) \<ge> d_cols env then d_cols env - int (length lab) else xpos);
     Some (colored env ''SCALE_MARKERS_COLOR'' row xpos lab ds)
   }"

definition next_marker :: "draw_env \<Rightarrow> int \<Rightarrow> rat \<Rightarrow> rat" where
  "next_marker env mx marker =
     (if log_scale (d_opts env) \<noteq> 0 then marker * of_int (get_bar_interval mx) else marker + of_int mx / (5 * 8))"

partial_function (option) draw_markers :: "draw_env \<Rightarrow> int \<Rightarrow> int \<Rightarrow> rat \<Rightarrow> draw_state \<Rightarrow> draw_state option" where
  "draw_markers env row mx marker ds =
     (if marker \<le> of_int mx / 8
      then Option.bind (draw_marker env row marker ds) (draw_markers env row mx (next_marker env mx marker))
      else Some ds)"

text \<open>The scale on top of the window; the result is the first row below it.\<close>

definition draw_bar_scale :: "draw_env \<Rightarrow> int \<Rightarrow> draw_state \<Rightarrow> (int \<times> draw_state) option" where
  "draw_bar_scale env row ds = do {
     mx \<leftarrow> get_max_bandwidth (max_bandwidth (d_opts env)) (bars ds);
     if showbars (d_opts env) \<noteq> 0 then do {
       let ds = emit (Rule (row + 1) 0 (d_cols env)) ds;
       ds \<leftarrow> draw_markers env row mx (if log_scale (d_opts env) \<noteq> 0 then 5 / 4 else of_int mx / (5 * 8)) ds;
       Some (row + 2, emit (Symbol (row + 1) 0 ''LLCORNER'') ds) }
     else Some (row + 1, emit (Rule row 0 (d_cols env)) ds)
   }"

section \<open>Lines and totals\<close>

text \<open>One number; its colour depends on which of the two it is.\<close>

definition draw_number :: "draw_env \<Rightarrow> rat \<Rightarrow> rat \<Rightarrow> rat \<Rightarrow> int \<Rightarrow> int \<Rightarrow> int \<Rightarrow> draw_state \<Rightarrow> draw_state option" where
  "draw_number env bandwidth snt rcv row col bytes ds = do {
     buf \<leftarrow> size_text bandwidth 10 1024 bytes;
     let name = (if bandwidth = snt then ''TWO_SECOND_TRANSFER_COLUMN_COLOR''
                 else if bandwidth = rcv then ''TEN_SECOND_TRANSFER_COLUMN_COLOR''
                 else ''FOURTY_SECOND_TRANSFER_COLUMN_COLOR'');
     Some (colored env name row col buf ds)
   }"

fun draw_line_total ::
  "draw_env \<Rightarrow> rat \<Rightarrow> rat \<Rightarrow> int \<Rightarrow> int \<Rightarrow> option_linedisplay_t \<Rightarrow> int \<Rightarrow> draw_state \<Rightarrow> draw_state option" where
  "draw_line_total env snt rcv row col OPTION_LINEDISPLAY_TWO_LINE bytes ds = do {
     ds \<leftarrow> draw_number env snt snt rcv row col bytes ds;
     draw_number env rcv snt rcv (row + 1) col bytes ds }"
| "draw_line_total env snt rcv row col OPTION_LINEDISPLAY_ONE_LINE_SENT bytes ds =
     draw_number env snt snt rcv row col bytes ds"
| "draw_line_total env snt rcv row col OPTION_LINEDISPLAY_ONE_LINE_RECV bytes ds =
     draw_number env rcv snt rcv row col bytes ds"
| "draw_line_total env snt rcv row col OPTION_LINEDISPLAY_ONE_LINE_BOTH bytes ds =
     draw_number env (rcv + snt) snt rcv row col bytes ds"

text \<open>The columns from division \<open>j\<close> on.\<close>

fun draw_columns ::
  "draw_env \<Rightarrow> int \<Rightarrow> int \<Rightarrow> option_linedisplay_t \<Rightarrow> (rat \<times> rat) list \<Rightarrow> draw_state \<Rightarrow> draw_state option" where
  "draw_columns env row x ld [] ds = Some ds"
| "draw_columns env row x ld ((s, r) # ps) ds = do {
     ds \<leftarrow> draw_line_total env s r row x ld (bandwidth_in_bytes (d_opts env)) ds;
     draw_columns env row (x + 8) ld ps ds }"

definition draw_line_bars :: "draw_env \<Rightarrow> int \<Rightarrow> host_pair_line \<Rightarrow> option_linedisplay_t \<Rightarrow> draw_state \<Rightarrow> draw_state option" where
  "draw_line_bars env row line ld ds = do {
     s \<leftarrow> rdi (line_sent line) (bar_interval (d_opts env));
     r \<leftarrow> rdi (line_recv line) (bar_interval (d_opts env));
     (case ld of
        OPTION_LINEDISPLAY_TWO_LINE \<Rightarrow> do {
          ds \<leftarrow> draw_color_bar env ''SENT_BAR_COLOR'' s row ds;
          draw_color_bar env ''RECEIVE_BAR_COLOR'' r (row + 1) ds }
      | OPTION_LINEDISPLAY_ONE_LINE_SENT \<Rightarrow> draw_color_bar env ''SENT_BAR_COLOR'' s row ds
      | OPTION_LINEDISPLAY_ONE_LINE_RECV \<Rightarrow> draw_color_bar env ''RECEIVE_BAR_COLOR'' r row ds
      | OPTION_LINEDISPLAY_ONE_LINE_BOTH \<Rightarrow> draw_color_bar env ''BOTH_BAR_COLOR'' (r + s) row ds)
   }"

definition draw_line_totals :: "draw_env \<Rightarrow> int \<Rightarrow> host_pair_line \<Rightarrow> option_linedisplay_t \<Rightarrow> draw_state \<Rightarrow> draw_state option" where
  "draw_line_totals env row line ld ds = do {
     ds \<leftarrow> draw_columns env row (d_cols env - 8 * int HISTORY_DIVISIONS) ld (zip (line_sent line) (line_recv line)) ds;
     if showbars (d_opts env) \<noteq> 0 then draw_line_bars env row line ld ds else Some ds
   }"

fun draw_sums :: "draw_env \<Rightarrow> int \<Rightarrow> int \<Rightarrow> (rat \<times> rat) list \<Rightarrow> draw_state \<Rightarrow> draw_state option" where
  "draw_sums env y x [] ds = Some ds"
| "draw_sums env y x ((s, r) # ps) ds = do {
     buf \<leftarrow> size_text (s + r) 10 1024 (bandwidth_in_bytes (d_opts env));
     draw_sums env y (x + 8) ps (colored env ''TOTAL_LABEL_COLOR'' y x buf ds) }"

definition draw_totals :: "draw_env \<Rightarrow> host_pair_line \<Rightarrow> draw_state \<Rightarrow> draw_state option" where
  "draw_totals env tot ds = do {
     let y = d_lines env - 4 + 1;
     ds \<leftarrow> draw_line_totals env y tot OPTION_LINEDISPLAY_TWO_LINE ds;
     draw_sums env (y + 2) (d_cols env - 8 * int HISTORY_DIVISIONS) (zip (line_sent tot) (line_recv tot)) ds
   }"

section \<open>The whole screen\<close>

text \<open>One line of the list: its hosts, the arrows between them, its process, its totals and rates.\<close>

definition draw_arrows :: "draw_env \<Rightarrow> int \<Rightarrow> int \<Rightarrow> draw_state \<Rightarrow> draw_state" where
  "draw_arrows env y x ds =
     (let ds = turnOnColor (d_colors env ''DL_UL_INDICATOR_COLOR'') ds in
      turnOffColor (d_colors env ''DL_UL_INDICATOR_COLOR'')
        (case linedisplay (d_opts env) of
           OPTION_LINEDISPLAY_TWO_LINE \<Rightarrow> mvaddstr (y + 1) x '' <= '' (mvaddstr y x '' => '' ds)
         | OPTION_LINEDISPLAY_ONE_LINE_BOTH \<Rightarrow> mvaddstr y x ''<=> '' ds
         | OPTION_LINEDISPLAY_ONE_LINE_SENT \<Rightarrow> mvaddstr y x '' => '' ds
         | OPTION_LINEDISPLAY_ONE_LINE_RECV \<Rightarrow> mvaddstr y x '' <= '' ds))"

definition proc_label :: "host_pair_line \<Rightarrow> string" where
  "proc_label l = take (PROCNAME_LENGTH + 15) ('' ['' @ print_int (line_pid l) @ '':'' @ take 12 (process_name l) @ '']'')"

definition draw_hosts :: "draw_env \<Rightarrow> int \<Rightarrow> row \<Rightarrow> draw_state \<Rightarrow> draw_state" where
  "draw_hosts env L w ds =
     (let ds = colored env ''HOST1_COLOR'' (row_y w) 0 (row_host1 w) ds;
          ds = draw_arrows env (row_y w) L ds;
          x = L + 4;
          ds = colored env ''HOST2_COLOR'' (row_y w) x (row_host2 w) ds in
      if show_processes (d_opts env) \<noteq> 0 \<and> process_name (row_line w) \<noteq> []
      then colored env ''PROC_NAME_COLOR'' (row_y w) (x + L) (proc_label (row_line w)) ds
      else ds)"

definition draw_row :: "draw_env \<Rightarrow> int \<Rightarrow> row \<Rightarrow> draw_state \<Rightarrow> draw_state option" where
  "draw_row env L w ds = do {
     let l = row_line w;
     let ds = draw_hosts env L w ds;
     ds \<leftarrow> (if show_totals (d_opts env) \<noteq> 0
            then draw_line_total env (of_nat (unat (line_total_sent l))) (of_nat (unat (line_total_recv l))) (row_y w)
                   (d_cols env - 8 * (int HISTORY_DIVISIONS + 1)) (linedisplay (d_opts env)) 1 ds
            else Some ds);
     draw_line_totals env (row_y w) l (linedisplay (d_opts env)) ds
   }"

fun draw_rows :: "draw_env \<Rightarrow> int \<Rightarrow> row list \<Rightarrow> draw_state \<Rightarrow> draw_state option" where
  "draw_rows env L [] ds = Some ds"
| "draw_rows env L (w # ws) ds = Option.bind (draw_row env L w ds) (draw_rows env L ws)"

text \<open>The text of a size goes to the array \<open>line\<close>, which has one byte more than the screen has columns.\<close>

definition line_text :: "draw_env \<Rightarrow> rat \<Rightarrow> int \<Rightarrow> string option" where
  "line_text env v bytes = do {
     t \<leftarrow> size_text v 10 1024 bytes;
     if int (length t) + 1 \<le> d_cols env + 1 then Some t else None
   }"

definition draw_footer ::
  "draw_env \<Rightarrow> u64 \<times> u64 \<Rightarrow> int \<times> int \<times> int \<Rightarrow> host_pair_line \<Rightarrow> draw_state \<Rightarrow> draw_state option" where
  "draw_footer env cum peaks tot ds = do {
     let y = d_lines env - 3;
     let c = (\<lambda>name. d_colors env name);
     let ds = turnOnColor (c ''BOTTOM_BAR_COLOR'') ds;
     let ds = turnOffColor (c ''BOTTOM_BAR_COLOR'') (emit (Rule (y - 1) 0 (d_cols env)) ds);
     let ds = mvaddstr (y + 1) 0 ''RX: '' (mvaddstr y 0 ''TX: '' ds);
     let ds = colored env ''TOTAL_LABEL_COLOR'' (y + 2) 0 ''TOTAL: '' ds;
     let ds = colored env ''CUM_LABEL_COLOR'' y 16 ''cum: '' ds;
     t \<leftarrow> line_text env (of_nat (unat (fst cum))) 1;
     let ds = mvaddstr y 22 t (turnOnColor (c ''CUM_TRANSFER_COLUMN_COLOR'') ds);
     t \<leftarrow> line_text env (of_nat (unat (snd cum))) 1;
     let ds = mvaddstr (y + 1) 22 t ds;
     t \<leftarrow> line_text env (of_nat (unat (snd cum + fst cum))) 1;
     let ds = turnOffColor (c ''CUM_TRANSFER_COLUMN_COLOR'') (mvaddstr (y + 2) 22 t ds);
     let ds = turnOnColor (c ''PEAK_TRANSFER_COLUMN_COLOR'') (colored env ''PEAK_LABEL_COLOR'' y 32 ''peak: '' ds);
     t \<leftarrow> line_text env (of_int (fst peaks) / RESOLUTION) (bandwidth_in_bytes (d_opts env));
     let ds = mvaddstr y 39 t ds;
     t \<leftarrow> line_text env (of_int (fst (snd peaks)) / RESOLUTION) (bandwidth_in_bytes (d_opts env));
     let ds = mvaddstr (y + 1) 39 t ds;
     t \<leftarrow> line_text env (of_int (snd (snd peaks)) / RESOLUTION) (bandwidth_in_bytes (d_opts env));
     let ds = turnOffColor (c ''PEAK_TRANSFER_COLUMN_COLOR'') (mvaddstr (y + 2) 39 t ds);
     let ds = colored env ''RATES_LABEL_COLOR'' y (d_cols env - 8 * int HISTORY_DIVISIONS - 8) ''rates:'' ds;
     draw_totals env tot ds
   }"

definition draw_hint :: "ui_state \<Rightarrow> draw_state \<Rightarrow> draw_state option" where
  "draw_hint ui ds =
     (if showhelphint ui \<noteq> 0 then do {
        n \<leftarrow> c_strlen (helpmsg ui) 0;
        let ds = mvaddstr 0 1 (c_string (helpmsg ui) 0) (mvaddstr 0 0 '' '' ds);
        Some (emit (Reverse 0 0 (int n + 2) 0) (mvaddstr 0 (1 + int n) '' '' ds)) }
      else Some ds)"

text \<open>
  \<open>ui_print\<close>. The lines of the list come first with their texts (theory \<open>Display\<close>), which
  only uses the resolver, and are then drawn in the same order, which only uses the bars.
\<close>

definition ui_print ::
  "draw_env \<Rightarrow> ui_state \<Rightarrow> u64 \<times> u64 \<Rightarrow> int \<times> int \<times> int \<Rightarrow> host_pair_line \<Rightarrow> host_pair_line list
     \<Rightarrow> resolver_state \<times> draw_state \<Rightarrow> (resolver_state \<times> draw_state) option" where
  "ui_print env ui cum peaks tot ls s =
     (if dontshowdisplay ui \<noteq> 0 then Some s
      else do {
        let (r, ds) = s; let op = d_opts env;
        let ds = turnOnColor (d_colors env ''SCALE_BAR_COLOR'') (ds\<lparr>cells := []\<rparr>);
        (y, ds) \<leftarrow> draw_bar_scale env 0 ds;
        let ds = turnOffColor (d_colors env ''SCALE_BAR_COLOR'') ds;
        let ds = (if showhelp op \<noteq> 0 then emit (Help y) ds else ds);
        (rows, r) \<leftarrow> ui_print_lines (d_names env) (d_matches env) (d_lines env) (d_cols env) y r ls;
        ds \<leftarrow> draw_rows env (host_width op (d_cols env)) rows ds;
        ds \<leftarrow> draw_footer env cum peaks tot ds;
        ds \<leftarrow> draw_hint ui ds;
        Some (r, ds\<lparr>bars := bar_autoscale (max_bandwidth op) (bars ds)\<rparr>) })"

end
