(* ===== verification/Draw_Proofs.thy ===== *)
theory Draw_Proofs
  imports Draw
begin

text \<open>
  The screen of \<open>ui_print\<close>: the numbers fit their columns, the bars glide to their length, the
  scale ends, and for moderate rates a repaint stays inside its arrays and the screen.
\<close>

section \<open>Numbers\<close>

lemma to_int_in: "0 \<le> x \<Longrightarrow> x < 2 ^ 31 \<Longrightarrow> to_int x = Some \<lfloor>x\<rfloor>"
  by (simp add: to_int_def floor_less_iff)

lemma round_even_le: "x \<le> of_int n \<Longrightarrow> round_even x \<le> n"
proof -
  assume x: "x \<le> of_int n"
  then have f: "\<lfloor>x\<rfloor> \<le> n" by linarith
  show ?thesis
  proof (cases "\<lfloor>x\<rfloor> = n")
    case True
    then have "x - of_int \<lfloor>x\<rfloor> \<le> 0" using x by simp
    with True show ?thesis by (simp add: round_even_def Let_def)
  next
    case False
    with f show ?thesis by (simp add: round_even_def Let_def)
  qed
qed

lemma round_even_nonneg: "0 \<le> x \<Longrightarrow> 0 \<le> round_even x"
  by (simp add: round_even_def Let_def)

lemma print_fixed_length:
  assumes "0 \<le> v" "v < 10 ^ k" "0 < k"
  shows "length (print_fixed p v) \<le> Suc k + (if p = 0 then 0 else Suc p)"
    "v \<le> 10 ^ k - 1 / 10 ^ p \<Longrightarrow> length (print_fixed p v) \<le> k + (if p = 0 then 0 else Suc p)"
proof -
  let ?n = "nat (round_even (v * 10 ^ p))"
  let ?d = "print_nat (?n mod 10 ^ p)"
  have frac: "length ?d \<le> p" if "p \<noteq> 0" using that by (intro print_nat_length) auto
  have eq: "length (print_fixed p v) = length (print_nat (?n div 10 ^ p)) + (if p = 0 then 0 else Suc p)"
    using frac assms(1) by (auto simp: print_fixed_def Let_def)
  have "v * 10 ^ p \<le> 10 ^ k * 10 ^ p" using assms(2) by (intro mult_right_mono) auto
  then have "round_even (v * 10 ^ p) \<le> 10 ^ k * 10 ^ p" by (intro round_even_le) simp
  then have "int ?n \<le> int (10 ^ k * 10 ^ p)" using round_even_nonneg [of "v * 10 ^ p"] assms(1) by simp
  then have "?n div 10 ^ p \<le> 10 ^ k" by (simp only: of_nat_le_iff) (metis div_le_mono nonzero_mult_div_cancel_right power_not_zero zero_neq_numeral)
  also have "(10::nat) ^ k < 10 ^ Suc k" by simp
  finally have "length (print_nat (?n div 10 ^ p)) \<le> Suc k" by (intro print_nat_length) auto
  then show "length (print_fixed p v) \<le> Suc k + (if p = 0 then 0 else Suc p)" by (simp add: eq)
  assume "v \<le> 10 ^ k - 1 / 10 ^ p"
  then have "v * 10 ^ p \<le> (10 ^ k - 1 / 10 ^ p) * 10 ^ p" by (intro mult_right_mono) auto
  also have "\<dots> = of_int (10 ^ k * 10 ^ p - 1)" by (simp add: algebra_simps)
  finally have "round_even (v * 10 ^ p) \<le> 10 ^ k * 10 ^ p - 1" by (rule round_even_le)
  then have "int ?n < int (10 ^ k * 10 ^ p)" using round_even_nonneg [of "v * 10 ^ p"] assms(1) by simp
  then have "?n div 10 ^ p < 10 ^ k" by (simp only: of_nat_less_iff) (simp add: less_mult_imp_div_less)
  then have "length (print_nat (?n div 10 ^ p)) \<le> k" using assms(3) by (intro print_nat_length) auto
  then show "length (print_fixed p v) \<le> k + (if p = 0 then 0 else Suc p)" by (simp add: eq)
qed

section \<open>Texts of sizes\<close>

lemma readable_loop_index: "i \<le> 3 \<Longrightarrow> snd (snd (readable_loop b k i sz)) \<le> 3"
proof (induction b k i sz rule: readable_loop.induct)
  case (1 b k i sz)
  show ?case
  proof (cases "b < sz * 1000 \<or> i \<ge> UNIT_DIVISIONS - 1")
    case True
    with 1(2) show ?thesis by (subst readable_loop.simps) simp
  next
    case False
    then have i: "i + 1 \<le> 3" by (simp add: UNIT_DIVISIONS_def)
    with 1(1) [OF False refl refl] False show ?thesis by (subst readable_loop.simps) (simp add: Let_def)
  qed
qed

lemma readable_size_total: "\<exists>prec v i. readable_size b k bytes = Some (prec, v, (if bytes \<noteq> 0 then unit_bytes else unit_bits) ! i) \<and> i < 4"
proof -
  let ?b = "if bytes = 0 then b * 8 else b"
  obtain prec v i where r: "readable_loop ?b k 0 1 = (prec, v, i)" by (metis prod_cases3)
  with readable_loop_index [of 0 ?b k 1] have "i < 4" by simp
  with r show ?thesis by (intro exI [of _ prec] exI [of _ v] exI [of _ i]) (simp add: readable_size_def Let_def rd_def unit_bytes_def unit_bits_def)
qed

lemma unit_length: "i < 4 \<Longrightarrow> length ((if bytes \<noteq> 0 then unit_bytes else unit_bits) ! i) \<le> 2"
  by (auto simp: unit_bytes_def unit_bits_def less_Suc_eq numeral_eq_Suc)

lemma size_text_total: "\<exists>t. size_text b n k bytes = Some t \<and> length t \<le> n - 1"
  using readable_size_total [of b k bytes] by (auto simp: size_text_def Let_def)

lemma size_text_eight:
  assumes "0 \<le> b" "1000 \<le> k" "9 \<le> n" "(if bytes = 0 then b * 8 else b) \<le> 99999 * k ^ 3"
  shows "\<exists>t. size_text b n k bytes = Some t \<and> length t \<le> 8"
proof -
  let ?b = "if bytes = 0 then b * 8 else b" and ?us = "if bytes \<noteq> 0 then unit_bytes else unit_bits"
  obtain prec v i where r: "readable_loop ?b k 0 1 = (prec, v, i)" by (metis prod_cases3)
  have b: "0 \<le> ?b" using assms(1) by simp
  note ok = readable_loop_ok [OF assms(2) b _ _ _ r, simplified]
  have i: "i < 4" using ok by linarith
  have rs: "readable_size b k bytes = Some (prec, v, ?us ! i)"
    using r i by (simp add: readable_size_def Let_def rd_def unit_bytes_def unit_bits_def)
  have "length (print_fixed prec v) \<le> 5"
  proof -
    consider "prec = 0" "v < 1000" | "prec = 0" "i = 3" | "prec = 1" "v < 100" | "prec = 2" "v < 10" using ok by fastforce
    then show ?thesis
    proof cases
      case 1
      then show ?thesis using print_fixed_length(1) [of v 3 0] ok by simp
    next
      case 2
      then have "v * k ^ 3 \<le> 99999 * k ^ 3" using ok assms(4) by simp
      then have "v \<le> 99999" using assms(2) by (simp add: mult_le_cancel_right)
      with 2 ok show ?thesis using print_fixed_length(2) [of v 5 0] by simp
    next
      case 3
      then show ?thesis using print_fixed_length(1) [of v 2 1] ok by simp
    next
      case 4
      then show ?thesis using print_fixed_length(1) [of v 1 2] ok by simp
    qed
  qed
  with rs unit_length [OF i, of bytes] show ?thesis by (auto simp: size_text_def Let_def)
qed

section \<open>Bars\<close>

text \<open>What is asked of the C library's \<open>log\<close>.\<close>

definition log_ok :: "(rat \<Rightarrow> rat) \<Rightarrow> bool" where
  "log_ok f \<longleftrightarrow> (\<forall>x y. 1 \<le> x \<longrightarrow> x \<le> y \<longrightarrow> 0 \<le> f x \<and> f x \<le> f y) \<and> 0 < f 64000 \<and> f 10000000 \<le> 2 * f 64000"

text \<open>A terminal of ordinary width, and a limit for the bars that is either automatic or between 64 kbit/s and 10 Mbit/s.\<close>

definition env_ok :: "draw_env \<Rightarrow> bool" where
  "env_ok env \<longleftrightarrow> 48 \<le> d_cols env \<and> d_cols env \<le> 555 \<and> 4 \<le> d_lines env \<and> log_ok (d_log env) \<and>
     (max_bandwidth (d_opts env) = 0 \<or> 64000 \<le> max_bandwidth (d_opts env) \<and> max_bandwidth (d_opts env) \<le> 10000000) \<and>
     bar_interval (d_opts env) \<in> {0, 1, 2}"

lemma env_okD:
  assumes "env_ok env"
  shows "48 \<le> d_cols env" "d_cols env \<le> 555" "4 \<le> d_lines env" "log_ok (d_log env)"
    "max_bandwidth (d_opts env) = 0 \<or> 64000 \<le> max_bandwidth (d_opts env) \<and> max_bandwidth (d_opts env) \<le> 10000000"
    "bar_interval (d_opts env) \<in> {0, 1, 2}"
  using assms by (simp_all add: env_ok_def)

text \<open>The scale in use exists, and so does the next one if a larger one is wanted.\<close>

definition bar_fits :: "bar_state \<Rightarrow> bool" where
  "bar_fits b \<longleftrightarrow> rateidx_init b = 0 \<and> rateidx b = 0 \<and> wantbiggerrate b = 0 \<or>
     0 < rateidx_init b \<and> 0 < rateidx b \<and> rateidx b \<le> 6 \<and> (wantbiggerrate b \<noteq> 0 \<longrightarrow> rateidx b \<le> 5)"

lemma scale_bounds:
  assumes "0 \<le> i" "i \<le> 6"
  shows "64000 \<le> scale ! nat i" "scale ! nat i \<le> 1000000000" "rdi scale i = Some (scale ! nat i)"
    "4 \<le> i \<Longrightarrow> 10000000 \<le> scale ! nat i"
proof -
  have "i \<in> {0, 1, 2, 3, 4, 5, 6}" using assms by auto
  then show "64000 \<le> scale ! nat i" "scale ! nat i \<le> 1000000000" "4 \<le> i \<Longrightarrow> 10000000 \<le> scale ! nat i"
    by (auto simp: scale_def nat_numeral)
  show "rdi scale i = Some (scale ! nat i)" using assms by (simp add: rdi_def scale_def)
qed

lemma bar_fits_idx: "bar_fits b \<Longrightarrow> 0 \<le> rateidx b \<and> rateidx b \<le> 6"
  by (auto simp: bar_fits_def)

lemma max_bandwidth_ok:
  assumes "env_ok env" "bar_fits b"
  shows "\<exists>mx. get_max_bandwidth (max_bandwidth (d_opts env)) b = Some mx \<and> 64000 \<le> mx \<and> mx \<le> 1000000000"
  using env_okD(5) [OF assms(1)] scale_bounds [of "rateidx b"] bar_fits_idx [OF assms(2)]
  by (auto simp: get_max_bandwidth_def)

lemma bar_rescale_ok:
  assumes env: "env_ok env" and b: "bar_fits b" and r: "0 < rate" "rate \<le> 10000000"
  shows "\<exists>mx b'. bar_rescale (max_bandwidth (d_opts env)) rate b = Some (mx, b') \<and> bar_fits b' \<and> 64000 \<le> mx"
proof -
  note idx = bar_fits_idx [OF b]
  note sc = scale_bounds [OF idx [THEN conjunct1] idx [THEN conjunct2]]
  let ?m = "scale ! nat (rateidx b)"
  have "\<exists>i. scale_search rate 0 = Some i \<and> 0 < i \<and> i \<le> 5" using r by (simp add: scale_search_eq)
  then obtain i where s: "scale_search rate 0 = Some i" "0 < i" "i \<le> 5" by blast
  define b' where "b' = (if rate > ?m then
      (if rateidx_init b = 0
       then b\<lparr>wantbiggerrate := 1, rateidx_init := i, rateidx := i\<rparr>
       else b\<lparr>wantbiggerrate := 1\<rparr>) else b)"
  have "rateidx b \<le> 3" if "rate > ?m" using that r(2) sc(4) by force
  then have fits: "bar_fits b'" using b s by (auto simp: bar_fits_def b'_def)
  obtain mx where "get_max_bandwidth (max_bandwidth (d_opts env)) b' = Some mx" "64000 \<le> mx"
    using max_bandwidth_ok [OF env fits] by blast
  moreover from this have "bar_rescale (max_bandwidth (d_opts env)) rate b = Some (mx, b')"
    using r s by (auto simp: bar_rescale_def sc(3) b'_def)
  ultimately show ?thesis using fits by blast
qed

text \<open>The length of a bar as a fraction of the screen.\<close>

lemma log_quotient:
  assumes "log_ok f" "1 \<le> rate" "64000 \<le> mx"
  shows "f mx \<noteq> 0" "0 \<le> f rate / f mx" "rate \<le> 10000000 \<Longrightarrow> f rate / f mx \<le> 2" "rate \<le> mx \<Longrightarrow> f rate / f mx \<le> 1"
proof -
  have f: "0 \<le> f rate" "f 64000 \<le> f mx" "0 < f 64000" "f 10000000 \<le> 2 * f 64000"
    using assms by (auto simp: log_ok_def)
  then show "f mx \<noteq> 0" "0 \<le> f rate / f mx" by auto
  show "f rate / f mx \<le> 2" if "rate \<le> 10000000"
  proof -
    have "f rate \<le> f 10000000" using that assms(1,2) by (simp add: log_ok_def)
    with f show ?thesis by (simp add: divide_le_eq)
  qed
  show "f rate / f mx \<le> 1" if "rate \<le> mx"
  proof -
    have "f rate \<le> f mx" using that assms(1,2) by (simp add: log_ok_def)
    with f show ?thesis by (simp add: divide_le_eq_1)
  qed
qed

lemma eighths_in:
  fixes x :: rat
  assumes "env_ok env" "0 \<le> x" "x \<le> 157"
  shows "\<exists>n. to_int (x * of_int (d_cols env) * 8) = Some n \<and> 0 \<le> n \<and> n \<le> 700000"
    "x \<le> 1 \<Longrightarrow> to_int (x * of_int (d_cols env) * 8) = Some n \<Longrightarrow> n \<le> 8 * d_cols env"
proof -
  let ?y = "x * of_int (d_cols env) * 8"
  note c = env_okD(1,2) [OF assms(1)]
  have "of_int (d_cols env) \<le> (555 :: rat)" using c(2) by (metis of_int_le_iff of_int_numeral)
  then have "x * of_int (d_cols env) \<le> 157 * 555" using assms c(1) by (intro mult_mono) auto
  then have y: "0 \<le> ?y" "?y \<le> 157 * 555 * 8" using assms c(1) by auto
  then show "\<exists>n. to_int ?y = Some n \<and> 0 \<le> n \<and> n \<le> 700000" by (simp add: to_int_in)
  show "n \<le> 8 * d_cols env" if "x \<le> 1" "to_int ?y = Some n"
  proof -
    have "x * of_int (d_cols env) \<le> 1 * of_int (d_cols env)" using that(1) c(1) by (intro mult_right_mono) auto
    then have "?y \<le> of_int (8 * d_cols env)" by simp
    moreover have "n = \<lfloor>?y\<rfloor>" using that(2) y by (simp add: to_int_in)
    ultimately show ?thesis by linarith
  qed
qed

lemma get_bar_length_eighths_ok:
  assumes env: "env_ok env" and b: "bar_fits b" and r: "rate \<le> 10000000"
  shows "\<exists>n b'. get_bar_length_eighths env rate b = Some (n, b') \<and> 0 \<le> n \<and> n \<le> 700000 \<and> bar_fits b'"
proof (cases "0 < rate")
  case False
  with b show ?thesis by (simp add: get_bar_length_eighths_def)
next
  case True
  obtain mx b' where m: "bar_rescale (max_bandwidth (d_opts env)) rate b = Some (mx, b')" "bar_fits b'" "64000 \<le> mx"
    using bar_rescale_ok [OF env b True r] by blast
  have q: "1 \<le> (of_int rate :: rat)" "64000 \<le> (of_int mx :: rat)" "of_int rate \<le> (10000000 :: rat)" using True r m(3) by auto
  have "0 \<le> of_int rate / (of_int mx :: rat)" "of_int rate / (of_int mx :: rat) \<le> 157" using q by (auto simp: divide_le_eq)
  note lin = eighths_in(1) [OF env this]
  note lq = log_quotient [OF env_okD(4) [OF env] q(1,2)]
  have "d_log env (of_int rate) / d_log env (of_int mx) \<le> 157" using lq(3) [OF q(3)] by simp
  note lg = eighths_in(1) [OF env lq(2) this]
  from True m lin lg lq(1) show ?thesis
    by (cases "log_scale (d_opts env) = 0") (auto simp: get_bar_length_eighths_def)
qed

section \<open>Cells on the screen\<close>

text \<open>A text ends before the right edge; the mark of a scale may touch it.\<close>

fun cell_ok :: "draw_env \<Rightarrow> cell \<Rightarrow> bool" where
  "cell_ok env (Text y x s _ _) \<longleftrightarrow> 0 \<le> y \<and> y < d_lines env \<and> 0 \<le> x \<and> x + int (length s) \<le> d_cols env"
| "cell_ok env (Rule y x n) \<longleftrightarrow> 0 \<le> y \<and> y < d_lines env \<and> 0 \<le> x \<and> x + n \<le> d_cols env"
| "cell_ok env (Symbol y x _) \<longleftrightarrow> 0 \<le> y \<and> y < d_lines env \<and> 0 \<le> x \<and> x \<le> d_cols env"
| "cell_ok env (Reverse y x n _) \<longleftrightarrow> 0 \<le> y \<and> y < d_lines env \<and> 0 \<le> x \<and> 0 < n \<and> x + n \<le> d_cols env"
| "cell_ok env (Help y) \<longleftrightarrow> 0 \<le> y \<and> y < d_lines env"

definition smooth_ok :: "rat list \<Rightarrow> bool" where
  "smooth_ok s \<longleftrightarrow> length s = 256 \<and> (\<forall>v\<in>set s. 0 \<le> v \<and> v \<le> 100000)"

definition screen_ok :: "draw_env \<Rightarrow> draw_state \<Rightarrow> bool" where
  "screen_ok env ds \<longleftrightarrow> list_all (cell_ok env) (cells ds) \<and> bar_fits (bars ds) \<and> smooth_ok (bar_smooth ds)"

definition plain :: "draw_state \<Rightarrow> bool" where
  "plain ds \<longleftrightarrow> tty_pair ds = 0 \<and> \<not> tty_bold ds"

lemma screen_ok_simps [simp]:
  "screen_ok env (emit c ds) \<longleftrightarrow> cell_ok env c \<and> screen_ok env ds"
  "screen_ok env (mvaddstr y x s ds) \<longleftrightarrow>
     0 \<le> y \<and> y < d_lines env \<and> 0 \<le> x \<and> x + int (length s) \<le> d_cols env \<and> screen_ok env ds"
  "screen_ok env (turnOnColor col ds) \<longleftrightarrow> screen_ok env ds"
  "screen_ok env (turnOffColor col ds) \<longleftrightarrow> screen_ok env ds"
  "screen_ok env (ds\<lparr>tty_bold := v\<rparr>) \<longleftrightarrow> screen_ok env ds"
  "screen_ok env (colored env' name y x s ds) \<longleftrightarrow>
     0 \<le> y \<and> y < d_lines env \<and> 0 \<le> x \<and> x + int (length s) \<le> d_cols env \<and> screen_ok env ds"
  by (auto simp: screen_ok_def emit_def mvaddstr_def turnOnColor_def turnOffColor_def colored_def Let_def)

lemma attr_simps [simp]:
  "tty_pair (emit c ds) = tty_pair ds" "tty_bold (emit c ds) = tty_bold ds"
  "tty_pair (mvaddstr y x s ds) = tty_pair ds" "tty_bold (mvaddstr y x s ds) = tty_bold ds"
  "tty_pair (turnOnColor col ds) = fst col" "tty_bold (turnOnColor col ds) \<longleftrightarrow> snd col = 1 \<or> tty_bold ds"
  "tty_pair (turnOffColor col ds) = 0" "tty_bold (turnOffColor col ds) \<longleftrightarrow> snd col \<noteq> 1 \<and> tty_bold ds"
  "tty_pair (colored env name y x s ds) = 0"
  "tty_bold (colored env name y x s ds) \<longleftrightarrow> snd (d_colors env name) \<noteq> 1 \<and> tty_bold ds"
  by (auto simp: emit_def mvaddstr_def turnOnColor_def turnOffColor_def colored_def Let_def)

lemma bars_simps [simp]:
  "bars (emit c ds) = bars ds" "bars (mvaddstr y x s ds) = bars ds" "bars (turnOnColor col ds) = bars ds"
  "bars (turnOffColor col ds) = bars ds" "bars (colored env name y x s ds) = bars ds"
  by (auto simp: emit_def mvaddstr_def turnOnColor_def turnOffColor_def colored_def Let_def)

lemma glide_bounds: "0 \<le> t \<Longrightarrow> t \<le> m \<Longrightarrow> 0 \<le> p \<Longrightarrow> p \<le> m \<Longrightarrow> 0 \<le> glide t p \<and> glide t p \<le> m"
  by (auto simp: glide_def BAR_SMOOTH_FACTOR_def field_simps)

lemma draw_bar_ok:
  assumes env: "env_ok env" and ds: "screen_ok env ds" and bw: "0 \<le> bw" "8 * bw \<le> 10000000"
    and row: "0 \<le> row" "row < d_lines env"
  shows "\<exists>ds'. draw_bar env bw row pair ds = Some ds' \<and> screen_ok env ds' \<and> tty_pair ds' = tty_pair ds \<and> tty_bold ds' = tty_bold ds"
proof -
  have "to_int (8 * bw) = Some \<lfloor>8 * bw\<rfloor>" using bw by (intro to_int_in) auto
  moreover have "\<lfloor>8 * bw\<rfloor> \<le> 10000000" using bw(2) by linarith
  ultimately obtain rate where rate: "to_int (8 * bw) = Some rate" "rate \<le> 10000000" by blast
  have fits: "bar_fits (bars ds)" and sm: "smooth_ok (bar_smooth ds)" using ds by (auto simp: screen_ok_def)
  obtain n b where n: "get_bar_length_eighths env rate (bars ds) = Some (n, b)" "0 \<le> n" "n \<le> 700000" "bar_fits b"
    using get_bar_length_eighths_ok [OF env fits rate(2)] by blast
  let ?t = "of_int n / 8 :: rat"
  have "(of_int n :: rat) \<le> of_int 700000" using n(3) by (simp only: of_int_le_iff)
  then have t: "0 \<le> ?t" "?t \<le> 100000" using n(2) by auto
  have ok: "screen_ok env (ds\<lparr>bars := b\<rparr>)" using ds n(4) by (simp add: screen_ok_def)
  show ?thesis
  proof (cases "row < 256")
    case True
    then have i: "nat row < length (bar_smooth ds)" "0 \<le> row" "row < int (length (bar_smooth ds))" using row sm by (auto simp: smooth_ok_def)
    let ?g = "glide ?t (bar_smooth ds ! nat row)"
    have g: "0 \<le> ?g" "?g \<le> 100000" using glide_bounds [OF t, of "bar_smooth ds ! nat row"] sm i(1) by (auto simp: smooth_ok_def)
    have s: "smooth_ok ((bar_smooth ds)[nat row := ?g])"
      using sm g set_update_subset_insert [of "bar_smooth ds" "nat row" ?g] by (auto simp: smooth_ok_def)
    have "to_int (?g + 1 / 2) = Some \<lfloor>?g + 1 / 2\<rfloor>" using g by (intro to_int_in) auto
    with rate n True i s ok row env_okD(1) [OF env] show ?thesis
      by (simp add: draw_bar_def Let_def BAR_SMOOTH_MAX_ROWS_def mem_simps) (simp add: screen_ok_def)
  next
    case False
    have "to_int (?t + 1 / 2) = Some \<lfloor>?t + 1 / 2\<rfloor>" using t by (intro to_int_in) auto
    with rate n False ok row env_okD(1) [OF env] show ?thesis by (simp add: draw_bar_def Let_def BAR_SMOOTH_MAX_ROWS_def)
  qed
qed

text \<open>What every part of the drawing is shown to do from a plain state.\<close>

definition draws :: "draw_env \<Rightarrow> draw_state option \<Rightarrow> bool" where
  "draws env r \<longleftrightarrow> (\<exists>ds. r = Some ds \<and> screen_ok env ds \<and> plain ds)"

lemma drawsE:
  assumes "draws env r"
  obtains ds where "r = Some ds" "screen_ok env ds" "plain ds"
  using assms by (auto simp: draws_def)

lemma draws_bind:
  assumes "draws env r" "\<And>ds. screen_ok env ds \<Longrightarrow> plain ds \<Longrightarrow> draws env (f ds)"
  shows "draws env (Option.bind r f)"
  using assms by (auto simp: draws_def)

lemma draws_Some [simp]: "draws env (Some ds) \<longleftrightarrow> screen_ok env ds \<and> plain ds"
  by (simp add: draws_def)

lemma plain_simps [simp]:
  "plain (colored env name y x s ds) \<longleftrightarrow> (tty_bold ds \<longrightarrow> snd (d_colors env name) = 1)"
  "plain (mvaddstr y x s ds) \<longleftrightarrow> plain ds" "plain (emit c ds) \<longleftrightarrow> plain ds"
  "plain (turnOffColor col ds) \<longleftrightarrow> (tty_bold ds \<longrightarrow> snd col = 1)"
  by (auto simp: plain_def)

lemma plain_bold: "plain ds \<Longrightarrow> \<not> tty_bold ds"
  by (simp add: plain_def)

section \<open>Lines\<close>

text \<open>Rates of at most 10 Mbit/s in both directions together.\<close>

definition quiet :: "host_pair_line \<Rightarrow> bool" where
  "quiet l \<longleftrightarrow> length (line_sent l) = 3 \<and> length (line_recv l) = 3 \<and>
     (\<forall>j<3. 0 \<le> line_sent l ! j \<and> 0 \<le> line_recv l ! j \<and> 8 * (line_sent l ! j + line_recv l ! j) \<le> 10000000)"

definition pair_quiet :: "rat \<times> rat \<Rightarrow> bool" where
  "pair_quiet p \<longleftrightarrow> 0 \<le> fst p \<and> 0 \<le> snd p \<and> 8 * (fst p + snd p) \<le> 10000000"

lemma quiet_zip:
  assumes "quiet l"
  shows "length (zip (line_sent l) (line_recv l)) = 3" "list_all pair_quiet (zip (line_sent l) (line_recv l))"
  using assms by (auto simp: quiet_def list_all_length pair_quiet_def)

lemma small_text:
  assumes "0 \<le> v" "8 * v \<le> 10000000"
  shows "\<exists>t. size_text v 10 1024 bytes = Some t \<and> length t \<le> 8"
proof (rule size_text_eight)
  have "(if bytes = 0 then v * 8 else v) \<le> 10000000" using assms by auto
  then show "(if bytes = 0 then v * 8 else v) \<le> 99999 * 1024 ^ 3" by simp
qed (use assms in auto)

lemma draw_color_bar_ok:
  assumes env: "env_ok env" and ds: "screen_ok env ds" "plain ds" and bw: "0 \<le> bw" "8 * bw \<le> 10000000"
    and row: "0 \<le> row" "row < d_lines env"
  shows "draws env (draw_color_bar env name bw row ds)"
proof -
  obtain pair attr where c: "d_colors env name = (pair, attr)" by force
  let ?ds = "if attr = 1 then ds\<lparr>tty_bold := True\<rparr> else ds"
  have "screen_ok env ?ds" using ds by simp
  from draw_bar_ok [OF env this bw row, of pair] obtain ds' where d: "draw_bar env bw row pair ?ds = Some ds'"
    "screen_ok env ds'" "tty_pair ds' = tty_pair ?ds" "tty_bold ds' = tty_bold ?ds" by blast
  with c ds show ?thesis by (cases "attr = 1") (auto simp: draw_color_bar_def plain_def)
qed

lemma draw_number_ok:
  assumes ds: "screen_ok env ds" "plain ds" and pos: "0 \<le> row" "row < d_lines env" "0 \<le> col"
    and w: "col + 9 \<le> d_cols env \<or> col + 8 \<le> d_cols env \<and> 0 \<le> v \<and> 8 * v \<le> 10000000"
  shows "draws env (draw_number env v snt rcv row col bytes ds)"
proof -
  obtain t where t: "size_text v 10 1024 bytes = Some t" "length t \<le> 9" using size_text_total [of v 10 1024 bytes] by auto
  with w small_text [of v bytes] have "col + int (length t) \<le> d_cols env" by auto
  with t ds pos show ?thesis by (auto simp: draw_number_def Let_def plain_bold)
qed

definition rows_of :: "option_linedisplay_t \<Rightarrow> int" where
  "rows_of ld = (if ld = OPTION_LINEDISPLAY_TWO_LINE then 2 else 1)"

lemma draw_line_total_ok:
  assumes ds: "screen_ok env ds" "plain ds" and pos: "0 \<le> row" "row + rows_of ld \<le> d_lines env" "0 \<le> col"
    and w: "col + 9 \<le> d_cols env \<or> col + 8 \<le> d_cols env \<and> pair_quiet (s, r)"
  shows "draws env (draw_line_total env s r row col ld bytes ds)"
proof -
  have num: "draws env (draw_number env v s r y col bytes ds')"
    if "screen_ok env ds'" "plain ds'" "v \<in> {s, r, r + s}" "0 \<le> y" "y < d_lines env" for v y ds'
    using that w pos by (intro draw_number_ok) (auto simp: pair_quiet_def)
  show ?thesis using num ds pos by (cases ld) (auto simp: rows_of_def intro!: draws_bind)
qed

lemma draw_columns_ok:
  assumes "screen_ok env ds" "plain ds" "list_all pair_quiet ps"
    and "0 \<le> row" "row + rows_of ld \<le> d_lines env" "0 \<le> x" "x + 8 * int (length ps) \<le> d_cols env"
  shows "draws env (draw_columns env row x ld ps ds)"
  using assms
proof (induction ps arbitrary: x ds)
  case (Cons p ps)
  obtain s r where p: "p = (s, r)" by force
  have "draws env (draw_line_total env s r row x ld (bandwidth_in_bytes (d_opts env)) ds)"
    using Cons.prems p by (intro draw_line_total_ok) auto
  then show ?case using Cons by (auto simp: p intro!: draws_bind)
qed simp

lemma draw_sums_ok:
  assumes "screen_ok env ds" "plain ds" "list_all pair_quiet ps"
    and "0 \<le> y" "y < d_lines env" "0 \<le> x" "x + 8 * int (length ps) \<le> d_cols env"
  shows "draws env (draw_sums env y x ps ds)"
  using assms
proof (induction ps arbitrary: x ds)
  case (Cons p ps)
  obtain s r where p: "p = (s, r)" by force
  obtain t where t: "size_text (s + r) 10 1024 (bandwidth_in_bytes (d_opts env)) = Some t" "length t \<le> 8"
    using small_text [of "s + r"] Cons.prems(3) by (auto simp: p pair_quiet_def)
  then show ?case using Cons by (auto simp: p plain_bold)
qed simp

lemma draw_line_bars_ok:
  assumes env: "env_ok env" and ds: "screen_ok env ds" "plain ds" and l: "quiet l"
    and row: "0 \<le> row" "row + rows_of ld \<le> d_lines env"
  shows "draws env (draw_line_bars env row l ld ds)"
proof -
  let ?i = "bar_interval (d_opts env)" and ?s = "line_sent l ! nat (bar_interval (d_opts env))"
    and ?r = "line_recv l ! nat (bar_interval (d_opts env))"
  have i: "rdi (line_sent l) ?i = Some ?s" "rdi (line_recv l) ?i = Some ?r"
    using env_okD(6) [OF env] l by (auto simp: rdi_def quiet_def)
  have "nat ?i < 3" using env_okD(6) [OF env] by auto
  then have q: "0 \<le> ?s" "0 \<le> ?r" "8 * (?s + ?r) \<le> 10000000" using l by (auto simp: quiet_def)
  have bar: "draws env (draw_color_bar env name v y ds')"
    if "screen_ok env ds'" "plain ds'" "v \<in> {?s, ?r, ?r + ?s}" "0 \<le> y" "y < d_lines env" for name v y ds'
    using that q by (intro draw_color_bar_ok [OF env]) auto
  show ?thesis using bar ds row i by (cases ld) (auto simp: draw_line_bars_def rows_of_def intro!: draws_bind)
qed

lemma draw_line_totals_ok:
  assumes env: "env_ok env" and ds: "screen_ok env ds" "plain ds" and l: "quiet l"
    and row: "0 \<le> row" "row + rows_of ld \<le> d_lines env"
  shows "draws env (draw_line_totals env row l ld ds)"
proof -
  have "draws env (draw_columns env row (d_cols env - 24) ld (zip (line_sent l) (line_recv l)) ds)"
    using ds row quiet_zip [OF l] env_okD(1) [OF env] by (intro draw_columns_ok) auto
  then show ?thesis using draw_line_bars_ok [OF env _ _ l row]
    by (auto simp: draw_line_totals_def HISTORY_DIVISIONS_def intro!: draws_bind)
qed

lemma draw_totals_ok:
  assumes env: "env_ok env" and ds: "screen_ok env ds" "plain ds" and l: "quiet tot"
  shows "draws env (draw_totals env tot ds)"
proof -
  note e = env_okD(1,3) [OF env]
  have sums: "draws env (draw_sums env (d_lines env - 4 + 1 + 2) (d_cols env - 24) (zip (line_sent tot) (line_recv tot)) ds')"
    if "screen_ok env ds'" "plain ds'" for ds'
    using that quiet_zip [OF l] e by (intro draw_sums_ok) auto
  show ?thesis unfolding draw_totals_def Let_def
    using draw_line_totals_ok [OF env ds l, of "d_lines env - 4 + 1" OPTION_LINEDISPLAY_TWO_LINE] e sums
    by (auto simp: rows_of_def HISTORY_DIVISIONS_def intro!: draws_bind)
qed

section \<open>The scale ends\<close>

lemma marker_length:
  assumes env: "env_ok env" and b: "bar_fits b" and mx: "get_max_bandwidth (max_bandwidth (d_opts env)) b = Some mx"
    and r: "0 < rate" "rate \<le> mx"
  shows "\<exists>n b'. get_bar_length_eighths env rate b = Some (n, b') \<and> 0 \<le> n \<and> n \<le> 8 * d_cols env \<and> bar_fits b' \<and>
     get_max_bandwidth (max_bandwidth (d_opts env)) b' = Some mx"
proof -
  have m: "64000 \<le> mx" using max_bandwidth_ok [OF env b] mx by auto
  have "\<exists>b'. bar_rescale (max_bandwidth (d_opts env)) rate b = Some (mx, b') \<and> bar_fits b' \<and>
      get_max_bandwidth (max_bandwidth (d_opts env)) b' = Some mx"
  proof (cases "max_bandwidth (d_opts env) = 0")
    case True
    with mx r b show ?thesis by (auto simp: bar_rescale_def get_max_bandwidth_def)
  next
    case False
    then have lim: "mx = max_bandwidth (d_opts env)" "mx \<le> 10000000" "0 < max_bandwidth (d_opts env)"
      using env_okD(5) [OF env] mx by (auto simp: get_max_bandwidth_def)
    with bar_rescale_ok [OF env b r(1)] r(2) obtain mx' b' where
      "bar_rescale (max_bandwidth (d_opts env)) rate b = Some (mx', b')" "bar_fits b'" by fastforce
    moreover from this(1) r(1) lim have "mx' = mx"
      by (auto simp: bar_rescale_def get_max_bandwidth_def bind_eq_Some_conv split: if_splits)
    ultimately show ?thesis using lim by (auto simp: get_max_bandwidth_def)
  qed
  then obtain b' where b': "bar_rescale (max_bandwidth (d_opts env)) rate b = Some (mx, b')" "bar_fits b'"
    "get_max_bandwidth (max_bandwidth (d_opts env)) b' = Some mx" by blast
  have q: "1 \<le> (of_int rate :: rat)" "64000 \<le> (of_int mx :: rat)" "(of_int rate :: rat) \<le> of_int mx" using r m by auto
  note lq = log_quotient [OF env_okD(4) [OF env] q(1,2)]
  let ?x = "if log_scale (d_opts env) \<noteq> 0 then d_log env (of_int rate) / d_log env (of_int mx) else of_int rate / of_int mx :: rat"
  have x: "0 \<le> ?x" "?x \<le> 1" using lq(2) lq(4) [OF q(3)] q by auto
  then obtain n where n: "to_int (?x * of_int (d_cols env) * 8) = Some n" "0 \<le> n" "n \<le> 8 * d_cols env"
    using eighths_in [OF env x(1)] by force
  have "get_bar_length_eighths env rate b = Some (n, b')"
    using r(1) b'(1) n(1) lq(1) by (cases "log_scale (d_opts env) = 0") (simp_all add: get_bar_length_eighths_def)
  with n b' show ?thesis by blast
qed

lemma draw_marker_ok:
  assumes env: "env_ok env" and ds: "screen_ok env ds" and mx: "get_max_bandwidth (max_bandwidth (d_opts env)) (bars ds) = Some mx"
    and m: "5 / 4 \<le> marker" "marker \<le> of_int mx / 8"
  shows "\<exists>ds'. draw_marker env 0 marker ds = Some ds' \<and> screen_ok env ds' \<and>
     get_max_bandwidth (max_bandwidth (d_opts env)) (bars ds') = Some mx \<and> (tty_bold ds' \<longrightarrow> tty_bold ds)"
proof -
  obtain t where t: "size_text marker 40 (if log_scale (d_opts env) \<noteq> 0 then 1000 else 1024) (bandwidth_in_bytes (d_opts env)) = Some t"
    "length t \<le> 39" using size_text_total [of marker 40] by fastforce
  let ?lab = "dropWhile (\<lambda>c. c = CHR '' '') t"
  have lab: "length ?lab \<le> 39" using t(2) length_dropWhile_le [of _ t] by (rule le_trans [rotated])
  have fits: "bar_fits (bars ds)" using ds by (simp add: screen_ok_def)
  have "mx \<le> 1000000000" using max_bandwidth_ok [OF env fits] mx by auto
  then have "(of_int mx :: rat) \<le> of_int 1000000000" by (simp only: of_int_le_iff)
  with m have "to_int (marker * 8) = Some \<lfloor>marker * 8\<rfloor>" by (intro to_int_in) auto
  moreover have "0 < \<lfloor>marker * 8\<rfloor>" "\<lfloor>marker * 8\<rfloor> \<le> mx" using m by linarith+
  ultimately obtain rate where r: "to_int (marker * 8) = Some rate" "0 < rate" "rate \<le> mx" by blast
  obtain n b where n: "get_bar_length_eighths env rate (bars ds) = Some (n, b)" "0 \<le> n" "n \<le> 8 * d_cols env" "bar_fits b"
    "get_max_bandwidth (max_bandwidth (d_opts env)) b = Some mx" using marker_length [OF env fits mx r(2,3)] by blast
  have x: "get_bar_length env rate (bars ds) = Some (n div 8, b)" "0 \<le> n div 8" "n div 8 \<le> d_cols env"
    using n by (auto simp: get_bar_length_def tdiv_def)
  have "screen_ok env (ds\<lparr>bars := b\<rparr>)" using ds n(4) by (simp add: screen_ok_def)
  with t r x n(5) lab env_okD(1,3) [OF env] show ?thesis by (auto simp: draw_marker_def Let_def)
qed

text \<open>Each marker is well above the one before, so there are finitely many up to the maximum.\<close>

lemma draw_markers_ok:
  assumes env: "env_ok env"
  shows "screen_ok env ds \<Longrightarrow> get_max_bandwidth (max_bandwidth (d_opts env)) (bars ds) = Some mx \<Longrightarrow> 5 / 4 \<le> marker \<Longrightarrow>
    \<exists>ds'. draw_markers env 0 mx marker ds = Some ds' \<and> screen_ok env ds' \<and> (tty_bold ds' \<longrightarrow> tty_bold ds)"
proof (induction "nat \<lceil>of_int mx / 8 - marker\<rceil>" arbitrary: marker ds rule: less_induct)
  case less
  show ?case
  proof (cases "marker \<le> of_int mx / 8")
    case False
    with less.prems show ?thesis by (subst draw_markers.simps) simp
  next
    case True
    obtain ds1 where d: "draw_marker env 0 marker ds = Some ds1" "screen_ok env ds1"
      "get_max_bandwidth (max_bandwidth (d_opts env)) (bars ds1) = Some mx" "tty_bold ds1 \<longrightarrow> tty_bold ds"
      using draw_marker_ok [OF env less.prems(1,2,3) True] by blast
    let ?m = "next_marker env mx marker"
    have "bar_fits (bars ds)" using less.prems(1) by (simp add: screen_ok_def)
    then have "64000 \<le> mx" using max_bandwidth_ok [OF env] less.prems(2) by fastforce
    then have step: "marker + 1 \<le> ?m" using less.prems(3) by (auto simp: next_marker_def get_bar_interval_def)
    moreover have "0 \<le> of_int mx / 8 - marker" using True by simp
    ultimately show ?thesis
    proof (cases "?m \<le> of_int mx / 8")
      case le: True
      have "\<lceil>of_int mx / 8 - ?m\<rceil> + 1 \<le> \<lceil>of_int mx / 8 - marker\<rceil>" using step by linarith
      moreover have "0 \<le> \<lceil>of_int mx / 8 - ?m\<rceil>" using le by simp
      ultimately have "nat \<lceil>of_int mx / 8 - ?m\<rceil> < nat \<lceil>of_int mx / 8 - marker\<rceil>" by linarith
      from less.hyps [OF this d(2,3)] step less.prems(3) d True show ?thesis by (subst draw_markers.simps) auto
    next
      case gt: False
      then have "draw_markers env 0 mx ?m ds1 = Some ds1" by (subst draw_markers.simps) simp
      with d True show ?thesis by (subst draw_markers.simps) auto
    qed
  qed
qed

lemma draw_bar_scale_ok:
  assumes env: "env_ok env" and ds: "screen_ok env ds"
  shows "\<exists>y ds'. draw_bar_scale env 0 ds = Some (y, ds') \<and> 0 \<le> y \<and> y \<le> 2 \<and> screen_ok env ds' \<and> (tty_bold ds' \<longrightarrow> tty_bold ds)"
proof -
  note e = env_okD(1,3) [OF env]
  have fits: "bar_fits (bars ds)" using ds by (simp add: screen_ok_def)
  obtain mx where mx: "get_max_bandwidth (max_bandwidth (d_opts env)) (bars ds) = Some mx" "64000 \<le> mx"
    using max_bandwidth_ok [OF env fits] by blast
  let ?ds = "emit (Rule 1 0 (d_cols env)) ds" and ?m = "if log_scale (d_opts env) \<noteq> 0 then 5 / 4 else of_int mx / (5 * 8) :: rat"
  have "screen_ok env ?ds" "get_max_bandwidth (max_bandwidth (d_opts env)) (bars ?ds) = Some mx" "5 / 4 \<le> ?m" using ds e mx by auto
  from draw_markers_ok [OF env this] obtain ds' where
    "draw_markers env 0 mx ?m ?ds = Some ds'" "screen_ok env ds'" "tty_bold ds' \<longrightarrow> tty_bold ds" by auto
  with ds e mx show ?thesis by (cases "showbars (d_opts env) = 0") (simp_all add: draw_bar_scale_def)
qed

section \<open>The screen\<close>

lemma line_text_ok: "env_ok env \<Longrightarrow> \<exists>t. line_text env v bytes = Some t \<and> length t \<le> 9"
  using size_text_total [of v 10 1024 bytes] env_okD(1) [of env] by (auto simp: line_text_def)

lemma draw_footer_ok:
  assumes env: "env_ok env" and ds: "screen_ok env ds" "plain ds" and tot: "quiet tot"
  shows "draws env (draw_footer env cum peaks tot ds)"
proof -
  note e = env_okD(1,3) [OF env]
  obtain t1 t2 t3 t4 t5 t6 where t:
    "line_text env (of_nat (unat (fst cum))) 1 = Some t1" "length t1 \<le> 9"
    "line_text env (of_nat (unat (snd cum))) 1 = Some t2" "length t2 \<le> 9"
    "line_text env (of_nat (unat (snd cum + fst cum))) 1 = Some t3" "length t3 \<le> 9"
    "line_text env (of_int (fst peaks) / RESOLUTION) (bandwidth_in_bytes (d_opts env)) = Some t4" "length t4 \<le> 9"
    "line_text env (of_int (fst (snd peaks)) / RESOLUTION) (bandwidth_in_bytes (d_opts env)) = Some t5" "length t5 \<le> 9"
    "line_text env (of_int (snd (snd peaks)) / RESOLUTION) (bandwidth_in_bytes (d_opts env)) = Some t6" "length t6 \<le> 9"
    using line_text_ok [OF env] by metis
  show ?thesis unfolding draw_footer_def
    using t ds e by (simp add: Let_def plain_bold HISTORY_DIVISIONS_def) (intro draw_totals_ok [OF env _ _ tot]; auto simp: plain_bold)
qed

definition hint_ok :: "draw_env \<Rightarrow> ui_state \<Rightarrow> bool" where
  "hint_ok env ui \<longleftrightarrow> showhelphint ui = 0 \<or> (\<exists>s. holds (helpmsg ui) s \<and> int (length s) + 2 \<le> d_cols env)"

lemma draw_hint_ok:
  assumes env: "env_ok env" and ds: "screen_ok env ds" "plain ds" and ui: "hint_ok env ui"
  shows "draws env (draw_hint ui ds)"
proof (cases "showhelphint ui = 0")
  case False
  with ui obtain s where s: "holds (helpmsg ui) s" "int (length s) + 2 \<le> d_cols env" by (auto simp: hint_ok_def)
  with c_strlen_holds [OF s(1), of 0] c_string_holds [OF s(1)] False ds env_okD(3) [OF env]
  show ?thesis by (simp add: draw_hint_def)
qed (use ds in \<open>simp add: draw_hint_def\<close>)

definition row_fits :: "draw_env \<Rightarrow> int \<Rightarrow> row \<Rightarrow> bool" where
  "row_fits env L w \<longleftrightarrow> 0 \<le> row_y w \<and> row_y w + 2 \<le> d_lines env \<and> int (length (row_host1 w)) = L \<and> int (length (row_host2 w)) = L \<and>
     quiet (row_line w) \<and> 0 \<le> line_pid (row_line w) \<and> line_pid (row_line w) < 2 ^ 31"

lemma host_width_bound:
  assumes "48 \<le> cols"
  shows "1 \<le> host_width op cols" "2 * host_width op cols + 28 \<le> cols \<or> host_width op cols = 1"
    "show_processes op \<noteq> 0 \<Longrightarrow> 2 * host_width op cols + 44 \<le> cols \<or> host_width op cols = 1"
  using assms by (auto simp: host_width_def tdiv_def HISTORY_DIVISIONS_def HOSTNAME_LENGTH_def Let_def)

lemma proc_label_length:
  assumes "0 \<le> line_pid l" "line_pid l < 2 ^ 31"
  shows "length (proc_label l) \<le> 26"
proof -
  have "length (print_nat (nat (line_pid l))) \<le> 10" using assms by (intro print_nat_length) auto
  with assms show ?thesis by (simp add: print_int_def proc_label_def)
qed

lemma draw_arrows_ok:
  assumes "screen_ok env ds" "plain ds" "0 \<le> y" "y + 2 \<le> d_lines env" "0 \<le> x" "x + 4 \<le> d_cols env"
  shows "screen_ok env (draw_arrows env y x ds)" "plain (draw_arrows env y x ds)"
  using assms by (auto simp: draw_arrows_def Let_def plain_bold split: option_linedisplay_t.split)

lemma draw_hosts_ok:
  assumes env: "env_ok env" and ds: "screen_ok env ds" "plain ds" and L: "L = host_width (d_opts env) (d_cols env)"
    and w: "row_fits env L w"
  shows "screen_ok env (draw_hosts env L w ds)" "plain (draw_hosts env L w ds)"
proof -
  note w' = w [unfolded row_fits_def] and hw = host_width_bound [OF env_okD(1) [OF env], of "d_opts env", folded L]
  have hosts: "2 * L + 4 \<le> d_cols env" "show_processes (d_opts env) \<noteq> 0 \<Longrightarrow> 2 * L + 4 + 26 \<le> d_cols env" "1 \<le> L"
    using hw env_okD(1) [OF env] by auto
  let ?ds = "colored env ''HOST1_COLOR'' (row_y w) 0 (row_host1 w) ds"
  have "screen_ok env ?ds" "plain ?ds" using ds w' hosts by (auto simp: plain_bold)
  then have a: "screen_ok env (draw_arrows env (row_y w) L ?ds)" "plain (draw_arrows env (row_y w) L ?ds)"
    using w' hosts by (auto intro!: draw_arrows_ok)
  with proc_label_length [of "row_line w"] w' hosts show "screen_ok env (draw_hosts env L w ds)" "plain (draw_hosts env L w ds)"
    by (auto simp: draw_hosts_def Let_def plain_bold)
qed

lemma draw_row_ok:
  assumes env: "env_ok env" and ds: "screen_ok env ds" "plain ds" and L: "L = host_width (d_opts env) (d_cols env)"
    and w: "row_fits env L w"
  shows "draws env (draw_row env L w ds)"
proof -
  note e = env_okD(1,3) [OF env] and w' = w [unfolded row_fits_def]
  have rows: "rows_of ld \<le> 2" for ld by (simp add: rows_of_def)
  have lin: "draws env (draw_line_totals env (row_y w) (row_line w) (linedisplay (d_opts env)) ds')"
    if "screen_ok env ds'" "plain ds'" for ds'
    using that w' rows [of "linedisplay (d_opts env)"] by (intro draw_line_totals_ok [OF env]) auto
  have tot: "draws env (draw_line_total env s r (row_y w) (d_cols env - 32) (linedisplay (d_opts env)) 1 ds')"
    if "screen_ok env ds'" "plain ds'" for ds' s r
    using that w' rows [of "linedisplay (d_opts env)"] e by (intro draw_line_total_ok) auto
  show ?thesis using draw_hosts_ok [OF env ds L w] tot lin
    by (auto simp: draw_row_def Let_def HISTORY_DIVISIONS_def intro!: draws_bind)
qed

lemma draw_rows_ok:
  assumes env: "env_ok env" and L: "L = host_width (d_opts env) (d_cols env)"
  shows "screen_ok env ds \<Longrightarrow> plain ds \<Longrightarrow> \<forall>w\<in>set ws. row_fits env L w \<Longrightarrow> draws env (draw_rows env L ws ds)"
proof (induction ws arbitrary: ds)
  case (Cons w ws)
  then show ?case using draw_row_ok [OF env Cons.prems(1,2) L, of w] by (auto intro!: draws_bind)
qed simp

text \<open>One repaint: what it is given.\<close>

record frame =
  f_env :: draw_env
  f_ui :: ui_state
  f_cum :: "u64 \<times> u64"
  f_peaks :: "int \<times> int \<times> int"
  f_tot :: host_pair_line
  f_lines :: "host_pair_line list"

definition frame_ok :: "frame \<Rightarrow> bool" where
  "frame_ok f \<longleftrightarrow> env_ok (f_env f) \<and> serv_inv (n_services (d_names (f_env f))) \<and> hint_ok (f_env f) (f_ui f) \<and> quiet (f_tot f) \<and>
     host_width (d_opts (f_env f)) (d_cols (f_env f)) \<le> 255 \<and>
     (\<forall>l\<in>set (f_lines f). line_ready (d_names (f_env f)) (host_width (d_opts (f_env f)) (d_cols (f_env f))) l \<and>
        quiet l \<and> 0 \<le> line_pid l \<and> line_pid l < 2 ^ 31)"

definition paint :: "frame \<Rightarrow> resolver_state \<times> draw_state \<Rightarrow> (resolver_state \<times> draw_state) option" where
  "paint f = ui_print (f_env f) (f_ui f) (f_cum f) (f_peaks f) (f_tot f) (f_lines f)"

fun repaints :: "frame list \<Rightarrow> resolver_state \<times> draw_state \<Rightarrow> (resolver_state \<times> draw_state) option" where
  "repaints [] s = Some s"
| "repaints (f # fs) s = Option.bind (paint f s) (repaints fs)"

definition draw_start :: draw_state where
  "draw_start = \<lparr>bars = bar_start, bar_smooth = replicate BAR_SMOOTH_MAX_ROWS 0, tty_pair = 0, tty_bold = False, cells = []\<rparr>"

definition draw_inv :: "draw_state \<Rightarrow> bool" where
  "draw_inv ds \<longleftrightarrow> bar_fits (bars ds) \<and> smooth_ok (bar_smooth ds) \<and> plain ds"

lemma bar_autoscale_fits: "bar_fits b \<Longrightarrow> bar_fits (bar_autoscale mb b)"
  by (auto simp: bar_fits_def bar_autoscale_def)

lemma subseq_set: "subseq xs ys \<Longrightarrow> set xs \<subseteq> set ys"
  by (induction rule: list_emb.induct) auto

lemma print_lines_ok:
  assumes f: "frame_ok f" and r: "rs_inv r" and y: "0 \<le> y"
  defines "env \<equiv> f_env f"
  shows "\<exists>rows r'. ui_print_lines (d_names env) (d_matches env) (d_lines env) (d_cols env) y r (f_lines f) = Some (rows, r') \<and> rs_inv r' \<and>
     (\<forall>w\<in>set rows. row_fits env (host_width (d_opts env) (d_cols env)) w)"
proof (cases "showhelp (d_opts env) = 0")
  case False
  with r show ?thesis by (simp add: ui_print_lines_def)
next
  case True
  let ?L = "host_width (d_opts env) (d_cols env)" and ?ls = "drop (nat (screen_offset (d_opts env))) (f_lines f)"
  have f': "env_ok env" "serv_inv (n_services (d_names env))" "?L \<le> 255"
    "\<forall>l\<in>set (f_lines f). line_ready (d_names env) ?L l \<and> quiet l \<and> 0 \<le> line_pid l \<and> line_pid l < 2 ^ 31"
    using f by (auto simp: frame_ok_def env_def)
  have L: "1 \<le> ?L" using host_width_bound(1) [OF env_okD(1) [OF f'(1)]] .
  have ready: "\<forall>l\<in>set ?ls. line_ready (d_names env) ?L l" using f'(4) by (auto dest: in_set_dropD)
  obtain rows r' where u: "ui_rows (d_names env) (d_matches env) (d_lines env) ?L y r ?ls = Some (rows, r')" "rs_inv r'"
    "subseq (map row_line rows) ?ls"
    "\<forall>w\<in>set rows. y \<le> row_y w \<and> row_y w < d_lines env - 5 \<and> int (length (row_host1 w)) = ?L \<and> int (length (row_host2 w)) = ?L"
    using ui_rows_ok [OF r f'(2) L f'(3) ready, of "d_matches env" "d_lines env" y] by (elim exE conjE) (rule that; blast)
  have "set (map row_line rows) \<subseteq> set (f_lines f)"
    by (rule order_trans [OF subseq_set [OF u(3)] set_drop_subset])
  then have "\<forall>w\<in>set rows. row_fits env ?L w" using u(4) f'(4) y by (auto simp: row_fits_def)
  with u True show ?thesis by (auto simp: ui_print_lines_def)
qed

lemma paint_ok:
  assumes f: "frame_ok f" and r: "rs_inv r" and ds: "draw_inv ds"
  shows "\<exists>r' ds'. paint f (r, ds) = Some (r', ds') \<and> rs_inv r' \<and> draw_inv ds' \<and>
     (dontshowdisplay (f_ui f) = 0 \<longrightarrow> list_all (cell_ok (f_env f)) (cells ds'))"
proof (cases "dontshowdisplay (f_ui f) = 0")
  case False
  with r ds show ?thesis by (simp add: paint_def ui_print_def)
next
  case True
  define env where "env = f_env f"
  have f': "env_ok env" "hint_ok env (f_ui f)" "quiet (f_tot f)" using f by (auto simp: frame_ok_def env_def)
  let ?c = "d_colors env ''SCALE_BAR_COLOR''"
  let ?ds = "turnOnColor ?c (ds\<lparr>cells := []\<rparr>)"
  have "screen_ok env (ds\<lparr>cells := []\<rparr>)" using ds by (simp add: screen_ok_def draw_inv_def)
  then have "screen_ok env ?ds" by simp
  from draw_bar_scale_ok [OF f'(1) this] obtain y ds1 where s: "draw_bar_scale env 0 ?ds = Some (y, ds1)" "0 \<le> y" "y \<le> 2"
    "screen_ok env ds1" "tty_bold ds1 \<longrightarrow> snd ?c = 1" using ds by (auto simp: draw_inv_def plain_def)
  let ?ds2 = "if showhelp (d_opts env) \<noteq> 0 then emit (Help y) (turnOffColor ?c ds1) else turnOffColor ?c ds1"
  have 2: "screen_ok env ?ds2" "plain ?ds2" using s env_okD(3) [OF f'(1)] by auto
  obtain rows r' where p: "ui_print_lines (d_names env) (d_matches env) (d_lines env) (d_cols env) y r (f_lines f) = Some (rows, r')"
    "rs_inv r'" "\<forall>w\<in>set rows. row_fits env (host_width (d_opts env) (d_cols env)) w"
    using print_lines_ok [OF f r s(2)] unfolding env_def by blast
  obtain ds3 where 3: "draw_rows env (host_width (d_opts env) (d_cols env)) rows ?ds2 = Some ds3" "screen_ok env ds3" "plain ds3"
    using draw_rows_ok [OF f'(1) refl 2 p(3)] by (rule drawsE)
  obtain ds4 where 4: "draw_footer env (f_cum f) (f_peaks f) (f_tot f) ds3 = Some ds4" "screen_ok env ds4" "plain ds4"
    using draw_footer_ok [OF f'(1) 3(2,3) f'(3)] by (rule drawsE)
  obtain ds5 where 5: "draw_hint (f_ui f) ds4 = Some ds5" "screen_ok env ds5" "plain ds5"
    using draw_hint_ok [OF f'(1) 4(2,3) f'(2)] by (rule drawsE)
  have "paint f (r, ds) = Some (r', ds5\<lparr>bars := bar_autoscale (max_bandwidth (d_opts env)) (bars ds5)\<rparr>)"
    using True s(1) p(1) 3(1) 4(1) 5(1) by (simp add: paint_def ui_print_def env_def [symmetric] Let_def)
  moreover have "draw_inv (ds5\<lparr>bars := bar_autoscale (max_bandwidth (d_opts env)) (bars ds5)\<rparr>)"
    using 5 bar_autoscale_fits by (auto simp: draw_inv_def screen_ok_def plain_def)
  ultimately show ?thesis using 5(2) p(2) by (auto simp: screen_ok_def env_def)
qed

lemma draw_start_inv: "draw_inv draw_start"
  by (auto simp: draw_inv_def draw_start_def bar_start_def bar_fits_def smooth_ok_def BAR_SMOOTH_MAX_ROWS_def plain_def)

lemma repaints_ok:
  assumes "\<forall>f\<in>set fs. frame_ok f" "rs_inv r" "draw_inv ds"
  shows "\<exists>r' ds'. repaints fs (r, ds) = Some (r', ds') \<and> rs_inv r' \<and> draw_inv ds' \<and>
     (fs \<noteq> [] \<and> dontshowdisplay (f_ui (last fs)) = 0 \<longrightarrow> list_all (cell_ok (f_env (last fs))) (cells ds'))"
  using assms
proof (induction fs arbitrary: r ds)
  case (Cons f fs)
  obtain r1 ds1 where p: "paint f (r, ds) = Some (r1, ds1)" "rs_inv r1" "draw_inv ds1"
    "dontshowdisplay (f_ui f) = 0 \<longrightarrow> list_all (cell_ok (f_env f)) (cells ds1)"
    using paint_ok [of f r ds] Cons.prems by auto
  from Cons.IH [OF _ p(2,3)] Cons.prems(1) p(1,4) show ?case by (cases "fs = []") auto
qed simp

section \<open>Gliding bars\<close>

lemma glide_closer: "\<bar>glide t p - t\<bar> \<le> max (1 / 2) (85 / 100 * \<bar>p - t\<bar>)" if "0 \<le> t"
proof (cases "p < 1 / 2 \<and> t < 1 / 2")
  case True
  with that show ?thesis by (auto simp: glide_def le_max_iff_disj)
next
  case False
  then have "glide t p - t = 85 / 100 * (p - t)" by (auto simp: glide_def BAR_SMOOTH_FACTOR_def field_simps)
  then have "\<bar>glide t p - t\<bar> = 85 / 100 * \<bar>p - t\<bar>" by (simp only: abs_mult)
  then show ?thesis by (simp only: max.cobounded2)
qed

fun redraw :: "draw_env \<Rightarrow> rat \<Rightarrow> int \<Rightarrow> int \<Rightarrow> nat \<Rightarrow> draw_state \<Rightarrow> draw_state option" where
  "redraw env bw row pair 0 ds = Some ds"
| "redraw env bw row pair (Suc n) ds = Option.bind (redraw env bw row pair n ds) (draw_bar env bw row pair)"

lemma draw_bar_glides:
  assumes len: "to_int (8 * bw) = Some rate" "get_bar_length_eighths env rate (bars ds) = Some (e, bars ds)" "0 \<le> e" "e \<le> 700000"
    and row: "0 \<le> row" "row < 256" and sm: "smooth_ok (bar_smooth ds)"
  shows "\<exists>ds'. draw_bar env bw row pair ds = Some ds' \<and> bars ds' = bars ds \<and> smooth_ok (bar_smooth ds') \<and>
     bar_smooth ds' ! nat row = glide (of_int e / 8) (bar_smooth ds ! nat row)"
proof -
  let ?t = "of_int e / 8 :: rat" and ?p = "bar_smooth ds ! nat row"
  have "(of_int e :: rat) \<le> of_int 700000" using len(4) by (simp only: of_int_le_iff)
  then have t: "0 \<le> ?t" "?t \<le> 100000" using len(3) by auto
  have i: "nat row < length (bar_smooth ds)" "row < int (length (bar_smooth ds))" using row sm by (auto simp: smooth_ok_def)
  have g: "0 \<le> glide ?t ?p" "glide ?t ?p \<le> 100000" using glide_bounds [OF t, of ?p] sm i(1) by (auto simp: smooth_ok_def)
  have s: "smooth_ok ((bar_smooth ds)[nat row := glide ?t ?p])"
    using sm g set_update_subset_insert [of "bar_smooth ds" "nat row"] by (auto simp: smooth_ok_def)
  have "to_int (glide ?t ?p + 1 / 2) = Some \<lfloor>glide ?t ?p + 1 / 2\<rfloor>" using g by (intro to_int_in) auto
  with len row i s show ?thesis by (simp add: draw_bar_def Let_def BAR_SMOOTH_MAX_ROWS_def mem_simps emit_def)
qed

lemma redraw_close:
  assumes len: "to_int (8 * bw) = Some rate" "get_bar_length_eighths env rate (bars ds) = Some (e, bars ds)" "0 \<le> e" "e \<le> 700000"
    and row: "0 \<le> row" "row < 256" and sm: "smooth_ok (bar_smooth ds)"
  shows "\<exists>ds'. redraw env bw row pair n ds = Some ds' \<and> bars ds' = bars ds \<and> smooth_ok (bar_smooth ds') \<and>
     \<bar>bar_smooth ds' ! nat row - of_int e / 8\<bar> \<le> max (1 / 2) ((85 / 100) ^ n * \<bar>bar_smooth ds ! nat row - of_int e / 8\<bar>)"
proof (induction n)
  case (Suc n)
  let ?t = "of_int e / 8 :: rat"
  from Suc obtain ds1 where 1: "redraw env bw row pair n ds = Some ds1" "bars ds1 = bars ds" "smooth_ok (bar_smooth ds1)"
    "\<bar>bar_smooth ds1 ! nat row - ?t\<bar> \<le> max (1 / 2) ((85 / 100) ^ n * \<bar>bar_smooth ds ! nat row - ?t\<bar>)" by blast
  from draw_bar_glides [OF len(1) _ len(3,4) row 1(3)] len(2) 1(2) obtain ds2 where
    2: "draw_bar env bw row pair ds1 = Some ds2" "bars ds2 = bars ds" "smooth_ok (bar_smooth ds2)"
    "bar_smooth ds2 ! nat row = glide ?t (bar_smooth ds1 ! nat row)" by metis
  have "\<bar>bar_smooth ds2 ! nat row - ?t\<bar> \<le> max (1 / 2) (85 / 100 * \<bar>bar_smooth ds1 ! nat row - ?t\<bar>)"
    unfolding 2(4) using len(3) by (intro glide_closer) simp
  also have "\<dots> \<le> max (1 / 2) ((85 / 100) ^ Suc n * \<bar>bar_smooth ds ! nat row - ?t\<bar>)"
    using 1(4) by (auto simp: max_def split: if_splits)
  finally show ?case using 1(1) 2 by auto
qed (simp add: sm)

text \<open>A rate within the automatic scale leaves the scale as it is.\<close>

lemma steady_length:
  assumes env: "env_ok env" "max_bandwidth (d_opts env) = 0" and b: "bar_fits b"
    and r: "8 * (bw :: rat) \<le> of_int (scale ! nat (rateidx b))"
  shows "\<exists>e. get_bar_length_eighths env \<lfloor>8 * bw\<rfloor> b = Some (e, b) \<and> 0 \<le> e \<and> e \<le> 8 * d_cols env"
proof (cases "0 < \<lfloor>8 * bw\<rfloor>")
  case False
  then show ?thesis using env_okD(1) [OF env(1)] by (auto simp: get_bar_length_eighths_def)
next
  case True
  let ?mx = "scale ! nat (rateidx b)"
  note rd = scale_bounds(3) [of "rateidx b"]
  have mx: "rdi scale (rateidx b) = Some ?mx" using bar_fits_idx [OF b] rd by simp
  then have gm: "get_max_bandwidth (max_bandwidth (d_opts env)) b = Some ?mx" by (simp add: get_max_bandwidth_def env(2))
  have le: "\<lfloor>8 * bw\<rfloor> \<le> ?mx" using r by linarith
  from marker_length [OF env(1) b gm True le] obtain e b' where
    e: "get_bar_length_eighths env \<lfloor>8 * bw\<rfloor> b = Some (e, b')" "0 \<le> e" "e \<le> 8 * d_cols env" by blast
  moreover have "bar_rescale (max_bandwidth (d_opts env)) \<lfloor>8 * bw\<rfloor> b = Some (?mx, b)"
    using mx le gm True by (auto simp: bar_rescale_def)
  with e(1) True have "b' = b" by (auto simp: get_bar_length_eighths_def bind_eq_Some_conv split: if_splits)
  ultimately show ?thesis by blast
qed

section \<open>A limit above the scales\<close>

lemma markers_step_overrun:
  assumes lim: "501000000 \<le> max_bandwidth (d_opts env)" "max_bandwidth (d_opts env) \<le> 1000000000" and bars: "rateidx (bars ds) = 7"
    and m: "0 < \<lfloor>marker * 8\<rfloor>" "marker \<le> of_int (max_bandwidth (d_opts env)) / 8"
  shows "draw_marker env row marker ds = None"
proof -
  have "(of_int (max_bandwidth (d_opts env)) :: rat) \<le> of_int 1000000000" using lim(2) by (simp only: of_int_le_iff)
  moreover have "0 \<le> marker" using m(1) by linarith
  ultimately have "to_int (marker * 8) = Some \<lfloor>marker * 8\<rfloor>" using m(2) by (intro to_int_in) auto
  with m(1) bars show ?thesis
    by (simp add: draw_marker_def get_bar_length_def get_bar_length_eighths_def bar_rescale_def rdi_def scale_def bind_eq_None_conv)
qed

lemma unit_in:
  fixes x :: rat
  assumes "0 \<le> x" "x \<le> 1" "0 \<le> c" "c \<le> 555"
  shows "\<exists>n. to_int (x * of_int c * 8) = Some n"
proof -
  have "(of_int c :: rat) \<le> of_int 555" using assms(4) by (simp only: of_int_le_iff)
  then have "x * of_int c \<le> 1 * 555" using assms by (intro mult_mono) auto
  then have "to_int (x * of_int c * 8) = Some \<lfloor>x * of_int c * 8\<rfloor>" using assms by (intro to_int_in) auto
  then show ?thesis by blast
qed

lemma markers_overrun:
  assumes lim: "501000000 \<le> max_bandwidth (d_opts env)" "max_bandwidth (d_opts env) \<le> 1000000000"
    and lin: "log_scale (d_opts env) = 0" and bars: "bars ds = bar_start" and cols: "0 \<le> d_cols env" "d_cols env \<le> 555"
  shows "draw_markers env row (max_bandwidth (d_opts env)) (of_int (max_bandwidth (d_opts env)) / (5 * 8)) ds = None"
proof -
  let ?mx = "max_bandwidth (d_opts env)"
  let ?m = "of_int ?mx / (5 * 8) :: rat"
  have q: "(of_int 501000000 :: rat) \<le> of_int ?mx" "(of_int ?mx :: rat) \<le> of_int 1000000000" using lim by (simp_all only: of_int_le_iff)
  then have rate: "to_int (?m * 8) = Some \<lfloor>?m * 8\<rfloor>" by (intro to_int_in) auto
  have big: "100000000 < \<lfloor>?m * 8\<rfloor>" "\<lfloor>?m * 8\<rfloor> \<le> 1000000000" using q by linarith+
  have res: "bar_rescale ?mx \<lfloor>?m * 8\<rfloor> (bars ds) = Some (?mx, \<lparr>rateidx = 7, wantbiggerrate = 1, rateidx_init = 7\<rparr>)"
    using big lim by (simp add: bar_rescale_def bars bar_start_def rdi_def scale_search_eq get_max_bandwidth_def) (simp add: scale_def)
  have "(of_int \<lfloor>?m * 8\<rfloor> :: rat) \<le> of_int ?mx" using q by linarith
  then have x: "0 \<le> of_int \<lfloor>?m * 8\<rfloor> / (of_int ?mx :: rat)" "of_int \<lfloor>?m * 8\<rfloor> / (of_int ?mx :: rat) \<le> 1" using big q by auto
  obtain n where n: "to_int (of_int \<lfloor>?m * 8\<rfloor> / of_int ?mx * of_int (d_cols env) * 8) = Some n" using unit_in [OF x cols] by blast
  obtain t where t: "size_text ?m 40 1024 (bandwidth_in_bytes (d_opts env)) = Some t" using size_text_total [of ?m 40 1024] by blast
  obtain ds' where ds': "draw_marker env row ?m ds = Some ds'" "rateidx (bars ds') = 7"
    using rate res n t lin big
    by (auto simp: draw_marker_def Let_def get_bar_length_def get_bar_length_eighths_def)
  let ?m2 = "next_marker env ?mx ?m"
  have m2: "?m2 = of_int ?mx / 20" by (simp add: next_marker_def lin)
  have "draw_marker env row ?m2 ds' = None" unfolding m2 using q by (intro markers_step_overrun [OF lim ds'(2)]) (linarith | simp)+
  then have "draw_markers env row ?mx ?m2 ds' = None" unfolding m2 using q by (subst draw_markers.simps) simp
  with ds'(1) q show ?thesis by (subst draw_markers.simps) simp
qed

section \<open>Properties\<close>


definition example_draw :: draw_env where
  "example_draw = \<lparr>d_names = example_names, d_colors = default_colors, d_cols = 80, d_lines = 24,
     d_log = (\<lambda>x. if x < 64000 then 0 else 1), d_has_colors = True, d_matches = (\<lambda>_. True)\<rparr>"

definition example_frame :: frame where
  "example_frame = \<lparr>f_env = example_draw, f_ui = start_ui, f_cum = (0, 0), f_peaks = (0, 0, 0), f_tot = line_zero,
     f_lines = [line_zero]\<rparr>"

lemma example_frame_ok: "frame_ok example_frame"
proof -
  have "env_ok example_draw"
    by (auto simp: env_ok_def example_draw_def example_names_def plain_options_def options_set_defaults_def log_ok_def)
  moreover have "quiet line_zero" by (auto simp: quiet_def line_zero_def HISTORY_DIVISIONS_def)
  moreover have "host_width (d_opts example_draw) 80 = 18"
    by (simp add: example_draw_def example_names_def plain_options_def options_set_defaults_def host_width_def tdiv_def
        HISTORY_DIVISIONS_def HOSTNAME_LENGTH_def)
  moreover have "line_ready example_names 18 line_zero"
    by (simp add: line_ready_def host_ready_def line_zero_def addr_pair_zero_def addr_pair_ok_def list_all_iff)
  ultimately show ?thesis
    by (simp add: frame_ok_def example_frame_def hint_ok_def start_ui_def line_zero_def serv_table_create_inv)
      (simp add: example_draw_def example_names_def serv_table_create_inv)
qed


text \<open>C33: bars settle. While a line's rate stays the same, below the current automatic scale and
  at most 10 Mbit/s, its bar has the same wanted length \<open>e\<close> (in eighths of a column, at most the width of the
  screen) at every repaint, and after \<open>n\<close> repaints the bar is within half a column of it, or
  the distance has shrunk to \<open>0.85\<^sup>n\<close> of what it was.\<close>

theorem bar_glide:
  assumes env: "env_ok env" "max_bandwidth (d_opts env) = 0" and fits: "bar_fits (bars ds)"
    and rate: "0 \<le> bw" "8 * bw \<le> 10000000" "8 * bw \<le> of_int (scale ! nat (rateidx (bars ds)))"
    and row: "0 \<le> row" "row < 256" and sm: "smooth_ok (bar_smooth ds)"
  shows "\<exists>e. 0 \<le> e \<and> e \<le> 8 * d_cols env \<and> (\<forall>n. \<exists>ds'. redraw env bw row pair n ds = Some ds' \<and> bars ds' = bars ds \<and>
     get_bar_length_eighths env \<lfloor>8 * bw\<rfloor> (bars ds') = Some (e, bars ds') \<and>
     \<bar>bar_smooth ds' ! nat row - of_int e / 8\<bar> \<le> max (1 / 2) ((85 / 100) ^ n * \<bar>bar_smooth ds ! nat row - of_int e / 8\<bar>))"
proof -
  have r: "to_int (8 * bw) = Some \<lfloor>8 * bw\<rfloor>" using rate by (intro to_int_in) auto
  obtain e where e: "get_bar_length_eighths env \<lfloor>8 * bw\<rfloor> (bars ds) = Some (e, bars ds)" "0 \<le> e" "e \<le> 8 * d_cols env"
    using steady_length [OF env fits rate(3)] by blast
  then have "e \<le> 700000" using env_okD(2) [OF env(1)] by linarith
  note rd = redraw_close [OF r e(1,2) this row sm]
  show ?thesis
  proof (intro exI [of _ e] conjI allI)
    fix n
    from rd [of pair n] obtain ds' where "redraw env bw row pair n ds = Some ds'" "bars ds' = bars ds"
      "\<bar>bar_smooth ds' ! nat row - of_int e / 8\<bar> \<le> max (1 / 2) ((85 / 100) ^ n * \<bar>bar_smooth ds ! nat row - of_int e / 8\<bar>)" by blast
    with e(1) show "\<exists>ds'. redraw env bw row pair n ds = Some ds' \<and> bars ds' = bars ds \<and>
        get_bar_length_eighths env \<lfloor>8 * bw\<rfloor> (bars ds') = Some (e, bars ds') \<and>
        \<bar>bar_smooth ds' ! nat row - of_int e / 8\<bar> \<le> max (1 / 2) ((85 / 100) ^ n * \<bar>bar_smooth ds ! nat row - of_int e / 8\<bar>)"
      by (intro exI [of _ ds']) simp
  qed (use e in auto)
qed

theorem bar_glide_witness:
  "\<exists>e. 0 \<le> e \<and> e \<le> 8 * 80 \<and> (\<forall>n. \<exists>ds'. redraw example_draw 4000 7 1 n draw_start = Some ds' \<and>
     \<bar>bar_smooth ds' ! 7 - of_int e / 8\<bar> \<le> max (1 / 2) ((85 / 100) ^ n * (of_int e / 8)))"
proof -
  have "env_ok example_draw" "max_bandwidth (d_opts example_draw) = 0" "d_cols example_draw = 80"
    using example_frame_ok
    by (auto simp: frame_ok_def example_frame_def example_draw_def example_names_def plain_options_def options_set_defaults_def)
  moreover have "bar_fits (bars draw_start)" "smooth_ok (bar_smooth draw_start)" "bar_smooth draw_start ! 7 = 0"
    "rateidx (bars draw_start) = 0"
    using draw_start_inv by (auto simp: draw_inv_def draw_start_def bar_start_def BAR_SMOOTH_MAX_ROWS_def)
  ultimately show ?thesis
    using bar_glide [of example_draw draw_start 4000 7 1] by (fastforce simp: scale_def)
qed

text \<open>A bandwidth limit of 501 Mbit/s or more reads past the table of scales. With bars shown on
  the linear scale, the first repaint of the program with such a limit (\<open>-m 1G\<close>) does not get
  past the scale: its first mark, a fifth of the limit, makes the automatic scale advance
  past its last entry although the limit is fixed, and the second mark reads there.\<close>

theorem bandwidth_limit_overrun:
  assumes "501000000 \<le> max_bandwidth (d_opts env)" "max_bandwidth (d_opts env) \<le> 1000000000"
    and "showbars (d_opts env) \<noteq> 0" "log_scale (d_opts env) = 0" "dontshowdisplay ui = 0" "0 \<le> d_cols env" "d_cols env \<le> 555"
  shows "Draw.ui_print env ui cum peaks tot ls (r, draw_start) = None"
proof -
  let ?mx = "max_bandwidth (d_opts env)" and ?ds = "turnOnColor (d_colors env ''SCALE_BAR_COLOR'') (draw_start\<lparr>cells := []\<rparr>)"
  have "draw_markers env 0 ?mx (of_int ?mx / (5 * 8)) (emit (Rule 1 0 (d_cols env)) ?ds) = None"
    using assms by (intro markers_overrun) (simp_all add: draw_start_def)
  with assms show ?thesis
    by (simp add: Draw.ui_print_def draw_bar_scale_def get_max_bandwidth_def Let_def)
qed

definition limited_draw :: draw_env where
  "limited_draw = example_draw\<lparr>d_names := example_names\<lparr>n_opts := plain_options\<lparr>max_bandwidth := 1000000000\<rparr>\<rparr>\<rparr>"

theorem bandwidth_limit_overrun_witness:
  "Draw.ui_print limited_draw start_ui (0, 0) (0, 0, 0) line_zero [] (resolver_initialise, draw_start) = None"
  by (rule bandwidth_limit_overrun)
    (simp_all add: limited_draw_def example_draw_def example_names_def plain_options_def options_set_defaults_def start_ui_def)

end
