(* ===== verification/Do_Resolve.thy ===== *)
theory Do_Resolve
  imports Resolver Scanf
begin

text \<open>
  The lookups of \<open>src/util/resolver.c\<close>: one \<open>do_resolve\<close> for each of the interfaces the program can be
  built with. What the C library, the DNS libraries and the kernel return are arguments. \<open>None\<close>
  as the outer result stands for undefined behaviour and for not returning; the inner one is the \<open>NULL\<close> of the code.
\<close>

section \<open>Data\<close>

definition ERANGE :: int where "ERANGE = 34"

definition ARES_SUCCESS :: int where "ARES_SUCCESS = 0"

definition T_PTR :: int where "T_PTR = 12"

definition NAMESIZE :: nat where "NAMESIZE = 64"

text \<open>The bytes of an \<open>int\<close>, lowest first, and of \<open>struct addr_storage\<close>.\<close>

definition le_bytes :: "int \<Rightarrow> bytes" where
  "le_bytes n = map (\<lambda>i. word_of_int (n div 256 ^ i)) [0..<4]"

definition le_int :: "bytes \<Rightarrow> int" where
  "le_int bs = sint (word_of_int (\<Sum>i<4. uint (bs ! i) * 256 ^ i) :: 32 word)"

definition storage_bytes :: "addr_storage \<Rightarrow> bytes" where
  "storage_bytes a = le_bytes (ns_family a) @ le_bytes (addr_len a) @ addr a"

section \<open>getnameinfo\<close>

text \<open>
  \<open>memcpy\<close> of \<open>addr_len\<close> bytes into an address of \<open>n\<close> bytes on the stack, which nothing else initialises. (The
  scope of an IPv6 address is left uninitialised too; it only matters for link-local addresses, which are never queued.)
\<close>

definition sin_addr :: "addr_storage \<Rightarrow> nat \<Rightarrow> bytes option" where
  "sin_addr a n = (if addr_len a = int n then rd_slice (addr a) 0 n else None)"

definition do_resolve_getnameinfo :: "(int \<Rightarrow> bytes \<Rightarrow> string option) \<Rightarrow> addr_storage \<Rightarrow> string option option" where
  "do_resolve_getnameinfo getnameinfo a =
     (if ns_family a = AF_INET then do { sin \<leftarrow> sin_addr a 4; Some (getnameinfo AF_INET sin) }
      else if ns_family a = AF_INET6 then do { sin6 \<leftarrow> sin_addr a 16; Some (getnameinfo AF_INET6 sin6) }
      else Some None)"

section \<open>gethostbyaddr\_r\<close>

text \<open>
  The loop around the call: \<open>call n\<close> is the call with a buffer of \<open>n\<close> bytes, \<open>again\<close> its test for a buffer
  that is too small, \<open>grow n\<close> whether \<open>realloc\<close> succeeds, that is whether the buffer can be enlarged.
\<close>

partial_function (option) enlarge :: "(u64 \<Rightarrow> 'r) \<Rightarrow> ('r \<Rightarrow> bool) \<Rightarrow> (u64 \<Rightarrow> bool) \<Rightarrow> u64 \<Rightarrow> 'r option" where
  "enlarge call again grow n =
     (if again (call n) then (if grow (n * 2) then enlarge call again grow (n * 2) else Some (call n))
      else Some (call n))"

text \<open>Where the call returns an error code, and where it returns the entry and sets \<open>errno\<close>.\<close>

definition do_resolve_r_int ::
  "(bytes \<Rightarrow> int \<Rightarrow> u64 \<Rightarrow> int \<times> string option) \<Rightarrow> (u64 \<Rightarrow> bool) \<Rightarrow> addr_storage \<Rightarrow> string option option" where
  "do_resolve_r_int gethostbyaddr_r grow a = do {
     bs \<leftarrow> rd_slice (addr a) 0 (nat (addr_len a));
     (res, hp) \<leftarrow> enlarge (gethostbyaddr_r bs (ns_family a)) (\<lambda>(res, _). res = ERANGE) grow 1024;
     Some (if res \<noteq> 0 \<or> hp = None then None else hp)
   }"

text \<open>In the second case \<open>res\<close> is never assigned: \<open>stack\<close> is what it happens to hold.\<close>

definition do_resolve_r_ptr ::
  "(bytes \<Rightarrow> int \<Rightarrow> u64 \<Rightarrow> string option \<times> int) \<Rightarrow> (u64 \<Rightarrow> bool) \<Rightarrow> int \<Rightarrow> addr_storage \<Rightarrow> string option option" where
  "do_resolve_r_ptr gethostbyaddr_r grow stack a = do {
     bs \<leftarrow> rd_slice (addr a) 0 (nat (addr_len a));
     (hp, errno) \<leftarrow> enlarge (gethostbyaddr_r bs (ns_family a)) (\<lambda>(hp, errno). hp = None \<and> errno = ERANGE) grow 1024;
     Some (if stack \<noteq> 0 \<or> hp = None then None else hp)
   }"

section \<open>gethostbyaddr\<close>

definition do_resolve_gethostbyaddr :: "(bytes \<Rightarrow> int \<Rightarrow> string option) \<Rightarrow> addr_storage \<Rightarrow> string option option" where
  "do_resolve_gethostbyaddr gethostbyaddr a = do {
     bs \<leftarrow> rd_slice (addr a) 0 (nat (addr_len a));
     Some (gethostbyaddr bs (ns_family a))
   }"

section \<open>libresolv\<close>

record ('m, 'r) libresolv =
  res_search :: "string \<Rightarrow> bytes option"
  ns_initparse :: "bytes \<Rightarrow> 'm option"
  ns_msg_count :: "'m \<Rightarrow> nat"
  ns_parserr :: "'m \<Rightarrow> nat \<Rightarrow> 'r option"
  ns_rr_type :: "'r \<Rightarrow> int"
  ns_name_uncompress :: "bytes \<Rightarrow> 'r \<Rightarrow> string option"

definition ptr_query :: "bytes \<Rightarrow> string option" where
  "ptr_query bs = do {
     d \<leftarrow> rd bs 3; c \<leftarrow> rd bs 2; b \<leftarrow> rd bs 1; a \<leftarrow> rd bs 0;
     Some (take 34 (print_nat (unat d) @ ''.'' @ print_nat (unat c) @ ''.'' @ print_nat (unat b) @ ''.'' @
       print_nat (unat a) @ ''.in-addr.arpa.''))
   }"

text \<open>
  The loop over the answers. Each pointer's name is copied to the heap; the list has the copies that
  no variable points to any more. The result of \<open>ns_name_uncompress\<close> is not checked: if it fails, the buffer is
  read uninitialised.
\<close>

fun ptr_answers ::
  "('m, 'r) libresolv \<Rightarrow> bytes \<Rightarrow> 'm \<Rightarrow> nat list \<Rightarrow> string option \<times> string list \<Rightarrow> (string option \<times> string list) option" where
  "ptr_answers lib msg m [] s = Some s"
| "ptr_answers lib msg m (i # is) (ret, lost) =
     (case ns_parserr lib m i of
        None \<Rightarrow> ptr_answers lib msg m is (ret, lost)
      | Some rr \<Rightarrow>
          if ns_rr_type lib rr = T_PTR then do {
            buf \<leftarrow> ns_name_uncompress lib msg rr;
            ptr_answers lib msg m is (Some buf, lost @ (case ret of None \<Rightarrow> [] | Some old \<Rightarrow> [old])) }
          else ptr_answers lib msg m is (ret, lost))"

definition do_resolve_libresolv :: "('m, 'r) libresolv \<Rightarrow> addr_storage \<Rightarrow> (string option \<times> string list) option" where
  "do_resolve_libresolv lib a =
     (if ns_family a \<noteq> AF_INET then Some (None, [])
      else do {
        s \<leftarrow> ptr_query (addr a);
        (case res_search lib s of
           None \<Rightarrow> Some (None, [])
         | Some msg \<Rightarrow>
             (case ns_initparse lib msg of
                None \<Rightarrow> Some (None, [])
              | Some m \<Rightarrow> ptr_answers lib msg m [0..<ns_msg_count lib m] (None, []))) })"

section \<open>ares\<close>

record ares_callback_comm =
  ac_result :: int
  ac_name :: "string option"

text \<open>The parser's own result is not checked: if it fails, the entry is read uninitialised.\<close>

definition do_resolve_ares_callback ::
  "(bytes \<Rightarrow> string option) \<Rightarrow> int \<Rightarrow> bytes \<Rightarrow> ares_callback_comm \<Rightarrow> ares_callback_comm option" where
  "do_resolve_ares_callback ares_parse_ptr_reply status abuf C =
     (if status = ARES_SUCCESS then do {
        he \<leftarrow> ares_parse_ptr_reply abuf;
        Some (C\<lparr>ac_result := 1, ac_name := Some he\<rparr>) }
      else Some (C\<lparr>ac_result := -1\<rparr>))"

text \<open>
  The library calls back from \<open>ares_query\<close> (event 0) or from the \<open>n\<close>-th \<open>ares_process\<close> (event \<open>n\<close>).
\<close>

definition ares_event ::
  "(bytes \<Rightarrow> string option) \<Rightarrow> (int \<times> bytes) option \<Rightarrow> ares_callback_comm \<Rightarrow> ares_callback_comm option" where
  "ares_event parse e C = (case e of None \<Rightarrow> Some C | Some (status, abuf) \<Rightarrow> do_resolve_ares_callback parse status abuf C)"

partial_function (option) ares_wait ::
  "(bytes \<Rightarrow> string option) \<Rightarrow> (nat \<Rightarrow> (int \<times> bytes) option) \<Rightarrow> nat \<Rightarrow> ares_callback_comm \<Rightarrow> ares_callback_comm option" where
  "ares_wait parse events n C =
     (if ac_result C = 0 then Option.bind (ares_event parse (events n) C) (ares_wait parse events (Suc n)) else Some C)"

text \<open>The flag is whether the thread has a channel; \<open>ares_init\<close> whether one can be made.\<close>

definition do_resolve_ares ::
  "(bytes \<Rightarrow> string option) \<Rightarrow> (string \<Rightarrow> nat \<Rightarrow> (int \<times> bytes) option) \<Rightarrow> bool \<Rightarrow> bool \<Rightarrow> addr_storage
     \<Rightarrow> (string option \<times> bool) option" where
  "do_resolve_ares parse events ares_init chan a =
     (if ns_family a \<noteq> AF_INET then Some (None, chan)
      else if \<not> chan \<and> \<not> ares_init then Some (None, False)
      else do {
        s \<leftarrow> ptr_query (addr a);
        C \<leftarrow> ares_event parse (events s 0) \<lparr>ac_result = 0, ac_name = None\<rparr>;
        C \<leftarrow> ares_wait parse (events s) 1 C;
        Some (if ac_result C = -1 \<or> ac_result C = 0 then None else ac_name C, True) })"

section \<open>The forking resolver\<close>

text \<open>
  The child: it reads a request from the stream, answers it, and starts again. A \<open>read\<close> returns what
  the stream holds, at most what was asked for, and waits only on an empty stream. The results are what
  was written and whether the child is still there, waiting.
\<close>

definition fork_reply :: "string option \<Rightarrow> string" where
  "fork_reply he = (let t = (case he of None \<Rightarrow> [] | Some h_name \<Rightarrow> take (NAMESIZE - 1) h_name) in
     t @ replicate (NAMESIZE - length t) (CHR 0x00))"

function forking_resolver_worker :: "(bytes \<Rightarrow> int \<Rightarrow> string option) \<Rightarrow> bytes \<Rightarrow> (string \<times> bool) option" where
  "forking_resolver_worker gethostbyaddr fd =
     (if fd = [] then Some ([], True)
      else let a = take 24 fd in
        if length a \<noteq> 24 then Some ([], False)
        else do {
          bs \<leftarrow> rd_slice (drop 8 a) 0 (nat (le_int (take 4 (drop 4 a))));
          (out, alive) \<leftarrow> forking_resolver_worker gethostbyaddr (drop 24 fd);
          Some (fork_reply (gethostbyaddr bs (le_int (take 4 a))) @ out, alive) })"
  by pat_completeness auto
termination by (relation "measure (\<lambda>(_, fd). length fd)") auto

declare forking_resolver_worker.simps [simp del]

text \<open>
  The parent. The worker of a thread, if it has one, is whether the child is there; between two requests
  both streams are empty. A write to a child that has gone ends the program, a read from a child that
  waits too never returns.
\<close>

definition do_resolve_forking ::
  "(bytes \<Rightarrow> int \<Rightarrow> string option) \<Rightarrow> bool \<Rightarrow> bool \<Rightarrow> bool option \<Rightarrow> addr_storage \<Rightarrow> (string option \<times> bool option) option" where
  "do_resolve_forking gethostbyaddr socketpair fork workerinfo a =
     (case (case workerinfo of Some w \<Rightarrow> Some w | None \<Rightarrow> if socketpair \<and> fork then Some True else None) of
        None \<Rightarrow> Some (None, None)
      | Some False \<Rightarrow> None
      | Some True \<Rightarrow> do {
          (out, alive) \<leftarrow> forking_resolver_worker gethostbyaddr (take 16 (storage_bytes a));
          if out = [] \<and> alive then None
          else if length out \<noteq> NAMESIZE then Some (None, None)
          else let name = takeWhile (\<lambda>c. c \<noteq> CHR 0x00) out in
            Some (if name = [] then None else Some name, Some alive) })"

section \<open>No method\<close>

definition do_resolve_none :: "addr_storage \<Rightarrow> string option" where
  "do_resolve_none a = None"

section \<open>Lemmas\<close>

lemma enlarge_first:
  assumes "\<forall>j<k. again (call (n * 2 ^ j))" "\<not> again (call (n * 2 ^ k))" "\<forall>m. grow m"
  shows "enlarge call again grow n = Some (call (n * 2 ^ k))"
  using assms
proof (induction k arbitrary: n)
  case 0
  then show ?case by (subst enlarge.simps) simp
next
  case (Suc k)
  have "enlarge call again grow (n * 2) = Some (call (n * 2 * 2 ^ k))"
    using Suc.prems by (intro Suc.IH) (auto simp: mult.assoc simp flip: power_Suc)
  moreover have "again (call n)" using Suc.prems(1) by (auto dest: spec [of _ 0])
  ultimately show ?case using Suc.prems(3) by (subst enlarge.simps) (simp add: mult.assoc)
qed

lemma least_buffer:
  assumes "\<not> again (call (n * 2 ^ k))"
  obtains j where "j \<le> k" "\<forall>i<j. again (call (n * 2 ^ i))" "\<not> again (call (n * 2 ^ j))"
proof -
  let ?j = "LEAST j. \<not> again (call (n * 2 ^ j))"
  have "\<not> again (call (n * 2 ^ ?j))" using assms by (rule LeastI)
  moreover have "?j \<le> k" using assms by (rule Least_le)
  moreover have "\<forall>i<?j. again (call (n * 2 ^ i))" using not_less_Least by blast
  ultimately show ?thesis using that by blast
qed

lemma le_int_le_bytes:
  assumes "0 \<le> n" "n < 2 ^ 31"
  shows "le_int (le_bytes n) = n"
proof -
  have d: "uint (le_bytes n ! i) = n div 256 ^ i mod 256" if "i < 4" for i
    using that by (simp add: le_bytes_def unsigned_of_int take_bit_eq_mod)
  have "(\<Sum>i<4. uint (le_bytes n ! i) * 256 ^ i) = (\<Sum>i<4. n div 256 ^ i mod 256 * 256 ^ i)" by (simp add: d)
  also have "\<dots> = n mod 256 + n div 256 mod 256 * 256 + n div 65536 mod 256 * 65536 + n div 16777216 mod 256 * 16777216"
    by (simp add: eval_nat_numeral)
  also have "\<dots> = n"
  proof -
    have e: "n div 65536 = n div 256 div 256" "n div 16777216 = n div 256 div 256 div 256" by (simp_all add: zdiv_zmult2_eq [symmetric])
    have "n div 256 div 256 div 256 mod 256 = n div 256 div 256 div 256" using assms by (simp add: zdiv_zmult2_eq [symmetric])
    then show ?thesis unfolding e
      using div_mult_mod_eq [of n 256] div_mult_mod_eq [of "n div 256" 256] div_mult_mod_eq [of "n div 256 div 256" 256] by linarith
  qed
  finally show ?thesis using assms by (simp add: le_int_def signed_of_int signed_take_bit_int_eq_self)
qed

lemma length_le_bytes [simp]: "length (le_bytes n) = 4"
  by (simp add: le_bytes_def)

lemma length_fork_reply [simp]: "length (fork_reply he) = 64"
  by (auto simp: fork_reply_def Let_def NAMESIZE_def split: option.splits)

text \<open>A request as the child expects it.\<close>

definition storage_ok :: "addr_storage \<Rightarrow> bool" where
  "storage_ok a \<longleftrightarrow> length (addr a) = 16 \<and> (ns_family a = AF_INET \<and> addr_len a = 4 \<or> ns_family a = AF_INET6 \<and> addr_len a = 16)"

text \<open>On whole requests the child answers each with the first 63 characters of the name.\<close>

lemma worker_answers:
  "\<forall>a\<in>set as. storage_ok a \<Longrightarrow> forking_resolver_worker f (concat (map storage_bytes as)) =
     Some (concat (map (\<lambda>a. fork_reply (f (take (nat (addr_len a)) (addr a)) (ns_family a))) as), True)"
proof (induction as)
  case Nil
  then show ?case by (subst forking_resolver_worker.simps) simp
next
  case (Cons a as)
  then have a: "storage_ok a" by simp
  let ?rest = "concat (map storage_bytes as)"
  have len: "length (storage_bytes a) = 24" using a by (simp add: storage_ok_def storage_bytes_def)
  then have "take 24 (storage_bytes a @ ?rest) = storage_bytes a" "drop 24 (storage_bytes a @ ?rest) = ?rest"
    "storage_bytes a \<noteq> []" by auto
  moreover have "le_int (take 4 (storage_bytes a)) = ns_family a" "le_int (take 4 (drop 4 (storage_bytes a))) = addr_len a"
    "drop 8 (storage_bytes a) = addr a"
    using a by (auto simp: storage_bytes_def storage_ok_def le_int_le_bytes AF_INET_def AF_INET6_def)
  moreover have "rd_slice (addr a) 0 (nat (addr_len a)) = Some (take (nat (addr_len a)) (addr a))"
    using a by (auto simp: storage_ok_def rd_slice_def)
  moreover have "forking_resolver_worker f ?rest =
      Some (concat (map (\<lambda>a. fork_reply (f (take (nat (addr_len a)) (addr a)) (ns_family a))) as), True)"
    using Cons by simp
  ultimately show ?case using len by (subst forking_resolver_worker.simps) simp
qed

lemma make_raddr_storage:
  assumes "make_raddr af a = Some r" "af = AF_INET \<or> af = AF_INET6"
  shows "storage_ok r" "ns_family r = af" "take (nat (addr_len r)) (addr r) = take (if af = AF_INET then 4 else 16) a"
  using assms by (auto simp: make_raddr_def storage_ok_def rd_slice_def Let_def AF_INET_def AF_INET6_def split: if_splits)

lemma worker_short:
  assumes "length (addr a) = 16"
  shows "forking_resolver_worker f (take 16 (storage_bytes a)) = Some ([], False)"
  using assms by (subst forking_resolver_worker.simps) (simp add: storage_bytes_def le_bytes_def)

lemma byte_text: "length (print_nat (unat (b :: u8))) \<le> 3"
proof -
  have "unat b < 2 ^ 8" using unsigned_less [of b] by simp
  then show ?thesis by (intro print_nat_length) auto
qed

lemma ptr_query_whole:
  assumes "4 \<le> length bs"
  shows "ptr_query bs = Some (print_nat (unat (bs ! 3)) @ ''.'' @ print_nat (unat (bs ! 2)) @ ''.'' @ print_nat (unat (bs ! 1)) @ ''.'' @
       print_nat (unat (bs ! 0)) @ ''.in-addr.arpa.'')"
  using assms byte_text [of "bs ! 3"] byte_text [of "bs ! 2"] byte_text [of "bs ! 1"] byte_text [of "bs ! 0"]
  by (simp add: ptr_query_def rd_def flip: length_greater_0_conv)

text \<open>The names of the pointers among the answers, in order.\<close>

definition ptr_name :: "('m, 'r) libresolv \<Rightarrow> bytes \<Rightarrow> 'm \<Rightarrow> nat \<Rightarrow> string list" where
  "ptr_name lib msg m i = (case ns_parserr lib m i of None \<Rightarrow> []
     | Some rr \<Rightarrow> if ns_rr_type lib rr = T_PTR then (case ns_name_uncompress lib msg rr of None \<Rightarrow> [] | Some n \<Rightarrow> [n]) else [])"

definition ptr_names :: "('m, 'r) libresolv \<Rightarrow> bytes \<Rightarrow> 'm \<Rightarrow> nat list \<Rightarrow> string list" where
  "ptr_names lib msg m is = concat (map (ptr_name lib msg m) is)"

definition answers_ok :: "('m, 'r) libresolv \<Rightarrow> bytes \<Rightarrow> 'm \<Rightarrow> nat list \<Rightarrow> bool" where
  "answers_ok lib msg m is \<longleftrightarrow> list_all (\<lambda>i. case ns_parserr lib m i of None \<Rightarrow> True
     | Some rr \<Rightarrow> ns_rr_type lib rr = T_PTR \<longrightarrow> ns_name_uncompress lib msg rr \<noteq> None) is"

definition last_of :: "string option \<Rightarrow> string list \<Rightarrow> string option" where
  "last_of ret ns = (if ns = [] then ret else Some (last ns))"

lemma ptr_answers_ok:
  "answers_ok lib msg m is \<Longrightarrow> ptr_answers lib msg m is (ret, lost) =
     Some (last_of ret (ptr_names lib msg m is),
       lost @ butlast ((case ret of None \<Rightarrow> [] | Some old \<Rightarrow> [old]) @ ptr_names lib msg m is))"
proof (induction "is" arbitrary: ret lost)
  case Nil
  then show ?case by (simp add: ptr_names_def last_of_def split: option.splits)
next
  case (Cons i "is")
  then have rest: "answers_ok lib msg m is" by (simp add: answers_ok_def)
  show ?case
  proof (cases "ns_parserr lib m i")
    case None
    then show ?thesis using Cons.IH [OF rest] by (simp add: ptr_names_def ptr_name_def)
  next
    case (Some rr)
    show ?thesis
    proof (cases "ns_rr_type lib rr = T_PTR")
      case True
      then obtain n where n: "ns_name_uncompress lib msg rr = Some n" using Cons.prems Some by (auto simp: answers_ok_def)
      with True Some have "ptr_names lib msg m (i # is) = n # ptr_names lib msg m is" by (simp add: ptr_names_def ptr_name_def)
      with True Some n Cons.IH [OF rest] show ?thesis by (simp add: last_of_def split: option.splits)
    next
      case False
      with Some Cons.IH [OF rest] show ?thesis by (simp add: ptr_names_def ptr_name_def)
    qed
  qed
qed

lemma ares_wait_returns:
  assumes "\<forall>j<k. events (n + j) = None" "events (n + k) = Some (status, abuf)" "ac_result C = 0"
    and "do_resolve_ares_callback parse status abuf C = Some C'" "ac_result C' \<noteq> 0"
  shows "ares_wait parse events n C = Some C'"
  using assms(1,2)
proof (induction k arbitrary: n)
  case 0
  have "ares_wait parse events (Suc n) C' = Some C'" using assms(5) by (subst ares_wait.simps) simp
  then show ?case using 0 assms(3,4) by (subst ares_wait.simps) (simp add: ares_event_def)
next
  case (Suc k)
  have "ares_wait parse events (Suc n) C = Some C'"
    using Suc.prems by (intro Suc.IH) (auto dest: spec [of _ "Suc _"])
  moreover have "events n = None" using Suc.prems(1) by (auto dest: spec [of _ 0])
  ultimately show ?case using assms(3) by (subst ares_wait.simps) (simp add: ares_event_def)
qed

section \<open>Properties\<close>


definition localhost :: addr_storage where
  "localhost = \<lparr>ns_family = AF_INET, addr_len = 4, addr = [127, 0, 0, 1] @ replicate 12 0\<rparr>"

definition needs_4096 :: "bytes \<Rightarrow> int \<Rightarrow> u64 \<Rightarrow> int \<times> string option" where
  "needs_4096 bs f n = (if n < 4096 then (ERANGE, None) else (0, Some ''localhost''))"


text \<open>A thread's lookups one after the other; for each whether a socket pair and a process can be had.\<close>

fun forking_requests ::
  "(bytes \<Rightarrow> int \<Rightarrow> string option) \<Rightarrow> bool option \<Rightarrow> (bool \<times> bool \<times> addr_storage) list \<Rightarrow> (string option list \<times> bool option) option" where
  "forking_requests f w [] = Some ([], w)"
| "forking_requests f w ((sp, fk, a) # rest) = do {
     (r, w) \<leftarrow> do_resolve_forking f sp fk w a;
     (rs, w) \<leftarrow> forking_requests f w rest;
     Some (r # rs, w) }"

text \<open>The build with the forking resolver resolves nothing. Whatever \<open>gethostbyaddr\<close> knows in the child, and whatever the
  sequence of requests, every lookup of a thread returns \<open>NULL\<close> and leaves the thread without a child, so that
  the next one starts another: the parent sends the sixteen bytes of an \<open>in6_addr\<close>, the child waits for the twenty-four of a
  \<open>struct addr_storage\<close>, takes the short read for an error and exits.\<close>

theorem forking_resolver_never_resolves:
  assumes "\<forall>(sp, fk, a)\<in>set reqs. length (addr a) = 16"
  shows "forking_requests gethostbyaddr None reqs = Some (replicate (length reqs) None, None)"
  using assms
proof (induction reqs)
  case (Cons q reqs)
  obtain sp fk a where q: "q = (sp, fk, a)" by (cases q) auto
  have "do_resolve_forking gethostbyaddr sp fk None a = Some (None, None)"
    using Cons.prems q worker_short [of a] by (auto simp: do_resolve_forking_def NAMESIZE_def)
  with Cons q show ?case by simp
qed simp

theorem forking_resolver_never_resolves_witness:
  "forking_requests (\<lambda>_ _. Some ''localhost'') None [(True, True, localhost), (True, True, localhost)] = Some ([None, None], None)"
  using forking_resolver_never_resolves [of "[(True, True, localhost), (True, True, localhost)]"]
  by (simp add: localhost_def numeral_eq_Suc)

text \<open>The builds that ask the DNS themselves. For an IPv4 address the query is the reversed
  dotted address under \<open>in-addr.arpa\<close>, never cut off by its buffer. The \<open>libresolv\<close> build returns the last of the names in
  the answer and loses the memory of all others; the \<open>ares\<close> build returns at the first event that
  carries a reply, with the name in it, or with none if it reports an error.\<close>

theorem dns_lookups:
  assumes a: "ns_family a = AF_INET" "length (addr a) = 16" and q: "ptr_query (addr a) = Some q"
    and m: "res_search lib q = Some msg" "ns_initparse lib msg = Some m" "answers_ok lib msg m [0..<ns_msg_count lib m]"
    and ev: "\<forall>j<k. events q j = None" "events q k = Some (status, abuf)" "status = ARES_SUCCESS \<longrightarrow> parse abuf = Some name"
    and chan: "chan \<or> ares_init"
  shows "q = print_nat (unat (addr a ! 3)) @ ''.'' @ print_nat (unat (addr a ! 2)) @ ''.'' @ print_nat (unat (addr a ! 1)) @ ''.'' @
       print_nat (unat (addr a ! 0)) @ ''.in-addr.arpa.'' \<and>
     do_resolve_libresolv lib a = (let ns = ptr_names lib msg m [0..<ns_msg_count lib m] in Some (last_of None ns, butlast ns)) \<and>
     do_resolve_ares parse events ares_init chan a = Some (if status = ARES_SUCCESS then Some name else None, True)"
proof (intro conjI)
  show "q = print_nat (unat (addr a ! 3)) @ ''.'' @ print_nat (unat (addr a ! 2)) @ ''.'' @ print_nat (unat (addr a ! 1)) @ ''.'' @
       print_nat (unat (addr a ! 0)) @ ''.in-addr.arpa.''"
    using ptr_query_whole [of "addr a"] a(2) q by simp
  show "do_resolve_libresolv lib a = (let ns = ptr_names lib msg m [0..<ns_msg_count lib m] in Some (last_of None ns, butlast ns))"
    using a(1) q m ptr_answers_ok [OF m(3), of None "[]"] by (simp add: do_resolve_libresolv_def Let_def)
  let ?C = "\<lparr>ac_result = 0, ac_name = None\<rparr>"
  define C' where "C' = (if status = ARES_SUCCESS then \<lparr>ac_result = 1, ac_name = Some name\<rparr> else \<lparr>ac_result = -1, ac_name = None\<rparr>)"
  have C': "do_resolve_ares_callback parse status abuf ?C = Some C'" "ac_result C' = (if status = ARES_SUCCESS then 1 else -1)"
    "ac_name C' = (if status = ARES_SUCCESS then Some name else None)"
    using ev(3) by (auto simp: do_resolve_ares_callback_def C'_def)
  have "ares_wait parse (events q) 0 ?C = Some C'" using ev C' by (intro ares_wait_returns [of k]) auto
  then have "Option.bind (ares_event parse (events q 0) ?C) (ares_wait parse (events q) 1) = Some C'"
    by (subst (asm) ares_wait.simps) simp
  then obtain y where "ares_event parse (events q 0) ?C = Some y" "ares_wait parse (events q) 1 y = Some C'"
    by (auto simp: bind_eq_Some_conv)
  then show "do_resolve_ares parse events ares_init chan a = Some (if status = ARES_SUCCESS then Some name else None, True)"
    using a(1) q chan C' by (simp add: do_resolve_ares_def)
qed

definition two_answers :: "(unit, string) libresolv" where
  "two_answers = \<lparr>res_search = \<lambda>_. Some [], ns_initparse = \<lambda>_. Some (), ns_msg_count = \<lambda>_. 2,
     ns_parserr = \<lambda>_ i. Some (if i = 0 then ''a.example.'' else ''b.example.''), ns_rr_type = \<lambda>_. T_PTR,
     ns_name_uncompress = \<lambda>_ rr. Some rr\<rparr>"

theorem dns_lookups_witness:
  "do_resolve_libresolv two_answers localhost = Some (Some ''b.example.'', [''a.example.'']) \<and>
   do_resolve_ares (\<lambda>_. Some ''a.example.'') (\<lambda>q n. if n = 3 then Some (ARES_SUCCESS, []) else None) True False localhost =
     Some (Some ''a.example.'', True)"
proof -
  obtain q where q: "ptr_query (addr localhost) = Some q" using ptr_query_whole [of "addr localhost"] by (simp add: localhost_def)
  have l: "ns_family localhost = AF_INET" "length (addr localhost) = 16" by (simp_all add: localhost_def)
  have n: "ptr_names two_answers [] () [0..<2] = [''a.example.'', ''b.example.'']" "answers_ok two_answers [] () [0..<2]"
    by (simp_all add: ptr_names_def ptr_name_def answers_ok_def two_answers_def upt_rec)
  from dns_lookups [OF l q, of two_answers "[]" "()" 3 "\<lambda>q n. if n = 3 then Some (ARES_SUCCESS, []) else None" ARES_SUCCESS "[]"
      "\<lambda>_. Some ''a.example.''" "''a.example.''" False True] n
  show ?thesis by (simp add: last_of_def) (simp add: two_answers_def last_of_def)
qed

end
