(* ===== verification/Program.thy ===== *)
theory Program
  imports Tick Interface Draw_Proofs Do_Resolve
begin

text \<open>
  The program as a whole: the threads of \<open>main\<close> in \<open>src/entry/iftop.c\<close> over the state of all
  components. The packet thread accounts packets and runs the clock, the display thread handles keys, makes the calls
  of \<open>tick\<close> and \<open>ui_print\<close> that a key leads to, and the two resolver threads look up names. A step is one packet, one call or
  one critical section of the resolver; steps interleave in any order. (What can go wrong inside a step, which the
  program does not always protect, is the subject of theory \<open>Race\<close>.)
\<close>

section \<open>State\<close>

record program =
  p_ui :: ui_state
  p_core :: tick_state
  p_draw :: draw_state
  p_workers :: "worker list"

record program_lib =
  l_ui :: ui_lib
  l_ntop :: "int \<Rightarrow> bytes \<Rightarrow> string"
  l_addrs :: if_addrs

text \<open>
  What happens: a packet with the direction of its link layer, the clock in the packet thread, a key, a turn of
  \<open>export_loop\<close>, the next pending call of the display thread, a step of a resolver thread with the name its lookup returned, a signal.
\<close>

datatype program_event =
    Packet_Event bytes int
  | Clock_Event tick_env int
  | Key_Event key_event
  | Export_Event tick_env int
  | Call_Event tick_env int draw_env
  | Worker_Event nat "string option"
  | Signal_Event int

abbreviation p_names :: "program \<Rightarrow> resolver_state" where
  "p_names P \<equiv> names (captured (p_core P))"

definition set_names :: "resolver_state \<Rightarrow> program \<Rightarrow> program" where
  "set_names r P = P\<lparr>p_core := (p_core P)\<lparr>captured := (captured (p_core P))\<lparr>names := r\<rparr>\<rparr>\<rparr>"

section \<open>Steps\<close>

text \<open>What the end of \<open>tick\<close> calls goes in front of the pending calls; \<open>hidden\<close> is \<open>dontshowdisplay\<close> at the time of the call.\<close>

definition tick_calls :: "int \<Rightarrow> int \<Rightarrow> repaint \<Rightarrow> ui_state \<Rightarrow> ui_state" where
  "tick_calls hidden now r ui =
     (case r of
        Ui_Print \<Rightarrow> ui\<lparr>acts := Do_Print hidden # acts ui\<rparr>
      | Export_Print \<Rightarrow> ui
      | Ui_Tick n \<Rightarrow>
          (let u = ui_tick now n (ui\<lparr>acts := [], dontshowdisplay := hidden\<rparr>) in
           u\<lparr>acts := acts u @ acts ui, dontshowdisplay := dontshowdisplay ui\<rparr>))"

definition run_tick :: "tick_env \<Rightarrow> int \<Rightarrow> int \<Rightarrow> int \<Rightarrow> program \<Rightarrow> program option" where
  "run_tick env now hidden n P = do {
     (r, core) \<leftarrow> tick (env\<lparr>t_opts := ui_opts (p_ui P)\<rparr>) n (p_core P);
     Some (P\<lparr>p_core := core, p_ui := tick_calls hidden now r (p_ui P)\<rparr>)
   }"

text \<open>What \<open>ui_print\<close> is given: the terminal, the options, the screen filter, the lines and totals of the last analysis.\<close>

definition frame_of :: "program_lib \<Rightarrow> draw_env \<Rightarrow> int \<Rightarrow> program \<Rightarrow> frame" where
  "frame_of lib tty hidden P =
     (let ui = p_ui P; sc = screen (p_core P) in
      \<lparr>f_env = tty\<lparr>d_names := (d_names tty)\<lparr>n_opts := ui_opts ui\<rparr>,
                  d_matches := (\<lambda>t. screen_filter_match (l_ui lib) ui t = Some True)\<rparr>,
       f_ui = ui\<lparr>dontshowdisplay := hidden\<rparr>,
       f_cum = (total_sent (history_totals (acct (captured (p_core P)))), total_recv (history_totals (acct (captured (p_core P))))),
       f_peaks = (peaksent sc, peakrecv sc, peaktotal sc),
       f_tot = totals sc,
       f_lines = map (\<lambda>a. the (lines sc a)) (items (screen_list sc))\<rparr>)"

text \<open>A screen filter that was not compiled, or a list that points to lines that do not exist, is undefined.\<close>

definition run_print :: "program_lib \<Rightarrow> draw_env \<Rightarrow> int \<Rightarrow> program \<Rightarrow> program option" where
  "run_print lib tty hidden P =
     (if screen_filter_match (l_ui lib) (p_ui P) [] = None \<or>
         \<not> list_all (\<lambda>a. lines (screen (p_core P)) a \<noteq> None) (items (screen_list (screen (p_core P)))) then None
      else do {
        (r, ds) \<leftarrow> paint (frame_of lib tty hidden P) (p_names P, p_draw P);
        Some (set_names r (P\<lparr>p_draw := ds\<rparr>)) })"

definition run_call :: "program_lib \<Rightarrow> tick_env \<Rightarrow> int \<Rightarrow> draw_env \<Rightarrow> program \<Rightarrow> program option" where
  "run_call lib env now tty P =
     (case acts (p_ui P) of
        [] \<Rightarrow> Some P
      | a # rest \<Rightarrow>
          (let P = P\<lparr>p_ui := (p_ui P)\<lparr>acts := rest\<rparr>\<rparr> in
           case a of
             Do_Tick hidden n \<Rightarrow> run_tick env now hidden n P
           | Do_Print hidden \<Rightarrow> run_print lib tty hidden P
           | Do_Refresh \<Rightarrow> Some P))"

definition run_worker :: "nat \<Rightarrow> string option \<Rightarrow> program \<Rightarrow> program option" where
  "run_worker i hostname P = do {
     w \<leftarrow> rd (p_workers P) i;
     (w, r) \<leftarrow> (case w of
         W_Start \<Rightarrow> Some (W_Wait, p_names P)
       | W_Wait \<Rightarrow> Some (W_Woken, p_names P)
       | W_Woken \<Rightarrow> worker_loop (p_names P)
       | W_Resolve k \<Rightarrow> Option.bind (worker_store (ns_malloc (ns_hash (p_names P))) (p_names P) k hostname) worker_loop);
     Some (set_names r (P\<lparr>p_workers := (p_workers P)[i := w]\<rparr>))
   }"

definition finish :: "int \<Rightarrow> program \<Rightarrow> program" where
  "finish sig P = P\<lparr>p_ui := (p_ui P)\<lparr>foad := sig\<rparr>\<rparr>"

fun program_next :: "program_lib \<Rightarrow> program_event \<Rightarrow> program \<Rightarrow> program option" where
  "program_next lib (Packet_Event p hw) P = do {
     cs \<leftarrow> handle_ip_packet (l_ntop lib) (ui_opts (p_ui P)) (l_addrs lib) (captured (p_core P)) p hw;
     Some (P\<lparr>p_core := (p_core P)\<lparr>captured := cs\<rparr>\<rparr>) }"
| "program_next lib (Clock_Event env now) P = run_tick env now (dontshowdisplay (p_ui P)) 0 P"
| "program_next lib (Key_Event e) P =
     Some (if foad (p_ui P) \<noteq> 0 then P else P\<lparr>p_ui := do_tick 0 (ui_switch (l_ui lib) e (p_ui P))\<rparr>)"
| "program_next lib (Export_Event env now) P =
     (if foad (p_ui P) \<noteq> 0 then Some P else run_tick env now (dontshowdisplay (p_ui P)) 1 P)"
| "program_next lib (Call_Event env now tty) P = run_call lib env now tty P"
| "program_next lib (Worker_Event i hostname) P = run_worker i hostname P"
| "program_next lib (Signal_Event sig) P = Some (finish sig P)"

fun program_run :: "program_lib \<Rightarrow> program_event list \<Rightarrow> program \<Rightarrow> program option" where
  "program_run lib [] P = Some P"
| "program_run lib (e # es) P = Option.bind (program_next lib e P) (program_run lib es)"

section \<open>Start\<close>

definition ui_start :: "options_t \<Rightarrow> ui_state" where
  "ui_start op = \<lparr>ui_opts = op, helpmsg = replicate HELP_MSG_SIZE NUL, showhelphint = 0, persistenthelp = 0, helptimer = 0,
     dontshowdisplay = 0, foad = 0, preg = None, pcap_filter = None, installed = None, acts = []\<rparr>"

text \<open>\<open>ui_init\<close>, from the creation of the tables on.\<close>

definition ui_init_message :: "int \<Rightarrow> ui_state \<Rightarrow> ui_state" where
  "ui_init_message now ui =
     show_help now (take 19 (''Listening on '' @ (case interface (ui_opts ui) of Some i \<Rightarrow> i | None \<Rightarrow> []))) ui"

text \<open>\<open>main\<close> from \<open>packet_init\<close> to the start of the threads; \<open>now\<close> is the time \<open>init_history\<close> reads. With export there is no terminal.\<close>

definition main_init ::
  "ui_lib \<Rightarrow> bool \<Rightarrow> bytes option \<Rightarrow> ip_lookup \<Rightarrow> int option \<Rightarrow> timeval \<Rightarrow> options_t
     \<Rightarrow> (init_error + (if_addrs \<times> link_handler \<times> program)) option" where
  "main_init lib sock hw ips datalink now op = do {
     r \<leftarrow> packet_init lib sock hw ips datalink (case interface op of Some i \<Rightarrow> i | None \<Rightarrow> []) (ui_start op);
     Some (case r of
        Inl e \<Rightarrow> Inl e
      | Inr (ia, h, sys, ui) \<Rightarrow>
          Inr (ia, h,
            \<lparr>p_ui = (if export_mode op \<noteq> 0 then ui else ui_init_message (tv_sec now) ui),
             p_core = \<lparr>captured = \<lparr>acct = init_history pool_empty, names = rs sys, procs = procinfo_init\<rparr>,
                       screen = ui_init_tables op, last_timestamp = now, last_display = now, last_procinfo = now, elapsed = 0\<rparr>,
             p_draw = draw_start, p_workers = workers sys\<rparr>))
   }"

text \<open>
  The end of \<open>main\<close>, after the loop of keys or of exports: the packet thread is cancelled, the
  terminal is given back, and the process tables are destroyed.
\<close>

definition main_exit :: "program \<Rightarrow> program" where
  "main_exit P = P\<lparr>p_core := (p_core P)\<lparr>captured := (captured (p_core P))\<lparr>procs := procinfo_destroy (procs (captured (p_core P)))\<rparr>\<rparr>\<rparr>"

section \<open>Invariant\<close>

definition program_inv :: "program \<Rightarrow> bool" where
  "program_inv P \<longleftrightarrow> opts_ok (ui_opts (p_ui P)) \<and> filters_ok (p_ui P) \<and> tick_inv (p_core P) \<and>
     line_ok (totals (screen (p_core P))) \<and> draw_inv (p_draw P) \<and>
     (\<forall>k. W_Resolve k \<in> set (p_workers P) \<longrightarrow> ns_key_ok k)"

text \<open>
  What a repaint needs that the program does not establish itself: a terminal of ordinary size,
  rates of up to 10 Mbit/s, process numbers that are an \<open>int\<close>, and hosts whose names can be
  printed. That the arrays of the lines have three elements and that their addresses are whole
  follows from the invariant.
\<close>

definition moderate :: "host_pair_line \<Rightarrow> bool" where
  "moderate l \<longleftrightarrow> (\<forall>j<3. 0 \<le> line_sent l ! j \<and> 0 \<le> line_recv l ! j \<and> 8 * (line_sent l ! j + line_recv l ! j) \<le> 10000000)"

definition frame_moderate :: "frame \<Rightarrow> bool" where
  "frame_moderate f \<longleftrightarrow>
     (let env = f_env f; op = d_opts env; L = host_width op (d_cols env) in
      48 \<le> d_cols env \<and> d_cols env \<le> 555 \<and> 4 \<le> d_lines env \<and> log_ok (d_log env) \<and>
      (max_bandwidth op = 0 \<or> 64000 \<le> max_bandwidth op \<and> max_bandwidth op \<le> 10000000) \<and>
      serv_inv (n_services (d_names env)) \<and> hint_ok env (f_ui f) \<and> moderate (f_tot f) \<and> L \<le> 255 \<and>
      (\<forall>l\<in>set (f_lines f). moderate l \<and> 0 \<le> line_pid l \<and> line_pid l < 2 ^ 31 \<and>
         host_ready (d_names env) (address_family (line_ap l)) (src6 (line_ap l)) L \<and>
         host_ready (d_names env) (address_family (line_ap l)) (dst6 (line_ap l)) L))"

text \<open>
  What a step may rely on: complete headers, a well-formed world for \<open>tick\<close>, moderate frames
  for \<open>ui_print\<close>, and that keys are read when nothing is pending.
\<close>

fun event_ready :: "program_lib \<Rightarrow> program_event \<Rightarrow> program \<Rightarrow> bool" where
  "event_ready lib (Packet_Event p hw) P \<longleftrightarrow> header_ok p"
| "event_ready lib (Clock_Event env now) P \<longleftrightarrow> tick_env_ok env (p_core P)"
| "event_ready lib (Key_Event e) P \<longleftrightarrow> acts (p_ui P) = []"
| "event_ready lib (Export_Event env now) P \<longleftrightarrow> tick_env_ok env (p_core P)"
| "event_ready lib (Call_Event env now tty) P \<longleftrightarrow>
     (case acts (p_ui P) of
        [] \<Rightarrow> True
      | a # rest \<Rightarrow>
          (case a of
             Do_Tick hidden n \<Rightarrow> tick_env_ok env (p_core P)
           | Do_Print hidden \<Rightarrow> hidden = 0 \<longrightarrow> frame_moderate (frame_of lib tty 0 (P\<lparr>p_ui := (p_ui P)\<lparr>acts := rest\<rparr>\<rparr>))
           | Do_Refresh \<Rightarrow> True))"
| "event_ready lib (Worker_Event i hostname) P \<longleftrightarrow> i < length (p_workers P)"
| "event_ready lib (Signal_Event sig) P \<longleftrightarrow> True"

fun events_ready :: "program_lib \<Rightarrow> program_event list \<Rightarrow> program \<Rightarrow> bool" where
  "events_ready lib [] P \<longleftrightarrow> True"
| "events_ready lib (e # es) P \<longleftrightarrow> event_ready lib e P \<and> (case program_next lib e P of None \<Rightarrow> True | Some P' \<Rightarrow> events_ready lib es P')"

lemma tick_inv_names: "tick_inv s \<Longrightarrow> rs_inv (names (captured s))"
  by (simp add: tick_inv_def screen_inv_def)

lemma inv_set_names: "program_inv P \<Longrightarrow> rs_inv r \<Longrightarrow> program_inv (set_names r P)"
  by (auto simp: program_inv_def set_names_def tick_inv_def screen_inv_def)

lemma tick_step:
  assumes "tick_inv s" "tick_env_ok env s"
  shows "\<exists>r s'. tick env n s = Some (r, s') \<and> tick_inv s'"
proof -
  obtain s1 where s1: "tick_rotate env s = Some s1" "tick_inv s1" "procs (captured s1) = procs (captured s)"
    using tick_rotate_ok [OF assms(1), of env] by metis
  have "tick_env_ok env s1" using assms(2) s1(3) by (simp add: tick_env_ok_def)
  then obtain s2 where s2: "tick_procinfo env s1 = Some s2" "tick_inv s2" using tick_procinfo_ok [OF s1(2)] by metis
  have q: "qsort_permutes (t_qsort env)" using assms(2) by (simp add: tick_env_ok_def)
  show ?thesis by (rule tick_display_ok [OF s2(2) q, of "turned env s" n]) (use s1 s2 in \<open>simp add: tick_def Let_def\<close>)
qed

lemma calculate_totals_line_ok: "calculate_totals el idx st sc = Some sc' \<Longrightarrow> line_ok (totals sc')"
  by (cases "scan_peaks (zip (recv (history_totals st)) (sent (history_totals st))) (peakrecv sc, peaksent sc, peaktotal sc)")
    (auto simp: calculate_totals_def line_ok_def HISTORY_DIVISIONS_def Let_def bind_eq_Some_conv)

lemma analyse_data_totals:
  "analyse_data env (cs, sc) = Some (cs', sc') \<Longrightarrow> line_ok (totals sc) \<Longrightarrow> line_ok (totals sc')"
  by (auto simp: analyse_data_def Let_def bind_eq_Some_conv dest: calculate_totals_line_ok split: if_splits prod.splits)

lemma ui_init_totals: "line_ok (totals (ui_init_tables op))"
  by (simp add: ui_init_tables_def line_ok_def line_zero_def HISTORY_DIVISIONS_def)

lemma tick_totals:
  assumes "tick env n s = Some (r, s')" "line_ok (totals (screen s))"
  shows "line_ok (totals (screen s'))"
proof -
  from assms(1) obtain s1 s2 where s: "tick_rotate env s = Some s1" "tick_procinfo env s1 = Some s2"
    "tick_display env (turned env s) n s2 = Some (r, s')" by (auto simp: tick_def Let_def bind_eq_Some_conv)
  have "screen s1 = screen s" using s(1) by (auto simp: tick_rotate_def Let_def bind_eq_Some_conv split: if_splits)
  moreover have "screen s2 = screen s1" using s(2) by (auto simp: tick_procinfo_def bind_eq_Some_conv split: if_splits)
  ultimately show ?thesis using s(3) assms(2) analyse_data_totals
    by (auto simp: tick_display_def bind_eq_Some_conv split: if_splits prod.splits)
qed

lemma tick_calls_keeps:
  "ui_opts (tick_calls hidden now r ui) = ui_opts ui" "filters_ok (tick_calls hidden now r ui) = filters_ok ui"
  by (auto simp: tick_calls_def ui_tick_def filters_ok_def Let_def split: repaint.split)

lemma run_tick_ok:
  assumes inv: "program_inv P" and env: "tick_env_ok env (p_core P)"
  shows "\<exists>P'. run_tick env now hidden n P = Some P' \<and> program_inv P'"
proof -
  let ?env = "env\<lparr>t_opts := ui_opts (p_ui P)\<rparr>"
  have "tick_env_ok ?env (p_core P)" using env by (simp add: tick_env_ok_def)
  moreover have "tick_inv (p_core P)" using inv by (simp add: program_inv_def)
  ultimately obtain r core where t: "tick ?env n (p_core P) = Some (r, core)" "tick_inv core" using tick_step by blast
  have "line_ok (totals (screen core))" using tick_totals [OF t(1)] inv by (simp add: program_inv_def)
  with t inv show ?thesis by (simp add: run_tick_def program_inv_def tick_calls_keeps)
qed

lemma frame_of_ok:
  assumes inv: "program_inv P" and m: "frame_moderate (frame_of lib tty hidden P)"
  shows "frame_ok (frame_of lib tty hidden P)"
proof -
  let ?sc = "screen (p_core P)" and ?f = "frame_of lib tty hidden P"
  from inv have ops: "bar_interval (ui_opts (p_ui P)) \<in> {0, 1, 2}" and tot: "line_ok (totals ?sc)"
    and it: "set (items (screen_list ?sc)) \<subseteq> dom (lines ?sc)" and ap: "ap_inv ?sc"
    by (auto simp: program_inv_def opts_ok_def tick_inv_def screen_inv_def)
  from inv obtain pool rest where li: "line_inv (screen_hash ?sc) pool rest (lines ?sc)"
    by (auto simp: program_inv_def tick_inv_def screen_inv_def tables_inv_def)
  have f: "f_tot ?f = totals ?sc" "f_lines ?f = map (\<lambda>a. the (lines ?sc a)) (items (screen_list ?sc))"
    "d_opts (f_env ?f) = ui_opts (p_ui P)" by (simp_all add: frame_of_def Let_def)
  have shape: "line_ok l \<and> addr_pair_ok (line_ap l)" if "l \<in> set (f_lines ?f)" for l
  proof -
    from that it obtain a where a: "lines ?sc a = Some l" by (auto simp: f)
    then have "l \<in> ran (lines ?sc)" by (rule ranI)
    with li ap_lines [OF li ap a] show ?thesis by (simp add: line_inv_def)
  qed
  show ?thesis
    using m ops tot shape f unfolding frame_ok_def frame_moderate_def Let_def env_ok_def
    by (auto simp: quiet_def moderate_def line_ok_def line_ready_def)
qed

lemma run_print_ok:
  assumes inv: "program_inv P" and m: "hidden = 0 \<longrightarrow> frame_moderate (frame_of lib tty 0 P)"
  shows "\<exists>P'. run_print lib tty hidden P = Some P' \<and> program_inv P'"
proof -
  have n: "rs_inv (p_names P)" and d: "draw_inv (p_draw P)" using inv tick_inv_names by (auto simp: program_inv_def)
  have f: "hidden = 0 \<longrightarrow> frame_ok (frame_of lib tty 0 P)" using m frame_of_ok [OF inv] by blast
  have "\<exists>r ds. paint (frame_of lib tty hidden P) (p_names P, p_draw P) = Some (r, ds) \<and> rs_inv r \<and> draw_inv ds"
  proof (cases "hidden = 0")
    case True
    with f paint_ok [OF _ n d, of "frame_of lib tty 0 P"] show ?thesis by auto
  next
    case False
    with n d show ?thesis by (simp add: paint_def Draw.ui_print_def frame_of_def Let_def)
  qed
  then obtain r ds where p: "paint (frame_of lib tty hidden P) (p_names P, p_draw P) = Some (r, ds)" "rs_inv r" "draw_inv ds" by blast
  have "screen_filter_match (l_ui lib) (p_ui P) [] \<noteq> None"
    using inv by (auto simp: program_inv_def filters_ok_def screen_filter_match_def)
  moreover have "list_all (\<lambda>a. lines (screen (p_core P)) a \<noteq> None) (items (screen_list (screen (p_core P))))"
    using inv by (auto simp: program_inv_def tick_inv_def screen_inv_def list_all_iff)
  moreover have "program_inv (P\<lparr>p_draw := ds\<rparr>)" using inv p(3) by (simp add: program_inv_def)
  ultimately show ?thesis using p inv_set_names [of "P\<lparr>p_draw := ds\<rparr>" r] by (auto simp: run_print_def)
qed

lemma run_worker_ok:
  assumes inv: "program_inv P" and i: "i < length (p_workers P)"
  shows "\<exists>P'. run_worker i hostname P = Some P' \<and> program_inv P'"
proof -
  have n: "rs_inv (p_names P)" using inv tick_inv_names by (auto simp: program_inv_def)
  have loop: "\<exists>w r'. worker_loop r = Some (w, r') \<and> rs_inv r' \<and> (\<forall>k. w = W_Resolve k \<longrightarrow> ns_key_ok k)" if r: "rs_inv r" for r
  proof -
    have "ring_ok r" using r by (simp add: rs_inv_def)
    then obtain w r' where l: "worker_loop r = Some (w, r')" using worker_take_ok [of r] by (auto simp: worker_loop_def)
    from worker_loop_ok(1,4) [OF r l] l show ?thesis by auto
  qed
  have "\<exists>w r. (case p_workers P ! i of W_Start \<Rightarrow> Some (W_Wait, p_names P) | W_Wait \<Rightarrow> Some (W_Woken, p_names P)
       | W_Woken \<Rightarrow> worker_loop (p_names P)
       | W_Resolve k \<Rightarrow> Option.bind (worker_store (ns_malloc (ns_hash (p_names P))) (p_names P) k hostname) worker_loop) = Some (w, r) \<and>
     rs_inv r \<and> (\<forall>k. w = W_Resolve k \<longrightarrow> ns_key_ok k)"
  proof (cases "p_workers P ! i")
    case (W_Resolve k)
    then have "ns_key_ok k" using inv i by (metis program_inv_def nth_mem)
    from worker_store_ok [OF n this ns_malloc_fresh, of hostname] obtain r where
      "worker_store (ns_malloc (ns_hash (p_names P))) (p_names P) k hostname = Some r" "rs_inv r" by blast
    with loop [of r] W_Resolve show ?thesis by auto
  qed (use n loop [OF n] in auto)
  then obtain w r where w: "(case p_workers P ! i of W_Start \<Rightarrow> Some (W_Wait, p_names P) | W_Wait \<Rightarrow> Some (W_Woken, p_names P)
       | W_Woken \<Rightarrow> worker_loop (p_names P)
       | W_Resolve k \<Rightarrow> Option.bind (worker_store (ns_malloc (ns_hash (p_names P))) (p_names P) k hostname) worker_loop) = Some (w, r)"
    "rs_inv r" "\<forall>k. w = W_Resolve k \<longrightarrow> ns_key_ok k" by blast
  have "program_inv (P\<lparr>p_workers := (p_workers P)[i := w]\<rparr>)"
    using inv w(3) by (auto simp: program_inv_def dest!: set_update_subset_insert [THEN subsetD])
  from inv_set_names [OF this w(2)] w(1) i show ?thesis by (simp add: run_worker_def rd_def)
qed

lemma program_next_ok:
  assumes inv: "program_inv P" and ready: "event_ready lib e P"
  shows "\<exists>P'. program_next lib e P = Some P' \<and> program_inv P'"
proof (cases e)
  case (Packet_Event p hw)
  have s: "screen_inv (captured (p_core P)) (screen (p_core P))" "conserved (acct (captured (p_core P)))"
    using inv by (auto simp: program_inv_def tick_inv_def)
  have "header_ok p" using ready Packet_Event by simp
  from conserved_packet [OF this screen_inv_cap [OF s(1)] s(2)] obtain cs where
    "handle_ip_packet (l_ntop lib) (ui_opts (p_ui P)) (l_addrs lib) (captured (p_core P)) p hw = Some cs"
    "cap_inv cs (node_addrs (screen_hash (screen (p_core P))))" "conserved (acct cs)" by blast
  with screen_inv_capture [OF s(1), of cs] inv Packet_Event show ?thesis by (simp add: program_inv_def tick_inv_def)
next
  case (Clock_Event env now)
  with run_tick_ok [OF inv, of env now] ready show ?thesis by simp
next
  case (Key_Event k)
  with inv opts_step_ok [OF ui_switch_step] filters_switch show ?thesis by (auto simp: program_inv_def)
next
  case (Export_Event env now)
  with run_tick_ok [OF inv, of env now] inv ready show ?thesis by simp
next
  case (Call_Event env now tty)
  show ?thesis
  proof (cases "acts (p_ui P)")
    case Nil
    with inv Call_Event show ?thesis by (simp add: run_call_def)
  next
    case (Cons a rest)
    let ?P = "P\<lparr>p_ui := (p_ui P)\<lparr>acts := rest\<rparr>\<rparr>"
    have inv': "program_inv ?P" using inv by (simp add: program_inv_def filters_ok_def)
    show ?thesis
    proof (cases a)
      case (Do_Tick hidden n)
      with run_tick_ok [OF inv', of env now hidden n] ready Cons Call_Event show ?thesis by (simp add: run_call_def)
    next
      case (Do_Print hidden)
      with run_print_ok [OF inv', of hidden lib tty] ready Cons Call_Event show ?thesis by (simp add: run_call_def)
    qed (use inv' Cons Call_Event in \<open>simp add: run_call_def\<close>)
  qed
next
  case (Worker_Event i hostname)
  with run_worker_ok [OF inv, of i hostname] ready show ?thesis by simp
next
  case (Signal_Event sig)
  with inv show ?thesis by (simp add: finish_def program_inv_def filters_ok_def)
qed

text \<open>
  Process tables: only the live one is allocated, whatever happens. Packets and analyses leave
  them alone; a refresh replaces the live one.
\<close>

definition owned :: "program \<Rightarrow> bool" where
  "owned P \<longleftrightarrow> no_stray (procs (captured (p_core P)))"

lemma packet_procs: "handle_ip_packet f op env cs p hw = Some cs' \<Longrightarrow> procs cs' = procs cs"
  by (auto simp: handle_ip_packet_def bind_eq_Some_conv split: if_splits prod.splits)

lemma analyse_data_procs: "analyse_data env (cs, sc) = Some (cs', sc') \<Longrightarrow> procs cs' = procs cs"
  by (auto simp: analyse_data_def Let_def bind_eq_Some_conv split: if_splits prod.splits)

lemma refresh_owned:
  assumes "no_stray ps" "tick_env_ok env s" "procs (captured s) = ps"
    "procinfo_refresh (t_mem env) (t_fs env) (t_table env) ps = Some ps'"
  shows "no_stray ps'"
proof (cases "t_table env")
  case None
  with assms(1,4) show ?thesis by (auto simp: procinfo_refresh_def no_stray_def pinv_def in_ok_def)
next
  case (Some a)
  have "live_table ps \<noteq> Some a" using assms(1-3) Some by (auto simp: tick_env_ok_def no_stray_def pinv_def)
  from linux_source.no_stray_refresh [OF _ assms(1) this, of "(t_mem env, t_fs env)"] assms(2,4) Some show ?thesis
    by (auto simp: linux_ready_def tick_env_ok_def)
qed

lemma tick_owned:
  assumes "tick env n s = Some (r, s')" "tick_env_ok env s" "no_stray (procs (captured s))"
  shows "no_stray (procs (captured s'))"
proof -
  from assms(1) obtain s1 s2 where s: "tick_rotate env s = Some s1" "tick_procinfo env s1 = Some s2"
    "tick_display env (turned env s) n s2 = Some (r, s')" by (auto simp: tick_def Let_def bind_eq_Some_conv)
  have s1: "procs (captured s1) = procs (captured s)"
    using s(1) by (auto simp: tick_rotate_def Let_def bind_eq_Some_conv split: if_splits)
  have "tick_env_ok env s1" using assms(2) s1 by (simp add: tick_env_ok_def)
  then have "no_stray (procs (captured s2))"
    using s(2) s1 assms(3) refresh_owned [of "procs (captured s)" env s1]
    by (auto simp: tick_procinfo_def bind_eq_Some_conv split: if_splits)
  moreover have "procs (captured s') = procs (captured s2)"
    using s(3) analyse_data_procs by (auto simp: tick_display_def bind_eq_Some_conv split: if_splits prod.splits)
  ultimately show ?thesis by simp
qed

lemma owned_set_names [simp]: "owned (set_names r P) = owned P"
  by (simp add: owned_def set_names_def)

lemma run_tick_owned:
  assumes "run_tick env now hidden n P = Some P'" "tick_env_ok env (p_core P)" "owned P"
  shows "owned P'"
proof -
  let ?env = "env\<lparr>t_opts := ui_opts (p_ui P)\<rparr>"
  have "tick_env_ok ?env (p_core P)" using assms(2) by (simp add: tick_env_ok_def)
  with assms tick_owned [of ?env n "p_core P"] show ?thesis
    by (auto simp: run_tick_def owned_def bind_eq_Some_conv)
qed

lemma run_print_owned: "run_print lib tty hidden P = Some P' \<Longrightarrow> owned P \<Longrightarrow> owned P'"
  by (auto simp: run_print_def bind_eq_Some_conv split: if_splits) (simp add: owned_def)

lemma run_worker_owned: "run_worker i hostname P = Some P' \<Longrightarrow> owned P \<Longrightarrow> owned P'"
  by (auto simp: run_worker_def bind_eq_Some_conv) (simp add: owned_def)

lemma run_call_owned:
  assumes "run_call lib env now tty P = Some P'" "event_ready lib (Call_Event env now tty) P" "owned P"
  shows "owned P'"
proof (cases "acts (p_ui P)")
  case Nil
  with assms show ?thesis by (simp add: run_call_def)
next
  case (Cons a rest)
  let ?P = "P\<lparr>p_ui := (p_ui P)\<lparr>acts := rest\<rparr>\<rparr>"
  have o: "owned ?P" using assms(3) by (simp add: owned_def)
  show ?thesis
  proof (cases a)
    case (Do_Tick hidden n)
    with Cons assms run_tick_owned [of env now hidden n ?P P'] o show ?thesis by (simp add: run_call_def)
  next
    case (Do_Print hidden)
    with Cons assms(1) run_print_owned [of lib tty hidden ?P P'] o show ?thesis by (simp add: run_call_def)
  qed (use Cons assms(1) o in \<open>simp add: run_call_def\<close>)
qed

lemma program_next_owned:
  assumes "program_next lib e P = Some P'" "event_ready lib e P" "owned P"
  shows "owned P'"
proof (cases e)
  case (Packet_Event p hw)
  with assms packet_procs show ?thesis by (auto simp: owned_def bind_eq_Some_conv)
next
  case (Clock_Event env now)
  with assms run_tick_owned show ?thesis by auto
next
  case (Export_Event env now)
  with assms run_tick_owned show ?thesis by (auto split: if_splits)
next
  case (Call_Event env now tty)
  with assms run_call_owned show ?thesis by auto
next
  case (Worker_Event i hostname)
  with assms run_worker_owned show ?thesis by auto
qed (use assms in \<open>auto simp: owned_def finish_def split: if_splits\<close>)

interpretation program_machine: safe_run "program_next lib" "program_run lib" "event_ready lib"
  "\<lambda>P. program_inv P \<and> owned P"
  for lib
  using program_next_ok program_next_owned by unfold_locales (simp, simp, blast)

lemma events_ready_run: "events_ready lib es P = program_machine.run_ready lib es P"
  by (induction es arbitrary: P) (auto split: option.split)

lemma program_run_ok:
  "program_inv P \<Longrightarrow> owned P \<Longrightarrow> events_ready lib es P \<Longrightarrow>
     \<exists>P'. program_run lib es P = Some P' \<and> program_inv P' \<and> owned P'"
  unfolding events_ready_run using program_machine.run_safe by blast

lemma main_init_ok:
  assumes op: "opts_ok op" "screenfilter op = None"
    and m: "main_init lib sock hw ips datalink now op = Some (Inr (ia, h, P))"
  shows "program_inv P \<and> owned P \<and> ui_opts (p_ui P) = op \<and> acts (p_ui P) = (if export_mode op \<noteq> 0 then [] else [Do_Tick 0 1])"
proof -
  obtain sys ui where p: "packet_init lib sock hw ips datalink (case interface op of Some i \<Rightarrow> i | None \<Rightarrow> []) (ui_start op) = Some (Inr (ia, h, sys, ui))"
    and P: "P = \<lparr>p_ui = (if export_mode op \<noteq> 0 then ui else ui_init_message (tv_sec now) ui),
             p_core = \<lparr>captured = \<lparr>acct = init_history pool_empty, names = rs sys, procs = procinfo_init\<rparr>,
                       screen = ui_init_tables op, last_timestamp = now, last_display = now, last_procinfo = now, elapsed = 0\<rparr>,
             p_draw = draw_start, p_workers = workers sys\<rparr>"
    using m by (cases "packet_init lib sock hw ips datalink (case interface op of Some i \<Rightarrow> i | None \<Rightarrow> []) (ui_start op)")
      (auto simp: main_init_def split: sum.splits prod.splits)
  note f = packet_init_filter [OF p]
  have ui: "ui_opts ui = op" "installed ui = Some (filter_expression (filtercode op))" using f by (auto simp: ui_start_def)
  have more: "sys = resolver_boot" "preg ui = None" "acts ui = []" "dontshowdisplay ui = 0"
    using p by (auto simp: packet_init_def set_filter_code_def Let_def bind_eq_Some_conv ui_start_def split: if_splits option.splits prod.splits)
  have "captured (p_core P) = capture_start procinfo_init" by (simp add: P more(1) capture_start_def resolver_boot_def)
  then have "tick_inv (p_core P)"
    using ui_init_ok [OF procinfo_init_pinv, of op] capture_start_ok(2) [OF procinfo_init_pinv] by (simp add: tick_inv_def P)
  moreover have "filters_ok ui" "filters_ok (ui_init_message n ui)" for n
    using ui more(2) op(2) by (simp_all add: filters_ok_def ui_init_message_def)
  moreover have "line_ok (totals (ui_init_tables op))" by (rule ui_init_totals)
  ultimately show ?thesis using ui op(1) more draw_start_inv
    by (simp add: program_inv_def owned_def no_stray_init P ui_init_message_def resolver_boot_def) (simp add: show_help_def do_tick_def)
qed

section \<open>Export without a terminal\<close>

lemma no_columns:
  assumes "d_cols env = 0"
  shows "line_text env v bytes = None"
proof -
  obtain prec x i where "readable_size v 1024 bytes = Some (prec, x, (if bytes \<noteq> 0 then unit_bytes else unit_bits) ! i)"
    using readable_size_total by blast
  with assms show ?thesis by (simp add: line_text_def size_text_def Let_def)
qed

lemma print_no_columns:
  assumes "d_cols env = 0" "dontshowdisplay ui = 0"
  shows "Draw.ui_print env ui cum peaks tot ls s = None"
proof -
  have "draw_footer env cum peaks tot ds = None" for ds
    using no_columns [OF assms(1)] by (simp add: draw_footer_def Let_def)
  then show ?thesis using assms(2) by (cases s) (simp add: Draw.ui_print_def Let_def bind_eq_None_conv split_beta)
qed

section \<open>Properties\<close>

text \<open>C40: exporting can write past a heap block. In export mode \<open>export_loop\<close> calls \<open>tick(1)\<close>; if the packet thread's own tick
  has repainted less than thirty milliseconds before, this tick ends in \<open>ui_tick(1)\<close>, which paints the screen although there is no
  terminal. Its width is then zero, the text of the totals goes to an array of one byte, and the call is undefined
  behaviour.\<close>

theorem export_paints_without_terminal:
  assumes "program_inv P" and "tick_env_ok env (p_core P)" and "foad (p_ui P) = 0" and "dontshowdisplay (p_ui P) = 0"
    and "timeval_diff (t_now env) (last_timestamp (p_core P)) < 1" and "timeval_diff (t_now env) (last_display (p_core P)) < 3 / 100"
    and "d_cols tty = 0"
  shows "\<exists>P'. program_next lib (Export_Event env now) P = Some P' \<and> program_next lib (Call_Event env now tty) P' = None"
proof -
  let ?env = "env\<lparr>t_opts := ui_opts (p_ui P)\<rparr>"
  have t: "\<not> turned ?env (p_core P)" using assms(5) by (simp add: turned_def RESOLUTION_def)
  have inv: "tick_inv (p_core P)" using assms(1) by (simp add: program_inv_def)
  obtain s1 where s1: "tick_rotate ?env (p_core P) = Some s1" "tick_inv s1" "last_display s1 = last_display (p_core P)"
    "procs (captured s1) = procs (captured (p_core P))"
    using tick_rotate_ok [OF inv, of ?env] by metis
  have "tick_env_ok ?env s1" using assms(2) s1(4) by (simp add: tick_env_ok_def)
  then obtain s2 where s2: "tick_procinfo ?env s1 = Some s2" "last_display s2 = last_display (p_core P)"
    using tick_procinfo_ok [OF s1(2)] s1(3) by metis
  have "tick ?env 1 (p_core P) = Some (Ui_Tick 1, s2)"
    using t s1(1) s2 assms(6) by (simp add: tick_def tick_display_def DISPLAY_RESOLUTION_def Let_def)
  then have n: "program_next lib (Export_Event env now) P = Some (P\<lparr>p_core := s2, p_ui := (p_ui P)\<lparr>acts := Do_Print 0 # acts (p_ui P)\<rparr>\<rparr>)"
    using assms(3,4) by (simp add: run_tick_def tick_calls_def ui_tick_def do_print_def)
  have "paint (frame_of lib tty 0 Q) x = None" for Q x
    unfolding paint_def by (rule print_no_columns) (simp_all add: frame_of_def Let_def assms(7))
  then show ?thesis unfolding n by (simp add: run_call_def run_print_def Let_def)
qed

definition example_program_lib :: program_lib where
  "example_program_lib = \<lparr>l_ui = Keys.example_lib, l_ntop = no_names, l_addrs = no_addrs\<rparr>"

definition export_program :: program where
  "export_program = \<lparr>p_ui = start_ui\<lparr>ui_opts := (ui_opts start_ui)\<lparr>export_mode := 1\<rparr>\<rparr>, p_core = start_tick, p_draw = draw_start,
     p_workers = [W_Start, W_Start]\<rparr>"

theorem export_paints_without_terminal_witness:
  "\<exists>P'. program_next example_program_lib (Export_Event (example_tick\<lparr>t_now := \<lparr>tv_sec = 0, tv_usec = 0\<rparr>\<rparr>) 0) export_program = Some P' \<and>
     program_next example_program_lib (Call_Event (example_tick\<lparr>t_now := \<lparr>tv_sec = 0, tv_usec = 0\<rparr>\<rparr>) 0 (example_draw\<lparr>d_cols := 0\<rparr>)) P' = None"
proof -
  have inv: "program_inv export_program"
    using start_ui_ok draw_start_inv
    by (simp add: program_inv_def export_program_def ui_init_totals opts_ok_def filters_ok_def tick_inv_def start_tick_def ui_init_ok capture_start_ok procinfo_init_pinv)
  show ?thesis
    by (rule export_paints_without_terminal [OF inv])
      (simp_all add: tick_env_ok_def example_tick_def isort_qsort idle_fs_def file6_ok_def export_program_def start_ui_def start_tick_def timeval_diff_def)
qed

end
