(* ===== verification/Procinfo_Mac.thy ===== *)
theory Procinfo_Mac
  imports Procinfo
begin

text \<open>
  Socket-to-process attribution on macOS and on platforms without support, the other two
  forms of \<open>procinfo_refresh\<close> in \<open>src/util/procinfo.c\<close>. What \<open>libproc\<close> returns is a
  parameter: the results of the calls of \<open>proc_listallpids\<close>, \<open>proc_pidinfo\<close>, \<open>proc_name\<close>
  and \<open>proc_pidfdinfo\<close>, and the constants of its headers. The socket table, its
  publication and the lookup are those of \<open>Procinfo\<close>; the families are compared with the
  constants of the host and their values play no part.

  The theory shows that this form is a source of sockets in the sense of the locale of
  \<open>Procinfo\<close>, so that lookups after a refresh and the race of readers carry over.
\<close>

section \<open>What the library returns\<close>

record proc_fdinfo =
  proc_fd :: int
  proc_fdtype :: u32

text \<open>
  The members of \<open>struct socket_fdinfo\<close> the code reads; the union of the local address is
  read as four bytes or as sixteen.
\<close>

record socket_fdinfo =
  soi_family :: int
  soi_protocol :: int
  insi_lport :: int
  i46a_addr4 :: bytes
  ina_6 :: bytes

text \<open>
  The two calls of a pair return different values if processes or descriptors come and go
  between them. A call that fills a buffer has the size of the buffer as argument; its value
  is the result with what it wrote.
\<close>

record libproc =
  PROX_FDTYPE_SOCKET :: u32
  sizeof_fdinfo :: nat
  list_count :: int
  list_pids :: "int \<Rightarrow> int \<times> int list"
  fds_size :: "int \<Rightarrow> int"
  fds_list :: "int \<Rightarrow> int \<Rightarrow> int \<times> proc_fdinfo list"
  proc_name_of :: "int \<Rightarrow> int \<times> string"
  socket_of :: "int \<Rightarrow> int \<Rightarrow> int \<times> socket_fdinfo"

text \<open>\<open>ntohs\<close> of the low half of an \<open>int\<close> on a little-endian host.\<close>

definition ntohs :: "int \<Rightarrow> u16" where
  "ntohs v = (let w = word_of_int v :: u16 in push_bit 8 w OR drop_bit 8 w)"

section \<open>One process\<close>

text \<open>The body of the loop over the descriptors, for a socket; \<open>continue\<close> leaves the table as it is.\<close>

definition add_socket ::
  "libproc \<Rightarrow> (nat \<Rightarrow> bool) \<Rightarrow> sock_table_t \<Rightarrow> int \<Rightarrow> string \<Rightarrow> int \<Rightarrow> sock_table_t option" where
  "add_socket lib mem t pid pname fd =
     (let (ret, si) = socket_of lib pid fd;
          family = soi_family si; proto = soi_protocol si; lport = ntohs (insi_lport si)
      in if ret \<le> 0 then Some t
         else if family \<noteq> AF_INET \<and> family \<noteq> AF_INET6 then Some t
         else if proto \<noteq> IPPROTO_TCP \<and> proto \<noteq> IPPROTO_UDP then Some t
         else if lport = 0 then Some t
         else if family = AF_INET
              then table_add mem t AF_INET (word_of_int proto) lport (i46a_addr4 si) pid pname
         else table_add mem t AF_INET6 (word_of_int proto) lport (ina_6 si) pid pname)"

fun add_sockets ::
  "libproc \<Rightarrow> (nat \<Rightarrow> bool) \<Rightarrow> sock_table_t \<Rightarrow> int \<Rightarrow> string \<Rightarrow> proc_fdinfo list \<Rightarrow> sock_table_t option" where
  "add_sockets lib mem t pid pname [] = Some t"
| "add_sockets lib mem t pid pname (fd # fds) =
     (if proc_fdtype fd \<noteq> PROX_FDTYPE_SOCKET lib then add_sockets lib mem t pid pname fds
      else do {
        t \<leftarrow> add_socket lib mem t pid pname (proc_fd fd);
        add_sockets lib mem t pid pname fds })"

definition mac_proc_name :: "libproc \<Rightarrow> int \<Rightarrow> string" where
  "mac_proc_name lib pid =
     (let (namelen, pname) = proc_name_of lib pid in
      if namelen \<le> 0 then take (PROCINFO_NAME_MAX - 1) (''pid:'' @ print_int pid) else pname)"

text \<open>
  The body of the loop over the processes. \<open>mal\<close> says whether \<open>malloc\<close> of a number of bytes
  succeeds. Both loops over the descriptors together read exactly the first \<open>nfds\<close>
  elements, which must have been written.
\<close>

definition add_process ::
  "libproc \<Rightarrow> (int \<Rightarrow> bool) \<Rightarrow> (nat \<Rightarrow> bool) \<Rightarrow> sock_table_t \<Rightarrow> int \<Rightarrow> sock_table_t option" where
  "add_process lib mal mem t pid =
     (let bufsize = fds_size lib pid in
      if bufsize \<le> 0 then Some t
      else if \<not> mal bufsize then Some t
      else let (actual, written) = fds_list lib pid bufsize in
      if actual \<le> 0 then Some t
      else do {
        fds \<leftarrow> rd_slice written 0 (nat (actual div int (sizeof_fdinfo lib)));
        if \<not> list_ex (\<lambda>fd. proc_fdtype fd = PROX_FDTYPE_SOCKET lib) fds then Some t
        else add_sockets lib mem t pid (mac_proc_name lib pid) fds })"

fun add_processes ::
  "libproc \<Rightarrow> (int \<Rightarrow> bool) \<Rightarrow> (nat \<Rightarrow> bool) \<Rightarrow> sock_table_t \<Rightarrow> int list \<Rightarrow> sock_table_t option" where
  "add_processes lib mal mem t [] = Some t"
| "add_processes lib mal mem t (pid # pids) = do {
     t \<leftarrow> add_process lib mal mem t pid;
     add_processes lib mal mem t pids }"

section \<open>The refresh\<close>

text \<open>
  \<open>new\<close> is the address \<open>calloc\<close> gives the new table. The buffer of process numbers has
  \<open>npids\<close> elements of four bytes; more than these are never written.
\<close>

definition mac_refresh ::
  "libproc \<Rightarrow> (int \<Rightarrow> bool) \<Rightarrow> (nat \<Rightarrow> bool) \<Rightarrow> nat option \<Rightarrow> procinfo_state \<Rightarrow> procinfo_state option" where
  "mac_refresh lib mal mem new s =
     (case new of
        None \<Rightarrow> Some (s\<lparr>staging_table := None\<rparr>)
      | Some a \<Rightarrow>
          (let s = s\<lparr>staging_table := Some a, tables := (tables s)(a \<mapsto> table_create)\<rparr>;
               npids = list_count lib
           in if npids \<le> 0 then Some (table_publish s)
              else if \<not> mal (npids * 4) then Some (table_publish s)
              else let (n, written) = list_pids lib (npids * 4) in
              if n \<le> 0 then Some (table_publish s)
              else do {
                pids \<leftarrow> rd_slice (take (nat npids) written) 0 (nat n);
                t \<leftarrow> tables s a;
                t \<leftarrow> add_processes lib mal mem t pids;
                Some (table_publish (s\<lparr>tables := (tables s)(a \<mapsto> t)\<rparr>)) }))"

text \<open>Platforms without either interface.\<close>

definition unsupported_refresh :: "procinfo_state \<Rightarrow> procinfo_state" where
  "unsupported_refresh s = s"

text \<open>\<open>procinfo_available\<close> of the three forms.\<close>

datatype platform = Apple | Linux | Unsupported

definition procinfo_available :: "platform \<Rightarrow> bool" where
  "procinfo_available p = (case p of Apple \<Rightarrow> True | Linux \<Rightarrow> True | Unsupported \<Rightarrow> False)"

section \<open>The sockets of a refresh\<close>

text \<open>
  The documented behaviour of the library the code relies on: a call returns no more than it
  wrote, a list of processes no more than its buffer holds, and a socket has whole addresses.
\<close>

definition libproc_ok :: "libproc \<Rightarrow> bool" where
  "libproc_ok lib \<longleftrightarrow>
     fst (list_pids lib (list_count lib * 4)) \<le> list_count lib \<and>
     fst (list_pids lib (list_count lib * 4)) \<le> int (length (snd (list_pids lib (list_count lib * 4)))) \<and>
     (\<forall>pid size. fst (fds_list lib pid size) div int (sizeof_fdinfo lib)
        \<le> int (length (snd (fds_list lib pid size)))) \<and>
     (\<forall>pid fd. length (i46a_addr4 (snd (socket_of lib pid fd))) = 4 \<and>
        length (ina_6 (snd (socket_of lib pid fd))) = 16)"

text \<open>The row a descriptor gives, if it is an internet socket bound to a port.\<close>

definition socket_row :: "libproc \<Rightarrow> int \<Rightarrow> proc_fdinfo \<Rightarrow> sock_entry option" where
  "socket_row lib pid fd =
     (let (ret, si) = socket_of lib pid (proc_fd fd); port = ntohs (insi_lport si) in
      if proc_fdtype fd = PROX_FDTYPE_SOCKET lib \<and> 0 < ret \<and> soi_family si \<in> {AF_INET, AF_INET6} \<and>
         soi_protocol si \<in> {IPPROTO_TCP, IPPROTO_UDP} \<and> port \<noteq> 0
      then Some (mk_row (soi_family si) (word_of_int (soi_protocol si)) port
                   (if soi_family si = AF_INET then i46a_addr4 si else ina_6 si)
                   pid (mac_proc_name lib pid))
      else None)"

definition process_rows :: "libproc \<Rightarrow> int \<Rightarrow> sock_entry list" where
  "process_rows lib pid =
     (let size = fds_size lib pid; (actual, written) = fds_list lib pid size in
      if size \<le> 0 \<or> actual \<le> 0 then []
      else List.map_filter (socket_row lib pid) (take (nat (actual div int (sizeof_fdinfo lib))) written))"

definition mac_rows :: "libproc \<Rightarrow> sock_entry list" where
  "mac_rows lib =
     (let (n, written) = list_pids lib (list_count lib * 4) in
      if list_count lib \<le> 0 then [] else concat (map (process_rows lib) (take (nat n) written)))"

lemma table_add_row:
  assumes "tb_ok t" "addr_size af \<le> length address" "\<forall>c. mem c"
  shows "\<exists>t'. table_add mem t af protocol port address pid name = Some t' \<and> tb_ok t' \<and>
     rows t' = rows t @ [mk_row af protocol port address pid name]"
  using table_add_ok [OF assms(1,2), of mem protocol port pid name] assms(3) by auto

lemma add_sockets_ok:
  assumes "tb_ok t" "\<forall>c. mem c" "libproc_ok lib"
  shows "\<exists>t'. add_sockets lib mem t pid (mac_proc_name lib pid) fds = Some t' \<and> tb_ok t' \<and>
     rows t' = rows t @ List.map_filter (socket_row lib pid) fds"
  using assms(1)
proof (induction fds arbitrary: t)
  case Nil
  then show ?case by (simp add: List.map_filter_simps)
next
  case (Cons fd fds)
  obtain ret si where so: "socket_of lib pid (proc_fd fd) = (ret, si)" by fastforce
  have len: "length (i46a_addr4 si) = 4" "length (ina_6 si) = 16"
    using assms(3) so by (metis libproc_ok_def snd_conv)+
  show ?case
  proof (cases "socket_row lib pid fd")
    case None
    then have "add_sockets lib mem t pid (mac_proc_name lib pid) (fd # fds) =
        add_sockets lib mem t pid (mac_proc_name lib pid) fds"
      by (auto simp: socket_row_def add_socket_def so Let_def split: if_splits)
    with Cons None show ?thesis by (simp add: List.map_filter_simps)
  next
    case (Some r)
    let ?af = "soi_family si"
    let ?address = "if ?af = AF_INET then i46a_addr4 si else ina_6 si"
    let ?proto = "word_of_int (soi_protocol si) :: u16"
    have "addr_size ?af \<le> length ?address" by (simp add: addr_size_def len)
    from table_add_row [OF Cons.prems this assms(2), of ?proto "ntohs (insi_lport si)" pid "mac_proc_name lib pid"]
    obtain t1 where t1: "table_add mem t ?af ?proto (ntohs (insi_lport si)) ?address pid (mac_proc_name lib pid) = Some t1"
      "tb_ok t1" "rows t1 = rows t @ [r]"
      using Some by (auto simp: socket_row_def so Let_def split: if_splits)
    have "add_socket lib mem t pid (mac_proc_name lib pid) (proc_fd fd) = Some t1"
      and "proc_fdtype fd = PROX_FDTYPE_SOCKET lib"
      using Some t1(1) by (auto simp: socket_row_def add_socket_def so Let_def net_consts split: if_splits)
    with Cons.IH [OF t1(2)] t1(3) Some show ?thesis by (simp add: List.map_filter_simps)
  qed
qed

lemma socket_row_socket: "socket_row lib pid fd = Some r \<Longrightarrow> proc_fdtype fd = PROX_FDTYPE_SOCKET lib"
  by (auto simp: socket_row_def Let_def split: prod.splits if_splits)

lemma add_process_ok:
  assumes "tb_ok t" "\<forall>n. mal n" "\<forall>c. mem c" "libproc_ok lib"
  shows "\<exists>t'. add_process lib mal mem t pid = Some t' \<and> tb_ok t' \<and> rows t' = rows t @ process_rows lib pid"
proof -
  let ?size = "fds_size lib pid"
  obtain actual written where fl: "fds_list lib pid ?size = (actual, written)" by fastforce
  let ?n = "nat (actual div int (sizeof_fdinfo lib))"
  have n: "?n \<le> length written" using assms(4) fl by (metis libproc_ok_def fst_conv nat_le_iff snd_conv)
  show ?thesis
  proof (cases "?size \<le> 0 \<or> actual \<le> 0")
    case True
    then show ?thesis using assms(1,2) by (auto simp: add_process_def process_rows_def fl Let_def)
  next
    case False
    have "List.map_filter (socket_row lib pid) (take ?n written) = []"
      if "\<not> list_ex (\<lambda>fd. proc_fdtype fd = PROX_FDTYPE_SOCKET lib) (take ?n written)"
      using that socket_row_socket [of lib pid]
      by (force simp: map_filter_def filter_empty_conv list_ex_iff)
    with False n assms(1,2) add_sockets_ok [OF assms(1,3,4), of pid "take ?n written"] show ?thesis
      by (auto simp: add_process_def process_rows_def fl Let_def rd_slice_in)
  qed
qed

lemma add_processes_ok:
  assumes "tb_ok t" "\<forall>n. mal n" "\<forall>c. mem c" "libproc_ok lib"
  shows "\<exists>t'. add_processes lib mal mem t pids = Some t' \<and> tb_ok t' \<and>
     rows t' = rows t @ concat (map (process_rows lib) pids)"
  using assms(1)
proof (induction pids arbitrary: t)
  case (Cons pid pids)
  from add_process_ok [OF Cons.prems assms(2-4), of pid] obtain t1 where
    t1: "add_process lib mal mem t pid = Some t1" "tb_ok t1" "rows t1 = rows t @ process_rows lib pid"
    by blast
  with Cons.IH [OF t1(2)] show ?case by auto
qed simp

lemma mac_refresh_ok:
  assumes inv: "pinv s" and fresh: "tables s a = None" and mem: "\<forall>n. mal n" "\<forall>c. mem c"
    and lib: "libproc_ok lib"
  shows "\<exists>s' t. mac_refresh lib mal mem (Some a) s = Some s' \<and> pinv s' \<and> live_table s' = Some a \<and>
     tables s' = drop_table (live_table s) ((tables s)(a \<mapsto> t)) \<and> tb_ok t \<and> rows t = mac_rows lib"
proof -
  let ?s = "\<lambda>t. s\<lparr>staging_table := Some a, tables := (tables s)(a \<mapsto> t)\<rparr>"
  have live: "live_table s \<noteq> Some a" and inok: "in_ok s" using inv fresh by (auto simp: pinv_def)
  have pub: "pinv (table_publish (?s t)) \<and> live_table (table_publish (?s t)) = Some a \<and>
      tables (table_publish (?s t)) = drop_table (live_table s) ((tables s)(a \<mapsto> t))" if "tb_ok t" for t
    using table_publish_ok [of "?s t" a t] that live inok by (simp add: in_ok_def)
  obtain n written where pl: "list_pids lib (list_count lib * 4) = (n, written)" by fastforce
  show ?thesis
  proof (cases "list_count lib \<le> 0 \<or> n \<le> 0")
    case True
    then have "mac_refresh lib mal mem (Some a) s = Some (table_publish (?s table_create))"
      using mem(1) by (auto simp: mac_refresh_def Let_def pl)
    moreover have "rows table_create = mac_rows lib" using True by (auto simp: mac_rows_def pl table_create_ok)
    ultimately show ?thesis using pub [OF table_create_ok(1)] table_create_ok(1) by auto
  next
    case False
    have n: "n \<le> list_count lib" "n \<le> int (length written)" using lib pl by (auto simp: libproc_ok_def)
    from add_processes_ok [OF table_create_ok(1) mem lib, of "take (nat n) written"] obtain t where
      t: "add_processes lib mal mem table_create (take (nat n) written) = Some t" "tb_ok t"
        "rows t = concat (map (process_rows lib) (take (nat n) written))" by (auto simp: table_create_ok(2))
    have "nat n \<le> length (take (nat (list_count lib)) written)" "nat n \<le> nat (list_count lib)" using n False by auto
    then have "mac_refresh lib mal mem (Some a) s = Some (table_publish (?s t))"
      using False mem(1) t(1) by (simp add: mac_refresh_def Let_def pl rd_slice_def min_def)
    moreover have "rows t = mac_rows lib" using t(3) False by (simp add: mac_rows_def pl)
    ultimately show ?thesis using pub [OF t(2)] t(2) by auto
  qed
qed

section \<open>The source of sockets\<close>

record mac_env =
  env_lib :: libproc
  env_malloc :: "int \<Rightarrow> bool"
  env_realloc :: "nat \<Rightarrow> bool"

definition mac_ready :: "mac_env \<Rightarrow> bool" where
  "mac_ready env \<longleftrightarrow> (\<forall>n. env_malloc env n) \<and> (\<forall>c. env_realloc env c) \<and> libproc_ok (env_lib env)"

interpretation mac_source: socket_source
  "\<lambda>env a s. mac_refresh (env_lib env) (env_malloc env) (env_realloc env) (Some a) s"
  "\<lambda>env. mac_rows (env_lib env)" mac_ready
  using mac_refresh_ok by unfold_locales (auto simp: mac_ready_def)

section \<open>Properties\<close>

text \<open>A library for the witness: process 42 has a file and a TCP socket bound to port 8080.\<close>

definition demo_lib :: libproc where
  "demo_lib = \<lparr>PROX_FDTYPE_SOCKET = 2, sizeof_fdinfo = 8, list_count = 2,
     list_pids = (\<lambda>_. (2, [1, 42])),
     fds_size = (\<lambda>pid. if pid = 42 then 16 else 0),
     fds_list = (\<lambda>pid size. (16, [\<lparr>proc_fd = 0, proc_fdtype = 1\<rparr>, \<lparr>proc_fd = 3, proc_fdtype = 2\<rparr>])),
     proc_name_of = (\<lambda>_. (5, ''nginx'')),
     socket_of = (\<lambda>_ _. (1, \<lparr>soi_family = AF_INET, soi_protocol = 6, insi_lport = 36895,
        i46a_addr4 = [127, 0, 0, 1], ina_6 = replicate 16 0\<rparr>))\<rparr>"

definition demo_env :: mac_env where
  "demo_env = \<lparr>env_lib = demo_lib, env_malloc = (\<lambda>_. True), env_realloc = (\<lambda>_. True)\<rparr>"

lemma demo_env_ready: "mac_ready demo_env"
  by (simp add: mac_ready_def demo_env_def libproc_ok_def demo_lib_def)

text \<open>C20: attribution on macOS. Over any sequence of refreshes, if memory is available and the
  library returns no more than it wrote, every refresh returns without an access outside a
  buffer, exactly one table is left allocated (the live one: every older table has been freed
  once), and a lookup returns the process of the first matching row of the last refresh, where
  the rows are the TCP and UDP sockets bound to a port, of every listed process in the order of
  its descriptors.\<close>

theorem mac_refreshes_lookup:
  assumes "\<forall>ea\<in>set (eas @ [(env, a)]). mac_ready (fst ea)" and "no_stray s"
    and "distinct_adj (live_table s # map (Some \<circ> snd) (eas @ [(env, a)]))"
  shows "\<exists>s'. refreshes (\<lambda>env a. mac_refresh (env_lib env) (env_malloc env) (env_realloc env) (Some a))
       (eas @ [(env, a)]) s = Some s' \<and> no_stray s' \<and>
     procinfo_lookup s' af address port protocol = Some (map_option entry_proc
       (List.find (\<lambda>e. entry_matches e af address port protocol) (mac_rows (env_lib env))))"
  by (rule mac_source.refreshes_lookup [OF assms])

theorem mac_refreshes_lookup_witness:
  "\<exists>s'. refreshes (\<lambda>env a. mac_refresh (env_lib env) (env_malloc env) (env_realloc env) (Some a))
       ([(demo_env, 0)] @ [(demo_env, 1)]) procinfo_init = Some s' \<and> no_stray s' \<and>
     procinfo_lookup s' AF_INET [127,0,0,1] 8080 6 = Some (map_option entry_proc
       (List.find (\<lambda>e. entry_matches e AF_INET [127,0,0,1] 8080 6) (mac_rows (env_lib demo_env))))"
  by (rule mac_refreshes_lookup)
     (simp_all add: demo_env_ready no_stray_init live_table_init)

lemma demo_lib_rows:
  "map entry_proc (mac_rows demo_lib) = [\<lparr>pe_pid = 42, pe_name = ''nginx''\<rparr>]"
  by code_simp

end
