(* ===== verification/Memory.thy ===== *)
theory Memory
  imports Prelude
begin

text \<open>
  The memory wrappers, \<open>src/util/util.c\<close>: \<open>xmalloc\<close>, \<open>xcalloc\<close>, \<open>xrealloc\<close>, \<open>xstrdup\<close> and
  \<open>xfree\<close>, over a heap of blocks. The allocator of the C library is a parameter: the address
  it picks for a request in a given heap, or none when it returns \<open>NULL\<close>. A byte nobody has
  written is \<^term>\<open>None\<close>.

  The other theories model a call of a wrapper that aborts as an execution that ends there;
  the theorems of this theory are what they rely on when they treat the result as a fresh,
  valid object.
\<close>

section \<open>Heap and allocator\<close>

type_synonym heap_block = "u8 option list"
type_synonym heap = "nat \<rightharpoonup> heap_block"

text \<open>\<open>abort()\<close> ends the program; \<open>Undefined\<close> is undefined behaviour, such as a second \<open>free\<close>.\<close>

datatype 'a result = Returns 'a heap | Aborts | Undefined

record allocator =
  place :: "heap \<Rightarrow> nat \<Rightarrow> nat option"
  place_again :: "heap \<Rightarrow> nat \<Rightarrow> nat \<Rightarrow> nat option"

definition SIZE_MAX :: nat where "SIZE_MAX = 2 ^ 64 - 1"

definition c_malloc :: "allocator \<Rightarrow> nat \<Rightarrow> heap \<Rightarrow> nat option \<times> heap" where
  "c_malloc al len h = (case place al h len of
       None \<Rightarrow> (None, h)
     | Some a \<Rightarrow> (Some a, h(a \<mapsto> replicate len None)))"

text \<open>\<open>calloc\<close> fails if the product does not fit.\<close>

definition c_calloc :: "allocator \<Rightarrow> nat \<Rightarrow> nat \<Rightarrow> heap \<Rightarrow> nat option \<times> heap" where
  "c_calloc al nmemb len h = (if nmemb * len > SIZE_MAX then (None, h) else
     (case place al h (nmemb * len) of
       None \<Rightarrow> (None, h)
     | Some a \<Rightarrow> (Some a, h(a \<mapsto> replicate (nmemb * len) (Some 0)))))"

definition resize :: "heap_block \<Rightarrow> nat \<Rightarrow> heap_block" where
  "resize b n = take n b @ replicate (n - length b) None"

text \<open>
  \<open>realloc\<close>: \<open>NULL\<close> gives a new block, size zero frees the block and returns \<open>NULL\<close>, and
  otherwise the block is resized where it is or moved; on failure it is left as it was.
\<close>

definition c_realloc :: "allocator \<Rightarrow> nat option \<Rightarrow> nat \<Rightarrow> heap \<Rightarrow> (nat option \<times> heap) option" where
  "c_realloc al orig len h = (case orig of
       None \<Rightarrow> Some (c_malloc al len h)
     | Some a \<Rightarrow> (case h a of
           None \<Rightarrow> None
         | Some b \<Rightarrow> if len = 0 then Some (None, h(a := None))
             else (case place_again al h a len of
                 None \<Rightarrow> Some (None, h)
               | Some a' \<Rightarrow> Some (Some a', (h(a := None))(a' \<mapsto> resize b len)))))"

text \<open>A C string as the bytes of its block.\<close>

definition string_block :: "string \<Rightarrow> heap_block" where
  "string_block s = map (\<lambda>c. Some (of_char c)) s @ [Some 0]"

definition c_strdup :: "allocator \<Rightarrow> string \<Rightarrow> heap \<Rightarrow> nat option \<times> heap" where
  "c_strdup al s h = (case c_malloc al (length s + 1) h of
       (None, h) \<Rightarrow> (None, h)
     | (Some a, h) \<Rightarrow> (Some a, h(a \<mapsto> string_block s)))"

definition c_free :: "nat \<Rightarrow> heap \<Rightarrow> heap option" where
  "c_free a h = (case h a of None \<Rightarrow> None | Some _ \<Rightarrow> Some (h(a := None)))"

section \<open>The wrappers\<close>

definition xmalloc :: "allocator \<Rightarrow> nat \<Rightarrow> heap \<Rightarrow> nat result" where
  "xmalloc al len h = (case c_malloc al len h of (None, _) \<Rightarrow> Aborts | (Some p, h) \<Rightarrow> Returns p h)"

definition xcalloc :: "allocator \<Rightarrow> nat \<Rightarrow> nat \<Rightarrow> heap \<Rightarrow> nat result" where
  "xcalloc al nmemb len h =
     (case c_calloc al nmemb len h of (None, _) \<Rightarrow> Aborts | (Some p, h) \<Rightarrow> Returns p h)"

definition xrealloc :: "allocator \<Rightarrow> nat option \<Rightarrow> nat \<Rightarrow> heap \<Rightarrow> nat option result" where
  "xrealloc al orig len h = (case c_realloc al orig len h of
       None \<Rightarrow> Undefined
     | Some (p, h) \<Rightarrow> if len \<noteq> 0 \<and> p = None then Aborts else Returns p h)"

definition xstrdup :: "allocator \<Rightarrow> string \<Rightarrow> heap \<Rightarrow> nat result" where
  "xstrdup al s h = (case c_strdup al s h of (None, _) \<Rightarrow> Aborts | (Some p, h) \<Rightarrow> Returns p h)"

definition xfree :: "nat option \<Rightarrow> heap \<Rightarrow> unit result" where
  "xfree p h = (case p of
       None \<Rightarrow> Returns () h
     | Some a \<Rightarrow> (case c_free a h of None \<Rightarrow> Undefined | Some h \<Rightarrow> Returns () h))"

section \<open>The contract\<close>

text \<open>What the C library promises: a new block has an address of its own.\<close>

definition allocator_ok :: "allocator \<Rightarrow> bool" where
  "allocator_ok al \<longleftrightarrow> (\<forall>h n a. place al h n = Some a \<longrightarrow> h a = None) \<and>
     (\<forall>h a n a'. place_again al h a n = Some a' \<longrightarrow> a' = a \<or> h a' = None)"

text \<open>The result is a new block with the given contents, and the rest of the heap is as before.\<close>

definition fresh_block :: "heap \<Rightarrow> heap_block \<Rightarrow> nat \<Rightarrow> heap \<Rightarrow> bool" where
  "fresh_block h b p h' \<longleftrightarrow> h p = None \<and> h' = h(p \<mapsto> b)"

lemma xmalloc_new:
  "allocator_ok al \<Longrightarrow> xmalloc al len h = Returns p h' \<Longrightarrow> fresh_block h (replicate len None) p h'"
  by (auto simp: xmalloc_def c_malloc_def fresh_block_def allocator_ok_def split: option.splits)

lemma xcalloc_new:
  "allocator_ok al \<Longrightarrow> xcalloc al nmemb len h = Returns p h' \<Longrightarrow>
     fresh_block h (replicate (nmemb * len) (Some 0)) p h'"
  by (auto simp: xcalloc_def c_calloc_def fresh_block_def allocator_ok_def split: option.splits if_splits)

lemma xstrdup_new:
  "allocator_ok al \<Longrightarrow> xstrdup al s h = Returns p h' \<Longrightarrow> fresh_block h (string_block s) p h'"
  by (auto simp: xstrdup_def c_strdup_def c_malloc_def fresh_block_def allocator_ok_def split: option.splits)

lemma xfree_new: "fresh_block h b p h' \<Longrightarrow> xfree (Some p) h' = Returns () h"
  by (auto simp: fresh_block_def xfree_def c_free_def)

lemma never_undefined:
  "xmalloc al len h \<noteq> Undefined" "xcalloc al nmemb len h \<noteq> Undefined" "xstrdup al s h \<noteq> Undefined"
  by (auto simp: xmalloc_def xcalloc_def xstrdup_def split: option.splits prod.splits)

text \<open>Resizing: the common prefix is kept, the old address is given up, all other blocks stay.\<close>

lemma xrealloc_block:
  assumes "allocator_ok al" "h a = Some b" "len \<noteq> 0"
  shows "xrealloc al (Some a) len h = Aborts \<or>
     (\<exists>p h'. xrealloc al (Some a) len h = Returns (Some p) h' \<and> h' p = Some (resize b len) \<and>
        (\<forall>q. q \<noteq> p \<longrightarrow> h' q = (if q = a then None else h q)) \<and> (p = a \<or> h p = None))"
  using assms by (auto simp: xrealloc_def c_realloc_def allocator_ok_def split: option.splits)

lemma resize_prefix: "take (min n (length b)) (resize b n) = take (min n (length b)) b"
  by (simp add: resize_def)

section \<open>Properties\<close>

text \<open>An allocator that places blocks at the first of some addresses that is free.\<close>

definition demo_alloc :: allocator where
  "demo_alloc = \<lparr>place = (\<lambda>h n. find (\<lambda>a. h a = None) [1, 2, 3, 4]),
     place_again = (\<lambda>h a n. Some a)\<rparr>"

lemma demo_alloc_ok: "allocator_ok demo_alloc"
  by (auto simp: allocator_ok_def demo_alloc_def find_Some_iff)

text \<open>The memory wrappers. If the C library places new blocks at addresses of their own,
  then \<open>xmalloc\<close>, \<open>xcalloc\<close> and \<open>xstrdup\<close> end the program or return a valid block that was not
  allocated before, uninitialised, zeroed or holding the string with its terminator, without
  touching any other block, and \<open>xfree\<close> of it restores the heap; \<open>xrealloc\<close> of a live block
  to a positive size ends the program or returns a block with the old contents up to the
  smaller size and gives up the old address; to size zero it frees the block.\<close>

theorem wrappers_allocate:
  assumes "allocator_ok al" and "h a = Some b" and "0 < n"
  shows "(xmalloc al len h = Aborts \<or>
       (\<exists>p h'. xmalloc al len h = Returns p h' \<and> fresh_block h (replicate len None) p h' \<and>
          xfree (Some p) h' = Returns () h)) \<and>
     (xcalloc al nmemb len h = Aborts \<or>
       (\<exists>p h'. xcalloc al nmemb len h = Returns p h' \<and>
          fresh_block h (replicate (nmemb * len) (Some 0)) p h' \<and> xfree (Some p) h' = Returns () h)) \<and>
     (xstrdup al s h = Aborts \<or>
       (\<exists>p h'. xstrdup al s h = Returns p h' \<and> fresh_block h (string_block s) p h' \<and>
          xfree (Some p) h' = Returns () h)) \<and>
     (xrealloc al (Some a) n h = Aborts \<or>
       (\<exists>p h'. xrealloc al (Some a) n h = Returns (Some p) h' \<and> h' p = Some (resize b n) \<and>
          (\<forall>q. q \<noteq> p \<longrightarrow> h' q = (if q = a then None else h q)) \<and> (p = a \<or> h p = None))) \<and>
     xrealloc al (Some a) 0 h = Returns None (h(a := None))"
proof (intro conjI)
  show "xmalloc al len h = Aborts \<or> (\<exists>p h'. xmalloc al len h = Returns p h' \<and>
      fresh_block h (replicate len None) p h' \<and> xfree (Some p) h' = Returns () h)"
    using xmalloc_new [OF assms(1), of len h] xfree_new never_undefined(1) [of al len h]
    by (cases "xmalloc al len h") auto
  show "xcalloc al nmemb len h = Aborts \<or> (\<exists>p h'. xcalloc al nmemb len h = Returns p h' \<and>
      fresh_block h (replicate (nmemb * len) (Some 0)) p h' \<and> xfree (Some p) h' = Returns () h)"
    using xcalloc_new [OF assms(1), of nmemb len h] xfree_new never_undefined(2) [of al nmemb len h]
    by (cases "xcalloc al nmemb len h") auto
  show "xstrdup al s h = Aborts \<or> (\<exists>p h'. xstrdup al s h = Returns p h' \<and>
      fresh_block h (string_block s) p h' \<and> xfree (Some p) h' = Returns () h)"
    using xstrdup_new [OF assms(1), of s h] xfree_new never_undefined(3) [of al s h]
    by (cases "xstrdup al s h") auto
qed (use xrealloc_block [of al h a b n] assms in \<open>auto simp: xrealloc_def c_realloc_def\<close>)

theorem wrappers_allocate_witness:
  "xrealloc demo_alloc (Some 1) 0 [1 \<mapsto> [Some 5, None]] = Returns None Map.empty \<and>
     (\<exists>p h'. xstrdup demo_alloc ''ab'' [1 \<mapsto> [Some 5, None]] = Returns p h' \<and>
        fresh_block [1 \<mapsto> [Some 5, None]] (string_block ''ab'') p h' \<and>
        xfree (Some p) h' = Returns () [1 \<mapsto> [Some 5, None]])"
proof -
  have "xstrdup demo_alloc ''ab'' [1 \<mapsto> [Some 5, None]] \<noteq> Aborts"
    by (simp add: xstrdup_def c_strdup_def c_malloc_def demo_alloc_def)
  with wrappers_allocate [OF demo_alloc_ok, of "[1 \<mapsto> [Some 5, None]]" 1 "[Some 5, None]" 1 0 0 "''ab''"]
  show ?thesis by auto
qed

end
