(* ===== verification/Vector_Free.thy ===== *)
theory Vector_Free
  imports Vector Memory
begin

text \<open>
  The destructors of \<open>src/data/vector.c\<close>, over the heap of the memory wrappers: \<open>vector_delete\<close>
  gives back the vector only, \<open>vector_delete_free\<close> also what its elements point to. A vector
  in the heap is its struct at an address \<open>vp\<close> and its array at an address \<open>ip\<close>.
\<close>

section \<open>Operations\<close>

definition item_ptr :: "item \<Rightarrow> nat option" where
  "item_ptr u = (if u = 0 then None else Some (unat u))"

text \<open>A sequence of calls of \<open>xfree\<close>; the first that is undefined decides.\<close>

fun free_all :: "nat option list \<Rightarrow> heap \<Rightarrow> unit result" where
  "free_all [] h = Returns () h"
| "free_all (p # ps) h = (case xfree p h of
       Returns _ h \<Rightarrow> free_all ps h
     | Aborts \<Rightarrow> Aborts
     | Undefined \<Rightarrow> Undefined)"

definition vector_delete :: "nat \<Rightarrow> nat \<Rightarrow> vector \<Rightarrow> heap \<Rightarrow> unit result" where
  "vector_delete vp ip vec h = free_all [Some ip, Some vp] h"

definition vector_delete_free :: "nat \<Rightarrow> nat \<Rightarrow> vector \<Rightarrow> heap \<Rightarrow> unit result" where
  "vector_delete_free vp ip vec h = (case vector_iterate vec of
       None \<Rightarrow> Undefined
     | Some xs \<Rightarrow> free_all (map item_ptr xs @ [Some ip, Some vp]) h)"

section \<open>What they free\<close>

text \<open>Pointers that may be freed one after the other: allocated, and none of them twice.\<close>

definition freeable :: "nat option list \<Rightarrow> heap \<Rightarrow> bool" where
  "freeable ps h \<longleftrightarrow> distinct (filter (\<lambda>p. p \<noteq> None) ps) \<and> (\<forall>a. Some a \<in> set ps \<longrightarrow> a \<in> dom h)"

lemma freeable_Cons:
  "freeable (p # ps) h \<longleftrightarrow> (case p of
       None \<Rightarrow> freeable ps h
     | Some a \<Rightarrow> a \<in> dom h \<and> freeable ps (h(a := None)))"
  by (auto simp: freeable_def split: option.splits)

lemma free_all_ok: "freeable ps h \<Longrightarrow> free_all ps h = Returns () (h |` {a. Some a \<notin> set ps})"
proof (induction ps arbitrary: h)
  case (Cons p ps)
  show ?case
  proof (cases p)
    case None
    with Cons show ?thesis by (simp add: freeable_Cons xfree_def)
  next
    case (Some a)
    with Cons.prems obtain b where b: "h a = Some b" and f: "freeable ps (h(a := None))" by (auto simp: freeable_Cons)
    have "free_all (p # ps) h = free_all ps (h(a := None))" using Some b by (simp add: xfree_def c_free_def)
    also have "\<dots> = Returns () ((h(a := None)) |` {b. Some b \<notin> set ps})" by (rule Cons.IH [OF f])
    also have "(h(a := None)) |` {b. Some b \<notin> set ps} = h |` {b. Some b \<notin> set (p # ps)}"
      by (auto simp: Some restrict_map_def fun_eq_iff)
    finally show ?thesis .
  qed
qed (simp add: restrict_map_def)

text \<open>Conversely, a pointer that occurs twice is freed twice.\<close>

lemma free_all_undefined: "\<not> freeable ps h \<Longrightarrow> free_all ps h = Undefined"
proof (induction ps arbitrary: h)
  case (Cons p ps)
  then show ?case by (cases p) (auto simp: freeable_Cons xfree_def c_free_def split: option.splits)
qed (simp add: freeable_def)

text \<open>
  \<open>vector_delete_free\<close> is defined exactly when all it is to free is allocated and no two elements
  share a block, and then those blocks, the array and the struct are given back and nothing else;
  \<open>vector_delete\<close> leaves the blocks of the elements allocated.
\<close>

theorem vector_delete_free_iff:
  assumes "vector_inv vec"
  shows "vector_delete_free vp ip vec h =
     (let ps = map item_ptr (vector_list vec) @ [Some ip, Some vp] in
      if freeable ps h then Returns () (h |` {a. Some a \<notin> set ps}) else Undefined)"
  using assms free_all_ok free_all_undefined
  by (simp add: vector_delete_free_def vector_iterate_def rd_slice_def vector_list_def vector_inv_def Let_def)

lemma vector_delete_ok:
  assumes "ip \<in> dom h" "vp \<in> dom h" "ip \<noteq> vp"
  shows "vector_delete vp ip vec h = Returns () (h(ip := None, vp := None))"
  using assms by (auto simp: vector_delete_def xfree_def c_free_def)

end
