(* ===== verification/Threadprof.thy ===== *)
theory Threadprof
  imports Prelude
begin

text \<open>
  Thread creation with a profiling timer, \<open>src/util/threadprof.c\<close>: the creating thread and
  the new thread share a \<open>wrapper_t\<close> that lives in the stack frame of
  \<open>gprof_pthread_create\<close>. Each thread is a program counter; a step of a thread is one access
  to the shared data or one call of the thread library, and the scheduler chooses which
  thread moves. A condition variable may wake its waiter without a signal, which is a step of
  its own.

  A thread that touches the frame after it is gone, a destroyed mutex or condition variable,
  or destroys a mutex another thread holds has undefined behaviour: the outcome \<open>Fault\<close>.
\<close>

section \<open>State\<close>

datatype who = Creator | Wrapper

datatype mutex = Mutex_destroyed | Mutex_free | Mutex_held who

text \<open>Function pointers, their arguments and timer values are opaque numbers.\<close>

record wrapper_t =
  start_routine :: nat
  arg :: nat
  lock :: mutex
  wait_ok :: bool
  itimer :: nat

datatype creator_pc = C_init | C_create | C_wait | C_waiting | C_woken | C_unlock
  | C_destroy_lock | C_destroy_wait | C_return | C_returned int

datatype wrapper_pc = W_none | W_routine | W_arg | W_timer | W_lock | W_signal | W_unlock
  | W_call | W_done

text \<open>
  \<open>frame\<close> is the creator's \<open>wrapper_data\<close>, gone after its return; the next components are
  \<open>i_return\<close>, the two locals of the new thread, its profiling timer and the call it made.
\<close>

record tp_state =
  creator :: creator_pc
  wrapper :: wrapper_pc
  frame :: "wrapper_t option"
  i_return :: int
  local_routine :: nat
  local_arg :: nat
  timer :: "nat option"
  called :: "(nat \<times> nat) option"

text \<open>The arguments, the creator's timer and what \<open>pthread_create\<close> returns.\<close>

record tp_env =
  e_routine :: nat
  e_arg :: nat
  e_itimer :: nat
  e_create :: int

datatype outcome = Blocked | Fault | Next tp_state

definition tp_start :: tp_state where
  "tp_start = \<lparr>creator = C_init, wrapper = W_none, frame = None, i_return = 0,
     local_routine = 0, local_arg = 0, timer = None, called = None\<rparr>"

text \<open>An access to the shared structure.\<close>

definition with_frame :: "tp_state \<Rightarrow> (wrapper_t \<Rightarrow> outcome) \<Rightarrow> outcome" where
  "with_frame s f = (case frame s of None \<Rightarrow> Fault | Some w \<Rightarrow> f w)"

definition set_lock :: "wrapper_t \<Rightarrow> mutex \<Rightarrow> tp_state \<Rightarrow> tp_state" where
  "set_lock w m s = s\<lparr>frame := Some (w\<lparr>lock := m\<rparr>)\<rparr>"

text \<open>Taking the mutex; the continuation is the state after it has been taken.\<close>

definition acquire :: "who \<Rightarrow> wrapper_t \<Rightarrow> tp_state \<Rightarrow> outcome" where
  "acquire t w s = (case lock w of
       Mutex_destroyed \<Rightarrow> Fault
     | Mutex_free \<Rightarrow> Next (set_lock w (Mutex_held t) s)
     | Mutex_held _ \<Rightarrow> Blocked)"

definition release :: "who \<Rightarrow> wrapper_t \<Rightarrow> tp_state \<Rightarrow> outcome" where
  "release t w s = (if lock w = Mutex_held t then Next (set_lock w Mutex_free s) else Fault)"

section \<open>The creator: \<open>gprof_pthread_create\<close>\<close>

definition creator_step :: "tp_env \<Rightarrow> tp_state \<Rightarrow> outcome" where
  "creator_step env s = (case creator s of
     C_init \<Rightarrow>
       Next (s\<lparr>frame := Some \<lparr>start_routine = e_routine env, arg = e_arg env,
                 lock = Mutex_held Creator, wait_ok = True, itimer = e_itimer env\<rparr>,
               creator := C_create\<rparr>)
   | C_create \<Rightarrow>
       (let s = s\<lparr>i_return := e_create env\<rparr> in
        if e_create env = 0 then Next (s\<lparr>wrapper := W_routine, creator := C_wait\<rparr>)
        else Next (s\<lparr>creator := C_unlock\<rparr>))
   | C_wait \<Rightarrow> with_frame s (\<lambda>w.
       if \<not> wait_ok w then Fault else release Creator w (s\<lparr>creator := C_waiting\<rparr>))
   | C_waiting \<Rightarrow> Blocked
   | C_woken \<Rightarrow> with_frame s (\<lambda>w. acquire Creator w (s\<lparr>creator := C_unlock\<rparr>))
   | C_unlock \<Rightarrow> with_frame s (\<lambda>w. release Creator w (s\<lparr>creator := C_destroy_lock\<rparr>))
   | C_destroy_lock \<Rightarrow> with_frame s (\<lambda>w.
       if lock w = Mutex_free then Next (set_lock w Mutex_destroyed (s\<lparr>creator := C_destroy_wait\<rparr>))
       else Fault)
   | C_destroy_wait \<Rightarrow> with_frame s (\<lambda>w.
       Next (s\<lparr>frame := Some (w\<lparr>wait_ok := False\<rparr>), creator := C_return\<rparr>))
   | C_return \<Rightarrow> Next (s\<lparr>frame := None, creator := C_returned (i_return s)\<rparr>)
   | C_returned _ \<Rightarrow> Blocked)"

section \<open>The new thread: \<open>wrapper_routine\<close>\<close>

text \<open>\<open>pthread_cond_signal\<close> wakes the creator if it waits and is lost otherwise.\<close>

definition signal :: "tp_state \<Rightarrow> tp_state" where
  "signal s = (if creator s = C_waiting then s\<lparr>creator := C_woken\<rparr> else s)"

definition wrapper_step :: "tp_state \<Rightarrow> outcome" where
  "wrapper_step s = (case wrapper s of
     W_none \<Rightarrow> Blocked
   | W_routine \<Rightarrow> with_frame s (\<lambda>w. Next (s\<lparr>local_routine := start_routine w, wrapper := W_arg\<rparr>))
   | W_arg \<Rightarrow> with_frame s (\<lambda>w. Next (s\<lparr>local_arg := arg w, wrapper := W_timer\<rparr>))
   | W_timer \<Rightarrow> with_frame s (\<lambda>w. Next (s\<lparr>timer := Some (itimer w), wrapper := W_lock\<rparr>))
   | W_lock \<Rightarrow> with_frame s (\<lambda>w. acquire Wrapper w (s\<lparr>wrapper := W_signal\<rparr>))
   | W_signal \<Rightarrow> with_frame s (\<lambda>w.
       if \<not> wait_ok w then Fault else Next (signal (s\<lparr>wrapper := W_unlock\<rparr>)))
   | W_unlock \<Rightarrow> with_frame s (\<lambda>w. release Wrapper w (s\<lparr>wrapper := W_call\<rparr>))
   | W_call \<Rightarrow> Next (s\<lparr>called := Some (local_routine s, local_arg s), wrapper := W_done\<rparr>)
   | W_done \<Rightarrow> Blocked)"

section \<open>Interleaving\<close>

inductive tp_step :: "tp_env \<Rightarrow> bool \<Rightarrow> tp_state \<Rightarrow> tp_state \<Rightarrow> bool" for env spurious where
  creator_moves: "creator_step env s = Next s' \<Longrightarrow> tp_step env spurious s s'"
| wrapper_moves: "wrapper_step s = Next s' \<Longrightarrow> tp_step env spurious s s'"
| wakes_up: "spurious \<Longrightarrow> creator s = C_waiting \<Longrightarrow> tp_step env spurious s (s\<lparr>creator := C_woken\<rparr>)"

inductive_simps tp_step_iff: "tp_step env spurious s s'"

inductive tp_reach :: "tp_env \<Rightarrow> bool \<Rightarrow> tp_state \<Rightarrow> bool" for env spurious where
  reach_start: "tp_reach env spurious tp_start"
| reach_step: "tp_reach env spurious s \<Longrightarrow> tp_step env spurious s s' \<Longrightarrow> tp_reach env spurious s'"

text \<open>Every step moves one of the two program counters forward.\<close>

fun creator_rank :: "creator_pc \<Rightarrow> nat" where
  "creator_rank C_init = 17" | "creator_rank C_create = 16" | "creator_rank C_wait = 7"
| "creator_rank C_waiting = 6" | "creator_rank C_woken = 5" | "creator_rank C_unlock = 4"
| "creator_rank C_destroy_lock = 3" | "creator_rank C_destroy_wait = 2" | "creator_rank C_return = 1"
| "creator_rank (C_returned _) = 0"

fun wrapper_rank :: "wrapper_pc \<Rightarrow> nat" where
  "wrapper_rank W_none = 8" | "wrapper_rank W_routine = 7" | "wrapper_rank W_arg = 6"
| "wrapper_rank W_timer = 5" | "wrapper_rank W_lock = 4" | "wrapper_rank W_signal = 3"
| "wrapper_rank W_unlock = 2" | "wrapper_rank W_call = 1" | "wrapper_rank W_done = 0"

definition tp_rank :: "tp_state \<Rightarrow> nat" where
  "tp_rank s = creator_rank (creator s) + wrapper_rank (wrapper s)"

lemmas tp_defs = creator_step_def wrapper_step_def with_frame_def acquire_def release_def set_lock_def
  signal_def Let_def

lemma creator_step_rank: "creator_step env s = Next s' \<Longrightarrow> tp_rank s' < tp_rank s"
  by (cases "creator s") (auto simp: tp_defs tp_rank_def split: option.splits mutex.splits if_splits)

lemma wrapper_step_rank: "wrapper_step s = Next s' \<Longrightarrow> tp_rank s' < tp_rank s"
  by (cases "wrapper s") (auto simp: tp_defs tp_rank_def split: option.splits mutex.splits if_splits)

lemma tp_step_rank: "tp_step env spurious s s' \<Longrightarrow> tp_rank s' < tp_rank s"
  by (auto simp: tp_step_iff creator_step_rank wrapper_step_rank) (simp add: tp_rank_def)

section \<open>Invariant without spurious wake-ups\<close>

text \<open>
  Where the new thread can be for a position of the creator, who holds the mutex then, and
  what the new thread has copied so far.
\<close>

definition lock_of :: "creator_pc \<Rightarrow> wrapper_pc \<Rightarrow> mutex" where
  "lock_of c w = (if c \<in> {C_create, C_wait, C_unlock} then Mutex_held Creator
     else if c \<in> {C_destroy_wait, C_return} then Mutex_destroyed
     else if w \<in> {W_signal, W_unlock} then Mutex_held Wrapper else Mutex_free)"

fun pcs_ok :: "int \<Rightarrow> creator_pc \<Rightarrow> wrapper_pc \<Rightarrow> bool" where
  "pcs_ok r C_init w = (w = W_none)"
| "pcs_ok r C_create w = (w = W_none)"
| "pcs_ok r C_wait w = (r = 0 \<and> w \<in> {W_routine, W_arg, W_timer, W_lock})"
| "pcs_ok r C_waiting w = (r = 0 \<and> w \<in> {W_routine, W_arg, W_timer, W_lock, W_signal})"
| "pcs_ok r C_woken w = (r = 0 \<and> w \<in> {W_unlock, W_call, W_done})"
| "pcs_ok r (C_returned i) w = (i = r \<and> (if r = 0 then w \<in> {W_call, W_done} else w = W_none))"
| "pcs_ok r c w = (if r = 0 then w \<in> {W_call, W_done} else w = W_none)"

definition tp_inv :: "tp_env \<Rightarrow> tp_state \<Rightarrow> bool" where
  "tp_inv env s \<longleftrightarrow> pcs_ok (e_create env) (creator s) (wrapper s) \<and>
     (creator s \<notin> {C_init, C_create} \<longrightarrow> i_return s = e_create env) \<and>
     frame s = (case creator s of C_init \<Rightarrow> None | C_returned _ \<Rightarrow> None
       | c \<Rightarrow> Some \<lparr>start_routine = e_routine env, arg = e_arg env, lock = lock_of c (wrapper s),
               wait_ok = (c \<noteq> C_return), itimer = e_itimer env\<rparr>) \<and>
     (wrapper_rank (wrapper s) < 7 \<longrightarrow> local_routine s = e_routine env) \<and>
     (wrapper_rank (wrapper s) < 6 \<longrightarrow> local_arg s = e_arg env) \<and>
     (if wrapper_rank (wrapper s) < 5 then timer s = Some (e_itimer env) else timer s = None) \<and>
     called s = (if wrapper s = W_done then Some (e_routine env, e_arg env) else None)"

lemma tp_inv_start: "tp_inv env tp_start"
  by (simp add: tp_inv_def tp_start_def)

lemma tp_inv_creator: "tp_inv env s \<Longrightarrow> creator_step env s = Next s' \<Longrightarrow> tp_inv env s'"
  by (cases "creator s"; cases "wrapper s"; clarsimp simp: tp_inv_def tp_defs lock_of_def split: if_splits)

lemma tp_inv_wrapper: "tp_inv env s \<Longrightarrow> wrapper_step s = Next s' \<Longrightarrow> tp_inv env s'"
  by (cases "creator s"; cases "wrapper s"; clarsimp simp: tp_inv_def tp_defs lock_of_def split: if_splits)

lemma tp_inv_reach: "tp_reach env False s \<Longrightarrow> tp_inv env s"
proof (induction rule: tp_reach.induct)
  case (reach_step s s')
  then show ?case by (auto simp: tp_step_iff intro: tp_inv_creator tp_inv_wrapper)
qed (rule tp_inv_start)

lemma tp_inv_no_fault: "tp_inv env s \<Longrightarrow> creator_step env s \<noteq> Fault \<and> wrapper_step s \<noteq> Fault"
  by (cases "creator s"; cases "wrapper s"; simp add: tp_inv_def tp_defs lock_of_def split: if_splits)

text \<open>Both threads are done: the creator has returned and the thread, if there is one, has made its call.\<close>

definition tp_done :: "tp_env \<Rightarrow> tp_state \<Rightarrow> bool" where
  "tp_done env s \<longleftrightarrow> creator s = C_returned (e_create env) \<and>
     (if e_create env = 0
      then wrapper s = W_done \<and> called s = Some (e_routine env, e_arg env) \<and> timer s = Some (e_itimer env)
      else wrapper s = W_none \<and> called s = None)"

lemma tp_inv_progress:
  assumes "tp_inv env s" "\<forall>s'. \<not> tp_step env False s s'"
  shows "tp_done env s"
proof -
  from assms tp_inv_no_fault [of env s] have "creator_step env s = Blocked \<and> wrapper_step s = Blocked"
    by (cases "creator_step env s"; cases "wrapper_step s") (auto simp: tp_step_iff)
  with assms(1) show ?thesis
    by (cases "creator s"; cases "wrapper s")
      (auto simp: tp_inv_def tp_done_def tp_defs lock_of_def split: if_splits)
qed

section \<open>Schedules\<close>

datatype tp_event = Moves who | Wakes_up

text \<open>A schedule is carried out as long as the chosen step is possible.\<close>

fun tp_exec :: "tp_env \<Rightarrow> tp_event list \<Rightarrow> tp_state \<Rightarrow> tp_state option" where
  "tp_exec env [] s = Some s"
| "tp_exec env (Moves t # es) s =
     (case (if t = Creator then creator_step env s else wrapper_step s) of
        Next s' \<Rightarrow> tp_exec env es s' | _ \<Rightarrow> None)"
| "tp_exec env (Wakes_up # es) s =
     (if creator s = C_waiting then tp_exec env es (s\<lparr>creator := C_woken\<rparr>) else None)"

lemma tp_exec_reach:
  assumes "tp_reach env spurious s" "tp_exec env es s = Some s'" "Wakes_up \<in> set es \<longrightarrow> spurious"
  shows "tp_reach env spurious s'"
  using assms
proof (induction env es s rule: tp_exec.induct)
  case (2 env t es s)
  then show ?case
    by (auto split: outcome.splits if_splits intro: reach_step creator_moves wrapper_moves)
next
  case (3 env es s)
  then show ?case by (auto split: if_splits intro: reach_step wakes_up)
qed simp

section \<open>Properties\<close>

definition demo_create :: tp_env where
  "demo_create = \<lparr>e_routine = 7, e_arg = 9, e_itimer = 100, e_create = 0\<rparr>"

text \<open>C38: thread creation for the profiler, under any scheduler, if condition variables only
  wake up when signalled. No access to the shared structure after the creator's frame is gone,
  no use of a destroyed mutex or condition variable; the signal is never lost, so that the two
  threads never block each other; every run ends, and at its end the creator has returned what
  \<open>pthread_create\<close> returned and, if that is success, the new thread has taken over the
  creator's profiling timer and called the routine with its argument.\<close>

theorem gprof_create_correct:
  assumes "tp_reach env False s"
  shows "creator_step env s \<noteq> Fault \<and> wrapper_step s \<noteq> Fault \<and>
     ((\<forall>s'. \<not> tp_step env False s s') \<longrightarrow> tp_done env s) \<and>
     (\<forall>s'. tp_step env False s s' \<longrightarrow> tp_rank s' < tp_rank s)"
  using tp_inv_no_fault [OF tp_inv_reach [OF assms]] tp_inv_progress [OF tp_inv_reach [OF assms]]
    tp_step_rank by blast

theorem gprof_create_correct_witness:
  "\<exists>s. tp_reach demo_create False s \<and> creator s = C_waiting \<and> wrapper s = W_lock \<and>
     creator_step demo_create s \<noteq> Fault \<and> wrapper_step s \<noteq> Fault \<and>
     ((\<forall>s'. \<not> tp_step demo_create False s s') \<longrightarrow> tp_done demo_create s) \<and>
     (\<forall>s'. tp_step demo_create False s s' \<longrightarrow> tp_rank s' < tp_rank s)"
proof -
  let ?es = "map Moves [Creator, Creator, Wrapper, Wrapper, Creator, Wrapper]"
  obtain s where s: "tp_exec demo_create ?es tp_start = Some s" "creator s = C_waiting" "wrapper s = W_lock"
    by (simp add: tp_start_def demo_create_def tp_defs)
  have "tp_reach demo_create False s" by (rule tp_exec_reach [OF reach_start s(1)]) simp
  from gprof_create_correct [OF this] this s(2,3) show ?thesis by blast
qed

text \<open>The wait for the new thread has no predicate. If the condition variable wakes up
  without a signal, which the thread library may do, \<open>gprof_pthread_create\<close> can return before
  the new thread has read anything, and the new thread then reads a stack frame that is gone.\<close>

theorem gprof_create_spurious:
  assumes "e_create env = 0"
  shows "\<exists>s. tp_reach env True s \<and> creator s = C_returned 0 \<and> wrapper s = W_routine \<and>
     wrapper_step s = Fault"
proof -
  let ?es = "map Moves [Creator, Creator, Creator] @ Wakes_up # map Moves (replicate 5 Creator)"
  obtain s where s: "tp_exec env ?es tp_start = Some s" "creator s = C_returned 0"
    "wrapper s = W_routine" "wrapper_step s = Fault"
    using assms by (simp add: tp_start_def tp_defs numeral_eq_Suc)
  have "tp_reach env True s" by (rule tp_exec_reach [OF reach_start s(1)]) simp
  with s(2-) show ?thesis by blast
qed

theorem gprof_create_spurious_witness:
  "\<exists>s. tp_reach demo_create True s \<and> creator s = C_returned 0 \<and> wrapper s = W_routine \<and>
     wrapper_step s = Fault"
  by (rule gprof_create_spurious) (simp add: demo_create_def)

end
