(* ===== verification/Dlcommon.thy ===== *)
theory Dlcommon
  imports Scanf
begin

text \<open>
  The DLPI routines, \<open>src/util/dlcommon.c\<close>: requests and acknowledgments of the Data Link
  Provider Interface over a stream, and the routines that print messages.

  The system header \<open>sys/dlpi.h\<close> is a parameter: the values of its constants and the sizes of
  its structures, by name. A message is its primitive, the members of the structure that the
  primitive selects, by name, and the bytes of the buffer it lies in. The provider at the other
  end of the stream is a parameter too: whether a request is accepted, given the requests
  before, and what is read next.

  A routine that ends the program has the outcome \<open>Exits\<close> with what it has printed and its
  message; undefined behaviour is the outcome \<open>Undefined\<close>. \<open>alarm\<close> has an unsigned result, so
  that the tests of it for a negative value are never true.
\<close>

section \<open>Outcomes, header and messages\<close>

datatype 'a dl_run = Done 'a | Exits "string list" string | Undefined

primrec dl_bind :: "'a dl_run \<Rightarrow> ('a \<Rightarrow> 'b dl_run) \<Rightarrow> 'b dl_run" where
  "dl_bind (Done x) f = f x"
| "dl_bind (Exits out message) f = Exits out message"
| "dl_bind Undefined f = Undefined"

definition defined :: "'a option \<Rightarrow> 'a dl_run" where
  "defined r = (case r of None \<Rightarrow> Undefined | Some x \<Rightarrow> Done x)"

text \<open>\<open>err\<close> and \<open>syserr\<close> print to the standard error and end the program; the text \<open>perror\<close> adds is left out.\<close>

definition err :: "string \<Rightarrow> 'a dl_run" where "err message = Exits [] message"
definition syserr :: "string \<Rightarrow> 'a dl_run" where "syserr message = Exits [] message"
definition sigalrm :: "'a dl_run" where "sigalrm = err ''sigalrm:  TIMEOUT''"

record dlpi_header =
  code :: "string \<Rightarrow> u32"
  sizeof :: "string \<Rightarrow> nat"

record dl_msg =
  dl_primitive :: u32
  dl_member :: "string \<Rightarrow> u32"
  dl_mem :: bytes

definition MAXDLBUF :: nat where "MAXDLBUF = 8192"
definition MAXDLADDR :: nat where "MAXDLADDR = 1024"

text \<open>\<open>OFFADDR\<close>: \<open>n\<close> bytes at an offset, which is converted to \<open>int\<close>.\<close>

definition OFFADDR :: "dl_msg \<Rightarrow> u32 \<Rightarrow> nat \<Rightarrow> bytes option" where
  "OFFADDR m off n = (if sint off < 0 then None else rd_slice (dl_mem m) (nat (sint off)) n)"

section \<open>Printing\<close>

definition hex_char :: "nat \<Rightarrow> char" where
  "hex_char d = (if d < 10 then char_of (48 + d) else char_of (87 + d))"

text \<open>\<open>%x\<close> and \<open>%d\<close> of an unsigned 32-bit value.\<close>

fun print_hex :: "nat \<Rightarrow> string" where
  "print_hex n = (if n < 16 then [hex_char n] else print_hex (n div 16) @ [hex_char (n mod 16)])"

declare print_hex.simps [simp del]

definition fmt_x :: "u32 \<Rightarrow> string" where "fmt_x w = print_hex (unat w)"
definition fmt_d :: "u32 \<Rightarrow> string" where "fmt_d w = print_int (sint w)"

text \<open>
  \<open>addrtostring\<close>: the text written so far, with its null byte, must fit in \<open>room\<close> characters.
  With length zero the destination is left as it was: \<^term>\<open>None\<close>.
\<close>

fun addrtostring_loop :: "nat \<Rightarrow> bytes \<Rightarrow> string \<Rightarrow> string option" where
  "addrtostring_loop room [] s = Some s"
| "addrtostring_loop room (b # bs) s =
     (let s = s @ print_hex (unat b) @ '':'' in
      if length s < room then addrtostring_loop room bs s else None)"

definition addrtostring :: "nat \<Rightarrow> bytes \<Rightarrow> string option option" where
  "addrtostring room addr = do {
     s \<leftarrow> addrtostring_loop room addr [];
     Some (if addr \<noteq> [] then Some (butlast s) else None) }"

text \<open>
  \<open>stringtoaddr\<close>: the tokens \<open>strtok\<close> finds between colons. The message shows the argument,
  which \<open>strtok\<close> has cut after its first token.
\<close>

function strtok_all :: "string \<Rightarrow> string list" where
  "strtok_all s = (let s = dropWhile (\<lambda>c. c = CHR '':'') s in
     if s = [] then []
     else takeWhile (\<lambda>c. c \<noteq> CHR '':'') s # strtok_all (dropWhile (\<lambda>c. c \<noteq> CHR '':'') s))"
  by pat_completeness auto
termination
proof (relation "measure length", goal_cases)
  case (2 s t)
  obtain c cs where t: "t = c # cs" using 2(2) by (cases t) simp_all
  then have c: "c \<noteq> CHR '':''" using hd_dropWhile [of "\<lambda>c. c = CHR '':''" s] 2 by simp
  have "length (dropWhile (\<lambda>c. c \<noteq> CHR '':'') t) \<le> length cs" using t c by (simp add: length_dropWhile_le)
  moreover have "length t \<le> length s" using 2(1) by (simp add: length_dropWhile_le)
  ultimately show ?case using t by simp
qed simp

declare strtok_all.simps [simp del]

fun stringtoaddr_tokens :: "string \<Rightarrow> string list \<Rightarrow> bytes dl_run" where
  "stringtoaddr_tokens sp [] = Done []"
| "stringtoaddr_tokens sp (p # ps) =
     (let bad = err (''stringtoaddr:  invalid input string:  '' @ sp) in
      case scan_hex p of
        None \<Rightarrow> bad
      | Some (v, _) \<Rightarrow>
          (let val = sint (to_u32 v) in
           if val > 0xff then bad
           else dl_bind (stringtoaddr_tokens sp ps) (\<lambda>addr. Done (word_of_int val # addr))))"

definition stringtoaddr :: "string \<Rightarrow> bytes dl_run" where
  "stringtoaddr sp =
     (let ps = strtok_all sp; cut = (case ps of [] \<Rightarrow> sp | p # _ \<Rightarrow> takeWhile (\<lambda>c. c = CHR '':'') sp @ p)
      in stringtoaddr_tokens cut ps)"

definition hexnibble :: "u8 \<Rightarrow> char" where
  "hexnibble c = ''0123456789abcdef'' ! unat (c AND 0x0f)"

text \<open>
  The macro \<open>CASERET\<close> puts its parameter in quotes, where it is not replaced: every known
  constant gives the text \<open>s\<close>.
\<close>

definition caseret :: "dlpi_header \<Rightarrow> string list \<Rightarrow> u32 \<Rightarrow> string \<Rightarrow> string" where
  "caseret H names v other = (if v \<in> set (map (code H) names) then ''s'' else other @ fmt_x v)"

definition dlprim :: "dlpi_header \<Rightarrow> u32 \<Rightarrow> string" where
  "dlprim H v = caseret H
     [''DL_INFO_REQ'', ''DL_INFO_ACK'', ''DL_ATTACH_REQ'', ''DL_DETACH_REQ'', ''DL_BIND_REQ'',
      ''DL_BIND_ACK'', ''DL_UNBIND_REQ'', ''DL_OK_ACK'', ''DL_ERROR_ACK'', ''DL_SUBS_BIND_REQ'',
      ''DL_SUBS_BIND_ACK'', ''DL_UNITDATA_REQ'', ''DL_UNITDATA_IND'', ''DL_UDERROR_IND'',
      ''DL_UDQOS_REQ'', ''DL_CONNECT_REQ'', ''DL_CONNECT_IND'', ''DL_CONNECT_RES'', ''DL_CONNECT_CON'',
      ''DL_TOKEN_REQ'', ''DL_TOKEN_ACK'', ''DL_DISCONNECT_REQ'', ''DL_DISCONNECT_IND'',
      ''DL_RESET_REQ'', ''DL_RESET_IND'', ''DL_RESET_RES'', ''DL_RESET_CON''] v ''unknown primitive 0x''"

definition dlstate :: "dlpi_header \<Rightarrow> u32 \<Rightarrow> string" where
  "dlstate H v = caseret H
     [''DL_UNATTACHED'', ''DL_ATTACH_PENDING'', ''DL_DETACH_PENDING'', ''DL_UNBOUND'', ''DL_BIND_PENDING'',
      ''DL_UNBIND_PENDING'', ''DL_IDLE'', ''DL_UDQOS_PENDING'', ''DL_OUTCON_PENDING'', ''DL_INCON_PENDING'',
      ''DL_CONN_RES_PENDING'', ''DL_DATAXFER'', ''DL_USER_RESET_PENDING'', ''DL_PROV_RESET_PENDING'',
      ''DL_RESET_RES_PENDING'', ''DL_DISCON8_PENDING'', ''DL_DISCON9_PENDING'', ''DL_DISCON11_PENDING'',
      ''DL_DISCON12_PENDING'', ''DL_DISCON13_PENDING'', ''DL_SUBS_BIND_PND''] v ''unknown state 0x''"

definition dlerrno :: "dlpi_header \<Rightarrow> u32 \<Rightarrow> string" where
  "dlerrno H v = caseret H
     [''DL_ACCESS'', ''DL_BADADDR'', ''DL_BADCORR'', ''DL_BADDATA'', ''DL_BADPPA'', ''DL_BADPRIM'',
      ''DL_BADQOSPARAM'', ''DL_BADQOSTYPE'', ''DL_BADSAP'', ''DL_BADTOKEN'', ''DL_BOUND'',
      ''DL_INITFAILED'', ''DL_NOADDR'', ''DL_NOTINIT'', ''DL_OUTSTATE'', ''DL_SYSERR'',
      ''DL_UNSUPPORTED'', ''DL_UNDELIVERABLE'', ''DL_NOTSUPPORTED'', ''DL_TOOMANY'', ''DL_NOTENAB'',
      ''DL_BUSY'', ''DL_NOAUTO'', ''DL_NOXIDAUTO'', ''DL_NOTESTAUTO'', ''DL_XIDAUTO'', ''DL_TESTAUTO'',
      ''DL_PENDING''] v ''unknown dlpi errno 0x''"

definition dlpromisclevel :: "dlpi_header \<Rightarrow> u32 \<Rightarrow> string" where
  "dlpromisclevel H v =
     caseret H [''DL_PROMISC_PHYS'', ''DL_PROMISC_SAP'', ''DL_PROMISC_MULTI''] v ''unknown promisc level 0x''"

definition dlservicemode :: "dlpi_header \<Rightarrow> u32 \<Rightarrow> string" where
  "dlservicemode H v =
     (if v = code H ''DL_CODLS'' OR code H ''DL_CLDLS'' then ''s''
      else caseret H [''DL_CODLS'', ''DL_CLDLS''] v ''unknown provider service mode 0x'')"

definition dlstyle :: "dlpi_header \<Rightarrow> u32 \<Rightarrow> string" where
  "dlstyle H v = caseret H [''DL_STYLE1'', ''DL_STYLE2''] v ''unknown provider style 0x''"

definition dlmactype :: "dlpi_header \<Rightarrow> u32 \<Rightarrow> string" where
  "dlmactype H v = caseret H
     [''DL_CSMACD'', ''DL_TPB'', ''DL_TPR'', ''DL_METRO'', ''DL_ETHER'', ''DL_HDLC'', ''DL_CHAR'', ''DL_CTCA'']
     v ''unknown media type 0x''"

section \<open>Messages as text\<close>

text \<open>
  An address of a message printed through a local buffer of \<open>MAXDLADDR\<close> characters: the
  members that hold its offset and its length are given by name. An address of length zero
  leaves the buffer uninitialised, and printing it is undefined.
\<close>

definition shown_addr :: "dl_msg \<Rightarrow> string \<Rightarrow> string \<Rightarrow> string option" where
  "shown_addr m off len = do {
     b \<leftarrow> OFFADDR m (dl_member m off) (unat (dl_member m len));
     t \<leftarrow> addrtostring MAXDLADDR b;
     t }"

definition printdlinforeq :: "dl_msg \<Rightarrow> string list option" where
  "printdlinforeq m = Some [
       ''DL_INFO_REQ'']"

definition printdlinfoack :: "dlpi_header \<Rightarrow> dl_msg \<Rightarrow> string list option" where
  "printdlinfoack H m = do {
     addr \<leftarrow> shown_addr m ''info_ack.dl_addr_offset'' ''info_ack.dl_addr_length'';
     brdcst \<leftarrow> shown_addr m ''info_ack.dl_brdcst_addr_offset'' ''info_ack.dl_brdcst_addr_length'';
     Some [
       ''DL_INFO_ACK:  max_sdu '' @ fmt_d (dl_member m ''info_ack.dl_max_sdu'') @ '' min_sdu '' @
         fmt_d (dl_member m ''info_ack.dl_min_sdu''),
       ''addr_length '' @ fmt_d (dl_member m ''info_ack.dl_addr_length'') @ '' mac_type '' @
         dlmactype H (dl_member m ''info_ack.dl_mac_type'') @ '' current_state '' @
         dlstate H (dl_member m ''info_ack.dl_current_state''),
       ''sap_length '' @ fmt_d (dl_member m ''info_ack.dl_sap_length'') @ '' service_mode '' @
         dlservicemode H (dl_member m ''info_ack.dl_service_mode'') @ '' qos_length '' @
         fmt_d (dl_member m ''info_ack.dl_qos_length''),
       ''qos_offset '' @ fmt_d (dl_member m ''info_ack.dl_qos_offset'') @ '' qos_range_length '' @
         fmt_d (dl_member m ''info_ack.dl_qos_range_length'') @ '' qos_range_offset '' @
         fmt_d (dl_member m ''info_ack.dl_qos_range_offset''),
       ''provider_style '' @ dlstyle H (dl_member m ''info_ack.dl_provider_style'') @
         '' addr_offset '' @ fmt_d (dl_member m ''info_ack.dl_addr_offset'') @ '' version '' @
         fmt_d (dl_member m ''info_ack.dl_version''),
       ''brdcst_addr_length '' @ fmt_d (dl_member m ''info_ack.dl_brdcst_addr_length'') @
         '' brdcst_addr_offset '' @ fmt_d (dl_member m ''info_ack.dl_brdcst_addr_offset''),
       ''addr '' @ addr,
       ''brdcst_addr '' @ brdcst] }"

definition printdlattachreq :: "dl_msg \<Rightarrow> string list option" where
  "printdlattachreq m = Some [
       ''DL_ATTACH_REQ:  ppa '' @ fmt_d (dl_member m ''attach_req.dl_ppa'')]"

definition printdlokack :: "dlpi_header \<Rightarrow> dl_msg \<Rightarrow> string list option" where
  "printdlokack H m = Some [
       ''DL_OK_ACK:  correct_primitive '' @ dlprim H (dl_member m ''ok_ack.dl_correct_primitive'')]"

definition printdlerrorack :: "dlpi_header \<Rightarrow> dl_msg \<Rightarrow> string list option" where
  "printdlerrorack H m = Some [
       ''DL_ERROR_ACK:  error_primitive '' @ dlprim H (dl_member m ''error_ack.dl_error_primitive'') @
         '' errno '' @ dlerrno H (dl_member m ''error_ack.dl_errno'') @ '' unix_errno '' @
         fmt_d (dl_member m ''error_ack.dl_unix_errno'')]"

definition printdlenabmultireq :: "dl_msg \<Rightarrow> string list option" where
  "printdlenabmultireq m = do {
     addr \<leftarrow> shown_addr m ''enabmulti_req.dl_addr_offset'' ''enabmulti_req.dl_addr_length'';
     Some [
       ''DL_ENABMULTI_REQ:  addr_length '' @ fmt_d (dl_member m ''enabmulti_req.dl_addr_length'') @
         '' addr_offset '' @ fmt_d (dl_member m ''enabmulti_req.dl_addr_offset''),
       ''addr '' @ addr] }"

definition printdldisabmultireq :: "dl_msg \<Rightarrow> string list option" where
  "printdldisabmultireq m = do {
     addr \<leftarrow> shown_addr m ''disabmulti_req.dl_addr_offset'' ''disabmulti_req.dl_addr_length'';
     Some [
       ''DL_DISABMULTI_REQ:  addr_length '' @ fmt_d (dl_member m ''disabmulti_req.dl_addr_length'') @
         '' addr_offset '' @ fmt_d (dl_member m ''disabmulti_req.dl_addr_offset''),
       ''addr '' @ addr] }"

definition printdlpromisconreq :: "dlpi_header \<Rightarrow> dl_msg \<Rightarrow> string list option" where
  "printdlpromisconreq H m = Some [
       ''DL_PROMISCON_REQ:  level '' @ dlpromisclevel H (dl_member m ''promiscon_req.dl_level'')]"

definition printdlpromiscoffreq :: "dlpi_header \<Rightarrow> dl_msg \<Rightarrow> string list option" where
  "printdlpromiscoffreq H m = Some [
       ''DL_PROMISCOFF_REQ:  level '' @ dlpromisclevel H (dl_member m ''promiscoff_req.dl_level'')]"

definition printdlphysaddrreq :: "dl_msg \<Rightarrow> string list option" where
  "printdlphysaddrreq m = Some [
       ''DL_PHYS_ADDR_REQ:  addr_type 0x'' @ fmt_x (dl_member m ''physaddr_req.dl_addr_type'')]"

definition printdlphysaddrack :: "dl_msg \<Rightarrow> string list option" where
  "printdlphysaddrack m = do {
     addr \<leftarrow> shown_addr m ''physaddr_ack.dl_addr_offset'' ''physaddr_ack.dl_addr_length'';
     Some [
       ''DL_PHYS_ADDR_ACK:  addr_length '' @ fmt_d (dl_member m ''physaddr_ack.dl_addr_length'') @
         '' addr_offset '' @ fmt_d (dl_member m ''physaddr_ack.dl_addr_offset''),
       ''addr '' @ addr] }"

definition printdlsetphysaddrreq :: "dl_msg \<Rightarrow> string list option" where
  "printdlsetphysaddrreq m = do {
     addr \<leftarrow> shown_addr m ''set_physaddr_req.dl_addr_offset'' ''set_physaddr_req.dl_addr_length'';
     Some [
       ''DL_SET_PHYS_ADDR_REQ:  addr_length '' @
         fmt_d (dl_member m ''set_physaddr_req.dl_addr_length'') @ '' addr_offset '' @
         fmt_d (dl_member m ''set_physaddr_req.dl_addr_offset''),
       ''addr '' @ addr] }"

definition printdldetachreq :: "dl_msg \<Rightarrow> string list option" where
  "printdldetachreq m = Some [
       ''DL_DETACH_REQ'']"

definition printdlbindreq :: "dlpi_header \<Rightarrow> dl_msg \<Rightarrow> string list option" where
  "printdlbindreq H m = Some [
       ''DL_BIND_REQ:  sap '' @ fmt_d (dl_member m ''bind_req.dl_sap'') @ '' max_conind '' @
         fmt_d (dl_member m ''bind_req.dl_max_conind''),
       ''service_mode '' @ dlservicemode H (dl_member m ''bind_req.dl_service_mode'') @
         '' conn_mgmt '' @ fmt_d (dl_member m ''bind_req.dl_conn_mgmt'') @ '' xidtest_flg 0x'' @
         fmt_x (dl_member m ''bind_req.dl_xidtest_flg'')]"

definition printdlbindack :: "dl_msg \<Rightarrow> string list option" where
  "printdlbindack m = do {
     addr \<leftarrow> shown_addr m ''bind_ack.dl_addr_offset'' ''bind_ack.dl_addr_length'';
     Some [
       ''DL_BIND_ACK:  sap '' @ fmt_d (dl_member m ''bind_ack.dl_sap'') @ '' addr_length '' @
         fmt_d (dl_member m ''bind_ack.dl_addr_length'') @ '' addr_offset '' @
         fmt_d (dl_member m ''bind_ack.dl_addr_offset''),
       ''max_conind '' @ fmt_d (dl_member m ''bind_ack.dl_max_conind'') @ '' xidtest_flg 0x'' @
         fmt_x (dl_member m ''bind_ack.dl_xidtest_flg''),
       ''addr '' @ addr] }"

definition printdlunbindreq :: "dl_msg \<Rightarrow> string list option" where
  "printdlunbindreq m = Some [
       ''DL_UNBIND_REQ'']"

definition printdlsubsbindreq :: "dl_msg \<Rightarrow> string list option" where
  "printdlsubsbindreq m = do {
     sap \<leftarrow> shown_addr m ''subs_bind_req.dl_subs_sap_offset'' ''subs_bind_req.dl_subs_sap_length'';
     Some [
       ''DL_SUBS_BIND_REQ:  subs_sap_offset '' @
         fmt_d (dl_member m ''subs_bind_req.dl_subs_sap_offset'') @ '' sub_sap_len '' @
         fmt_d (dl_member m ''subs_bind_req.dl_subs_sap_length''),
       ''sap '' @ sap] }"

definition printdlsubsbindack :: "dl_msg \<Rightarrow> string list option" where
  "printdlsubsbindack m = do {
     sap \<leftarrow> shown_addr m ''subs_bind_ack.dl_subs_sap_offset'' ''subs_bind_ack.dl_subs_sap_length'';
     Some [
       ''DL_SUBS_BIND_ACK:  subs_sap_offset '' @
         fmt_d (dl_member m ''subs_bind_ack.dl_subs_sap_offset'') @ '' sub_sap_length '' @
         fmt_d (dl_member m ''subs_bind_ack.dl_subs_sap_length''),
       ''sap '' @ sap] }"

definition printdlsubsunbindreq :: "dl_msg \<Rightarrow> string list option" where
  "printdlsubsunbindreq m = do {
     sap \<leftarrow> shown_addr m ''subs_unbind_req.dl_subs_sap_offset'' ''subs_unbind_req.dl_subs_sap_length'';
     Some [
       ''DL_SUBS_UNBIND_REQ:  subs_sap_offset '' @
         fmt_d (dl_member m ''subs_unbind_req.dl_subs_sap_offset'') @ '' sub_sap_length '' @
         fmt_d (dl_member m ''subs_unbind_req.dl_subs_sap_length''),
       ''sap '' @ sap] }"

definition printdlunitdatareq :: "dl_msg \<Rightarrow> string list option" where
  "printdlunitdatareq m = do {
     addr \<leftarrow> shown_addr m ''unitdata_req.dl_dest_addr_offset'' ''unitdata_req.dl_dest_addr_length'';
     Some [
       ''DL_UNITDATA_REQ:  dest_addr_length '' @
         fmt_d (dl_member m ''unitdata_req.dl_dest_addr_length'') @ '' dest_addr_offset '' @
         fmt_d (dl_member m ''unitdata_req.dl_dest_addr_offset''),
       ''dl_priority.min '' @ fmt_d (dl_member m ''unitdata_req.dl_priority.dl_min'') @
         '' dl_priority.max '' @ fmt_d (dl_member m ''unitdata_req.dl_priority.dl_max''),
       ''addr '' @ addr] }"

definition printdlunitdataind :: "dl_msg \<Rightarrow> string list option" where
  "printdlunitdataind m = do {
     dest \<leftarrow> shown_addr m ''unitdata_ind.dl_dest_addr_offset'' ''unitdata_ind.dl_dest_addr_length'';
     src \<leftarrow> shown_addr m ''unitdata_ind.dl_src_addr_offset'' ''unitdata_ind.dl_src_addr_length'';
     Some [
       ''DL_UNITDATA_IND:  dest_addr_length '' @
         fmt_d (dl_member m ''unitdata_ind.dl_dest_addr_length'') @ '' dest_addr_offset '' @
         fmt_d (dl_member m ''unitdata_ind.dl_dest_addr_offset''),
       ''src_addr_length '' @ fmt_d (dl_member m ''unitdata_ind.dl_src_addr_length'') @
         '' src_addr_offset '' @ fmt_d (dl_member m ''unitdata_ind.dl_src_addr_offset''),
       ''group_address 0x'' @ fmt_x (dl_member m ''unitdata_ind.dl_group_address''),
       ''dest '' @ dest,
       ''src '' @ src] }"

definition printdluderrorind :: "dlpi_header \<Rightarrow> dl_msg \<Rightarrow> string list option" where
  "printdluderrorind H m = do {
     addr \<leftarrow> shown_addr m ''uderror_ind.dl_dest_addr_offset'' ''uderror_ind.dl_dest_addr_length'';
     Some [
       ''DL_UDERROR_IND:  dest_addr_length '' @
         fmt_d (dl_member m ''uderror_ind.dl_dest_addr_length'') @ '' dest_addr_offset '' @
         fmt_d (dl_member m ''uderror_ind.dl_dest_addr_offset''),
       ''unix_errno '' @ fmt_d (dl_member m ''uderror_ind.dl_unix_errno'') @ '' errno '' @
         dlerrno H (dl_member m ''uderror_ind.dl_errno''),
       ''addr '' @ addr] }"

definition printdltestreq :: "dl_msg \<Rightarrow> string list option" where
  "printdltestreq m = do {
     addr \<leftarrow> shown_addr m ''test_req.dl_dest_addr_offset'' ''test_req.dl_dest_addr_length'';
     Some [
       ''DL_TEST_REQ:  flag 0x'' @ fmt_x (dl_member m ''test_req.dl_flag'') @ '' dest_addr_length '' @
         fmt_d (dl_member m ''test_req.dl_dest_addr_length'') @ '' dest_addr_offset '' @
         fmt_d (dl_member m ''test_req.dl_dest_addr_offset''),
       ''dest_addr '' @ addr] }"

definition printdltestind :: "dl_msg \<Rightarrow> string list option" where
  "printdltestind m = do {
     dest \<leftarrow> shown_addr m ''test_ind.dl_dest_addr_offset'' ''test_ind.dl_dest_addr_length'';
     src \<leftarrow> shown_addr m ''test_ind.dl_src_addr_offset'' ''test_ind.dl_src_addr_length'';
     Some [
       ''DL_TEST_IND:  flag 0x'' @ fmt_x (dl_member m ''test_ind.dl_flag'') @ '' dest_addr_length '' @
         fmt_d (dl_member m ''test_ind.dl_dest_addr_length'') @ '' dest_addr_offset '' @
         fmt_d (dl_member m ''test_ind.dl_dest_addr_offset''),
       ''src_addr_length '' @ fmt_d (dl_member m ''test_ind.dl_src_addr_length'') @
         '' src_addr_offset '' @ fmt_d (dl_member m ''test_ind.dl_src_addr_offset''),
       ''dest_addr '' @ dest,
       ''src_addr '' @ src] }"

definition printdltestres :: "dl_msg \<Rightarrow> string list option" where
  "printdltestres m = do {
     dest \<leftarrow> shown_addr m ''test_res.dl_dest_addr_offset'' ''test_res.dl_dest_addr_length'';
     Some [
       ''DL_TEST_RES:  flag 0x'' @ fmt_x (dl_member m ''test_res.dl_flag'') @ '' dest_addr_length '' @
         fmt_d (dl_member m ''test_res.dl_dest_addr_length'') @ '' dest_addr_offset '' @
         fmt_d (dl_member m ''test_res.dl_dest_addr_offset''),
       ''dest_addr '' @ dest] }"

definition printdltestcon :: "dl_msg \<Rightarrow> string list option" where
  "printdltestcon m = do {
     dest \<leftarrow> shown_addr m ''test_con.dl_dest_addr_offset'' ''test_con.dl_dest_addr_length'';
     src \<leftarrow> shown_addr m ''test_con.dl_src_addr_offset'' ''test_con.dl_src_addr_length'';
     Some [
       ''DL_TEST_CON:  flag 0x'' @ fmt_x (dl_member m ''test_con.dl_flag'') @ '' dest_addr_length '' @
         fmt_d (dl_member m ''test_con.dl_dest_addr_length'') @ '' dest_addr_offset '' @
         fmt_d (dl_member m ''test_con.dl_dest_addr_offset''),
       ''src_addr_length '' @ fmt_d (dl_member m ''test_con.dl_src_addr_length'') @
         '' src_addr_offset '' @ fmt_d (dl_member m ''test_con.dl_src_addr_offset''),
       ''dest_addr '' @ dest,
       ''src_addr '' @ src] }"

definition printdlxidreq :: "dl_msg \<Rightarrow> string list option" where
  "printdlxidreq m = do {
     dest \<leftarrow> shown_addr m ''xid_req.dl_dest_addr_offset'' ''xid_req.dl_dest_addr_length'';
     Some [
       ''DL_XID_REQ:  flag 0x'' @ fmt_x (dl_member m ''xid_req.dl_flag'') @ '' dest_addr_length '' @
         fmt_d (dl_member m ''xid_req.dl_dest_addr_length'') @ '' dest_addr_offset '' @
         fmt_d (dl_member m ''xid_req.dl_dest_addr_offset''),
       ''dest_addr '' @ dest] }"

definition printdlxidind :: "dl_msg \<Rightarrow> string list option" where
  "printdlxidind m = do {
     dest \<leftarrow> shown_addr m ''xid_ind.dl_dest_addr_offset'' ''xid_ind.dl_dest_addr_length'';
     src \<leftarrow> shown_addr m ''xid_ind.dl_src_addr_offset'' ''xid_ind.dl_src_addr_length'';
     Some [
       ''DL_XID_IND:  flag 0x'' @ fmt_x (dl_member m ''xid_ind.dl_flag'') @ '' dest_addr_length '' @
         fmt_d (dl_member m ''xid_ind.dl_dest_addr_length'') @ '' dest_addr_offset '' @
         fmt_d (dl_member m ''xid_ind.dl_dest_addr_offset''),
       ''src_addr_length '' @ fmt_d (dl_member m ''xid_ind.dl_src_addr_length'') @
         '' src_addr_offset '' @ fmt_d (dl_member m ''xid_ind.dl_src_addr_offset''),
       ''dest_addr '' @ dest,
       ''src_addr '' @ src] }"

definition printdlxidres :: "dl_msg \<Rightarrow> string list option" where
  "printdlxidres m = do {
     dest \<leftarrow> shown_addr m ''xid_res.dl_dest_addr_offset'' ''xid_res.dl_dest_addr_length'';
     Some [
       ''DL_XID_RES:  flag 0x'' @ fmt_x (dl_member m ''xid_res.dl_flag'') @ '' dest_addr_length '' @
         fmt_d (dl_member m ''xid_res.dl_dest_addr_length'') @ '' dest_addr_offset '' @
         fmt_d (dl_member m ''xid_res.dl_dest_addr_offset''),
       ''dest_addr '' @ dest] }"

definition printdlxidcon :: "dl_msg \<Rightarrow> string list option" where
  "printdlxidcon m = do {
     dest \<leftarrow> shown_addr m ''xid_con.dl_dest_addr_offset'' ''xid_con.dl_dest_addr_length'';
     src \<leftarrow> shown_addr m ''xid_con.dl_src_addr_offset'' ''xid_con.dl_src_addr_length'';
     Some [
       ''DL_XID_CON:  flag 0x'' @ fmt_x (dl_member m ''xid_con.dl_flag'') @ '' dest_addr_length '' @
         fmt_d (dl_member m ''xid_con.dl_dest_addr_length'') @ '' dest_addr_offset '' @
         fmt_d (dl_member m ''xid_con.dl_dest_addr_offset''),
       ''src_addr_length '' @ fmt_d (dl_member m ''xid_con.dl_src_addr_length'') @
         '' src_addr_offset '' @ fmt_d (dl_member m ''xid_con.dl_src_addr_offset''),
       ''dest_addr '' @ dest,
       ''src_addr '' @ src] }"

definition printdludqosreq :: "dl_msg \<Rightarrow> string list option" where
  "printdludqosreq m = Some [
       ''DL_UDQOS_REQ:  qos_length '' @ fmt_d (dl_member m ''udqos_req.dl_qos_length'') @
         '' qos_offset '' @ fmt_d (dl_member m ''udqos_req.dl_qos_offset'')]"

text \<open>The switch of \<open>printdlprim\<close>; the test and exchange messages are not in it.\<close>

definition printdlprim :: "dlpi_header \<Rightarrow> dl_msg \<Rightarrow> string list dl_run" where
  "printdlprim H m =
     (let p = dl_primitive m in
      if p = code H ''DL_INFO_REQ'' then defined (printdlinforeq m)
      else if p = code H ''DL_INFO_ACK'' then defined (printdlinfoack H m)
      else if p = code H ''DL_ATTACH_REQ'' then defined (printdlattachreq m)
      else if p = code H ''DL_OK_ACK'' then defined (printdlokack H m)
      else if p = code H ''DL_ERROR_ACK'' then defined (printdlerrorack H m)
      else if p = code H ''DL_DETACH_REQ'' then defined (printdldetachreq m)
      else if p = code H ''DL_BIND_REQ'' then defined (printdlbindreq H m)
      else if p = code H ''DL_BIND_ACK'' then defined (printdlbindack m)
      else if p = code H ''DL_UNBIND_REQ'' then defined (printdlunbindreq m)
      else if p = code H ''DL_SUBS_BIND_REQ'' then defined (printdlsubsbindreq m)
      else if p = code H ''DL_SUBS_BIND_ACK'' then defined (printdlsubsbindack m)
      else if p = code H ''DL_SUBS_UNBIND_REQ'' then defined (printdlsubsunbindreq m)
      else if p = code H ''DL_ENABMULTI_REQ'' then defined (printdlenabmultireq m)
      else if p = code H ''DL_DISABMULTI_REQ'' then defined (printdldisabmultireq m)
      else if p = code H ''DL_PROMISCON_REQ'' then defined (printdlpromisconreq H m)
      else if p = code H ''DL_PROMISCOFF_REQ'' then defined (printdlpromiscoffreq H m)
      else if p = code H ''DL_UNITDATA_REQ'' then defined (printdlunitdatareq m)
      else if p = code H ''DL_UNITDATA_IND'' then defined (printdlunitdataind m)
      else if p = code H ''DL_UDERROR_IND'' then defined (printdluderrorind H m)
      else if p = code H ''DL_UDQOS_REQ'' then defined (printdludqosreq m)
      else if p = code H ''DL_PHYS_ADDR_REQ'' then defined (printdlphysaddrreq m)
      else if p = code H ''DL_PHYS_ADDR_ACK'' then defined (printdlphysaddrack m)
      else if p = code H ''DL_SET_PHYS_ADDR_REQ'' then defined (printdlsetphysaddrreq m)
      else err (''printdlprim:  unknown primitive type 0x'' @ fmt_x p))"

section \<open>The stream\<close>

text \<open>
  What \<open>putmsg\<close> gets: the members set by the request, an address placed behind the structure,
  the length of the control part, the data part and whether the message has high priority.
\<close>

record dl_put =
  put_prim :: u32
  put_members :: "(string \<times> u32) list"
  put_addr :: bytes
  put_len :: nat
  put_data :: "bytes option"
  put_hipri :: bool

text \<open>
  What \<open>getmsg\<close> gives: nothing until the alarm rings, an error, or a message, with the bits
  \<open>MORECTL\<close> and \<open>MOREDATA\<close>, the length of the control part (-1: there is none, and the buffer
  is left as it was), whether the priority is high, and the contents.
\<close>

datatype dl_reply = No_reply | Get_error | Reply (more_ctl: bool) (more_data: bool) (ctl_len: int) (hipri: bool) (contents: dl_msg)

record provider =
  putmsg :: "dl_put list \<Rightarrow> dl_put \<Rightarrow> bool"
  getmsg :: "dl_put list \<Rightarrow> nat \<Rightarrow> dl_reply"

record dl_io =
  put_msgs :: "dl_put list"
  got_msgs :: nat

definition send :: "provider \<Rightarrow> string \<Rightarrow> dl_put \<Rightarrow> dl_io \<Rightarrow> dl_io dl_run" where
  "send P caller msg io =
     (if putmsg P (put_msgs io) msg then Done (io\<lparr>put_msgs := put_msgs io @ [msg]\<rparr>)
      else syserr (caller @ '':  putmsg''))"

section \<open>Requests\<close>

text \<open>A request that is a structure with a few members.\<close>

definition plain_req :: "dlpi_header \<Rightarrow> string \<Rightarrow> (string \<times> u32) list \<Rightarrow> string \<Rightarrow> dl_put" where
  "plain_req H prim members struct = \<lparr>put_prim = code H prim, put_members = members, put_addr = [],
     put_len = sizeof H struct, put_data = None, put_hipri = False\<rparr>"

definition dlinforeq :: "dlpi_header \<Rightarrow> provider \<Rightarrow> dl_io \<Rightarrow> dl_io dl_run" where
  "dlinforeq H P = send P ''dlinforeq'' ((plain_req H ''DL_INFO_REQ'' [] ''dl_info_req_t'')\<lparr>put_hipri := True\<rparr>)"

definition dlattachreq :: "dlpi_header \<Rightarrow> provider \<Rightarrow> u32 \<Rightarrow> dl_io \<Rightarrow> dl_io dl_run" where
  "dlattachreq H P ppa = send P ''dlattachreq'' (plain_req H ''DL_ATTACH_REQ'' [(''dl_ppa'', ppa)] ''dl_attach_req_t'')"

text \<open>
  A request with an address behind the structure, put together in a buffer of \<open>MAXDLBUF\<close>
  values of type \<open>long\<close>; the length is an \<open>int\<close> that \<open>memcpy\<close> takes as unsigned.
\<close>

definition addr_req ::
  "dlpi_header \<Rightarrow> string \<Rightarrow> string \<Rightarrow> string \<Rightarrow> string \<Rightarrow> (string \<times> u32) list \<Rightarrow> bytes \<Rightarrow> int \<Rightarrow> dl_put option" where
  "addr_req H prim struct len_member off_member members addr len =
     (if len < 0 \<or> sizeof H struct + nat len > MAXDLBUF * sizeof H ''long'' then None
      else do {
        a \<leftarrow> rd_slice addr 0 (nat len);
        Some \<lparr>put_prim = code H prim,
          put_members = [(len_member, word_of_int len), (off_member, of_nat (sizeof H struct))] @ members,
          put_addr = a, put_len = sizeof H struct + nat len, put_data = None, put_hipri = False\<rparr> })"

definition dlenabmultireq :: "dlpi_header \<Rightarrow> provider \<Rightarrow> bytes \<Rightarrow> int \<Rightarrow> dl_io \<Rightarrow> dl_io dl_run" where
  "dlenabmultireq H P addr len io =
     dl_bind (defined (addr_req H ''DL_ENABMULTI_REQ'' ''dl_enabmulti_req_t'' ''dl_addr_length'' ''dl_addr_offset'' [] addr len))
       (\<lambda>msg. send P ''dlenabmultireq'' msg io)"

text \<open>The next request and \<open>dlsetphysaddrreq\<close> set the primitive of the request above.\<close>

definition dldisabmultireq :: "dlpi_header \<Rightarrow> provider \<Rightarrow> bytes \<Rightarrow> int \<Rightarrow> dl_io \<Rightarrow> dl_io dl_run" where
  "dldisabmultireq H P addr len io =
     dl_bind (defined (addr_req H ''DL_ENABMULTI_REQ'' ''dl_disabmulti_req_t'' ''dl_addr_length'' ''dl_addr_offset'' [] addr len))
       (\<lambda>msg. send P ''dldisabmultireq'' msg io)"

definition dlpromisconreq :: "dlpi_header \<Rightarrow> provider \<Rightarrow> u32 \<Rightarrow> dl_io \<Rightarrow> dl_io dl_run" where
  "dlpromisconreq H P level =
     send P ''dlpromiscon'' (plain_req H ''DL_PROMISCON_REQ'' [(''dl_level'', level)] ''dl_promiscon_req_t'')"

definition dlpromiscoff :: "dlpi_header \<Rightarrow> provider \<Rightarrow> u32 \<Rightarrow> dl_io \<Rightarrow> dl_io dl_run" where
  "dlpromiscoff H P level =
     send P ''dlpromiscoff'' (plain_req H ''DL_PROMISCOFF_REQ'' [(''dl_level'', level)] ''dl_promiscoff_req_t'')"

definition dlphysaddrreq :: "dlpi_header \<Rightarrow> provider \<Rightarrow> u32 \<Rightarrow> dl_io \<Rightarrow> dl_io dl_run" where
  "dlphysaddrreq H P addrtype =
     send P ''dlphysaddrreq'' (plain_req H ''DL_PHYS_ADDR_REQ'' [(''dl_addr_type'', addrtype)] ''dl_phys_addr_req_t'')"

definition dlsetphysaddrreq :: "dlpi_header \<Rightarrow> provider \<Rightarrow> bytes \<Rightarrow> int \<Rightarrow> dl_io \<Rightarrow> dl_io dl_run" where
  "dlsetphysaddrreq H P addr len io =
     dl_bind (defined (addr_req H ''DL_ENABMULTI_REQ'' ''dl_set_phys_addr_req_t'' ''dl_addr_length'' ''dl_addr_offset'' [] addr len))
       (\<lambda>msg. send P ''dlsetphysaddrreq'' msg io)"

definition dldetachreq :: "dlpi_header \<Rightarrow> provider \<Rightarrow> dl_io \<Rightarrow> dl_io dl_run" where
  "dldetachreq H P = send P ''dldetachreq'' (plain_req H ''DL_DETACH_REQ'' [] ''dl_detach_req_t'')"

definition dlbindreq ::
  "dlpi_header \<Rightarrow> provider \<Rightarrow> u32 \<Rightarrow> u32 \<Rightarrow> u32 \<Rightarrow> u32 \<Rightarrow> u32 \<Rightarrow> dl_io \<Rightarrow> dl_io dl_run" where
  "dlbindreq H P sap max_conind service_mode conn_mgmt xidtest =
     send P ''dlbindreq'' (plain_req H ''DL_BIND_REQ''
       [(''dl_sap'', sap), (''dl_max_conind'', max_conind), (''dl_service_mode'', service_mode),
        (''dl_conn_mgmt'', conn_mgmt), (''dl_xidtest_flg'', xidtest)] ''dl_bind_req_t'')"

text \<open>A negative length of the data means that there is none.\<close>

definition dlunitdatareq ::
  "dlpi_header \<Rightarrow> provider \<Rightarrow> bytes \<Rightarrow> int \<Rightarrow> u32 \<Rightarrow> u32 \<Rightarrow> bytes \<Rightarrow> int \<Rightarrow> dl_io \<Rightarrow> dl_io dl_run" where
  "dlunitdatareq H P addrp addrlen minpri maxpri datap datalen io =
     dl_bind (defined (do {
         msg \<leftarrow> addr_req H ''DL_UNITDATA_REQ'' ''dl_unitdata_req_t'' ''dl_dest_addr_length'' ''dl_dest_addr_offset''
           [(''dl_priority.dl_min'', minpri), (''dl_priority.dl_max'', maxpri)] addrp addrlen;
         if datalen < 0 then Some msg
         else do { d \<leftarrow> rd_slice datap 0 (nat datalen); Some (msg\<lparr>put_data := Some d\<rparr>) } }))
       (\<lambda>msg. send P ''dlunitdatareq'' msg io)"

definition dlunbindreq :: "dlpi_header \<Rightarrow> provider \<Rightarrow> dl_io \<Rightarrow> dl_io dl_run" where
  "dlunbindreq H P = send P ''dlunbindreq'' (plain_req H ''DL_UNBIND_REQ'' [] ''dl_unbind_req_t'')"

section \<open>Acknowledgments\<close>

text \<open>\<open>len < sizeof x\<close>: the \<open>int\<close> is converted to an unsigned type, so that -1 is not small.\<close>

definition shorter :: "int \<Rightarrow> nat \<Rightarrow> bool" where
  "shorter len n \<longleftrightarrow> 0 \<le> len \<and> nat len < n"

text \<open>
  \<open>strgetmsg\<close>: the buffer afterwards (\<^term>\<open>None\<close>: nothing was ever written to it), the length
  of the control part, whether the priority is high, and the state of the stream.
\<close>

definition strgetmsg ::
  "dlpi_header \<Rightarrow> provider \<Rightarrow> string \<Rightarrow> dl_msg option \<Rightarrow> dl_io \<Rightarrow> (dl_msg option \<times> int \<times> bool \<times> dl_io) dl_run" where
  "strgetmsg H P caller buf io =
     (case getmsg P (put_msgs io) (got_msgs io) of
        No_reply \<Rightarrow> sigalrm
      | Get_error \<Rightarrow> syserr (caller @ '':  getmsg'')
      | Reply morectl moredata len hi msg \<Rightarrow>
          if morectl \<and> moredata then err (caller @ '':  MORECTL|MOREDATA'')
          else if morectl then err (caller @ '':  MORECTL'')
          else if moredata then err (caller @ '':  MOREDATA'')
          else if shorter len (sizeof H ''long'')
               then err (''getmsg:  control portion length < sizeof (long):  '' @ print_int len)
          else Done (if len < 0 then buf else Some msg, len, hi, io\<lparr>got_msgs := got_msgs io + 1\<rparr>))"

definition expecting :: "dlpi_header \<Rightarrow> string \<Rightarrow> dl_msg option \<Rightarrow> dl_msg dl_run" where
  "expecting H prim buf =
     dl_bind (defined buf) (\<lambda>m.
       if dl_primitive m \<noteq> code H prim
       then dl_bind (printdlprim H m) (\<lambda>out.
              Exits out (''expected '' @ dlprim H (code H prim) @ '' got '' @ dlprim H (dl_primitive m)))
       else Done m)"

text \<open>
  The acknowledgments differ in the order of their checks and in their messages; the last
  check of the first three repeats an earlier one.
\<close>

definition dlinfoack :: "dlpi_header \<Rightarrow> provider \<Rightarrow> dl_msg option \<Rightarrow> dl_io \<Rightarrow> (dl_msg \<times> dl_io) dl_run" where
  "dlinfoack H P buf io =
     dl_bind (strgetmsg H P ''dlinfoack'' buf io) (\<lambda>(buf, len, hi, io).
     dl_bind (expecting H ''DL_INFO_ACK'' buf) (\<lambda>m.
       if shorter len (sizeof H ''dl_info_ack_t'') then err (''dlinfoack:  response ctl.len too short:  '' @ print_int len)
       else if \<not> hi then err ''dlinfoack:  DL_INFO_ACK was not M_PCPROTO''
       else if shorter len (sizeof H ''dl_info_ack_t'') then err (''dlinfoack:  short response ctl.len:  '' @ print_int len)
       else Done (m, io)))"

definition dlokack :: "dlpi_header \<Rightarrow> provider \<Rightarrow> dl_msg option \<Rightarrow> dl_io \<Rightarrow> (dl_msg \<times> dl_io) dl_run" where
  "dlokack H P buf io =
     dl_bind (strgetmsg H P ''dlokack'' buf io) (\<lambda>(buf, len, hi, io).
     dl_bind (expecting H ''DL_OK_ACK'' buf) (\<lambda>m.
       if shorter len (sizeof H ''dl_ok_ack_t'') then err (''dlokack:  response ctl.len too short:  '' @ print_int len)
       else if \<not> hi then err ''dlokack:  DL_OK_ACK was not M_PCPROTO''
       else if shorter len (sizeof H ''dl_ok_ack_t'') then err (''dlokack:  short response ctl.len:  '' @ print_int len)
       else Done (m, io)))"

definition dlerrorack :: "dlpi_header \<Rightarrow> provider \<Rightarrow> dl_msg option \<Rightarrow> dl_io \<Rightarrow> (dl_msg \<times> dl_io) dl_run" where
  "dlerrorack H P buf io =
     dl_bind (strgetmsg H P ''dlerrorack'' buf io) (\<lambda>(buf, len, hi, io).
     dl_bind (expecting H ''DL_ERROR_ACK'' buf) (\<lambda>m.
       if shorter len (sizeof H ''dl_error_ack_t'') then err (''dlerrorack:  response ctl.len too short:  '' @ print_int len)
       else if \<not> hi then err ''dlerrorack:  DL_OK_ACK was not M_PCPROTO''
       else if shorter len (sizeof H ''dl_error_ack_t'') then err (''dlerrorack:  short response ctl.len:  '' @ print_int len)
       else Done (m, io)))"

definition dlbindack :: "dlpi_header \<Rightarrow> provider \<Rightarrow> dl_msg option \<Rightarrow> dl_io \<Rightarrow> (dl_msg \<times> dl_io) dl_run" where
  "dlbindack H P buf io =
     dl_bind (strgetmsg H P ''dlbindack'' buf io) (\<lambda>(buf, len, hi, io).
     dl_bind (expecting H ''DL_BIND_ACK'' buf) (\<lambda>m.
       if \<not> hi then err ''dlbindack:  DL_OK_ACK was not M_PCPROTO''
       else if shorter len (sizeof H ''dl_bind_ack_t'') then err (''dlbindack:  short response ctl.len:  '' @ print_int len)
       else Done (m, io)))"

definition dlphysaddrack :: "dlpi_header \<Rightarrow> provider \<Rightarrow> dl_msg option \<Rightarrow> dl_io \<Rightarrow> (dl_msg \<times> dl_io) dl_run" where
  "dlphysaddrack H P buf io =
     dl_bind (strgetmsg H P ''dlphysaddrack'' buf io) (\<lambda>(buf, len, hi, io).
     dl_bind (expecting H ''DL_PHYS_ADDR_ACK'' buf) (\<lambda>m.
       if \<not> hi then err ''dlbindack:  DL_OK_ACK was not M_PCPROTO''
       else if shorter len (sizeof H ''dl_phys_addr_ack_t'') then err (''dlphysaddrack:  short response ctl.len:  '' @ print_int len)
       else Done (m, io)))"

text \<open>\<open>strioctl\<close>: \<open>rc\<close> and \<open>ic_len\<close> are the result of \<open>ioctl\<close> and the length it leaves.\<close>

definition strioctl :: "int \<Rightarrow> int \<Rightarrow> int" where
  "strioctl rc ic_len = (if rc < 0 then rc else ic_len)"

section \<open>Addresses as text\<close>

lemma hex_char_digit:
  assumes "d < 16"
  shows "isxdigit (hex_char d)" "digit_val (hex_char d) = d" "hex_char d \<noteq> CHR '':''"
proof -
  have "d \<in> set [0..<16]" using assms by simp
  then show x: "isxdigit (hex_char d)" "digit_val (hex_char d) = d"
    by (auto simp: upt_rec hex_char_def isxdigit_def isdigit_def digit_val_def char_code_def)
  have "\<not> isxdigit CHR '':''" by (simp add: isxdigit_def isdigit_def char_code_def)
  with x(1) show "hex_char d \<noteq> CHR '':''" by metis
qed

lemma print_hex_byte:
  "n < 256 \<Longrightarrow> print_hex n = (if n < 16 then [hex_char n] else [hex_char (n div 16), hex_char (n mod 16)])"
  by (subst print_hex.simps, cases "n < 16") (auto simp: print_hex.simps [of "n div 16"])

lemma unat_lt2p_byte: "unat (b :: u8) < 256"
  using unsigned_less [of b] by simp

lemma print_hex_byte_text:
  fixes b :: u8
  defines "t \<equiv> print_hex (unat b)"
  shows "t \<noteq> []" "\<forall>c\<in>set t. isxdigit c" "\<forall>c\<in>set t. c \<noteq> CHR '':''" "numeral_val 16 t = unat b" "length t \<le> 2"
    "16 \<le> unat b \<Longrightarrow> length t = 2"
proof -
  have n: "unat b < 256" using unat_lt2p_byte [of b] by simp
  then have d: "unat b div 16 < 16" "unat b mod 16 < 16" by auto
  note t = t_def [unfolded print_hex_byte [OF n]]
  show "t \<noteq> []" "length t \<le> 2" "16 \<le> unat b \<Longrightarrow> length t = 2" by (auto simp: t)
  show "\<forall>c\<in>set t. isxdigit c" "\<forall>c\<in>set t. c \<noteq> CHR '':''" using d hex_char_digit by (auto simp: t)
  show "numeral_val 16 t = unat b"
    using d hex_char_digit(2) [of "unat b"] hex_char_digit(2) [OF d(1)] hex_char_digit(2) [OF d(2)]
    by (auto simp: t numeral_val_def)
qed

lemma scan_hex_digits:
  assumes "ds \<noteq> []" "\<forall>c\<in>set ds. isxdigit c"
  shows "scan_hex ds = Some (int (numeral_val 16 ds), [])"
proof -
  obtain c cs where c: "ds = c # cs" "isxdigit c" using assms by (cases ds) auto
  then have "\<not> isspace c" "c \<noteq> CHR ''-'' \<and> c \<noteq> CHR ''+''"
    by (auto simp: isxdigit_def isdigit_def isspace_def char_code_def)
  moreover have "\<not> isxdigit CHR ''x''" "\<not> isxdigit CHR ''X''"
    by (simp_all add: isxdigit_def isdigit_def char_code_def)
  moreover have "takeWhile isxdigit ds = ds" "dropWhile isxdigit ds = []" using assms(2) by simp_all
  ultimately show ?thesis
    using assms c by (auto simp: scan_hex_def skip_ws_def scan_sign_def scan_digits_def Let_def
      takeWhile_eq_all_conv [THEN iffD2] split: list.split)
qed

text \<open>The text of an address.\<close>

definition addr_text :: "bytes \<Rightarrow> string" where
  "addr_text bs = concat (map (\<lambda>b. print_hex (unat b) @ '':'') bs)"

lemma addr_text_simps [simp]:
  "addr_text [] = []" "addr_text (b # bs) = print_hex (unat b) @ CHR '':'' # addr_text bs"
  by (simp_all add: addr_text_def)

lemma addrtostring_loop_eq:
  "addrtostring_loop room bs s =
     (if bs = [] \<or> length s + length (addr_text bs) < room then Some (s @ addr_text bs) else None)"
  by (induction bs arbitrary: s) (auto simp: Let_def)

lemma length_addr_text: "length (addr_text bs) \<le> 3 * length bs"
proof (induction bs)
  case (Cons b bs)
  with print_hex_byte_text(5) [of b] show ?case by simp
qed simp

lemma length_addr_text_wide: "\<forall>b\<in>set bs. 16 \<le> unat b \<Longrightarrow> length (addr_text bs) = 3 * length bs"
proof (induction bs)
  case (Cons b bs)
  with print_hex_byte_text(6) [of b] show ?case by simp
qed simp

lemma strtok_all_colon: "strtok_all (CHR '':'' # s) = strtok_all s"
  using strtok_all.simps [of "CHR '':'' # s"] strtok_all.simps [of s] by simp

lemma strtok_all_token:
  assumes "t \<noteq> []" "\<forall>c\<in>set t. c \<noteq> CHR '':''" "s = [] \<or> (\<exists>r. s = CHR '':'' # r)"
  shows "strtok_all (t @ s) = t # strtok_all s"
proof -
  obtain c cs where t: "t = c # cs" "c \<noteq> CHR '':''" using assms(1,2) by (cases t) auto
  have "takeWhile (\<lambda>c. c \<noteq> CHR '':'') s = []" "dropWhile (\<lambda>c. c \<noteq> CHR '':'') s = s" using assms(3) by auto
  then have "takeWhile (\<lambda>c. c \<noteq> CHR '':'') (t @ s) = t" "dropWhile (\<lambda>c. c \<noteq> CHR '':'') (t @ s) = s"
    using assms(2) by (simp_all add: takeWhile_append2 dropWhile_append2)
  moreover have "dropWhile (\<lambda>c. c = CHR '':'') (t @ s) = t @ s" using t by simp
  ultimately show ?thesis using strtok_all.simps [of "t @ s"] assms(1) by (simp only: Let_def append_is_Nil_conv if_False simp_thms)
qed

lemma strtok_all_addr_text: "strtok_all (butlast (addr_text bs)) = map (\<lambda>b. print_hex (unat b)) bs"
proof (induction bs)
  case Nil
  show ?case by (subst strtok_all.simps) simp
next
  case (Cons b bs)
  show ?case
  proof (cases bs)
    case Nil
    have "strtok_all [] = []" by (subst strtok_all.simps) simp
    with Nil strtok_all_token [of "print_hex (unat b)" "[]"] print_hex_byte_text [of b]
    show ?thesis by (simp add: butlast_append)
  next
    case (Cons a as)
    then have "butlast (addr_text (b # bs)) = print_hex (unat b) @ CHR '':'' # butlast (addr_text bs)"
      by (simp add: butlast_append)
    with strtok_all_token [of "print_hex (unat b)"] print_hex_byte_text [of b] Cons.IH
    show ?thesis by (simp add: strtok_all_colon)
  qed
qed

lemma sint_to_u32_small:
  assumes "0 \<le> v" "v < 256"
  shows "sint (to_u32 v) = v"
proof -
  have "uint (to_ulong v) = v"
    using assms by (simp add: to_ulong_def uint_word_of_int)
  then have "to_u32 v = word_of_int v" by (simp add: to_u32_def ucast_eq)
  then show ?thesis using to_int32_id [of v] assms by (simp add: to_int32_def)
qed

lemma stringtoaddr_tokens_hex: "stringtoaddr_tokens sp (map (\<lambda>b. print_hex (unat b)) bs) = Done bs"
proof (induction bs)
  case (Cons b bs)
  have v: "0 \<le> uint b" "uint b < 256" using unsigned_less [of b] by simp_all
  then have "sint (to_u32 (uint b)) = uint b" by (rule sint_to_u32_small)
  moreover have "scan_hex (print_hex (unat b)) = Some (uint b, [])"
    using scan_hex_digits [OF print_hex_byte_text(1,2) [of b]] print_hex_byte_text(4) [of b] by simp
  ultimately show ?case using Cons v by (simp add: Let_def)
qed simp

section \<open>The contract of the acknowledgments\<close>

text \<open>A reply as the provider has to give it: one whole message of high priority.\<close>

definition proper_reply :: "dlpi_header \<Rightarrow> string \<Rightarrow> string \<Rightarrow> dl_reply \<Rightarrow> bool" where
  "proper_reply H prim struct r = (case r of
       Reply morectl moredata len hi m \<Rightarrow> \<not> morectl \<and> \<not> moredata \<and> hi \<and>
         int (sizeof H ''long'') \<le> len \<and> int (sizeof H struct) \<le> len \<and> dl_primitive m = code H prim
     | _ \<Rightarrow> False)"

lemma dl_bind_Done [simp]: "dl_bind r f = Done y \<longleftrightarrow> (\<exists>x. r = Done x \<and> f x = Done y)"
  by (cases r) auto

lemma no_Done [simp]: "err t \<noteq> Done y" "syserr t \<noteq> Done y" "sigalrm \<noteq> Done y"
  by (simp_all add: err_def syserr_def sigalrm_def)

lemma expecting_Done [simp]:
  "expecting H prim buf = Done m \<longleftrightarrow> buf = Some m \<and> dl_primitive m = code H prim"
  by (auto simp: expecting_def defined_def split: option.splits)

lemma strgetmsg_Done:
  "strgetmsg H P caller buf io = Done (b, len, hi, io') \<longleftrightarrow>
     (\<exists>m. getmsg P (put_msgs io) (got_msgs io) = Reply False False len hi m \<and>
        \<not> shorter len (sizeof H ''long'') \<and> b = (if len < 0 then buf else Some m) \<and>
        io' = io\<lparr>got_msgs := got_msgs io + 1\<rparr>)"
  by (auto simp: strgetmsg_def split: dl_reply.splits if_splits)

lemma proper_reply_read:
  assumes "proper_reply H prim struct (getmsg P (put_msgs io) (got_msgs io))"
  obtains len m where "getmsg P (put_msgs io) (got_msgs io) = Reply False False len True m"
    "strgetmsg H P caller buf io = Done (Some m, len, True, io\<lparr>got_msgs := got_msgs io + 1\<rparr>)"
    "expecting H prim (Some m) = Done m" "\<not> shorter len (sizeof H struct)"
  using assms by (auto simp: proper_reply_def strgetmsg_Done shorter_def split: dl_reply.splits)

lemmas ack_simps = strgetmsg_Done proper_reply_def shorter_def

locale acknowledgment =
  fixes ack :: "dlpi_header \<Rightarrow> provider \<Rightarrow> dl_msg option \<Rightarrow> dl_io \<Rightarrow> (dl_msg \<times> dl_io) dl_run"
    and prim struct :: string
  assumes accepts: "proper_reply H prim struct (getmsg P (put_msgs io) (got_msgs io)) \<Longrightarrow>
      ack H P buf io = Done (contents (getmsg P (put_msgs io) (got_msgs io)), io\<lparr>got_msgs := got_msgs io + 1\<rparr>)"
    and checks: "ack H P buf io = Done (m, io') \<Longrightarrow>
      io' = io\<lparr>got_msgs := got_msgs io + 1\<rparr> \<and> dl_primitive m = code H prim \<and>
      (proper_reply H prim struct (getmsg P (put_msgs io) (got_msgs io)) \<and>
         m = contents (getmsg P (put_msgs io) (got_msgs io)) \<or> buf = Some m)"
begin

text \<open>If the buffer does not hold an old acknowledgment of this kind, what is accepted is new.\<close>

lemma fresh:
  assumes "ack H P buf io = Done (m, io')" "\<forall>m0. buf = Some m0 \<longrightarrow> dl_primitive m0 \<noteq> code H prim"
  shows "proper_reply H prim struct (getmsg P (put_msgs io) (got_msgs io)) \<and>
     m = contents (getmsg P (put_msgs io) (got_msgs io)) \<and> io' = io\<lparr>got_msgs := got_msgs io + 1\<rparr>"
  using checks [OF assms(1)] assms(2) by blast

end

interpretation info_ack: acknowledgment dlinfoack "''DL_INFO_ACK''" "''dl_info_ack_t''"
proof
  show "dlinfoack H P buf io = Done (contents (getmsg P (put_msgs io) (got_msgs io)), io\<lparr>got_msgs := got_msgs io + 1\<rparr>)"
    if "proper_reply H ''DL_INFO_ACK'' ''dl_info_ack_t'' (getmsg P (put_msgs io) (got_msgs io))" for H P io buf
    by (rule proper_reply_read [OF that, of "''dlinfoack''" buf]) (simp add: dlinfoack_def)
qed (auto simp: dlinfoack_def ack_simps split: if_splits)

interpretation ok_ack: acknowledgment dlokack "''DL_OK_ACK''" "''dl_ok_ack_t''"
proof
  show "dlokack H P buf io = Done (contents (getmsg P (put_msgs io) (got_msgs io)), io\<lparr>got_msgs := got_msgs io + 1\<rparr>)"
    if "proper_reply H ''DL_OK_ACK'' ''dl_ok_ack_t'' (getmsg P (put_msgs io) (got_msgs io))" for H P io buf
    by (rule proper_reply_read [OF that, of "''dlokack''" buf]) (simp add: dlokack_def)
qed (auto simp: dlokack_def ack_simps split: if_splits)

interpretation error_ack: acknowledgment dlerrorack "''DL_ERROR_ACK''" "''dl_error_ack_t''"
proof
  show "dlerrorack H P buf io = Done (contents (getmsg P (put_msgs io) (got_msgs io)), io\<lparr>got_msgs := got_msgs io + 1\<rparr>)"
    if "proper_reply H ''DL_ERROR_ACK'' ''dl_error_ack_t'' (getmsg P (put_msgs io) (got_msgs io))" for H P io buf
    by (rule proper_reply_read [OF that, of "''dlerrorack''" buf]) (simp add: dlerrorack_def)
qed (auto simp: dlerrorack_def ack_simps split: if_splits)

interpretation bind_ack: acknowledgment dlbindack "''DL_BIND_ACK''" "''dl_bind_ack_t''"
proof
  show "dlbindack H P buf io = Done (contents (getmsg P (put_msgs io) (got_msgs io)), io\<lparr>got_msgs := got_msgs io + 1\<rparr>)"
    if "proper_reply H ''DL_BIND_ACK'' ''dl_bind_ack_t'' (getmsg P (put_msgs io) (got_msgs io))" for H P io buf
    by (rule proper_reply_read [OF that, of "''dlbindack''" buf]) (simp add: dlbindack_def)
qed (auto simp: dlbindack_def ack_simps split: if_splits)

interpretation phys_addr_ack: acknowledgment dlphysaddrack "''DL_PHYS_ADDR_ACK''" "''dl_phys_addr_ack_t''"
proof
  show "dlphysaddrack H P buf io = Done (contents (getmsg P (put_msgs io) (got_msgs io)), io\<lparr>got_msgs := got_msgs io + 1\<rparr>)"
    if "proper_reply H ''DL_PHYS_ADDR_ACK'' ''dl_phys_addr_ack_t'' (getmsg P (put_msgs io) (got_msgs io))" for H P io buf
    by (rule proper_reply_read [OF that, of "''dlphysaddrack''" buf]) (simp add: dlphysaddrack_def)
qed (auto simp: dlphysaddrack_def ack_simps split: if_splits)

section \<open>Properties\<close>

text \<open>Hardware addresses as text. An address of 1 to 341 bytes is printed within the
  buffer the printing routines provide, and \<open>stringtoaddr\<close> reads back exactly the address; an
  address of 342 bytes or more whose bytes all have two digits writes past that buffer, and an
  empty one leaves it uninitialised.\<close>

theorem addr_text_roundtrip:
  assumes "bs \<noteq> []"
  shows "(length bs \<le> 341 \<longrightarrow>
       (\<exists>t. addrtostring MAXDLADDR bs = Some (Some t) \<and> stringtoaddr t = Done bs)) \<and>
     (342 \<le> length bs \<and> (\<forall>b\<in>set bs. 16 \<le> unat b) \<longrightarrow> addrtostring MAXDLADDR bs = None) \<and>
     addrtostring MAXDLADDR [] = Some None"
proof -
  have "addrtostring MAXDLADDR bs = Some (Some (butlast (addr_text bs)))" if "length bs \<le> 341"
    using that length_addr_text [of bs] assms by (simp add: addrtostring_def addrtostring_loop_eq MAXDLADDR_def)
  moreover have "stringtoaddr (butlast (addr_text bs)) = Done bs"
    by (simp add: stringtoaddr_def strtok_all_addr_text stringtoaddr_tokens_hex Let_def)
  moreover have "addrtostring MAXDLADDR bs = None" if "342 \<le> length bs" "\<forall>b\<in>set bs. 16 \<le> unat b"
    using that length_addr_text_wide [of bs] assms by (simp add: addrtostring_def addrtostring_loop_eq MAXDLADDR_def)
  ultimately show ?thesis by (auto simp: addrtostring_def)
qed

theorem addr_text_roundtrip_witness:
  "(\<exists>t. addrtostring MAXDLADDR [8, 0, 0x20, 0xff, 1, 2] = Some (Some t) \<and>
      stringtoaddr t = Done [8, 0, 0x20, 0xff, 1, 2]) \<and>
     addrtostring MAXDLADDR (replicate 342 0xff) = None"
  using addr_text_roundtrip [of "[8, 0, 0x20, 0xff, 1, 2]"] addr_text_roundtrip [of "replicate 342 0xff"]
  by auto

end
