(* ===== verification/Dlpi_Strings.thy ===== *)
theory Dlpi_Strings
  imports Cstring
begin

text \<open>
  The string helpers of \<open>src/util/addrs_dlpi.c\<close>: \<open>strncpy2\<close>, \<open>strncat2\<close> and
  \<open>split_dname\<close>. The destination is a character array; a pointer into the source is the part
  of its array from the pointer on, so that what a function returns as a pointer is what is
  left to read. Reads and writes outside an array are undefined. The counters stay within the
  size of an array and do not wrap.
\<close>

section \<open>Copying\<close>

text \<open>
  The loop \<open>while ((i++ < n) && *src) *ptr++ = *src++\<close>, which both functions have; \<open>d\<close> is
  the index of \<open>ptr\<close>.
\<close>

fun copy_loop :: "string \<Rightarrow> nat \<Rightarrow> string \<Rightarrow> int \<Rightarrow> int \<Rightarrow> (string \<times> nat \<times> string) option" where
  "copy_loop dest d [] i n = (if i < n then None else Some (dest, d, []))"
| "copy_loop dest d (c # src) i n =
     (if i < n \<and> c \<noteq> NUL then do {
        dest \<leftarrow> wr dest d c;
        copy_loop dest (d + 1) src (i + 1) n }
      else Some (dest, d, c # src))"

text \<open>The value is the destination afterwards and the returned pointer; \<^term>\<open>None\<close> as an argument is \<open>NULL\<close>.\<close>

definition strncpy2 :: "string option \<Rightarrow> string option \<Rightarrow> int \<Rightarrow> (string option \<times> string option) option" where
  "strncpy2 dest src n = (case (dest, src) of
       (Some b, Some s) \<Rightarrow> do {
         (b, d, s) \<leftarrow> copy_loop b 0 s 0 n;
         b \<leftarrow> wr b d NUL;
         Some (Some b, Some s) }
     | _ \<Rightarrow> Some (dest, src))"

text \<open>The first loop of \<open>strncat2\<close>: the end of the string in the destination, at most \<open>n - 1\<close>.\<close>

function find_end :: "string \<Rightarrow> nat \<Rightarrow> int \<Rightarrow> nat option" where
  "find_end dest i n =
     (if int i < n - 1 then do {
        c \<leftarrow> rd dest i;
        if c \<noteq> NUL then find_end dest (i + 1) n else Some i }
      else Some i)"
  by pat_completeness auto
termination
  by (relation "measure (\<lambda>(_, i, n). nat (n - int i))") auto

declare find_end.simps [simp del]

definition strncat2 :: "string option \<Rightarrow> string option \<Rightarrow> int \<Rightarrow> (string option \<times> string option) option" where
  "strncat2 dest src n = (case (dest, src) of
       (Some b, Some s) \<Rightarrow> do {
         i \<leftarrow> find_end b 0 n;
         (b, d, s) \<leftarrow> copy_loop b i s (int i) (n - 1);
         b \<leftarrow> wr b d NUL;
         Some (Some b, Some s) }
     | _ \<Rightarrow> Some (dest, None))"

section \<open>Splitting a device name\<close>

text \<open>
  The loop over the digits at the end; \<open>cp\<close> is an index. The comparison \<open>cp - 1 >= device\<close>
  keeps it from going below the start.
\<close>

fun back_digits :: "string \<Rightarrow> nat \<Rightarrow> nat option" where
  "back_digits b 0 = Some 0"
| "back_digits b (Suc k) = do {
     c \<leftarrow> rd b k;
     if isdigit c then back_digits b k else Some (Suc k) }"

text \<open>
  The value is the index of the unit number and the unit, or \<^term>\<open>None\<close> inside for \<open>NULL\<close>.
  An empty name reads the character before the array.
\<close>

definition split_dname :: "string \<Rightarrow> (nat \<times> int) option option" where
  "split_dname device = do {
     len \<leftarrow> c_strlen device 0;
     if len = 0 then None
     else do {
       c \<leftarrow> rd device (len - 1);
       if \<not> isdigit c then Some None
       else do {
         cp \<leftarrow> back_digits device (len - 1);
         let (unit, eos) = strtol (c_string device cp);
         if eos \<noteq> [] then Some None
         else Some (Some (cp, to_int32 unit)) } } }"

section \<open>Contracts\<close>

lemma wr_at_end: "wr (pre @ old # post) (length pre) c = Some (pre @ c # post)"
  by (simp add: wr_def list_update_append)

text \<open>The loop copies until the limit or the end of the source, whichever comes first.\<close>

lemma copy_loop_ok:
  assumes "NUL \<notin> set s" "m = nat (n - i)" "min m (length s) \<le> length room"
  shows "copy_loop (pre @ room) (length pre) (s @ NUL # rest) i n =
     Some (pre @ take m s @ drop (min m (length s)) room, length pre + min m (length s), drop m s @ NUL # rest)"
  using assms
proof (induction s arbitrary: i m pre room)
  case Nil
  then show ?case by simp
next
  case (Cons c s)
  show ?case
  proof (cases "i < n")
    case True
    with Cons.prems(2) obtain k where m: "m = Suc k" "k = nat (n - (i + 1))" by (cases m) auto
    with Cons.prems(3) obtain x room' where r: "room = x # room'" by (cases room) auto
    have "copy_loop (pre @ room) (length pre) ((c # s) @ NUL # rest) i n =
        copy_loop ((pre @ [c]) @ room') (length (pre @ [c])) (s @ NUL # rest) (i + 1) n"
      using True Cons.prems(1) by (auto simp: r wr_at_end)
    also have "\<dots> = Some ((pre @ [c]) @ take k s @ drop (min k (length s)) room',
        length (pre @ [c]) + min k (length s), drop k s @ NUL # rest)"
      using Cons.prems m r by (intro Cons.IH) auto
    finally show ?thesis by (simp add: m(1) r)
  next
    case False
    with Cons.prems(2) show ?thesis by simp
  qed
qed

lemma find_end_ok:
  assumes "k \<le> length s" "NUL \<notin> set s" "length s = nat (n - 1) \<or> (\<exists>rest. b = s @ NUL # rest) \<and> int (length s) < n - 1"
    "take (length s) b = s" "length s \<le> length b"
  shows "find_end b k n = Some (length s)"
  using assms
proof (induction "length s - k" arbitrary: k)
  case 0
  then have k: "k = length s" by simp
  show ?case
  proof (cases "int k < n - 1")
    case True
    then have "length s \<noteq> nat (n - 1)" using k by linarith
    with 0(4) obtain rest where "b = s @ NUL # rest" by auto
    with True k show ?thesis by (subst find_end.simps) (simp add: rd_def)
  qed (use k in \<open>subst find_end.simps, simp\<close>)
next
  case (Suc m)
  then have k: "k < length s" by simp
  then have "int k < n - 1" using Suc.prems(3) by auto
  moreover have "rd b k = Some (s ! k)" using k Suc.prems(4,5) by (metis rd_def nth_take order_less_le_trans)
  moreover have "s ! k \<noteq> NUL" using k Suc.prems(2) by (metis nth_mem)
  moreover have "find_end b (k + 1) n = Some (length s)"
    by (rule Suc.hyps(1)) (use Suc.hyps(2) Suc.prems k in auto)
  ultimately show ?case by (subst find_end.simps) simp
qed

text \<open>What the comment of \<open>strncpy2\<close> promises.\<close>

lemma strncpy2_ok:
  assumes "NUL \<notin> set s" "min (nat n) (length s) < length b"
  shows "\<exists>b'. strncpy2 (Some b) (Some (s @ NUL # rest)) n = Some (Some b', Some (drop (nat n) s @ NUL # rest)) \<and>
     holds b' (take (nat n) s) \<and> length b' = length b \<and>
     drop (min (nat n) (length s) + 1) b' = drop (min (nat n) (length s) + 1) b"
proof -
  let ?m = "min (nat n) (length s)"
  let ?b = "take (nat n) s @ NUL # drop (Suc ?m) b"
  have d: "drop ?m b = b ! ?m # drop (Suc ?m) b" using assms(2) by (simp add: Cons_nth_drop_Suc)
  have l: "length (take (nat n) s) = ?m" by simp
  have c: "copy_loop b 0 (s @ NUL # rest) 0 n =
      Some (take (nat n) s @ b ! ?m # drop (Suc ?m) b, ?m, drop (nat n) s @ NUL # rest)"
    using copy_loop_ok [OF assms(1), of "nat n" n 0 b "[]" rest] assms(2) d by auto
  have w: "wr (take (nat n) s @ b ! ?m # drop (Suc ?m) b) ?m NUL = Some ?b"
    using wr_at_end [of "take (nat n) s"] unfolding l .
  have h: "holds ?b (take (nat n) s)"
    using assms(1) by (intro holdsI) (auto dest: in_set_takeD)
  have len: "length ?b = length b" using assms(2) by simp
  have post: "drop (?m + 1) ?b = drop (?m + 1) b" by (simp add: min.commute [of "length s"])
  have "strncpy2 (Some b) (Some (s @ NUL # rest)) n = Some (Some ?b, Some (drop (nat n) s @ NUL # rest))"
    by (simp add: strncpy2_def c w)
  with h len post show ?thesis by blast
qed

text \<open>The string in the destination as \<open>strncat2\<close> sees it, cut at \<open>n - 1\<close> characters.\<close>

definition dest_string :: "string \<Rightarrow> int \<Rightarrow> string" where
  "dest_string b n = takeWhile (\<lambda>c. c \<noteq> NUL) (take (nat (n - 1)) b)"

lemma dest_string_holds: "holds b t \<Longrightarrow> int (length t) < n \<Longrightarrow> dest_string b n = t"
proof (elim holdsE)
  fix rest
  assume "int (length t) < n" and b: "b = t @ NUL # rest" "NUL \<notin> set t"
  then have "length t \<le> nat (n - 1)" by linarith
  then show "dest_string b n = t"
    by (cases "nat (n - 1) - length t") (use b in \<open>auto simp: dest_string_def takeWhile_nul intro: takeWhile_eq_all_conv [THEN iffD2]\<close>)
qed

lemma dest_string_end:
  assumes "1 \<le> n" "nat n \<le> length b"
  defines "t \<equiv> dest_string b n"
  shows "find_end b 0 n = Some (length t)" "take (length t) b = t" "length t \<le> nat (n - 1)" "NUL \<notin> set t"
proof -
  let ?p = "take (nat (n - 1)) b"
  show t: "take (length t) b = t" "length t \<le> nat (n - 1)" "NUL \<notin> set t"
  proof -
    show len: "length t \<le> nat (n - 1)"
      using length_takeWhile_le [of "\<lambda>c. c \<noteq> NUL" ?p] by (simp add: t_def dest_string_def)
    have "take (length t) ?p = t" unfolding t_def dest_string_def by (rule takeWhile_eq_take [symmetric])
    with len show "take (length t) b = t" by (simp add: min_def split: if_splits)
    show "NUL \<notin> set t" unfolding t_def dest_string_def by (auto dest: set_takeWhileD)
  qed
  have "length t = nat (n - 1) \<or> (\<exists>rest. b = t @ NUL # rest) \<and> int (length t) < n - 1"
  proof (cases "length t = nat (n - 1)")
    case False
    then have lt: "length t < length ?p" using t(2) assms(2) by auto
    then have "?p ! length t = NUL" unfolding t_def dest_string_def using nth_length_takeWhile by fastforce
    then have "b ! length t = NUL" using lt by simp
    then have "b = t @ NUL # drop (Suc (length t)) b"
      using id_take_nth_drop [of "length t" b] lt t(1) by simp
    with lt show ?thesis by auto
  qed simp
  with t show "find_end b 0 n = Some (length t)"
    by (intro find_end_ok) (use assms in auto)
qed

lemma strncat2_ok:
  assumes "NUL \<notin> set s" "1 \<le> n" "nat n \<le> length b"
  defines "t \<equiv> dest_string b n"
  defines "m \<equiv> nat (n - 1) - length t"
  shows "\<exists>b'. strncat2 (Some b) (Some (s @ NUL # rest)) n = Some (Some b', Some (drop m s @ NUL # rest)) \<and>
     holds b' (t @ take m s) \<and> length b' = length b \<and> drop (nat n) b' = drop (nat n) b"
proof -
  let ?k = "min m (length s)"
  note e = dest_string_end [OF assms(2,3), folded t_def]
  have sz: "length t + ?k < nat n" "nat n \<le> length b" using e(3) assms(2,3) by (auto simp: m_def)
  let ?room = "drop (length t) b"
  let ?new = "t @ take m s"
  let ?b = "?new @ NUL # drop (Suc (length t + ?k)) b"
  have b: "b = t @ ?room" using e(2) by (metis append_take_drop_id)
  have l: "length ?new = length t + ?k" by simp
  have d: "drop ?k ?room = b ! (length t + ?k) # drop (Suc (length t + ?k)) b"
    using sz by (simp add: Cons_nth_drop_Suc add.commute)
  have c: "copy_loop b (length t) (s @ NUL # rest) (int (length t)) (n - 1) =
      Some (?new @ b ! (length t + ?k) # drop (Suc (length t + ?k)) b, length t + ?k, drop m s @ NUL # rest)"
    using copy_loop_ok [OF assms(1), of m "n - 1" "int (length t)" ?room t rest] sz d b
    by (simp add: m_def nat_diff_distrib')
  have w: "wr (?new @ b ! (length t + ?k) # drop (Suc (length t + ?k)) b) (length t + ?k) NUL = Some ?b"
    using wr_at_end [of ?new] unfolding l .
  have h: "holds ?b ?new"
    using assms(1) e(4) by (intro holdsI) (auto dest: in_set_takeD)
  have len: "length ?b = length b" using sz by simp
  have post: "drop (nat n) ?b = drop (nat n) b" using sz by (simp add: min.commute [of "length s"] drop_Cons')
  have "strncat2 (Some b) (Some (s @ NUL # rest)) n = Some (Some ?b, Some (drop m s @ NUL # rest))"
    by (simp add: strncat2_def e(1) c w [simplified append_assoc])
  with h len post show ?thesis by blast
qed

text \<open>The digits at the end of a name.\<close>

lemma back_digits_ok:
  assumes "\<forall>c\<in>set ds. isdigit c" "pre = [] \<or> \<not> isdigit (last pre)"
  shows "back_digits (pre @ ds @ rest) (length pre + length ds) = Some (length pre)"
  using assms(1)
proof (induction ds arbitrary: rest rule: rev_induct)
  case Nil
  show ?case
  proof (cases pre rule: rev_cases)
    case (snoc xs x)
    with assms(2) show ?thesis by (simp add: rd_def)
  qed simp
next
  case (snoc d ds)
  have "rd (pre @ ds @ [d] @ rest) (length pre + length ds) = Some d" by (simp add: rd_def nth_append)
  with snoc.IH [of "d # rest"] snoc.prems show ?case by simp
qed

lemma digit_not_nul: "isdigit c \<Longrightarrow> c \<noteq> NUL"
  by (auto simp: isdigit_def char_code_def NUL_def)

lemma strtol_digits:
  assumes "ds \<noteq> []" "\<forall>c\<in>set ds. isdigit c"
  shows "strtol ds = (clamp_long (int (numeral_val 10 ds)), [])"
proof -
  obtain c cs where c: "ds = c # cs" "isdigit c" using assms by (cases ds) auto
  then have "skip_ws ds = ds" "scan_sign ds = (False, ds)"
    using digit_not_space digit_not_sign by (simp_all add: skip_ws_def scan_sign_def)
  moreover have "takeWhile isdigit ds = ds" "dropWhile isdigit ds = []" using assms(2) by simp_all
  ultimately show ?thesis using c(1) by (simp add: strtol_def scan_int_def scan_digits_def split: list.split)
qed

lemma split_dname_ok:
  assumes "NUL \<notin> set pre" "ds \<noteq> []" "\<forall>c\<in>set ds. isdigit c" "pre = [] \<or> \<not> isdigit (last pre)"
  shows "split_dname (pre @ ds @ NUL # rest) =
     Some (Some (length pre, to_int32 (clamp_long (int (numeral_val 10 ds)))))"
proof -
  have nul: "NUL \<notin> set (pre @ ds)" using assms(1,3) digit_not_nul by auto
  then have h: "holds (pre @ ds @ NUL # rest) (pre @ ds)" using holdsI [of "pre @ ds" rest] by simp
  then have len: "c_strlen (pre @ ds @ NUL # rest) 0 = Some (length pre + length ds)"
    using c_strlen_holds [OF h, of 0] by simp
  obtain ds' d where ds: "ds = ds' @ [d]" using assms(2) by (cases ds rule: rev_cases) auto
  have rd: "rd (pre @ ds @ NUL # rest) (length pre + length ds - 1) = Some d" "isdigit d"
    using assms(3) by (simp_all add: ds rd_def nth_append)
  have "back_digits (pre @ ds @ NUL # rest) (length pre + length ds - 1) = Some (length pre)"
    using back_digits_ok [of ds' pre "d # NUL # rest"] assms(3,4) ds by simp
  moreover have "c_string (pre @ ds @ NUL # rest) (length pre) = ds"
    using nul by (simp add: c_string_def takeWhile_nul)
  ultimately show ?thesis
    using len rd strtol_digits [OF assms(2,3)] assms(2) by (simp add: split_dname_def)
qed

lemma split_dname_none:
  assumes "NUL \<notin> set s" "s \<noteq> []" "\<not> isdigit (last s)"
  shows "split_dname (s @ NUL # rest) = Some None"
proof -
  have "c_strlen (s @ NUL # rest) 0 = Some (length s)"
    using c_strlen_holds [OF holdsI [OF assms(1)], of 0] by simp
  moreover have "rd (s @ NUL # rest) (length s - 1) = Some (last s)"
    using assms(2) by (cases s rule: rev_cases) (simp_all add: rd_def nth_append)
  ultimately show ?thesis using assms(2,3) by (simp add: split_dname_def)
qed

section \<open>Properties\<close>

text \<open>C39: the string helpers of the DLPI code keep the contract their comments state. For a
  buffer of at least \<open>n\<close> characters, \<open>n\<close> positive, \<open>strncat2\<close> appends as much of the source
  as fits with a terminator into \<open>n\<close> characters (truncating what is in the buffer to
  \<open>n - 1\<close> first), writes nothing from \<open>n\<close> on, and returns what was not copied, which is empty
  exactly if nothing was cut off; \<open>strncpy2\<close> with a limit below the size of the buffer copies
  at most that many characters, terminates the string and returns the rest.\<close>

theorem bounded_copies:
  assumes "NUL \<notin> set s" and "1 \<le> n" and "nat n \<le> length b"
  shows "(\<exists>b'. strncat2 (Some b) (Some (s @ NUL # rest)) n =
        Some (Some b', Some (drop (nat (n - 1) - length (dest_string b n)) s @ NUL # rest)) \<and>
      holds b' (take (nat (n - 1)) (dest_string b n @ s)) \<and> drop (nat n) b' = drop (nat n) b) \<and>
     (drop (nat (n - 1) - length (dest_string b n)) s = [] \<longleftrightarrow>
        length (dest_string b n) + length s \<le> nat (n - 1)) \<and>
     (\<exists>b'. strncpy2 (Some b) (Some (s @ NUL # rest)) (n - 1) =
        Some (Some b', Some (drop (nat (n - 1)) s @ NUL # rest)) \<and>
      holds b' (take (nat (n - 1)) s) \<and> drop (nat n) b' = drop (nat n) b)"
proof (intro conjI)
  have t: "length (dest_string b n) \<le> nat (n - 1)" by (rule dest_string_end(3) [OF assms(2,3)])
  show "\<exists>b'. strncat2 (Some b) (Some (s @ NUL # rest)) n =
        Some (Some b', Some (drop (nat (n - 1) - length (dest_string b n)) s @ NUL # rest)) \<and>
      holds b' (take (nat (n - 1)) (dest_string b n @ s)) \<and> drop (nat n) b' = drop (nat n) b"
    using strncat2_ok [OF assms, of rest] t by auto
  show "drop (nat (n - 1) - length (dest_string b n)) s = [] \<longleftrightarrow>
      length (dest_string b n) + length s \<le> nat (n - 1)" using t by auto
  have "min (nat (n - 1)) (length s) < length b" and le: "min (nat (n - 1)) (length s) + 1 \<le> nat n"
    using assms(2,3) by auto
  from strncpy2_ok [OF assms(1) this(1), of rest] obtain b' where
    b': "strncpy2 (Some b) (Some (s @ NUL # rest)) (n - 1) = Some (Some b', Some (drop (nat (n - 1)) s @ NUL # rest))"
      "holds b' (take (nat (n - 1)) s)"
      "drop (min (nat (n - 1)) (length s) + 1) b' = drop (min (nat (n - 1)) (length s) + 1) b" by blast
  have "drop (nat n) b' = drop (nat n) b" using le arg_cong [OF b'(3), of "drop (nat n - (min (nat (n - 1)) (length s) + 1))"]
    by (simp add: add.commute)
  with b' show "\<exists>b'. strncpy2 (Some b) (Some (s @ NUL # rest)) (n - 1) =
        Some (Some b', Some (drop (nat (n - 1)) s @ NUL # rest)) \<and>
      holds b' (take (nat (n - 1)) s) \<and> drop (nat n) b' = drop (nat n) b" by blast
qed

theorem bounded_copies_witness:
  "\<exists>b'. strncat2 (Some (''/dev/'' @ NUL # replicate 4 NUL)) (Some (''ge0'' @ NUL # [])) 10 =
        Some (Some b', Some [NUL]) \<and> holds b' ''/dev/ge0''"
proof -
  have "dest_string (''/dev/'' @ NUL # replicate 4 NUL) 10 = ''/dev/''"
    by (rule dest_string_holds, rule holdsI) (simp_all add: NUL_def)
  with bounded_copies [of "''ge0''" 10 "''/dev/'' @ NUL # replicate 4 NUL" "[]"] show ?thesis
    by (auto simp: NUL_def)
qed

text \<open>A device name made of a driver name and a printed unit number is split into the two
  again, for every unit number that is an \<open>int\<close>.\<close>

lemma split_dname_roundtrip:
  assumes "NUL \<notin> set driver" "driver = [] \<or> \<not> isdigit (last driver)" "unit < 2 ^ 31"
  shows "split_dname (driver @ print_nat unit @ NUL # rest) = Some (Some (length driver, int unit))"
proof -
  have "int unit < 2 ^ 31" using assms(3) by (metis of_nat_less_iff of_nat_numeral of_nat_power)
  then have "to_int32 (clamp_long (int (numeral_val 10 (print_nat unit)))) = int unit"
    by (simp add: numeral_val_print clamp_long_def to_int32_id)
  with split_dname_ok [OF assms(1) _ _ assms(2), of "print_nat unit" rest] print_nat_digits [of unit]
  show ?thesis by auto
qed

end
