(* ===== verification/Addrs_Dlpi.thy ===== *)
theory Addrs_Dlpi
  imports Dlcommon Dlpi_Strings
begin

text \<open>
  The addresses of an interface on systems with DLPI, \<open>get_addrs_dlpi\<close> of
  \<open>src/util/addrs_dlpi.c\<close>: the path of the device, the exchange with its driver (the routines
  of \<open>Dlcommon\<close>), the hardware address and the address \<open>ioctl\<close> reports. Which devices can be
  opened, how their drivers answer and what \<open>ioctl\<close> says are parameters; memory for the copy of
  the path is taken to be available.
\<close>

section \<open>The system\<close>

datatype open_result = Opened | Open_enoent | Open_failed

text \<open>\<open>siocgifaddr\<close> is \<^term>\<open>None\<close> where the request is not defined.\<close>

record dlpi_system =
  dev_open :: "string \<Rightarrow> open_result"
  dev_driver :: "string \<Rightarrow> provider"
  siocgifaddr :: "(string \<Rightarrow> u32 option) option"

record dlpi_addrs =
  ret_value :: int
  hw_addr :: bytes
  ip_addr :: u32

definition IFNAMSIZ :: nat where "IFNAMSIZ = 16"

section \<open>The function\<close>

text \<open>The device without its unit number, or with it if there is no such device.\<close>

definition open_device :: "dlpi_system \<Rightarrow> string \<Rightarrow> string \<Rightarrow> string option" where
  "open_device sys devname2 fulldevpath =
     (case dev_open sys devname2 of
        Opened \<Rightarrow> Some devname2
      | Open_failed \<Rightarrow> None
      | Open_enoent \<Rightarrow> (case dev_open sys fulldevpath of Opened \<Rightarrow> Some fulldevpath | _ \<Rightarrow> None))"

definition dlpi_exchange :: "dlpi_header \<Rightarrow> provider \<Rightarrow> int \<Rightarrow> (dl_msg \<times> dl_io) dl_run" where
  "dlpi_exchange H P unit_num =
     dl_bind (dlattachreq H P (word_of_int unit_num) \<lparr>put_msgs = [], got_msgs = 0\<rparr>) (\<lambda>io.
     dl_bind (dlokack H P None io) (\<lambda>(buf, io).
     dl_bind (dlbindreq H P 0 0 (code H ''DL_CLDLS'') 0 0 io) (\<lambda>io.
     dl_bind (dlbindack H P (Some buf) io) (\<lambda>(buf, io).
     dl_bind (dlinforeq H P io) (\<lambda>io.
     dlinfoack H P (Some buf) io)))))"

text \<open>
  The sum of the two lengths is computed in an unsigned type; the length of the service
  access point is negative where it follows the address. The copy has the first length.
\<close>

definition copy_hw_addr :: "dl_msg \<Rightarrow> bytes \<Rightarrow> (int \<times> bytes) dl_run" where
  "copy_hw_addr m hw =
     (let len = dl_member m ''info_ack.dl_addr_length'' in
      if len + dl_member m ''info_ack.dl_sap_length'' = 6
      then dl_bind (defined (OFFADDR m (dl_member m ''info_ack.dl_addr_offset'') (unat len))) (\<lambda>a.
             if length a \<le> length hw then Done (1, a @ drop (length a) hw) else Undefined)
      else Done (0, hw))"

text \<open>The block \<open>do ... while (0)\<close>; the last component says whether \<open>fd\<close> was ever assigned.\<close>

definition get_hw_addr :: "dlpi_header \<Rightarrow> dlpi_system \<Rightarrow> string \<Rightarrow> bytes \<Rightarrow> (int \<times> bytes \<times> bool) dl_run" where
  "get_hw_addr H sys fulldevpath hw =
     dl_bind (defined (split_dname (fulldevpath @ [NUL]))) (\<lambda>split.
       case split of
         None \<Rightarrow> Done (0, hw, False)
       | Some (cp, unit_num) \<Rightarrow>
           (case open_device sys (take cp fulldevpath) fulldevpath of
              None \<Rightarrow> Done (0, hw, True)
            | Some dev \<Rightarrow>
                dl_bind (dlpi_exchange H (dev_driver sys dev) unit_num) (\<lambda>(m, io).
                dl_bind (copy_hw_addr m hw) (\<lambda>(got, hw). Done (got, hw, True)))))"

text \<open>Without the request the final \<open>close(fd)\<close> reads \<open>fd\<close>, which may have no value.\<close>

definition get_ip_addr :: "dlpi_system \<Rightarrow> bool \<Rightarrow> string \<Rightarrow> u32 \<Rightarrow> (int \<times> u32) dl_run" where
  "get_ip_addr sys fd_set interface ip =
     (case siocgifaddr sys of
        None \<Rightarrow> if fd_set then Done (0, ip) else Undefined
      | Some ioctl \<Rightarrow> (case ioctl (take IFNAMSIZ interface) of
            None \<Rightarrow> Done (0, ip)
          | Some a \<Rightarrow> Done (2, a)))"

text \<open>\<open>junk\<close> is the uninitialised array \<open>fulldevpath\<close>.\<close>

definition get_addrs_dlpi ::
  "dlpi_header \<Rightarrow> dlpi_system \<Rightarrow> string \<Rightarrow> string \<Rightarrow> bytes \<Rightarrow> u32 \<Rightarrow> dlpi_addrs dl_run" where
  "get_addrs_dlpi H sys junk interface hw ip =
     dl_bind (defined (memset hw 0 0 6)) (\<lambda>hw.
     dl_bind (defined (do {
         (b, _) \<leftarrow> strncpy2 (Some junk) (Some (''/dev/'' @ [NUL])) 255;
         (b, cp) \<leftarrow> strncat2 b (Some (interface @ [NUL])) 256;
         b \<leftarrow> b;
         cp \<leftarrow> cp;
         n \<leftarrow> c_strlen cp 0;
         Some (c_string b 0, n) })) (\<lambda>(fulldevpath, n).
     if n \<noteq> 0 then Done \<lparr>ret_value = -1, hw_addr = hw, ip_addr = ip\<rparr>
     else
     dl_bind (get_hw_addr H sys fulldevpath hw) (\<lambda>(got_hw_addr, hw, fd_set).
     dl_bind (get_ip_addr sys fd_set interface ip) (\<lambda>(got_ip_addr, ip).
     Done \<lparr>ret_value = got_hw_addr + got_ip_addr, hw_addr = hw, ip_addr = ip\<rparr>))))"

section \<open>The path\<close>

lemma device_path:
  assumes "NUL \<notin> set interface" "length junk = 256"
  shows "\<exists>b. do { (b, _) \<leftarrow> strncpy2 (Some junk) (Some (''/dev/'' @ [NUL])) 255;
       strncat2 b (Some (interface @ [NUL])) 256 } = Some (Some b, Some (drop 250 interface @ [NUL])) \<and>
     holds b (''/dev/'' @ take 250 interface)"
proof -
  have "NUL \<notin> set ''/dev/''" by (simp add: NUL_def)
  from strncpy2_ok [OF this, of 255 junk "[]"] assms(2) obtain b1 where
    b1: "strncpy2 (Some junk) (Some (''/dev/'' @ [NUL])) 255 = Some (Some b1, Some [NUL])"
      "holds b1 ''/dev/''" "length b1 = 256" by auto
  have "dest_string b1 256 = ''/dev/''" by (rule dest_string_holds [OF b1(2)]) simp
  with strncat2_ok [OF assms(1), of 256 b1 "[]"] b1(3) obtain b2 where
    "strncat2 (Some b1) (Some (interface @ [NUL])) 256 = Some (Some b2, Some (drop 250 interface @ [NUL]))"
    "holds b2 (''/dev/'' @ take 250 interface)" by auto
  with b1(1) show ?thesis by auto
qed

lemma c_strlen_end: "NUL \<notin> set s \<Longrightarrow> c_strlen (s @ [NUL]) 0 = Some (length s)"
  using c_strlen_holds [OF holdsI [of s "[]"], of 0] by simp

text \<open>A name of at most 250 characters gets the prefix, whether it has it already or not.\<close>

lemma get_addrs_dlpi_path:
  assumes "NUL \<notin> set interface" "length junk = 256" "length hw = 6"
  shows "get_addrs_dlpi H sys junk interface hw ip =
     (if length interface \<le> 250
      then dl_bind (get_hw_addr H sys (''/dev/'' @ interface) (replicate 6 0)) (\<lambda>(got_hw_addr, hw, fd_set).
           dl_bind (get_ip_addr sys fd_set interface ip) (\<lambda>(got_ip_addr, ip).
           Done \<lparr>ret_value = got_hw_addr + got_ip_addr, hw_addr = hw, ip_addr = ip\<rparr>))
      else Done \<lparr>ret_value = -1, hw_addr = replicate 6 0, ip_addr = ip\<rparr>)"
proof -
  from device_path [OF assms(1,2)] obtain b where
    b: "do { (b, _) \<leftarrow> strncpy2 (Some junk) (Some (''/dev/'' @ [NUL])) 255;
       strncat2 b (Some (interface @ [NUL])) 256 } = Some (Some b, Some (drop 250 interface @ [NUL]))"
      "holds b (''/dev/'' @ take 250 interface)" by blast
  have "NUL \<notin> set (drop 250 interface)" using assms(1) by (meson in_set_dropD)
  from c_strlen_end [OF this] c_string_holds [OF b(2)]
  have "do { (b, _) \<leftarrow> strncpy2 (Some junk) (Some (''/dev/'' @ [NUL])) 255;
         (b, cp) \<leftarrow> strncat2 b (Some (interface @ [NUL])) 256;
         b \<leftarrow> b; cp \<leftarrow> cp; n \<leftarrow> c_strlen cp 0; Some (c_string b 0, n) }
      = Some (''/dev/'' @ take 250 interface, length interface - 250)"
    using b(1) by (auto simp: bind_eq_Some_conv split: prod.splits)
  then show ?thesis using assms(3) unfolding get_addrs_dlpi_def
    by (simp add: defined_def memset_def)
qed

section \<open>The exchange\<close>

definition attach_msg :: "dlpi_header \<Rightarrow> int \<Rightarrow> dl_put" where
  "attach_msg H unit_num = plain_req H ''DL_ATTACH_REQ'' [(''dl_ppa'', word_of_int unit_num)] ''dl_attach_req_t''"

definition bind_msg :: "dlpi_header \<Rightarrow> dl_put" where
  "bind_msg H = plain_req H ''DL_BIND_REQ'' [(''dl_sap'', 0), (''dl_max_conind'', 0),
     (''dl_service_mode'', code H ''DL_CLDLS''), (''dl_conn_mgmt'', 0), (''dl_xidtest_flg'', 0)] ''dl_bind_req_t''"

definition info_msg :: "dlpi_header \<Rightarrow> dl_put" where
  "info_msg H = (plain_req H ''DL_INFO_REQ'' [] ''dl_info_req_t'')\<lparr>put_hipri := True\<rparr>"

text \<open>
  A driver answers if it takes the requests and acknowledges each of them properly before the
  next is sent; the last answer has the contents \<open>m\<close>.
\<close>

definition driver_answers :: "dlpi_header \<Rightarrow> provider \<Rightarrow> int \<Rightarrow> dl_msg \<Rightarrow> bool" where
  "driver_answers H P unit_num m \<longleftrightarrow>
     (let a = attach_msg H unit_num; b = bind_msg H; i = info_msg H in
      putmsg P [] a \<and> proper_reply H ''DL_OK_ACK'' ''dl_ok_ack_t'' (getmsg P [a] 0) \<and>
      putmsg P [a] b \<and> proper_reply H ''DL_BIND_ACK'' ''dl_bind_ack_t'' (getmsg P [a, b] 1) \<and>
      putmsg P [a, b] i \<and> proper_reply H ''DL_INFO_ACK'' ''dl_info_ack_t'' (getmsg P [a, b, i] 2) \<and>
      m = contents (getmsg P [a, b, i] 2))"

lemmas request_defs = dlattachreq_def dlbindreq_def dlinforeq_def attach_msg_def bind_msg_def info_msg_def

lemma send_Done [simp]:
  "send P caller msg io = Done io' \<longleftrightarrow>
     putmsg P (put_msgs io) msg \<and> io' = io\<lparr>put_msgs := put_msgs io @ [msg]\<rparr>"
  by (auto simp: send_def)

lemma dlpi_exchange_answers:
  assumes "driver_answers H P unit_num m"
  shows "dlpi_exchange H P unit_num =
     Done (m, \<lparr>put_msgs = [attach_msg H unit_num, bind_msg H, info_msg H], got_msgs = 3\<rparr>)"
proof -
  let ?a = "attach_msg H unit_num" and ?b = "bind_msg H" and ?i = "info_msg H"
  let ?io = "\<lambda>ms n. \<lparr>put_msgs = ms, got_msgs = n\<rparr> :: dl_io"
  note ans = assms [unfolded driver_answers_def Let_def]
  have "dlattachreq H P (word_of_int unit_num) (?io [] 0) = Done (?io [?a] 0)"
    "dlbindreq H P 0 0 (code H ''DL_CLDLS'') 0 0 (?io [?a] 1) = Done (?io [?a, ?b] 1)"
    "dlinforeq H P (?io [?a, ?b] 2) = Done (?io [?a, ?b, ?i] 2)"
    using ans by (simp_all add: request_defs)
  moreover have "dlokack H P buf (?io [?a] 0) = Done (contents (getmsg P [?a] 0), ?io [?a] 1)" for buf
    using ok_ack.accepts [of H P "?io [?a] 0"] ans by simp
  moreover have "dlbindack H P buf (?io [?a, ?b] 1) = Done (contents (getmsg P [?a, ?b] 1), ?io [?a, ?b] 2)" for buf
    using bind_ack.accepts [of H P "?io [?a, ?b] 1"] ans by (simp add: numeral_2_eq_2)
  moreover have "dlinfoack H P buf (?io [?a, ?b, ?i] 2) = Done (m, ?io [?a, ?b, ?i] 3)" for buf
    using info_ack.accepts [of H P "?io [?a, ?b, ?i] 2"] ans by simp
  ultimately show ?thesis by (simp add: dlpi_exchange_def)
qed

text \<open>
  The converse, for any driver: an exchange that is carried through has been answered. The
  buffer is reused, and what is in it from the step before is of another kind.
\<close>

lemma dlpi_exchange_sound:
  assumes "dlpi_exchange H P unit_num = Done (m, io)"
    and codes: "code H ''DL_OK_ACK'' \<noteq> code H ''DL_BIND_ACK''" "code H ''DL_BIND_ACK'' \<noteq> code H ''DL_INFO_ACK''"
  shows "driver_answers H P unit_num m \<and>
     io = \<lparr>put_msgs = [attach_msg H unit_num, bind_msg H, info_msg H], got_msgs = 3\<rparr>"
proof -
  let ?a = "attach_msg H unit_num" and ?b = "bind_msg H" and ?i = "info_msg H"
  let ?io = "\<lambda>ms n. \<lparr>put_msgs = ms, got_msgs = n\<rparr> :: dl_io"
  from assms(1) obtain m1 io1 m2 io2 where
    p: "putmsg P [] ?a" "putmsg P (put_msgs io1) ?b" "putmsg P (put_msgs io2) ?i"
    and a1: "dlokack H P None (?io [?a] 0) = Done (m1, io1)"
    and a2: "dlbindack H P (Some m1) (io1\<lparr>put_msgs := put_msgs io1 @ [?b]\<rparr>) = Done (m2, io2)"
    and a3: "dlinfoack H P (Some m2) (io2\<lparr>put_msgs := put_msgs io2 @ [?i]\<rparr>) = Done (m, io)"
    by (auto simp: dlpi_exchange_def request_defs)
  from ok_ack.fresh [OF a1] have r1: "proper_reply H ''DL_OK_ACK'' ''dl_ok_ack_t'' (getmsg P [?a] 0)"
    "io1 = ?io [?a] 1" by simp_all
  have "dl_primitive m1 = code H ''DL_OK_ACK''" using ok_ack.checks [OF a1] by blast
  with bind_ack.fresh [OF a2] codes r1(2) have
    r2: "proper_reply H ''DL_BIND_ACK'' ''dl_bind_ack_t'' (getmsg P [?a, ?b] 1)" "io2 = ?io [?a, ?b] 2"
    by (simp_all add: numeral_2_eq_2)
  have "dl_primitive m2 = code H ''DL_BIND_ACK''" using bind_ack.checks [OF a2] by blast
  with info_ack.fresh [OF a3] codes r2(2) have
    r3: "proper_reply H ''DL_INFO_ACK'' ''dl_info_ack_t'' (getmsg P [?a, ?b, ?i] 2)"
      "m = contents (getmsg P [?a, ?b, ?i] 2)" "io = ?io [?a, ?b, ?i] 3" by simp_all
  show ?thesis using p r1 r2 r3 by (simp add: driver_answers_def)
qed

section \<open>The hardware address\<close>

lemma get_hw_addr_ok:
  assumes "NUL \<notin> set driver" "driver = [] \<or> \<not> isdigit (last driver)" "unit < 2 ^ 31"
    and "open_device sys (''/dev/'' @ driver) (''/dev/'' @ driver @ print_nat unit) = Some dev"
    and "driver_answers H (dev_driver sys dev) (int unit) m"
  shows "get_hw_addr H sys (''/dev/'' @ driver @ print_nat unit) hw =
     dl_bind (copy_hw_addr m hw) (\<lambda>(got, hw). Done (got, hw, True))"
proof -
  let ?pre = "''/dev/'' @ driver"
  have "NUL \<notin> set ?pre" "?pre = [] \<or> \<not> isdigit (last ?pre)"
    using assms(1,2) by (auto simp: NUL_def isdigit_def char_code_def)
  from split_dname_roundtrip [OF this assms(3), of "[]"]
  have "split_dname ((''/dev/'' @ driver @ print_nat unit) @ [NUL]) = Some (Some (length ?pre, int unit))" by simp
  then show ?thesis
    using assms(4) dlpi_exchange_answers [OF assms(5)] by (simp add: get_hw_addr_def defined_def)
qed

section \<open>Properties\<close>

text \<open>A driver for the witness: it answers with the given lengths and the address at offset 40.\<close>

definition demo_header :: dlpi_header where
  "demo_header = \<lparr>code = (\<lambda>n. if n = ''DL_INFO_REQ'' then 0 else if n = ''DL_BIND_REQ'' then 1
       else if n = ''DL_INFO_ACK'' then 3 else if n = ''DL_BIND_ACK'' then 4 else if n = ''DL_OK_ACK'' then 6
       else if n = ''DL_ATTACH_REQ'' then 11 else 99),
     sizeof = (\<lambda>n. if n = ''long'' then 8 else 20)\<rparr>"

definition demo_info :: "u32 \<Rightarrow> u32 \<Rightarrow> dl_msg" where
  "demo_info addr_length sap_length = \<lparr>dl_primitive = 3,
     dl_member = (\<lambda>n. if n = ''info_ack.dl_addr_length'' then addr_length
       else if n = ''info_ack.dl_sap_length'' then sap_length else 40),
     dl_mem = replicate 40 0 @ [8, 0, 32, 1, 2, 3, 0, 0]\<rparr>"

definition demo_driver :: "dl_msg \<Rightarrow> provider" where
  "demo_driver info = \<lparr>putmsg = (\<lambda>_ _. True),
     getmsg = (\<lambda>_ n. Reply False False 48 True
       (if n = 0 then info\<lparr>dl_primitive := 6\<rparr> else if n = 1 then info\<lparr>dl_primitive := 4\<rparr> else info))\<rparr>"

definition demo_sys :: "dl_msg \<Rightarrow> dlpi_system" where
  "demo_sys info = \<lparr>dev_open = (\<lambda>p. if p = ''/dev/ge'' then Opened else Open_enoent),
     dev_driver = (\<lambda>_. demo_driver info), siocgifaddr = Some (\<lambda>_. Some 0x0100007F)\<rparr>"

lemma demo_answers: "driver_answers demo_header (demo_driver (demo_info l s)) u (demo_info l s)"
  by (simp add: driver_answers_def proper_reply_def demo_driver_def demo_header_def demo_info_def)

text \<open>C36: the addresses of an interface under DLPI. For an interface named by a driver and a unit
  number, of at most 250 characters, whose device opens and whose driver acknowledges the three
  requests, the function attaches to this unit, binds, asks for the information and, if address
  and service access point together have six bytes, copies the address: with an address of at
  most six bytes it returns 1, plus 2 if \<open>ioctl\<close> knows the IP address, with the address in
  place; but the length copied is that of the whole address, so that an address of eight bytes
  followed by a service access point of two (which Ethernet drivers report once bound) writes
  past the six bytes of the caller.\<close>

theorem dlpi_addresses:
  assumes "NUL \<notin> set driver" and "driver = [] \<or> \<not> isdigit (last driver)" and "unit < 2 ^ 31"
    and "interface = driver @ print_nat unit" and "length interface \<le> 250"
    and "length junk = 256" and "length hw = 6"
    and "open_device sys (''/dev/'' @ driver) (''/dev/'' @ interface) = Some dev"
    and "driver_answers H (dev_driver sys dev) (int unit) m"
    and "dl_member m ''info_ack.dl_addr_length'' + dl_member m ''info_ack.dl_sap_length'' = 6"
    and "OFFADDR m (dl_member m ''info_ack.dl_addr_offset'') (unat (dl_member m ''info_ack.dl_addr_length'')) = Some a"
    and "siocgifaddr sys = Some ioctl"
  shows "get_addrs_dlpi H sys junk interface hw ip =
     (if length a \<le> 6
      then Done (case ioctl (take IFNAMSIZ interface) of
          None \<Rightarrow> \<lparr>ret_value = 1, hw_addr = a @ replicate (6 - length a) 0, ip_addr = ip\<rparr>
        | Some i \<Rightarrow> \<lparr>ret_value = 3, hw_addr = a @ replicate (6 - length a) 0, ip_addr = i\<rparr>)
      else Undefined)"
proof -
  have "NUL \<notin> set interface"
    using assms(1,4) print_nat_digits [of unit] digit_not_nul by auto
  from get_addrs_dlpi_path [OF this assms(6,7), of H sys ip]
  have "get_addrs_dlpi H sys junk interface hw ip =
      dl_bind (get_hw_addr H sys (''/dev/'' @ interface) (replicate 6 0)) (\<lambda>(got_hw_addr, hw, fd_set).
      dl_bind (get_ip_addr sys fd_set interface ip) (\<lambda>(got_ip_addr, ip).
      Done \<lparr>ret_value = got_hw_addr + got_ip_addr, hw_addr = hw, ip_addr = ip\<rparr>))" using assms(5) by simp
  moreover have "get_hw_addr H sys (''/dev/'' @ interface) (replicate 6 0) =
      dl_bind (copy_hw_addr m (replicate 6 0)) (\<lambda>(got, hw). Done (got, hw, True))"
    using get_hw_addr_ok [OF assms(1-3) _ assms(9)] assms(4,8) by simp
  moreover have "copy_hw_addr m (replicate 6 0) =
      (if length a \<le> 6 then Done (1, a @ replicate (6 - length a) 0) else Undefined)"
    using assms(10,11) by (simp add: copy_hw_addr_def defined_def Let_def)
  ultimately show ?thesis using assms(12) by (simp add: get_ip_addr_def split: option.split)
qed

theorem dlpi_addresses_witness:
  "get_addrs_dlpi demo_header (demo_sys (demo_info 6 0)) (replicate 256 NUL) ''ge0'' (replicate 6 1) 0 =
     Done \<lparr>ret_value = 3, hw_addr = [8, 0, 32, 1, 2, 3], ip_addr = 0x0100007F\<rparr> \<and>
   get_addrs_dlpi demo_header (demo_sys (demo_info 8 (- 2))) (replicate 256 NUL) ''ge0'' (replicate 6 1) 0 = Undefined"
proof -
  have "print_nat 0 = ''0''" by code_simp
  then have ge: "NUL \<notin> set ''ge''" "''ge'' = [] \<or> \<not> isdigit (last ''ge'')" "(0 :: nat) < 2 ^ 31"
    "''ge0'' = ''ge'' @ print_nat 0" "length ''ge0'' \<le> 250"
    by (simp_all add: NUL_def isdigit_def char_code_def)
  have dev: "open_device (demo_sys info) (''/dev/'' @ ''ge'') (''/dev/'' @ ''ge0'') = Some ''/dev/ge''" for info
    by (simp add: open_device_def demo_sys_def)
  have ans: "driver_answers demo_header (dev_driver (demo_sys (demo_info l s)) d) (int 0) (demo_info l s)" for l s d
    using demo_answers by (simp add: demo_sys_def)
  have io: "siocgifaddr (demo_sys info) = Some (\<lambda>_. Some 0x0100007F)" for info by (simp add: demo_sys_def)
  have len: "length (replicate 256 NUL) = 256" "length (replicate 6 (1 :: u8)) = 6" by simp_all
  have a: "OFFADDR (demo_info 6 0) (dl_member (demo_info 6 0) ''info_ack.dl_addr_offset'')
      (unat (dl_member (demo_info 6 0) ''info_ack.dl_addr_length'')) = Some [8, 0, 32, 1, 2, 3]"
    "OFFADDR (demo_info 8 (- 2)) (dl_member (demo_info 8 (- 2)) ''info_ack.dl_addr_offset'')
      (unat (dl_member (demo_info 8 (- 2)) ''info_ack.dl_addr_length'')) = Some [8, 0, 32, 1, 2, 3, 0, 0]"
    by (simp_all add: OFFADDR_def demo_info_def rd_slice_def)
  have six: "dl_member (demo_info 6 0) ''info_ack.dl_addr_length'' + dl_member (demo_info 6 0) ''info_ack.dl_sap_length'' = 6"
    "dl_member (demo_info 8 (- 2)) ''info_ack.dl_addr_length'' + dl_member (demo_info 8 (- 2)) ''info_ack.dl_sap_length'' = 6"
    by (simp_all add: demo_info_def)
  show ?thesis
    using dlpi_addresses [OF ge len dev ans six(1) a(1) io, of 0]
      dlpi_addresses [OF ge len dev ans six(2) a(2) io, of 0] by simp
qed

text \<open>C37: the order of the exchange, whatever the driver does. If the exchange is carried through,
  exactly the requests to attach, to bind and for information have been sent, in this order, each
  was accepted and acknowledged by one whole message of the expected kind and priority before
  the next was sent, and the information returned is that of the last acknowledgment and not
  what an earlier one left in the buffer. In all other cases the program ends or its behaviour
  is undefined; with a driver that answers, the exchange is carried through.\<close>

theorem dlpi_request_order:
  assumes "code H ''DL_OK_ACK'' \<noteq> code H ''DL_BIND_ACK''" and "code H ''DL_BIND_ACK'' \<noteq> code H ''DL_INFO_ACK''"
  shows "dlpi_exchange H P unit_num = Done (m, io) \<longleftrightarrow>
     driver_answers H P unit_num m \<and>
     io = \<lparr>put_msgs = [attach_msg H unit_num, bind_msg H, info_msg H], got_msgs = 3\<rparr>"
  using dlpi_exchange_sound [OF _ assms] dlpi_exchange_answers by blast

theorem dlpi_request_order_witness:
  "dlpi_exchange demo_header (demo_driver (demo_info 6 0)) 2 = Done (demo_info 6 0,
     \<lparr>put_msgs = [attach_msg demo_header 2, bind_msg demo_header, info_msg demo_header], got_msgs = 3\<rparr>)"
  by (subst dlpi_request_order) (simp_all add: demo_answers demo_header_def [THEN arg_cong [of _ _ code]])

text \<open>
  The length -1 of a message without a control part passes the test for short messages; if the
  first reply is such a message, the uninitialised buffer is read.
\<close>

lemma reply_without_control:
  assumes "putmsg P [] (attach_msg H unit_num)"
    and "getmsg P [attach_msg H unit_num] 0 = Reply False False (- 1) hi m"
  shows "dlpi_exchange H P unit_num = Undefined"
  using assms
  by (simp add: dlpi_exchange_def request_defs send_def dlokack_def strgetmsg_def shorter_def expecting_def defined_def)

text \<open>
  A name that is already a path gets the prefix a second time: where only devices directly
  below \<open>/dev\<close> can be opened, no hardware address is found for it.
\<close>

lemma dev_prefix_twice:
  assumes "\<And>p. dev_open sys (''/dev//dev/'' @ p) = Open_enoent" and "siocgifaddr sys = Some ioctl"
    and "NUL \<notin> set name" "length name \<le> 245" "length junk = 256" "length hw = 6" "name \<noteq> []"
  shows "\<exists>r. get_addrs_dlpi H sys junk (''/dev/'' @ name) hw ip = Done r \<and> ret_value r \<in> {0, 2} \<and>
     hw_addr r = replicate 6 0"
proof -
  let ?path = "''/dev/'' @ ''/dev/'' @ name"
  have nul: "NUL \<notin> set (''/dev/'' @ name)" "NUL \<notin> set ?path" using assms(3) by (auto simp: NUL_def)
  have "get_hw_addr H sys ?path (replicate 6 0) \<in> {Done (0, replicate 6 0, True), Done (0, replicate 6 0, False)}"
  proof (cases "isdigit (last name)")
    case False
    with split_dname_none [of ?path "[]"] nul(2) assms(7) show ?thesis by (simp add: get_hw_addr_def defined_def)
  next
    case True
    define ds where "ds = rev (takeWhile isdigit (rev name))"
    define pre where "pre = rev (dropWhile isdigit (rev name))"
    have name: "name = pre @ ds" unfolding pre_def ds_def by (metis rev_append rev_rev_ident takeWhile_dropWhile_id)
    have "ds \<noteq> []" using True assms(7) by (cases name rule: rev_cases) (auto simp: ds_def)
    moreover have "\<forall>c\<in>set ds. isdigit c" by (auto simp: ds_def dest: set_takeWhileD)
    moreover have "pre = [] \<or> \<not> isdigit (last pre)" unfolding pre_def last_rev by (metis hd_dropWhile rev.simps(1))
    ultimately obtain u where "split_dname (?path @ [NUL]) = Some (Some (length (''/dev//dev/'' @ pre), u))"
      using split_dname_ok [of "''/dev//dev/'' @ pre" ds "[]"] nul(2)
      by (auto simp: name isdigit_def char_code_def)
    moreover have "open_device sys (''/dev//dev/'' @ pre) ?path = None"
      using assms(1) [of pre] assms(1) [of name] by (simp add: open_device_def)
    ultimately show ?thesis by (simp add: get_hw_addr_def defined_def name)
  qed
  with get_addrs_dlpi_path [OF nul(1) assms(5,6), of H sys ip] assms(2,4) show ?thesis
    by (auto simp: get_ip_addr_def split: option.split)
qed

end
